(* ===== verification/Jz_Prelude.thy ===== *)
theory Jz_Prelude
  imports Main "HOL-Library.Word" "HOL-Library.Monad_Syntax"
begin

text \<open>
  Shared material of the development: the machine integers of the ARM920T target, the
  memory bus the drivers talk to, the C idioms that occur in every file (compound assignment to
  a volatile register, busy waiting, null-terminated strings) and the generic lemmas on words and
  lists that the component theories use.

  The target is a 32-bit ARM compiled with \<^verbatim>\<open>arm-linux-gcc -march=armv4\<close>: \<^verbatim>\<open>int\<close> and
  \<^verbatim>\<open>long\<close> have 32 bits, \<^verbatim>\<open>long long\<close> 64, and plain \<^verbatim>\<open>char\<close> is unsigned.
\<close>

unbundle bit_operations_syntax

section \<open>Machine integers\<close>

type_synonym u8 = "8 word"
type_synonym u16 = "16 word"
type_synonym u32 = "32 word"
type_synonym u64 = "64 word"

named_theorems word_bounds \<open>bounds on the unsigned value of masked words\<close>

lemma and_mask_unat [word_bounds]: "unat (w AND mask n) = unat w mod 2 ^ n"
proof -
  have "unat (w AND mask n) = take_bit n (unat w)"
    by (simp flip: take_bit_eq_mask add: unsigned_take_bit_eq)
  then show ?thesis by (simp add: take_bit_eq_mod)
qed

lemma unat_plus_one: "unat (w + 1 :: 'a::len word) = Suc (unat w) mod 2 ^ LENGTH('a)"
  by (simp add: unat_word_ariths mod_simps)

lemma unat_less: "unat (w :: 'a::len word) < 2 ^ LENGTH('a)"
  by (rule unsigned_less)

lemma unat_ucast_up:
  assumes "LENGTH('a::len) \<le> LENGTH('b::len)"
  shows "unat (ucast (w :: 'a word) :: 'b word) = unat w"
proof -
  have "unat w < 2 ^ LENGTH('b)"
    using unat_less [of w] assms by (meson less_le_trans one_le_numeral power_increasing)
  then show ?thesis by (simp add: unsigned_ucast_eq take_bit_nat_eq_self)
qed

lemma unat_shift_right: "unat (drop_bit n w :: 'a::len word) = unat w div 2 ^ n"
  by (subst unat_drop_bit_eq) (rule drop_bit_eq_div)

lemma word_eq_of_nat: "unat (w :: 'a::len word) = n \<Longrightarrow> w = of_nat n"
  by auto

text \<open>Signed and unsigned reading agree on small words.\<close>

lemma sint_small:
  assumes "unat (w :: u32) < 2 ^ 31"
  shows "sint w = int (unat w)"
proof -
  have "int (unat w) < int (2 ^ 31)" using assms by (simp only: of_nat_less_iff)
  then have "uint w < 2 ^ 31" by (simp only: uint_nat of_nat_power of_nat_numeral)
  moreover have "- (2 ^ 31) \<le> uint w" by (rule order_trans [of _ 0]) simp_all
  ultimately have "sint w = uint w" by (simp add: sint_uint signed_take_bit_int_eq_self)
  then show ?thesis by (simp only: uint_nat)
qed

lemma unat_of_nat32: "n < 2 ^ 32 \<Longrightarrow> unat (of_nat n :: u32) = n"
  and unat_of_nat64: "n < 2 ^ 64 \<Longrightarrow> unat (of_nat n :: u64) = n"
  and unat_of_nat8: "n < 2 ^ 8 \<Longrightarrow> unat (of_nat n :: u8) = n"
  by (simp_all add: unat_of_nat)

lemma sint_of_nat_small: "n < 2 ^ 31 \<Longrightarrow> sint (of_nat n :: u32) = int n"
  by (subst sint_small) (simp_all add: unat_of_nat take_bit_nat_eq_self)

lemma bit_word_set: "n < LENGTH('a) \<Longrightarrow> bit ((w OR push_bit n 1) :: 'a::len word) n"
  by (simp add: bit_simps)

lemma and_bit_eq_0: "(w AND push_bit n 1 = 0) \<longleftrightarrow> \<not> bit (w :: 'a::len word) n"
  by (simp add: bit_iff_and_push_bit_not_eq_0)

lemma bit_above: "unat (w :: 'a::len word) < 2 ^ k \<Longrightarrow> k \<le> n \<Longrightarrow> \<not> bit w n"
proof
  assume lt: "unat w < 2 ^ k" and le: "k \<le> n" and b: "bit w n"
  from lt have "take_bit k (unat w) = unat w" by (rule take_bit_nat_eq_self)
  then have "take_bit k w = w" by (simp add: word_unat_eq_iff unsigned_take_bit_eq)
  with b le show False by (metis bit_take_bit_iff not_le)
qed

section \<open>The memory bus\<close>

text \<open>
  A driver sees the hardware through loads and stores of 8, 16 and 32 bits. What a load returns
  and what a store does is decided by the devices, which are not part of the sources; they are a
  parameter of the model. A \<^verbatim>\<open>volatile\<close> load may change the state of the device (a FIFO, a
  status flag), so a load returns the new bus state as well.
\<close>

record 's bus =
  rd8 :: "u32 \<Rightarrow> 's \<Rightarrow> u8 \<times> 's"
  rd16 :: "u32 \<Rightarrow> 's \<Rightarrow> u16 \<times> 's"
  rd32 :: "u32 \<Rightarrow> 's \<Rightarrow> u32 \<times> 's"
  wr8 :: "u32 \<Rightarrow> u8 \<Rightarrow> 's \<Rightarrow> 's"
  wr16 :: "u32 \<Rightarrow> u16 \<Rightarrow> 's \<Rightarrow> 's"
  wr32 :: "u32 \<Rightarrow> u32 \<Rightarrow> 's \<Rightarrow> 's"

text \<open>The compound assignments \<^verbatim>\<open>R &= m\<close> and \<^verbatim>\<open>R |= m\<close> on a 32-bit register.\<close>

definition reg_and :: "'s bus \<Rightarrow> u32 \<Rightarrow> u32 \<Rightarrow> 's \<Rightarrow> 's" where
  "reg_and B a m s = (let (v, s1) = rd32 B a s in wr32 B a (v AND m) s1)"

definition reg_or :: "'s bus \<Rightarrow> u32 \<Rightarrow> u32 \<Rightarrow> 's \<Rightarrow> 's" where
  "reg_or B a m s = (let (v, s1) = rd32 B a s in wr32 B a (v OR m) s1)"

text \<open>
  A register that behaves like memory: a load returns what was stored last and changes nothing.
  \<open>g\<close> observes its content.
\<close>

definition plain_reg :: "'s bus \<Rightarrow> u32 \<Rightarrow> ('s \<Rightarrow> u32) \<Rightarrow> bool" where
  "plain_reg B a g \<longleftrightarrow> (\<forall>s. rd32 B a s = (g s, s)) \<and> (\<forall>v s. g (wr32 B a v s) = v)"

lemma plain_reg_rd: "plain_reg B a g \<Longrightarrow> rd32 B a s = (g s, s)"
  by (simp add: plain_reg_def)

lemma plain_reg_wr: "plain_reg B a g \<Longrightarrow> g (wr32 B a v s) = v"
  by (simp add: plain_reg_def)

lemma plain_reg_and: "plain_reg B a g \<Longrightarrow> g (reg_and B a m s) = g s AND m"
  by (simp add: plain_reg_def reg_and_def)

lemma plain_reg_or: "plain_reg B a g \<Longrightarrow> g (reg_or B a m s) = g s OR m"
  by (simp add: plain_reg_def reg_or_def)

lemmas plain_reg_simps = plain_reg_rd plain_reg_wr plain_reg_and plain_reg_or

text \<open>A bus on which word accesses behave like memory; \<open>g\<close> observes the words.\<close>

definition mem_bus :: "'s bus \<Rightarrow> ('s \<Rightarrow> u32 \<Rightarrow> u32) \<Rightarrow> bool" where
  "mem_bus B g \<longleftrightarrow> (\<forall>a s. rd32 B a s = (g s a, s)) \<and> (\<forall>a v s. g (wr32 B a v s) = (g s)(a := v))"

lemma mem_bus_rd: "mem_bus B g \<Longrightarrow> rd32 B a s = (g s a, s)"
  by (simp add: mem_bus_def)

lemma mem_bus_wr: "mem_bus B g \<Longrightarrow> g (wr32 B a v s) = (g s)(a := v)"
  by (simp add: mem_bus_def)

lemma mem_bus_and: "mem_bus B g \<Longrightarrow> g (reg_and B a m s) = (g s)(a := g s a AND m)"
  by (simp add: mem_bus_def reg_and_def)

lemma mem_bus_or: "mem_bus B g \<Longrightarrow> g (reg_or B a m s) = (g s)(a := g s a OR m)"
  by (simp add: mem_bus_def reg_or_def)

lemmas mem_bus_simps = mem_bus_rd mem_bus_wr mem_bus_and mem_bus_or

text \<open>A bus on which every word is memory; narrow accesses use the low bits of the word.\<close>

definition ram_bus :: "(u32 \<Rightarrow> u32) bus" where
  "ram_bus = \<lparr>rd8 = (\<lambda>a s. (ucast (s a), s)), rd16 = (\<lambda>a s. (ucast (s a), s)), rd32 = (\<lambda>a s. (s a, s)),
     wr8 = (\<lambda>a v s. s(a := ucast v)), wr16 = (\<lambda>a v s. s(a := ucast v)), wr32 = (\<lambda>a v s. s(a := v))\<rparr>"

lemma ram_bus_simps [simp]:
  "rd8 ram_bus a s = (ucast (s a), s)" "rd16 ram_bus a s = (ucast (s a), s)" "rd32 ram_bus a s = (s a, s)"
  "wr8 ram_bus a b s = s(a := ucast b)" "wr16 ram_bus a h s = s(a := ucast h)" "wr32 ram_bus a v s = s(a := v)"
  by (simp_all add: ram_bus_def)

lemma ram_bus_mem: "mem_bus ram_bus (\<lambda>s. s)"
  by (simp add: mem_bus_def)

lemma ram_bus_plain: "plain_reg ram_bus a (\<lambda>s. s a)"
  by (simp add: plain_reg_def)

text \<open>
  Busy waiting: \<^verbatim>\<open>while (!ok(*reg));\<close>. The loop repeats the load until the value satisfies the
  condition; \<open>None\<close> means that it never does.
\<close>

partial_function (option) poll :: "('s \<Rightarrow> 'v \<times> 's) \<Rightarrow> ('v \<Rightarrow> bool) \<Rightarrow> 's \<Rightarrow> ('v \<times> 's) option" where
  [code]: "poll r ok s = (let (v, s') = r s in if ok v then Some (v, s') else poll r ok s')"

lemma poll_ready: "r s = (v, s') \<Longrightarrow> ok v \<Longrightarrow> poll r ok s = Some (v, s')"
  by (simp add: poll.simps)

lemma poll_busy: "r s = (v, s') \<Longrightarrow> \<not> ok v \<Longrightarrow> poll r ok s = poll r ok s'"
  by (subst poll.simps) simp

text \<open>The loop ends as soon as one of the states the loads run through gives a good value.\<close>

lemma poll_returns:
  assumes "ok (fst (r (((\<lambda>s. snd (r s)) ^^ n) s)))"
  shows "\<exists>v s'. poll r ok s = Some (v, s') \<and> ok v"
  using assms
proof (induction n arbitrary: s)
  case 0
  then show ?case by (cases "r s") (auto intro: poll_ready)
next
  case (Suc n)
  obtain v t where r: "r s = (v, t)" by fastforce
  show ?case
  proof (cases "ok v")
    case True
    with r show ?thesis by (auto intro: poll_ready)
  next
    case False
    from Suc.prems r have "ok (fst (r (((\<lambda>s. snd (r s)) ^^ n) t)))"
      by (simp add: funpow_Suc_right del: funpow.simps)
    with Suc.IH r False show ?thesis by (simp add: poll_busy)
  qed
qed

text \<open>A loop that returns, returns a value that satisfies its condition.\<close>

lemma poll_ok:
  fixes r :: "'s \<Rightarrow> 'v \<times> 's"
  assumes ret: "poll r ok s = Some (v, s')"
  shows "ok v"
proof -
  have "ok (fst (v, s'))"
  proof (rule poll.raw_induct [where P = "\<lambda>r ok s x. ok (fst x)", OF _ ret])
    fix f and r :: "'s \<Rightarrow> 'v \<times> 's" and ok s x
    assume IH: "\<And>r ok s x. f r ok s = Some x \<Longrightarrow> ok (fst x)"
      and eq: "(let (v, s') = r s in if ok v then Some (v, s') else f r ok s') = Some x"
    obtain a b where "r s = (a, b)" by fastforce
    with eq have "(if ok a then Some (a, b) else f r ok b) = Some x" by simp
    then show "ok (fst x)" by (auto split: if_splits dest: IH)
  qed
  then show ?thesis by simp
qed

text \<open>What no load changes, the loop does not change.\<close>

lemma poll_frame:
  fixes r :: "'s \<Rightarrow> 'v \<times> 's"
  assumes ret: "poll r ok s = Some (v, s')" and frame: "\<And>s. f (snd (r s)) = f s"
  shows "f s' = f s"
proof -
  have "(\<forall>s. f (snd (r s)) = f s) \<longrightarrow> f (snd (v, s')) = f s"
  proof (rule poll.raw_induct [where P = "\<lambda>r ok s x. (\<forall>s. f (snd (r s)) = f s) \<longrightarrow> f (snd x) = f s", OF _ ret])
    fix g and r :: "'s \<Rightarrow> 'v \<times> 's" and ok s x
    assume IH: "\<And>r ok s x. g r ok s = Some x \<Longrightarrow> (\<forall>s. f (snd (r s)) = f s) \<longrightarrow> f (snd x) = f s"
      and eq: "(let (v, s') = r s in if ok v then Some (v, s') else g r ok s') = Some x"
    show "(\<forall>s. f (snd (r s)) = f s) \<longrightarrow> f (snd x) = f s"
    proof
      assume fr: "\<forall>s. f (snd (r s)) = f s"
      obtain a b where ab: "r s = (a, b)" by fastforce
      with fr have "f b = f s" by (metis snd_conv)
      moreover from ab eq have "(if ok a then Some (a, b) else g r ok b) = Some x" by simp
      ultimately show "f (snd x) = f s" using fr by (auto split: if_splits dest: IH)
    qed
  qed
  with frame show ?thesis by simp
qed

section \<open>Ring buffers\<close>

text \<open>The \<open>n\<close> elements that a ring of \<open>length xs\<close> slots holds from slot \<open>r\<close> on.\<close>

definition ring_slice :: "'a list \<Rightarrow> nat \<Rightarrow> nat \<Rightarrow> 'a list" where
  "ring_slice xs r n = map (\<lambda>i. xs ! ((r + i) mod length xs)) [0..<n]"

lemma length_ring_slice [simp]: "length (ring_slice xs r n) = n"
  by (simp add: ring_slice_def)

lemma ring_slice_0 [simp]: "ring_slice xs r 0 = []"
  by (simp add: ring_slice_def)

lemma ring_slice_append:
  assumes "n < length xs"
  shows "ring_slice (xs[(r + n) mod length xs := e]) r (Suc n) = ring_slice xs r n @ [e]"
proof (rule nth_equalityI)
  fix i assume "i < length (ring_slice (xs[(r + n) mod length xs := e]) r (Suc n))"
  then have i: "i < Suc n" by simp
  have pos: "(r + n) mod length xs < length xs" using assms by (intro mod_less_divisor) linarith
  have ne: "(r + i) mod length xs \<noteq> (r + n) mod length xs" if "i < n"
  proof
    assume "(r + i) mod length xs = (r + n) mod length xs"
    then have "length xs dvd n - i"
      using that by (metis add_diff_cancel_left less_imp_le mod_eq_dvd_iff_nat nat_add_left_cancel_le)
    then show False using that assms by (auto dest: dvd_imp_le)
  qed
  show "ring_slice (xs[(r + n) mod length xs := e]) r (Suc n) ! i = (ring_slice xs r n @ [e]) ! i"
  proof (cases "i < n")
    case True
    with i ne [OF True] show ?thesis
      by (simp add: ring_slice_def nth_append del: upt_Suc)
  next
    case False
    with i have "i = n" by simp
    with pos show ?thesis by (simp add: ring_slice_def nth_append del: upt_Suc)
  qed
qed simp

lemma ring_slice_Suc:
  "ring_slice xs r (Suc n) = xs ! (r mod length xs) # ring_slice xs (Suc r mod length xs) n"
  by (rule nth_equalityI)
    (auto simp: ring_slice_def nth_Cons mod_simps simp del: upt_Suc split: nat.split)

section \<open>Arrays in memory\<close>

text \<open>
  The memory \<open>m\<close> after the elements \<open>bs\<close> were stored from address \<open>a\<close> on, \<open>d\<close> addresses apart, in
  this order.
\<close>

primrec put_step :: "'a::len word \<Rightarrow> ('a word \<Rightarrow> 'v) \<Rightarrow> 'a word \<Rightarrow> 'v list \<Rightarrow> 'a word \<Rightarrow> 'v" where
  "put_step d m a [] = m"
| "put_step d m a (b # bs) = put_step d (m(a := b)) (a + d) bs"

abbreviation put_bytes :: "(u32 \<Rightarrow> 'v) \<Rightarrow> u32 \<Rightarrow> 'v list \<Rightarrow> u32 \<Rightarrow> 'v" where
  "put_bytes \<equiv> put_step 1"

abbreviation put_words :: "(u32 \<Rightarrow> 'v) \<Rightarrow> u32 \<Rightarrow> 'v list \<Rightarrow> u32 \<Rightarrow> 'v" where
  "put_words \<equiv> put_step 4"

lemma put_step_append:
  "put_step d m a (xs @ ys) = put_step d (put_step d m a xs) (a + d * of_nat (length xs)) ys"
  by (induction xs arbitrary: m a) (simp_all add: algebra_simps)

lemma put_step_other:
  assumes "\<And>k. k < length bs \<Longrightarrow> x \<noteq> a + d * of_nat k"
  shows "put_step d m a bs x = m x"
  using assms
proof (induction bs arbitrary: m a)
  case (Cons b bs)
  have "x \<noteq> a + d + d * of_nat k" if "k < length bs" for k
    using Cons.prems [of "Suc k"] that by (simp add: algebra_simps)
  then have "put_step d (m(a := b)) (a + d) bs x = (m(a := b)) x" by (rule Cons.IH)
  also have "\<dots> = m x" using Cons.prems [of 0] by simp
  finally show ?case by simp
qed simp

text \<open>An array that does not wrap around the address space holds what was stored.\<close>

lemma put_step_nth:
  fixes d :: "'a::len word"
  assumes "d \<noteq> 0" "unat d * length bs \<le> 2 ^ LENGTH('a)" and "k < length bs"
  shows "put_step d m a bs (a + d * of_nat k) = bs ! k"
  using assms(2,3)
proof (induction bs arbitrary: m a k)
  case (Cons b bs)
  show ?case
  proof (cases k)
    case 0
    have "a \<noteq> a + d + d * of_nat j" if j: "j < length bs" for j
    proof -
      have "unat d * Suc j < unat d * length (b # bs)" using j assms(1) by (simp add: unat_gt_0)
      then have lt: "unat d * Suc j < 2 ^ LENGTH('a)" using Cons.prems(1) by linarith
      moreover have "d * of_nat (Suc j) = of_nat (unat d * Suc j)" by (simp add: algebra_simps)
      ultimately have "unat (d * of_nat (Suc j)) = unat d * Suc j" using lt by (simp only: unat_of_nat mod_less)
      then have "d * of_nat (Suc j) \<noteq> 0" using assms(1) by (metis mult_is_0 nat.distinct(1) unat_0 unat_eq_0)
      then show ?thesis by (simp add: algebra_simps)
    qed
    with 0 show ?thesis using put_step_other [of bs a "a + d" d "m(a := b)"] by simp
  next
    case (Suc j)
    with Cons.prems have "put_step d (m(a := b)) (a + d) bs (a + d + d * of_nat j) = bs ! j"
      by (intro Cons.IH) simp_all
    with Suc show ?thesis by (simp add: algebra_simps)
  qed
qed simp

section \<open>Null-terminated strings\<close>

text \<open>
  A C string is the list of its bytes without the terminator. Loading from the pointer gives the
  first byte, or 0 at the end.
\<close>

type_synonym cstring = "u8 list"

fun deref :: "cstring \<Rightarrow> u8" where
  "deref [] = 0"
| "deref (c # cs) = c"

definition is_cstring :: "cstring \<Rightarrow> bool" where
  "is_cstring s \<longleftrightarrow> 0 \<notin> set s"

text \<open>A string literal of the source as the bytes of its characters.\<close>

definition str :: "string \<Rightarrow> cstring" where
  "str = map (\<lambda>c. of_nat (of_char c))"

section \<open>Bytes on a wire\<close>

text \<open>The bits of a byte, most significant first, and back.\<close>

primrec bits_msb :: "nat \<Rightarrow> u8 \<Rightarrow> bool list" where
  "bits_msb 0 v = []"
| "bits_msb (Suc n) v = bit v 7 # bits_msb n (push_bit 1 v)"

definition byte_of :: "bool list \<Rightarrow> u8" where
  "byte_of bs = foldl (\<lambda>a b. if b then push_bit 1 a OR 1 else push_bit 1 a) 0 bs"

lemma length_bits_msb [simp]: "length (bits_msb n v) = n"
  by (induction n arbitrary: v) simp_all

lemma bit_shl1: "bit (v * 2 :: 'a::len word) n \<longleftrightarrow> 0 < n \<and> n < LENGTH('a) \<and> bit v (n - 1)"
proof -
  have "bit (push_bit 1 v) n \<longleftrightarrow> 0 < n \<and> n < LENGTH('a) \<and> bit v (n - 1)" unfolding bit_push_bit_iff by auto
  then show ?thesis by (simp add: push_bit_eq_mult mult.commute)
qed

lemma bits_msb_nth: "k < n \<Longrightarrow> bits_msb n v ! k = (k \<le> 7 \<and> bit v (7 - k))"
proof (induction n arbitrary: v k)
  case (Suc n)
  show ?case
  proof (cases k)
    case (Suc j)
    with Suc.IH [of j "v * 2"] Suc.prems show ?thesis by (auto simp: bit_shl1)
  qed simp
qed simp

lemma byte_of_bit:
  assumes "k < 8"
  shows "bit (byte_of bs) k = (k < length bs \<and> rev bs ! k)"
  using assms
proof (induction bs arbitrary: k rule: rev_induct)
  case Nil
  then show ?case by (simp add: byte_of_def)
next
  case (snoc b bs)
  have "bit (byte_of (bs @ [b])) k = (if k = 0 then b else bit (byte_of bs) (k - 1))"
    using snoc.prems by (cases k) (auto simp: byte_of_def bit_simps bit_shl1)
  with snoc.IH [of "k - 1"] snoc.prems show ?case by (auto simp: nth_Cons')
qed

lemma byte_of_bits_msb: "byte_of (bits_msb 8 v) = v"
  by (rule bit_word_eqI) (simp add: byte_of_bit bits_msb_nth rev_nth)

lemma byte_of_snoc: "byte_of (bs @ [b]) = (if b then push_bit 1 (byte_of bs) OR 1 else push_bit 1 (byte_of bs))"
  by (simp add: byte_of_def)

section \<open>Copies into an array\<close>

definition overwrite :: "'a list \<Rightarrow> nat \<Rightarrow> 'a list \<Rightarrow> 'a list" where
  "overwrite xs p bs = take p xs @ bs @ drop (p + length bs) xs"

lemma overwrite_read: "p + length bs \<le> length xs \<Longrightarrow> take (length bs) (drop p (overwrite xs p bs)) = bs"
  by (simp add: overwrite_def)

lemma length_overwrite [simp]: "p + length bs \<le> length xs \<Longrightarrow> length (overwrite xs p bs) = length xs"
  by (simp add: overwrite_def)

lemma nth_overwrite:
  "p + length bs \<le> length xs \<Longrightarrow> overwrite xs p bs ! i = (if p \<le> i \<and> i < p + length bs then bs ! (i - p) else xs ! i)"
  by (auto simp: overwrite_def nth_append)

lemma overwrite_append: "overwrite (xs @ ys) (length xs + k) bs = xs @ overwrite ys k bs"
  by (simp add: overwrite_def)

end
