(* ===== verification/Circle_Buffer.thy ===== *)
theory Circle_Buffer
  imports Jz_Prelude
begin

text \<open>
  The ring buffer between the infrared interrupt handler and the NEC decoder,
  \<^verbatim>\<open>sensors/irda/circle_buffer.c\<close>: its state, its operations, the interface \<open>fifo\<close> that its clients
  rely on, and the proof that it implements a bounded queue of 1023 events.
\<close>

section \<open>State and operations\<close>

text \<open>\<^verbatim>\<open>struct irda_raw_event\<close>. Both fields are C \<^verbatim>\<open>int\<close>, kept as 32-bit words.\<close>

record irda_raw_event =
  pol :: u32
  duration :: u32

record ir_buf =
  g_events :: "irda_raw_event list"
  g_r :: u32
  g_w :: u32

definition NEXT_PLACE :: "u32 \<Rightarrow> u32" where
  "NEXT_PLACE i = (i + 1) AND 0x3FF"

text \<open>The static storage at start: a zeroed array and both indices 0.\<close>

definition ir_buf_init :: ir_buf where
  "ir_buf_init = \<lparr>g_events = replicate 1024 \<lparr>pol = 0, duration = 0\<rparr>, g_r = 0, g_w = 0\<rparr>"

definition is_ir_event_buf_empty :: "ir_buf \<Rightarrow> bool" where
  "is_ir_event_buf_empty b \<longleftrightarrow> g_r b = g_w b"

definition is_ir_event_buf_full :: "ir_buf \<Rightarrow> bool" where
  "is_ir_event_buf_full b \<longleftrightarrow> NEXT_PLACE (g_w b) = g_r b"

definition ir_event_put :: "irda_raw_event \<Rightarrow> ir_buf \<Rightarrow> int \<times> ir_buf" where
  "ir_event_put pd b =
     (if is_ir_event_buf_full b then (-1, b)
      else (0, b\<lparr>g_events := (g_events b)[unat (g_w b) := pd], g_w := NEXT_PLACE (g_w b)\<rparr>))"

text \<open>The out parameter \<^verbatim>\<open>*pd\<close> is passed in and returned: a failing call leaves it alone.\<close>

definition ir_event_get :: "irda_raw_event \<Rightarrow> ir_buf \<Rightarrow> int \<times> irda_raw_event \<times> ir_buf" where
  "ir_event_get pd b =
     (if is_ir_event_buf_empty b then (-1, pd, b)
      else (0, g_events b ! unat (g_r b), b\<lparr>g_r := NEXT_PLACE (g_r b)\<rparr>))"

text \<open>
  While \<^verbatim>\<open>udelay(1)\<close> runs, interrupts may store events. The argument \<open>arr\<close> lists, for each
  delay to come, the events the handler stores during it; no further events come when it is
  used up.
\<close>

type_synonym arrivals = "irda_raw_event list list"

fun irq_window :: "ir_buf \<times> arrivals \<Rightarrow> ir_buf \<times> arrivals" where
  "irq_window (b, []) = (b, [])"
| "irq_window (b, es # arr) = (fold (\<lambda>e b. snd (ir_event_put e b)) es b, arr)"

fun ir_event_get_timeout ::
  "irda_raw_event \<Rightarrow> nat \<Rightarrow> ir_buf \<times> arrivals \<Rightarrow> int \<times> irda_raw_event \<times> ir_buf \<times> arrivals" where
  "ir_event_get_timeout pd 0 (b, arr) = (-1, pd, b, arr)"
| "ir_event_get_timeout pd (Suc timeout_us) (b, arr) =
     (if \<not> is_ir_event_buf_empty b
      then (0, g_events b ! unat (g_r b), b\<lparr>g_r := NEXT_PLACE (g_r b)\<rparr>, arr)
      else ir_event_get_timeout pd timeout_us (irq_window (b, arr)))"

section \<open>The queue interface\<close>

text \<open>The reference: a list with a capacity.\<close>

definition queue_put :: "nat \<Rightarrow> 'e \<Rightarrow> 'e list \<Rightarrow> int \<times> 'e list" where
  "queue_put cap e q = (if length q < cap then (0, q @ [e]) else (-1, q))"

fun queue_get :: "'e \<Rightarrow> 'e list \<Rightarrow> int \<times> 'e \<times> 'e list" where
  "queue_get pd [] = (-1, pd, [])"
| "queue_get pd (x # xs) = (0, x, xs)"

text \<open>
  A client is a sequence of calls; \<open>fifo_run\<close> collects what they return. The argument of \<open>Get\<close> is
  the previous value of the out parameter.
\<close>

datatype 'e fifo_op = Put 'e | Get 'e

fun fifo_run :: "('e \<Rightarrow> 'q \<Rightarrow> int \<times> 'q) \<Rightarrow> ('e \<Rightarrow> 'q \<Rightarrow> int \<times> 'e \<times> 'q) \<Rightarrow>
    'e fifo_op list \<Rightarrow> 'q \<Rightarrow> (int \<times> 'e) list \<times> 'q" where
  "fifo_run put get [] q = ([], q)"
| "fifo_run put get (Put e # ops) q =
     (let (r, q1) = put e q; (outs, q2) = fifo_run put get ops q1 in ((r, e) # outs, q2))"
| "fifo_run put get (Get pd # ops) q =
     (let (r, e, q1) = get pd q; (outs, q2) = fifo_run put get ops q1 in ((r, e) # outs, q2))"

text \<open>
  What a client relies on: \<open>content\<close> is the queue of stored events, oldest first, and at most
  \<open>cap\<close> of them fit. A full buffer rejects the new event, an empty one leaves the out parameter.
\<close>

locale fifo =
  fixes put :: "'e \<Rightarrow> 'q \<Rightarrow> int \<times> 'q"
    and get :: "'e \<Rightarrow> 'q \<Rightarrow> int \<times> 'e \<times> 'q"
    and content :: "'q \<Rightarrow> 'e list"
    and cap :: nat
    and invar :: "'q \<Rightarrow> bool"
  assumes content_le: "invar q \<Longrightarrow> length (content q) \<le> cap"
    and put_room: "invar q \<Longrightarrow> length (content q) < cap \<Longrightarrow>
      \<exists>q'. put e q = (0, q') \<and> invar q' \<and> content q' = content q @ [e]"
    and put_full: "invar q \<Longrightarrow> length (content q) = cap \<Longrightarrow> put e q = (-1, q)"
    and get_some: "invar q \<Longrightarrow> content q = x # xs \<Longrightarrow>
      \<exists>q'. get pd q = (0, x, q') \<and> invar q' \<and> content q' = xs"
    and get_none: "invar q \<Longrightarrow> content q = [] \<Longrightarrow> get pd q = (-1, pd, q)"
begin

lemma put_invar: "invar q \<Longrightarrow> invar (snd (put e q))"
  using content_le put_room put_full by (metis le_neq_implies_less snd_conv)

lemma get_invar: "invar q \<Longrightarrow> invar (snd (snd (get pd q)))"
  using get_some get_none by (metis list.exhaust snd_conv)

text \<open>Storing a batch: the events that fit are appended in order, the others are dropped.\<close>

lemma put_all:
  assumes "invar q"
  shows "invar (fold (\<lambda>e q. snd (put e q)) es q) \<and>
    content (fold (\<lambda>e q. snd (put e q)) es q) = take cap (content q @ es)"
  using assms
proof (induction es arbitrary: q)
  case Nil
  then show ?case using content_le by simp
next
  case (Cons e es)
  have inv: "invar (snd (put e q))" using Cons.prems by (rule put_invar)
  show ?case
  proof (cases "length (content q) < cap")
    case True
    with Cons.prems obtain q' where "put e q = (0, q')" "content q' = content q @ [e]"
      using put_room by blast
    with Cons.IH [OF inv] show ?thesis by simp
  next
    case False
    with Cons.prems content_le have full: "length (content q) = cap"
      by (meson le_neq_implies_less)
    with Cons.prems have "put e q = (-1, q)" by (simp add: put_full)
    with Cons.IH [OF inv] full show ?thesis by simp
  qed
qed

text \<open>Every client sees the reference queue.\<close>

lemma put_refines:
  assumes "invar q"
  shows "queue_put cap e (content q) = map_prod id content (put e q)"
proof (cases "length (content q) < cap")
  case True
  with assms put_room show ?thesis by (metis queue_put_def id_apply map_prod_simp)
next
  case False
  with assms content_le have "length (content q) = cap" by (meson le_neq_implies_less)
  with assms False show ?thesis by (simp add: put_full queue_put_def)
qed

lemma get_refines:
  assumes "invar q"
  shows "queue_get pd (content q) = map_prod id (map_prod id content) (get pd q)"
proof (cases "content q")
  case Nil
  with assms show ?thesis by (simp add: get_none)
next
  case (Cons x xs)
  with assms get_some [of q x xs pd] show ?thesis by auto
qed

lemma run_refines:
  assumes "invar q"
  shows "fifo_run (queue_put cap) queue_get ops (content q) = map_prod id content (fifo_run put get ops q)"
  using assms
proof (induction ops arbitrary: q)
  case Nil
  then show ?case by simp
next
  case (Cons x ops)
  show ?case
  proof (cases x)
    case (Put e)
    with Cons put_refines [of q e] put_invar [of q e] show ?thesis
      by (cases "put e q") (auto split: prod.splits)
  next
    case (Get pd)
    with Cons get_refines [of q pd] get_invar [of q pd] show ?thesis
      by (cases "get pd q") (auto split: prod.splits)
  qed
qed

text \<open>Taking out everything that was stored gives it back in order.\<close>

fun get_n :: "nat \<Rightarrow> 'e \<Rightarrow> 'q \<Rightarrow> 'e list \<times> 'q" where
  "get_n 0 pd q = ([], q)"
| "get_n (Suc n) pd q = (let (_, e, q1) = get pd q; (es, q2) = get_n n pd q1 in (e # es, q2))"

lemma get_all:
  assumes "invar q"
  shows "fst (get_n (length (content q)) pd q) = content q"
  using assms
proof (induction "length (content q)" arbitrary: q)
  case 0
  then show ?case by simp
next
  case (Suc n)
  then obtain x xs where c: "content q = x # xs" by (metis length_Suc_conv)
  with Suc.prems obtain q' where q': "get pd q = (0, x, q')" "invar q'" "content q' = xs"
    using get_some by blast
  have "fst (get_n (length (content q')) pd q') = content q'"
    using Suc.hyps c q' by (metis length_Cons nat.inject)
  with c q' show ?case by (cases "get_n (length xs) pd q'") simp
qed

end

section \<open>Correctness of the ring buffer\<close>

definition ir_buf_ok :: "ir_buf \<Rightarrow> bool" where
  "ir_buf_ok b \<longleftrightarrow> length (g_events b) = 1024 \<and> unat (g_r b) < 1024 \<and> unat (g_w b) < 1024"

definition ir_buf_count :: "ir_buf \<Rightarrow> nat" where
  "ir_buf_count b = (unat (g_w b) + 1024 - unat (g_r b)) mod 1024"

definition ir_buf_content :: "ir_buf \<Rightarrow> irda_raw_event list" where
  "ir_buf_content b = ring_slice (g_events b) (unat (g_r b)) (ir_buf_count b)"

lemma unat_NEXT_PLACE: "unat i < 1024 \<Longrightarrow> unat (NEXT_PLACE i) = Suc (unat i) mod 1024"
proof -
  assume i: "unat i < 1024"
  have "unat (NEXT_PLACE i) = unat (i + 1) mod 1024"
    using and_mask_unat [of "i + 1" 10] by (simp add: NEXT_PLACE_def mask_eq_exp_minus_1)
  also have "unat (i + 1) = Suc (unat i)"
    using i by (simp add: unat_plus_one)
  finally show ?thesis .
qed

lemma ir_buf_init_ok: "ir_buf_ok ir_buf_init" and ir_buf_init_content: "ir_buf_content ir_buf_init = []"
  by (simp_all add: ir_buf_init_def ir_buf_ok_def ir_buf_content_def ir_buf_count_def)

text \<open>The count and the successor without the modulus, so that linear arithmetic decides.\<close>

lemma ir_buf_count_if:
  "ir_buf_ok b \<Longrightarrow> ir_buf_count b =
    (if unat (g_r b) \<le> unat (g_w b) then unat (g_w b) - unat (g_r b)
     else unat (g_w b) + 1024 - unat (g_r b))"
  by (auto simp: ir_buf_count_def ir_buf_ok_def mod_if)

lemma Suc_mod_if: "i < n \<Longrightarrow> Suc i mod n = (if Suc i = n then 0 else Suc i)"
  by simp

lemma ir_buf_count_less: "ir_buf_count b < 1024"
  by (simp add: ir_buf_count_def)

lemma length_ir_buf_content [simp]: "length (ir_buf_content b) = ir_buf_count b"
  by (simp add: ir_buf_content_def)

lemma ir_buf_write_place:
  "ir_buf_ok b \<Longrightarrow> unat (g_w b) = (unat (g_r b) + ir_buf_count b) mod 1024"
  by (simp add: ir_buf_ok_def ir_buf_count_def mod_simps)

lemma ir_buf_empty_iff: "ir_buf_ok b \<Longrightarrow> is_ir_event_buf_empty b \<longleftrightarrow> ir_buf_count b = 0"
proof -
  assume "ir_buf_ok b"
  then have "unat (g_r b) = unat (g_w b) \<longleftrightarrow> ir_buf_count b = 0"
    by (auto simp: ir_buf_count_if ir_buf_ok_def)
  then show ?thesis by (simp add: is_ir_event_buf_empty_def word_unat_eq_iff)
qed

lemma ir_buf_full_iff: "ir_buf_ok b \<Longrightarrow> is_ir_event_buf_full b \<longleftrightarrow> ir_buf_count b = 1023"
proof -
  assume ok: "ir_buf_ok b"
  then have "Suc (unat (g_w b)) mod 1024 = unat (g_r b) \<longleftrightarrow> ir_buf_count b = 1023"
    by (auto simp: ir_buf_count_if ir_buf_ok_def Suc_mod_if)
  with ok show ?thesis
    by (simp add: is_ir_event_buf_full_def word_unat_eq_iff unat_NEXT_PLACE ir_buf_ok_def)
qed

lemma ir_event_put_room:
  assumes ok: "ir_buf_ok b" and room: "ir_buf_count b < 1023"
  shows "\<exists>b'. ir_event_put e b = (0, b') \<and> ir_buf_ok b' \<and> ir_buf_content b' = ir_buf_content b @ [e]"
proof -
  define b' where "b' = b\<lparr>g_events := (g_events b)[unat (g_w b) := e], g_w := NEXT_PLACE (g_w b)\<rparr>"
  have bounds: "length (g_events b) = 1024" "unat (g_w b) < 1024" "unat (g_r b) < 1024"
    using ok by (simp_all add: ir_buf_ok_def)
  have put: "ir_event_put e b = (0, b')"
    using room ir_buf_full_iff [OF ok] by (simp add: ir_event_put_def b'_def)
  have w': "unat (g_w b') = Suc (unat (g_w b)) mod 1024"
    using bounds by (simp add: b'_def unat_NEXT_PLACE)
  have ok': "ir_buf_ok b'"
    using bounds w' by (simp add: ir_buf_ok_def) (simp add: b'_def)
  have "ir_buf_count b' = Suc (ir_buf_count b)"
    using bounds w' room ir_buf_count_if [OF ok] ir_buf_count_if [OF ok']
    by (simp add: Suc_mod_if b'_def split: if_splits)
  then have "ir_buf_content b' = ir_buf_content b @ [e]"
    using ring_slice_append [of "ir_buf_count b" "g_events b" "unat (g_r b)" e]
      ir_buf_write_place [OF ok] bounds ir_buf_count_less [of b]
    by (simp add: ir_buf_content_def) (simp add: b'_def)
  with put ok' show ?thesis by blast
qed

lemma ir_event_get_some:
  assumes ok: "ir_buf_ok b" and c: "ir_buf_content b = x # xs"
  shows "g_events b ! unat (g_r b) = x \<and> ir_buf_ok (b\<lparr>g_r := NEXT_PLACE (g_r b)\<rparr>) \<and>
    ir_buf_content (b\<lparr>g_r := NEXT_PLACE (g_r b)\<rparr>) = xs"
proof -
  define b' where "b' = b\<lparr>g_r := NEXT_PLACE (g_r b)\<rparr>"
  have bounds: "length (g_events b) = 1024" "unat (g_w b) < 1024" "unat (g_r b) < 1024"
    using ok by (simp_all add: ir_buf_ok_def)
  have r': "unat (g_r b') = Suc (unat (g_r b)) mod 1024"
    using bounds by (simp add: b'_def unat_NEXT_PLACE)
  have ok': "ir_buf_ok b'"
    using bounds r' by (simp add: ir_buf_ok_def) (simp add: b'_def)
  have "ir_buf_count b = Suc (length xs)"
    using c by (metis length_Cons length_ir_buf_content)
  moreover from this have "ir_buf_count b' = length xs"
    using bounds r' ir_buf_count_if [OF ok] ir_buf_count_if [OF ok']
    by (simp add: Suc_mod_if b'_def split: if_splits)
  ultimately have "ir_buf_content b = g_events b ! unat (g_r b) # ir_buf_content b'"
    using bounds r' ring_slice_Suc [of "g_events b" "unat (g_r b)" "length xs"]
    by (simp add: ir_buf_content_def) (simp add: b'_def)
  with c ok' show ?thesis by (simp add: b'_def)
qed

interpretation irq: fifo ir_event_put ir_event_get ir_buf_content 1023 ir_buf_ok
proof unfold_locales
  fix b e pd x xs
  assume ok: "ir_buf_ok b"
  show "length (ir_buf_content b) \<le> 1023"
    using ir_buf_count_less [of b] by simp
  show "\<exists>b'. ir_event_put e b = (0, b') \<and> ir_buf_ok b' \<and> ir_buf_content b' = ir_buf_content b @ [e]"
    if "length (ir_buf_content b) < 1023"
    using that ok by (simp add: ir_event_put_room)
  show "ir_event_put e b = (-1, b)" if "length (ir_buf_content b) = 1023"
    using that ok by (simp add: ir_event_put_def ir_buf_full_iff)
  show "\<exists>b'. ir_event_get pd b = (0, x, b') \<and> ir_buf_ok b' \<and> ir_buf_content b' = xs"
    if c: "ir_buf_content b = x # xs"
  proof -
    have "\<not> is_ir_event_buf_empty b"
      using ok c ir_buf_empty_iff length_ir_buf_content by (metis length_0_conv list.distinct(1))
    with ir_event_get_some [OF ok c] show ?thesis by (simp add: ir_event_get_def)
  qed
  show "ir_event_get pd b = (-1, pd, b)" if "ir_buf_content b = []"
    using that ok ir_buf_empty_iff length_ir_buf_content by (metis ir_event_get_def list.size(3))
qed

text \<open>
  C9. The ring buffer implements a bounded queue: for every sequence of \<^verbatim>\<open>ir_event_put\<close> and
  \<^verbatim>\<open>ir_event_get\<close> calls from the initial state, every return code and every event handed out is
  the one of a queue that holds at most 1023 events.
\<close>

theorem ir_buf_is_queue:
  "fst (fifo_run ir_event_put ir_event_get ops ir_buf_init) =
   fst (fifo_run (queue_put 1023) queue_get ops [])"
  using irq.run_refines [OF ir_buf_init_ok, of ops] by (simp add: ir_buf_init_content)

end
