(* ===== verification/String_Utils.thy ===== *)
theory String_Utils
  imports Jz_Prelude
begin

text \<open>
  The string helpers of \<^verbatim>\<open>string_utils.c\<close>: the character class table and its predicates, the
  number parsers \<^verbatim>\<open>simple_strtoul\<close> and \<^verbatim>\<open>simple_strtol\<close>, \<^verbatim>\<open>strcmp\<close> and \<^verbatim>\<open>memcpy\<close>. (The
  line input \<^verbatim>\<open>gets\<close> is in the console theory, because it talks to the serial port.)
\<close>

section \<open>Character classes\<close>

definition CT_U :: u8 where "CT_U = 0x01"
definition CT_L :: u8 where "CT_L = 0x02"
definition CT_D :: u8 where "CT_D = 0x04"
definition CT_C :: u8 where "CT_C = 0x08"
definition CT_P :: u8 where "CT_P = 0x10"
definition CT_S :: u8 where "CT_S = 0x20"
definition CT_X :: u8 where "CT_X = 0x40"
definition CT_SP :: u8 where "CT_SP = 0x80"

definition ctype_tab :: "u8 list" where
  "ctype_tab =
    [CT_C, CT_C, CT_C, CT_C, CT_C, CT_C, CT_C, CT_C,
     CT_C, CT_C OR CT_S, CT_C OR CT_S, CT_C OR CT_S, CT_C OR CT_S, CT_C OR CT_S, CT_C, CT_C,
     CT_C, CT_C, CT_C, CT_C, CT_C, CT_C, CT_C, CT_C,
     CT_C, CT_C, CT_C, CT_C, CT_C, CT_C, CT_C, CT_C,
     CT_S OR CT_SP, CT_P, CT_P, CT_P, CT_P, CT_P, CT_P, CT_P,
     CT_P, CT_P, CT_P, CT_P, CT_P, CT_P, CT_P, CT_P,
     CT_D, CT_D, CT_D, CT_D, CT_D, CT_D, CT_D, CT_D,
     CT_D, CT_D, CT_P, CT_P, CT_P, CT_P, CT_P, CT_P,
     CT_P, CT_U OR CT_X, CT_U OR CT_X, CT_U OR CT_X, CT_U OR CT_X, CT_U OR CT_X, CT_U OR CT_X, CT_U,
     CT_U, CT_U, CT_U, CT_U, CT_U, CT_U, CT_U, CT_U,
     CT_U, CT_U, CT_U, CT_U, CT_U, CT_U, CT_U, CT_U,
     CT_U, CT_U, CT_U, CT_P, CT_P, CT_P, CT_P, CT_P,
     CT_P, CT_L OR CT_X, CT_L OR CT_X, CT_L OR CT_X, CT_L OR CT_X, CT_L OR CT_X, CT_L OR CT_X, CT_L,
     CT_L, CT_L, CT_L, CT_L, CT_L, CT_L, CT_L, CT_L,
     CT_L, CT_L, CT_L, CT_L, CT_L, CT_L, CT_L, CT_L,
     CT_L, CT_L, CT_L, CT_P, CT_P, CT_P, CT_P, CT_C,
     0, 0, 0, 0, 0, 0, 0, 0, 0, 0, 0, 0, 0, 0, 0, 0,
     0, 0, 0, 0, 0, 0, 0, 0, 0, 0, 0, 0, 0, 0, 0, 0,
     CT_S OR CT_SP, CT_P, CT_P, CT_P, CT_P, CT_P, CT_P, CT_P, CT_P, CT_P, CT_P, CT_P, CT_P, CT_P, CT_P, CT_P,
     CT_P, CT_P, CT_P, CT_P, CT_P, CT_P, CT_P, CT_P, CT_P, CT_P, CT_P, CT_P, CT_P, CT_P, CT_P, CT_P,
     CT_U, CT_U, CT_U, CT_U, CT_U, CT_U, CT_U, CT_U, CT_U, CT_U, CT_U, CT_U, CT_U, CT_U, CT_U, CT_U,
     CT_U, CT_U, CT_U, CT_U, CT_U, CT_U, CT_U, CT_P, CT_U, CT_U, CT_U, CT_U, CT_U, CT_U, CT_U, CT_L,
     CT_L, CT_L, CT_L, CT_L, CT_L, CT_L, CT_L, CT_L, CT_L, CT_L, CT_L, CT_L, CT_L, CT_L, CT_L, CT_L,
     CT_L, CT_L, CT_L, CT_L, CT_L, CT_L, CT_L, CT_P, CT_L, CT_L, CT_L, CT_L, CT_L, CT_L, CT_L, CT_L]"

definition ismask :: "u8 \<Rightarrow> u8" where
  "ismask x = ctype_tab ! unat x"

definition isdigit :: "u8 \<Rightarrow> bool" where "isdigit c \<longleftrightarrow> ismask c AND CT_D \<noteq> 0"
definition islower :: "u8 \<Rightarrow> bool" where "islower c \<longleftrightarrow> ismask c AND CT_L \<noteq> 0"
definition isupper :: "u8 \<Rightarrow> bool" where "isupper c \<longleftrightarrow> ismask c AND CT_U \<noteq> 0"
definition isxdigit :: "u8 \<Rightarrow> bool" where "isxdigit c \<longleftrightarrow> ismask c AND (CT_D OR CT_X) \<noteq> 0"
definition isspace :: "u8 \<Rightarrow> bool" where "isspace c \<longleftrightarrow> ismask c AND CT_S \<noteq> 0"

definition tolower :: "u8 \<Rightarrow> u8" where
  "tolower c = (if isupper c then c - (0x41 - 0x61) else c)"

definition toupper :: "u8 \<Rightarrow> u8" where
  "toupper c = (if islower c then c - (0x61 - 0x41) else c)"

lemmas ctype_code = ismask_def isdigit_def islower_def isupper_def isxdigit_def isspace_def

text \<open>The table with its entries evaluated; evaluation uses it from here on.\<close>

lemma ctype_tab_numerals [code]:
  "ctype_tab =
    [8, 8, 8, 8, 8, 8, 8, 8, 8, 40, 40, 40, 40, 40, 8, 8,
     8, 8, 8, 8, 8, 8, 8, 8, 8, 8, 8, 8, 8, 8, 8, 8,
     160, 16, 16, 16, 16, 16, 16, 16, 16, 16, 16, 16, 16, 16, 16, 16,
     4, 4, 4, 4, 4, 4, 4, 4, 4, 4, 16, 16, 16, 16, 16, 16,
     16, 65, 65, 65, 65, 65, 65, 1, 1, 1, 1, 1, 1, 1, 1, 1,
     1, 1, 1, 1, 1, 1, 1, 1, 1, 1, 1, 16, 16, 16, 16, 16,
     16, 66, 66, 66, 66, 66, 66, 2, 2, 2, 2, 2, 2, 2, 2, 2,
     2, 2, 2, 2, 2, 2, 2, 2, 2, 2, 2, 16, 16, 16, 16, 8,
     0, 0, 0, 0, 0, 0, 0, 0, 0, 0, 0, 0, 0, 0, 0, 0,
     0, 0, 0, 0, 0, 0, 0, 0, 0, 0, 0, 0, 0, 0, 0, 0,
     160, 16, 16, 16, 16, 16, 16, 16, 16, 16, 16, 16, 16, 16, 16, 16,
     16, 16, 16, 16, 16, 16, 16, 16, 16, 16, 16, 16, 16, 16, 16, 16,
     1, 1, 1, 1, 1, 1, 1, 1, 1, 1, 1, 1, 1, 1, 1, 1,
     1, 1, 1, 1, 1, 1, 1, 16, 1, 1, 1, 1, 1, 1, 1, 2,
     2, 2, 2, 2, 2, 2, 2, 2, 2, 2, 2, 2, 2, 2, 2, 2,
     2, 2, 2, 2, 2, 2, 2, 16, 2, 2, 2, 2, 2, 2, 2, 2]"
  by (simp add: ctype_tab_def CT_U_def CT_L_def CT_D_def CT_C_def CT_P_def CT_S_def CT_X_def CT_SP_def)

text \<open>
  The classes as ranges of the Latin-1 code points: the whole table is compared once, entry by
  entry, and the predicates follow for every byte.
\<close>

definition class_ranges :: "nat \<Rightarrow> bool \<times> bool \<times> bool \<times> bool" where
  "class_ranges n =
     (48 \<le> n \<and> n \<le> 57,
      48 \<le> n \<and> n \<le> 57 \<or> 65 \<le> n \<and> n \<le> 70 \<or> 97 \<le> n \<and> n \<le> 102,
      97 \<le> n \<and> n \<le> 122 \<or> 223 \<le> n \<and> n \<noteq> 247,
      65 \<le> n \<and> n \<le> 90 \<or> 192 \<le> n \<and> n \<le> 222 \<and> n \<noteq> 215)"

lemma ctype_ranges:
  "map (\<lambda>m. (m AND CT_D \<noteq> 0, m AND (CT_D OR CT_X) \<noteq> 0, m AND CT_L \<noteq> 0, m AND CT_U \<noteq> 0)) ctype_tab =
   map class_ranges [0..<256]"
  by code_simp

lemma byte_class: "(isdigit c, isxdigit c, islower c, isupper c) = class_ranges (unat c)"
proof -
  have len: "length ctype_tab = 256" by (simp add: ctype_tab_numerals)
  have c: "unat c < 256" using unsigned_less [of c, where ?'a = nat] by simp
  have "map class_ranges [0..<256] ! unat c = class_ranges (unat c)"
    using c by simp
  with len c show ?thesis by (simp flip: ctype_ranges add: ctype_code)
qed

lemma isdigit_iff: "isdigit c \<longleftrightarrow> 48 \<le> c \<and> c \<le> 57"
  using byte_class [of c] by (simp add: class_ranges_def word_le_nat_alt)

lemma isxdigit_iff:
  "isxdigit c \<longleftrightarrow> 48 \<le> c \<and> c \<le> 57 \<or> 65 \<le> c \<and> c \<le> 70 \<or> 97 \<le> c \<and> c \<le> 102"
  using byte_class [of c] by (simp add: class_ranges_def word_le_nat_alt)

lemma islower_xdigit: "isxdigit c \<Longrightarrow> islower c \<longleftrightarrow> 97 \<le> c"
  using byte_class [of c] by (auto simp: class_ranges_def word_le_nat_alt)

section \<open>Parsing numbers\<close>

text \<open>The value of a digit as the loop of \<^verbatim>\<open>simple_strtoul\<close> computes it.\<close>

definition xdigit_value :: "u8 \<Rightarrow> u32" where
  "xdigit_value c =
     (if isdigit c then ucast c - 0x30
      else ucast (if islower c then toupper c else c) - 0x41 + 10)"

function strtoul_loop :: "u32 \<Rightarrow> cstring \<Rightarrow> u32 \<Rightarrow> u32 \<times> cstring" where
  "strtoul_loop base cp result =
     (if isxdigit (deref cp) \<and> xdigit_value (deref cp) < base
      then strtoul_loop base (tl cp) (result * base + xdigit_value (deref cp))
      else (result, cp))"
  by pat_completeness auto
termination
proof (relation "measure (\<lambda>(base, cp, result). length cp)")
  fix base result :: u32 and cp
  assume "isxdigit (deref cp) \<and> xdigit_value (deref cp) < base"
  then have "cp \<noteq> []" by (auto simp: isxdigit_iff)
  then show "((base, tl cp, result * base + xdigit_value (deref cp)), base, cp, result)
      \<in> measure (\<lambda>(base, cp, result). length cp)"
    by simp
qed simp

declare strtoul_loop.simps [simp del]

text \<open>The result is the value and the rest of the string, which the code stores in \<^verbatim>\<open>*endp\<close>.\<close>

definition simple_strtoul :: "cstring \<Rightarrow> u32 \<Rightarrow> u32 \<times> cstring" where
  "simple_strtoul cp base =
     (let (cp, base) =
        (if deref cp = 0x30 then
           let cp = tl cp;
               (cp, base) =
                 (if (deref cp = 0x78 \<or> deref cp = 0x58) \<and> isxdigit (deref (tl cp))
                  then (tl cp, 16) else (cp, base));
               base = (if base = 0 then 8 else base)
           in (cp, base)
         else (cp, base));
        base = (if base = 0 then 10 else base)
      in strtoul_loop base cp 0)"

definition simple_strtol :: "cstring \<Rightarrow> u32 \<Rightarrow> u32 \<times> cstring" where
  "simple_strtol cp base =
     (if deref cp = 0x2D
      then (let (v, rest) = simple_strtoul (tl cp) base in (- v, rest))
      else simple_strtoul cp base)"

section \<open>Comparing and copying\<close>

text \<open>
  \<^verbatim>\<open>__res\<close> is a \<^verbatim>\<open>signed char\<close>: the difference of the two bytes is cut to 8 bits and read as a
  signed number.
\<close>

function strcmp :: "cstring \<Rightarrow> cstring \<Rightarrow> int" where
  "strcmp cs ct =
     (let res = deref cs - deref ct
      in if res \<noteq> 0 \<or> deref cs = 0 then sint res else strcmp (tl cs) (tl ct))"
  by pat_completeness auto
termination
proof (relation "measure (\<lambda>(cs, ct). length cs)")
  fix cs ct :: cstring and res :: u8
  assume "\<not> (res \<noteq> 0 \<or> deref cs = 0)"
  then have "cs \<noteq> []" by auto
  then show "((tl cs, tl ct), cs, ct) \<in> measure (\<lambda>(cs, ct). length cs)" by simp
qed simp

declare strcmp.simps [simp del]

type_synonym memory = "u32 \<Rightarrow> u8"

fun memcpy :: "memory \<Rightarrow> u32 \<Rightarrow> u32 \<Rightarrow> nat \<Rightarrow> memory" where
  "memcpy m dest src 0 = m"
| "memcpy m dest src (Suc count) = memcpy (m(dest := m src)) (dest + 1) (src + 1) count"

section \<open>Correctness\<close>

text \<open>The value of a digit character and of a digit string, independently of the code.\<close>

definition digit_nat :: "u8 \<Rightarrow> nat" where
  "digit_nat c = (if c \<le> 57 then unat c - 48 else if c \<le> 70 then unat c - 55 else unat c - 87)"

definition digits_nat :: "nat \<Rightarrow> cstring \<Rightarrow> nat" where
  "digits_nat b ds = foldl (\<lambda>v c. v * b + digit_nat c) 0 ds"

definition is_digit_of :: "nat \<Rightarrow> u8 \<Rightarrow> bool" where
  "is_digit_of b c \<longleftrightarrow> isxdigit c \<and> digit_nat c < b"

lemma unat_ucast_diff:
  fixes c :: u8 and k :: u32
  assumes "unat k \<le> unat c"
  shows "unat (ucast c - k) = unat c - unat k"
proof -
  have "unat (ucast c :: u32) = unat c" by (simp add: unat_ucast_up)
  with assms show ?thesis by (simp add: unat_sub word_le_nat_alt)
qed

lemma xdigit_value_unat:
  assumes x: "isxdigit c"
  shows "unat (xdigit_value c) = digit_nat c"
  using x unfolding isxdigit_iff
proof (elim disjE conjE)
  assume "48 \<le> c" "c \<le> 57"
  then show ?thesis
    by (simp add: xdigit_value_def digit_nat_def isdigit_iff unat_ucast_diff word_le_nat_alt)
next
  assume c: "65 \<le> c" "c \<le> 70"
  then have "\<not> isdigit c" "\<not> islower c" by (auto simp: isdigit_iff islower_xdigit [OF x] word_le_nat_alt)
  moreover have "ucast c - 0x41 + 10 = (ucast c - 0x37 :: u32)" by simp
  ultimately show ?thesis
    using c by (simp add: xdigit_value_def digit_nat_def unat_ucast_diff word_le_nat_alt)
next
  assume c: "97 \<le> c" "c \<le> 102"
  then have l: "\<not> isdigit c" "islower c" by (auto simp: isdigit_iff islower_xdigit [OF x] word_le_nat_alt)
  have "unat (c - 32) = unat c - 32" using c by (simp add: unat_sub word_le_nat_alt)
  moreover have "ucast (c - 32) - 0x41 + 10 = (ucast (c - 32) - 0x37 :: u32)" by simp
  ultimately show ?thesis
    using c l by (simp add: xdigit_value_def digit_nat_def toupper_def unat_ucast_diff word_le_nat_alt)
qed

lemma xdigit_value_of_nat: "isxdigit c \<Longrightarrow> xdigit_value c = of_nat (digit_nat c)"
  by (simp add: word_eq_of_nat xdigit_value_unat)

lemma is_digit_of_code:
  "is_digit_of (unat base) c \<longleftrightarrow> isxdigit c \<and> xdigit_value c < base"
  by (auto simp: is_digit_of_def word_less_nat_alt xdigit_value_unat)

lemma strtoul_loop_digits:
  assumes "\<forall>c \<in> set ds. is_digit_of (unat base) c" and "\<not> is_digit_of (unat base) (deref rest)"
  shows "strtoul_loop base (ds @ rest) (of_nat v) =
    (of_nat (foldl (\<lambda>v c. v * unat base + digit_nat c) v ds), rest)"
  using assms(1)
proof (induction ds arbitrary: v)
  case Nil
  have "\<not> (isxdigit (deref rest) \<and> xdigit_value (deref rest) < base)"
    using assms(2) by (simp add: is_digit_of_code)
  then show ?case by (subst strtoul_loop.simps) (simp only: append_Nil if_False foldl_Nil)
next
  case (Cons c ds)
  have c: "isxdigit c \<and> xdigit_value c < base"
    using Cons.prems by (simp flip: is_digit_of_code)
  have "of_nat v * base + xdigit_value c = of_nat (v * unat base + digit_nat c)"
    using c by (simp add: xdigit_value_of_nat)
  then have "strtoul_loop base ((c # ds) @ rest) (of_nat v) =
      strtoul_loop base (ds @ rest) (of_nat (v * unat base + digit_nat c))"
    using c by (subst strtoul_loop.simps) simp
  also have "\<dots> = (of_nat (foldl (\<lambda>v c. v * unat base + digit_nat c) (v * unat base + digit_nat c) ds), rest)"
    using Cons.prems by (intro Cons.IH) simp
  finally show ?case by simp
qed

text \<open>The prefix that selects a base when the caller passes base 0.\<close>

definition base_prefix :: "nat \<Rightarrow> cstring" where
  "base_prefix b = (if b = 16 then [0x30, 0x78] else if b = 8 then [0x30] else [])"

lemma simple_strtoul_base:
  assumes "b \<in> {8, 10, 16}" and "ds \<noteq> []" and "\<forall>c \<in> set ds. is_digit_of b c"
    and "\<not> is_digit_of b (deref rest)" and "b = 10 \<longrightarrow> hd ds \<noteq> 0x30"
  shows "simple_strtoul (base_prefix b @ ds @ rest) 0 = (of_nat (digits_nat b ds), rest)"
proof -
  obtain d ds' where ds: "ds = d # ds'" using assms(2) by (cases ds) auto
  have d: "isxdigit d" "digit_nat d < b" using assms(3) ds by (auto simp: is_digit_of_def)
  have loop: "strtoul_loop (of_nat b) (ds @ rest) 0 = (of_nat (digits_nat b ds), rest)"
    using strtoul_loop_digits [of ds "of_nat b" rest 0] assms(1,3,4)
    by (auto simp: digits_nat_def)
  have nox: "d \<noteq> 0x78" "d \<noteq> 0x58" using d(1) by (auto simp: isxdigit_iff)
  from assms(1) consider "b = 8" | "b = 10" | "b = 16" by auto
  then show ?thesis
  proof cases
    case 1
    with loop ds nox show ?thesis by (simp add: simple_strtoul_def base_prefix_def)
  next
    case 2
    with loop ds assms(5) show ?thesis by (simp add: simple_strtoul_def base_prefix_def)
  next
    case 3
    with loop ds d(1) show ?thesis by (simp add: simple_strtoul_def base_prefix_def)
  qed
qed

text \<open>
  C36. \<^verbatim>\<open>simple_strtoul\<close> with base 0 reads a hexadecimal number after \<^verbatim>\<open>0x\<close>, an octal one after
  \<^verbatim>\<open>0\<close> and a decimal one otherwise: it returns the value of the longest run of digits of that
  base, modulo \<open>2 ^ 32\<close>, and the rest of the string.
\<close>

theorem simple_strtoul_correct:
  assumes "b \<in> {8, 10, 16}" and "ds \<noteq> []" and "\<forall>c \<in> set ds. is_digit_of b c"
    and "\<not> is_digit_of b (deref rest)" and "b = 10 \<longrightarrow> hd ds \<noteq> 0x30"
  shows "simple_strtoul (base_prefix b @ ds @ rest) 0 = (of_nat (digits_nat b ds), rest)"
  using assms by (rule simple_strtoul_base)

theorem simple_strtoul_correct_witness:
  "(16::nat) \<in> {8, 10, 16} \<and> simple_strtoul [0x30, 0x78, 0x31, 0x66, 0x20] 0 = (0x1f, [0x20])"
proof -
  have d: "\<forall>c \<in> set [0x31, 0x66]. is_digit_of 16 c" "\<not> is_digit_of 16 (deref [0x20])"
    by (simp_all add: is_digit_of_def isxdigit_iff digit_nat_def)
  show ?thesis
    using simple_strtoul_correct [of 16 "[0x31, 0x66]" "[0x20]"] d
    by (simp add: base_prefix_def digits_nat_def digit_nat_def)
qed

text \<open>Two strings compare equal exactly if they are the same string.\<close>

lemma strcmp_eq_0:
  assumes "is_cstring cs" and "is_cstring ct"
  shows "strcmp cs ct = 0 \<longleftrightarrow> cs = ct"
  using assms
proof (induction cs ct rule: strcmp.induct)
  case (1 cs ct)
  have tls: "is_cstring (tl cs)" "is_cstring (tl ct)"
    using "1.prems" by (cases cs; cases ct; simp add: is_cstring_def)+
  show ?case
  proof (cases "deref cs - deref ct \<noteq> 0 \<or> deref cs = 0")
    case True
    then show ?thesis
      using "1.prems" by (subst strcmp.simps, cases cs; cases ct) (auto simp: is_cstring_def signed_eq_0_iff)
  next
    case False
    then have "strcmp cs ct = strcmp (tl cs) (tl ct)"
      by (subst strcmp.simps) (simp add: Let_def)
    with "1.IH" [OF refl False tls] False show ?thesis
      using "1.prems" by (cases cs; cases ct) (auto simp: is_cstring_def)
  qed
qed

lemma sint_diff_ascii:
  fixes a b :: u8
  assumes "a < 128" and "b < 128"
  shows "sint (a - b) = uint a - uint b"
proof -
  have le: "uint a < 128" "uint b < 128" using assms by (simp_all add: word_less_def)
  have "signed_take_bit 7 (uint w) = uint w" if "uint w < 128" for w :: u8
  proof -
    have "- 128 \<le> uint w" using uint_ge_0 [of w] by linarith
    with that show ?thesis by (intro signed_take_bit_int_eq_self) simp_all
  qed
  with le have "sint a = uint a" "sint b = uint b" by (simp_all add: sint_uint)
  moreover have "- 128 \<le> uint a - uint b" "uint a - uint b < 128"
    using le uint_ge_0 [of a] uint_ge_0 [of b] by linarith+
  ultimately show ?thesis
    by (simp add: sint_word_diff signed_take_bit_int_eq_self)
qed

lemma deref_ascii: "\<forall>c \<in> set cs. c < 128 \<Longrightarrow> deref cs < 128"
  by (cases cs) auto

text \<open>
  On ASCII strings the sign of \<^verbatim>\<open>strcmp\<close> is the lexicographic order, and the result is 0
  exactly for equal strings.
\<close>

theorem strcmp_ascii:
  assumes "is_cstring cs" and "is_cstring ct"
    and "\<forall>c \<in> set cs. c < 128" and "\<forall>c \<in> set ct. c < 128"
  shows "(strcmp cs ct < 0 \<longleftrightarrow> (cs, ct) \<in> lexord {(x, y). x < y}) \<and> (strcmp cs ct = 0 \<longleftrightarrow> cs = ct)"
proof (rule conjI)
  show "strcmp cs ct < 0 \<longleftrightarrow> (cs, ct) \<in> lexord {(x, y). x < y}"
    using assms
  proof (induction cs ct rule: strcmp.induct)
    case (1 cs ct)
    have tls: "is_cstring (tl cs)" "is_cstring (tl ct)"
      "\<forall>c \<in> set (tl cs). c < 128" "\<forall>c \<in> set (tl ct). c < 128"
      using "1.prems" by (cases cs; cases ct; simp add: is_cstring_def)+
    have s: "sint (deref cs - deref ct) = uint (deref cs) - uint (deref ct)"
      using "1.prems" by (simp add: sint_diff_ascii deref_ascii)
    show ?case
    proof (cases "deref cs - deref ct \<noteq> 0 \<or> deref cs = 0")
      case True
      then have "strcmp cs ct = uint (deref cs) - uint (deref ct)"
        by (subst strcmp.simps) (simp only: Let_def if_True s)
      moreover have "0 < uint c" if "c \<noteq> 0" for c :: u8
        using that by (simp add: order_less_le uint_0_iff)
      ultimately show ?thesis
        using True "1.prems" by (cases cs; cases ct) (auto simp: is_cstring_def word_less_def)
    next
      case False
      then have "strcmp cs ct = strcmp (tl cs) (tl ct)"
        by (subst strcmp.simps) (simp add: Let_def)
      with "1.IH" [OF refl False tls] False show ?thesis
        using "1.prems" by (cases cs; cases ct) (auto simp: is_cstring_def)
    qed
  qed
qed (simp add: strcmp_eq_0 assms)

theorem strcmp_ascii_witness:
  "strcmp [0x61, 0x62] [0x61, 0x63] < 0 \<and> strcmp [0x61] [0x61] = 0"
  using strcmp_ascii [of "[0x61, 0x62]" "[0x61, 0x63]"] strcmp_ascii [of "[0x61]" "[0x61]"]
  by (simp add: is_cstring_def)

text \<open>
  \<^verbatim>\<open>memcpy\<close> between two regions that do not overlap makes the destination equal to the old
  source and changes no other byte.
\<close>

theorem memcpy_copies:
  assumes "count \<le> 2 ^ 32"
    and "\<forall>i < count. \<forall>j < count. dest + of_nat i \<noteq> src + of_nat j"
  shows "(\<forall>i < count. memcpy m dest src count (dest + of_nat i) = m (src + of_nat i)) \<and>
    (\<forall>a. (\<forall>i < count. a \<noteq> dest + of_nat i) \<longrightarrow> memcpy m dest src count a = m a)"
  using assms
proof (induction count arbitrary: m dest src)
  case 0
  then show ?case by simp
next
  case (Suc n)
  let ?m = "m(dest := m src)"
  have IH: "(\<forall>i < n. memcpy ?m (dest + 1) (src + 1) n (dest + 1 + of_nat i) = ?m (src + 1 + of_nat i)) \<and>
    (\<forall>a. (\<forall>i < n. a \<noteq> dest + 1 + of_nat i) \<longrightarrow> memcpy ?m (dest + 1) (src + 1) n a = ?m a)"
  proof (rule Suc.IH)
    show "n \<le> 2 ^ 32" using Suc.prems(1) by simp
    show "\<forall>i < n. \<forall>j < n. dest + 1 + of_nat i \<noteq> src + 1 + of_nat j"
    proof (intro allI impI)
      fix i j assume "i < n" "j < n"
      then have "dest + of_nat (Suc i) \<noteq> src + of_nat (Suc j)" using Suc.prems(2) by simp
      then show "dest + 1 + of_nat i \<noteq> src + 1 + of_nat j" by (simp add: add.assoc)
    qed
  qed
  have wrap: "dest \<noteq> dest + 1 + of_nat i" if "i < n" for i
  proof -
    have "(of_nat (Suc i) :: u32) \<noteq> 0"
    proof
      assume "(of_nat (Suc i) :: u32) = 0"
      then have "2 ^ 32 dvd Suc i" by (simp only: word_of_nat_eq_0_iff) simp
      then show False using that Suc.prems(1) by (auto dest: dvd_imp_le)
    qed
    then show ?thesis by (simp add: add.assoc)
  qed
  have src: "src + of_nat i \<noteq> dest" if "i < Suc n" for i
    using Suc.prems(2) [rule_format, of 0 i] that by auto
  show ?case
  proof (intro conjI allI impI)
    fix i assume i: "i < Suc n"
    show "memcpy m dest src (Suc n) (dest + of_nat i) = m (src + of_nat i)"
    proof (cases i)
      case 0
      with IH wrap show ?thesis by simp
    next
      case (Suc k)
      with i IH have "memcpy ?m (dest + 1) (src + 1) n (dest + 1 + of_nat k) = ?m (src + 1 + of_nat k)"
        by simp
      with src [OF i] Suc show ?thesis by (simp add: add.assoc)
    qed
  next
    fix a assume a: "\<forall>i < Suc n. a \<noteq> dest + of_nat i"
    have "a \<noteq> dest + 1 + of_nat i" if "i < n" for i
      using a [rule_format, of "Suc i"] that by (simp add: add.assoc)
    moreover have "a \<noteq> dest" using a [rule_format, of 0] by simp
    ultimately show "memcpy m dest src (Suc n) a = m a" using IH by simp
  qed
qed

theorem memcpy_copies_witness:
  "memcpy (\<lambda>a. if a = 200 then 7 else 9) 100 200 1 100 = 7"
  using memcpy_copies [of 1 100 200 "\<lambda>a. if a = 200 then 7 else 9"] by simp

end
