(* ===== verification/Soc_Regs.thy ===== *)
theory Soc_Regs
  imports Jz_Prelude
begin

text \<open>
  The addresses of the S3C2440 special function registers that the drivers use, as
  \<^verbatim>\<open>s3c2440_soc.h\<close> (and, for the SPI controller, \<^verbatim>\<open>s3c24xx.h\<close>) defines them. The rules are collected
  in \<open>sfr\<close>, so that \<^theory_text>\<open>simp add: sfr\<close> tells two registers apart.
\<close>

named_theorems sfr \<open>addresses of special function registers\<close>

text \<open>Memory controller\<close>

definition BWSCON :: u32 where [sfr]: "BWSCON = 0x48000000"
definition BANKCON0 :: u32 where [sfr]: "BANKCON0 = 0x48000004"
definition BANKCON1 :: u32 where [sfr]: "BANKCON1 = 0x48000008"
definition BANKCON2 :: u32 where [sfr]: "BANKCON2 = 0x4800000C"
definition BANKCON3 :: u32 where [sfr]: "BANKCON3 = 0x48000010"
definition BANKCON4 :: u32 where [sfr]: "BANKCON4 = 0x48000014"
definition BANKCON5 :: u32 where [sfr]: "BANKCON5 = 0x48000018"
definition BANKCON6 :: u32 where [sfr]: "BANKCON6 = 0x4800001C"
definition BANKCON7 :: u32 where [sfr]: "BANKCON7 = 0x48000020"
definition REFRESH :: u32 where [sfr]: "REFRESH = 0x48000024"
definition BANKSIZE :: u32 where [sfr]: "BANKSIZE = 0x48000028"
definition MRSRB6 :: u32 where [sfr]: "MRSRB6 = 0x4800002C"
definition MRSRB7 :: u32 where [sfr]: "MRSRB7 = 0x48000030"

text \<open>Interrupt controller\<close>

definition SRCPND :: u32 where [sfr]: "SRCPND = 0x4A000000"
definition INTMSK :: u32 where [sfr]: "INTMSK = 0x4A000008"
definition INTPND :: u32 where [sfr]: "INTPND = 0x4A000010"
definition INTOFFSET :: u32 where [sfr]: "INTOFFSET = 0x4A000014"
definition SUBSRCPND :: u32 where [sfr]: "SUBSRCPND = 0x4A000018"
definition INTSUBMSK :: u32 where [sfr]: "INTSUBMSK = 0x4A00001C"

text \<open>LCD controller\<close>

definition LCDCON1 :: u32 where [sfr]: "LCDCON1 = 0x4D000000"
definition LCDCON2 :: u32 where [sfr]: "LCDCON2 = 0x4D000004"
definition LCDCON3 :: u32 where [sfr]: "LCDCON3 = 0x4D000008"
definition LCDCON4 :: u32 where [sfr]: "LCDCON4 = 0x4D00000C"
definition LCDCON5 :: u32 where [sfr]: "LCDCON5 = 0x4D000010"
definition LCDSADDR1 :: u32 where [sfr]: "LCDSADDR1 = 0x4D000014"
definition LCDSADDR2 :: u32 where [sfr]: "LCDSADDR2 = 0x4D000018"

text \<open>NAND flash controller\<close>

definition NFCONF :: u32 where [sfr]: "NFCONF = 0x4E000000"
definition NFCONT :: u32 where [sfr]: "NFCONT = 0x4E000004"
definition NFCMD :: u32 where [sfr]: "NFCMD = 0x4E000008"
definition NFADDR :: u32 where [sfr]: "NFADDR = 0x4E00000C"
definition NFDATA :: u32 where [sfr]: "NFDATA = 0x4E000010"
definition NFSTAT :: u32 where [sfr]: "NFSTAT = 0x4E000020"

text \<open>UART 0\<close>

definition ULCON0 :: u32 where [sfr]: "ULCON0 = 0x50000000"
definition UCON0 :: u32 where [sfr]: "UCON0 = 0x50000004"
definition UTRSTAT0 :: u32 where [sfr]: "UTRSTAT0 = 0x50000010"
definition UTXH0 :: u32 where [sfr]: "UTXH0 = 0x50000020"
definition URXH0 :: u32 where [sfr]: "URXH0 = 0x50000024"
definition UBRDIV0 :: u32 where [sfr]: "UBRDIV0 = 0x50000028"

text \<open>PWM timer 0\<close>

definition TCFG0 :: u32 where [sfr]: "TCFG0 = 0x51000000"
definition TCFG1 :: u32 where [sfr]: "TCFG1 = 0x51000004"
definition TCON :: u32 where [sfr]: "TCON = 0x51000008"
definition TCNTB0 :: u32 where [sfr]: "TCNTB0 = 0x5100000C"
definition TCNTO0 :: u32 where [sfr]: "TCNTO0 = 0x51000014"

text \<open>I2C\<close>

definition IICCON :: u32 where [sfr]: "IICCON = 0x54000000"
definition IICSTAT :: u32 where [sfr]: "IICSTAT = 0x54000004"
definition IICDS :: u32 where [sfr]: "IICDS = 0x5400000c"

text \<open>GPIO\<close>

definition GPBCON :: u32 where [sfr]: "GPBCON = 0x56000010"
definition GPBDAT :: u32 where [sfr]: "GPBDAT = 0x56000014"
definition GPCCON :: u32 where [sfr]: "GPCCON = 0x56000020"
definition GPDCON :: u32 where [sfr]: "GPDCON = 0x56000030"
definition GPECON :: u32 where [sfr]: "GPECON = 0x56000040"
definition GPFCON :: u32 where [sfr]: "GPFCON = 0x56000050"
definition GPFDAT :: u32 where [sfr]: "GPFDAT = 0x56000054"
definition GPGCON :: u32 where [sfr]: "GPGCON = 0x56000060"
definition GPGDAT :: u32 where [sfr]: "GPGDAT = 0x56000064"
definition GPHCON :: u32 where [sfr]: "GPHCON = 0x56000070"
definition GPHUP :: u32 where [sfr]: "GPHUP = 0x56000078"
definition EXTINT0 :: u32 where [sfr]: "EXTINT0 = 0x56000088"
definition EXTINT1 :: u32 where [sfr]: "EXTINT1 = 0x5600008C"
definition EXTINT2 :: u32 where [sfr]: "EXTINT2 = 0x56000090"
definition EINTMASK :: u32 where [sfr]: "EINTMASK = 0x560000A4"
definition EINTPEND :: u32 where [sfr]: "EINTPEND = 0x560000A8"

text \<open>ADC and touch screen\<close>

definition ADCCON :: u32 where [sfr]: "ADCCON = 0x58000000"
definition ADCTSC :: u32 where [sfr]: "ADCTSC = 0x58000004"
definition ADCDLY :: u32 where [sfr]: "ADCDLY = 0x58000008"
definition ADCDAT0 :: u32 where [sfr]: "ADCDAT0 = 0x5800000C"
definition ADCDAT1 :: u32 where [sfr]: "ADCDAT1 = 0x58000010"
definition ADCUPDN :: u32 where [sfr]: "ADCUPDN = 0x58000014"

end
