(* ===== verification/Console.thy ===== *)
theory Console
  imports String_Utils Soc_Regs
begin

text \<open>
  The serial console: \<^verbatim>\<open>uart.c\<close>, \<^verbatim>\<open>exception.c\<close> and the line input of \<^verbatim>\<open>string_utils.c\<close>. Every
  character goes through the busy-waiting \<^verbatim>\<open>putchar\<close> and \<^verbatim>\<open>getchar\<close>, so the operations return
  \<open>None\<close> when the port never becomes ready.
\<close>

section \<open>Operations\<close>

definition uart0_init :: "'s bus \<Rightarrow> 's \<Rightarrow> 's" where
  "uart0_init B s =
     (let s = reg_and B GPHCON (NOT (push_bit 4 3 OR push_bit 6 3)) s;
          s = reg_or B GPHCON (push_bit 4 2 OR push_bit 6 2) s;
          s = reg_and B GPHUP (NOT (push_bit 2 1 OR push_bit 3 1)) s;
          s = wr32 B UCON0 0x00000005 s;
          s = wr32 B UBRDIV0 26 s
      in wr32 B ULCON0 0x00000003 s)"

definition putchar :: "'s bus \<Rightarrow> u8 \<Rightarrow> 's \<Rightarrow> 's option" where
  "putchar B c s = do {
     (_, s1) \<leftarrow> poll (rd32 B UTRSTAT0) (\<lambda>v. v AND push_bit 2 1 \<noteq> 0) s;
     Some (wr8 B UTXH0 c s1) }"

definition getchar :: "'s bus \<Rightarrow> 's \<Rightarrow> (u8 \<times> 's) option" where
  "getchar B s = do {
     (_, s1) \<leftarrow> poll (rd32 B UTRSTAT0) (\<lambda>v. v AND push_bit 0 1 \<noteq> 0) s;
     Some (rd8 B URXH0 s1) }"

fun puts :: "'s bus \<Rightarrow> cstring \<Rightarrow> 's \<Rightarrow> 's option" where
  "puts B [] s = Some s"
| "puts B (c # cs) s = do { s1 \<leftarrow> putchar B c s; puts B cs s1 }"

text \<open>The eight nibbles of a word, least significant first, as the array \<^verbatim>\<open>arr\<close> holds them.\<close>

fun hex_nibbles :: "nat \<Rightarrow> u32 \<Rightarrow> u32 list" where
  "hex_nibbles 0 val = []"
| "hex_nibbles (Suc n) val = (val AND 0xf) # hex_nibbles n (drop_bit 4 val)"

definition hex_digit :: "u32 \<Rightarrow> cstring" where
  "hex_digit a =
     (if 0 \<le> a \<and> a \<le> 9 then [ucast (a + 0x30)]
      else if 0xA \<le> a \<and> a \<le> 0xF then [ucast (a - 0xA + 0x41)] else [])"

definition printHex :: "'s bus \<Rightarrow> u32 \<Rightarrow> 's \<Rightarrow> 's option" where
  "printHex B val s = do {
     s1 \<leftarrow> puts B (str ''0x'') s;
     puts B (concat (map hex_digit (rev (hex_nibbles 8 val)))) s1 }"

definition print1 :: "'s bus \<Rightarrow> 's \<Rightarrow> 's option" where
  "print1 B s = puts B (str ''abc'' @ [10, 13]) s"

definition print2 :: "'s bus \<Rightarrow> 's \<Rightarrow> 's option" where
  "print2 B s = puts B (str ''123'' @ [10, 13]) s"

definition printSWIVal :: "'s bus \<Rightarrow> u32 \<Rightarrow> 's \<Rightarrow> 's option" where
  "printSWIVal B pSWI s = do {
     s1 \<leftarrow> puts B (str ''SWI val = '') s;
     s2 \<leftarrow> (let (v, s') = rd32 B pSWI s1 in printHex B (v AND NOT 0xff000000) s');
     puts B [10, 13] s2 }"

definition printException :: "'s bus \<Rightarrow> u32 \<Rightarrow> cstring \<Rightarrow> 's \<Rightarrow> 's option" where
  "printException B cpsr txt s = do {
     s1 \<leftarrow> puts B (str ''Exception! cpsr = '') s;
     s2 \<leftarrow> printHex B cpsr s1;
     s3 \<leftarrow> puts B (str '' '') s2;
     s4 \<leftarrow> puts B txt s3;
     puts B [10, 13] s4 }"

text \<open>
  \<^verbatim>\<open>gets\<close> echoes each character, completes a line end to both characters, and stores until the
  end of the line. It does not know the size of the array it fills; \<open>acc\<close> is what it has stored.
\<close>

partial_function (option) gets_from :: "'s bus \<Rightarrow> cstring \<Rightarrow> 's \<Rightarrow> (cstring \<times> 's) option" where
  "gets_from B acc s = do {
     (c, s1) \<leftarrow> getchar B s;
     s2 \<leftarrow> putchar B c s1;
     s3 \<leftarrow> (if c = 10 then putchar B 13 s2 else if c = 13 then putchar B 10 s2 else Some s2);
     if c = 10 \<or> c = 13 then Some (acc, s3) else gets_from B (acc @ [c]) s3 }"

definition gets :: "'s bus \<Rightarrow> 's \<Rightarrow> (cstring \<times> 's) option" where
  "gets B s = gets_from B [] s"

definition get_int :: "'s bus \<Rightarrow> 's \<Rightarrow> (u32 \<times> 's) option" where
  "get_int B s = do { (txt, s1) \<leftarrow> gets B s; Some (fst (simple_strtol txt 0), s1) }"

definition get_uint :: "'s bus \<Rightarrow> 's \<Rightarrow> (u32 \<times> 's) option" where
  "get_uint B s = do { (txt, s1) \<leftarrow> gets B s; Some (fst (simple_strtoul txt 0), s1) }"

section \<open>What the transmitter does\<close>

text \<open>
  The documented behaviour of the transmitter that output relies on: a store to \<^verbatim>\<open>UTXH0\<close> appends
  the byte to what is sent (\<open>tx\<close>), reading the status sends nothing, and after finitely many
  reads the status shows an empty transmit buffer.
\<close>

definition uart_tx :: "'s bus \<Rightarrow> ('s \<Rightarrow> u8 list) \<Rightarrow> bool" where
  "uart_tx B tx \<longleftrightarrow>
     (\<forall>c s. tx (wr8 B UTXH0 c s) = tx s @ [c]) \<and>
     (\<forall>s. tx (snd (rd32 B UTRSTAT0 s)) = tx s) \<and>
     (\<forall>s. \<exists>n. fst (rd32 B UTRSTAT0 (((\<lambda>s. snd (rd32 B UTRSTAT0 s)) ^^ n) s)) AND 4 \<noteq> 0)"

lemma putchar_sends:
  assumes "uart_tx B tx"
  shows "\<exists>s'. putchar B c s = Some s' \<and> tx s' = tx s @ [c]"
proof -
  obtain n where "fst (rd32 B UTRSTAT0 (((\<lambda>s. snd (rd32 B UTRSTAT0 s)) ^^ n) s)) AND 4 \<noteq> 0"
    using assms unfolding uart_tx_def by blast
  then obtain v s1 where p: "poll (rd32 B UTRSTAT0) (\<lambda>v. v AND push_bit 2 1 \<noteq> 0) s = Some (v, s1)"
    using poll_returns [of "\<lambda>v. v AND push_bit 2 1 \<noteq> 0" "rd32 B UTRSTAT0" n s] by auto
  from p have "tx s1 = tx s"
    by (rule poll_frame) (use assms in \<open>simp add: uart_tx_def\<close>)
  with p assms show ?thesis by (simp add: putchar_def uart_tx_def)
qed

lemma puts_sends:
  assumes "uart_tx B tx"
  shows "\<exists>s'. puts B cs s = Some s' \<and> tx s' = tx s @ cs"
proof (induction cs arbitrary: s)
  case Nil
  then show ?case by simp
next
  case (Cons c cs)
  obtain s1 where "putchar B c s = Some s1" "tx s1 = tx s @ [c]"
    using putchar_sends [OF assms] by blast
  with Cons.IH [of s1] show ?case by auto
qed

text \<open>What neither a store to the transmitter nor a load of its status changes, output does not change.\<close>

definition uart_frame :: "'s bus \<Rightarrow> ('s \<Rightarrow> 'v) \<Rightarrow> bool" where
  "uart_frame B f \<longleftrightarrow> (\<forall>c s. f (wr8 B UTXH0 c s) = f s) \<and> (\<forall>s. f (snd (rd32 B UTRSTAT0 s)) = f s)"

lemma putchar_frame:
  assumes "uart_frame B f" and "putchar B c s = Some s'"
  shows "f s' = f s"
proof -
  from assms(2) obtain v s1 where p: "poll (rd32 B UTRSTAT0) (\<lambda>v. v AND push_bit 2 1 \<noteq> 0) s = Some (v, s1)"
    and s': "s' = wr8 B UTXH0 c s1" by (auto simp: putchar_def split: Option.bind_splits)
  from p have "f s1 = f s" by (rule poll_frame) (use assms(1) in \<open>simp add: uart_frame_def\<close>)
  with s' assms(1) show ?thesis by (simp add: uart_frame_def)
qed

lemma puts_frame:
  assumes "uart_frame B f" and "puts B cs s = Some s'"
  shows "f s' = f s"
  using assms(2)
proof (induction cs arbitrary: s)
  case (Cons c cs)
  then obtain s1 where "putchar B c s = Some s1" "puts B cs s1 = Some s'"
    by (auto split: Option.bind_splits)
  with Cons.IH putchar_frame [OF assms(1)] show ?case by metis
qed simp

text \<open>The text \<^verbatim>\<open>printHex\<close> puts after the \<^verbatim>\<open>0x\<close>.\<close>

definition hex8 :: "u32 \<Rightarrow> cstring" where
  "hex8 val = concat (map hex_digit (rev (hex_nibbles 8 val)))"

lemma printHex_sends:
  assumes "uart_tx B tx"
  shows "\<exists>s'. printHex B val s = Some s' \<and> tx s' = tx s @ str ''0x'' @ hex8 val"
proof -
  obtain s1 where "puts B (str ''0x'') s = Some s1" "tx s1 = tx s @ str ''0x''"
    using puts_sends [OF assms] by blast
  moreover obtain s2 where "puts B (hex8 val) s1 = Some s2" "tx s2 = tx s1 @ hex8 val"
    using puts_sends [OF assms] by blast
  ultimately show ?thesis by (simp add: printHex_def hex8_def)
qed

section \<open>Printed numbers read back\<close>

lemma hex_digit_single:
  assumes "unat a < 16"
  shows "\<exists>c. hex_digit a = [c] \<and> is_digit_of 16 c \<and> digit_nat c = unat a"
proof -
  have "a = of_nat (unat a)" by simp
  moreover have "unat a \<in> {0, 1, 2, 3, 4, 5, 6, 7, 8, 9, 10, 11, 12, 13, 14, 15}"
    using assms by (simp only: insert_iff empty_iff) presburger
  ultimately show ?thesis
    by (elim insertE emptyE)
      (simp_all add: hex_digit_def is_digit_of_def isxdigit_iff digit_nat_def)
qed

lemma digits_nat_snoc: "digits_nat b (ds @ [c]) = digits_nat b ds * b + digit_nat c"
  by (simp add: digits_nat_def)

lemma hex_nibbles_digits:
  "digits_nat 16 (concat (map hex_digit (rev (hex_nibbles n val)))) = unat val mod 16 ^ n \<and>
   length (concat (map hex_digit (rev (hex_nibbles n val)))) = n \<and>
   (\<forall>c \<in> set (concat (map hex_digit (rev (hex_nibbles n val)))). is_digit_of 16 c)"
proof (induction n arbitrary: val)
  case 0
  then show ?case by (simp add: digits_nat_def)
next
  case (Suc n)
  have low: "unat (val AND 0xf) = unat val mod 16"
    using and_mask_unat [of val 4] by (simp add: mask_eq_exp_minus_1)
  then obtain c where c: "hex_digit (val AND 0xf) = [c]" "is_digit_of 16 c" "digit_nat c = unat val mod 16"
    using hex_digit_single [of "val AND 0xf"] by auto
  have "unat (drop_bit 4 val) = unat val div 16"
    using unat_shift_right [of 4 val] by simp
  moreover have "unat val mod 16 ^ Suc n = unat val div 16 mod 16 ^ n * 16 + unat val mod 16"
    by (simp add: mod_mult2_eq)
  ultimately show ?case
    using Suc.IH [of "drop_bit 4 val"] c by (simp add: digits_nat_snoc)
qed

lemma hex8_digits:
  "digits_nat 16 (hex8 val) = unat val" "length (hex8 val) = 8" "\<forall>c \<in> set (hex8 val). is_digit_of 16 c"
  using hex_nibbles_digits [of 8 val] unat_less [of val] by (simp_all add: hex8_def)

text \<open>
  \<^verbatim>\<open>printHex\<close> returns and sends ten characters, which \<^verbatim>\<open>simple_strtoul\<close> reads back as the
  printed word.
\<close>

theorem printHex_roundtrip:
  assumes "uart_tx B tx"
  shows "\<exists>s' out. printHex B val s = Some s' \<and> tx s' = tx s @ out \<and> length out = 10 \<and>
    simple_strtoul out 0 = (val, [])"
proof -
  obtain s' where "printHex B val s = Some s'" "tx s' = tx s @ str ''0x'' @ hex8 val"
    using printHex_sends [OF assms] by blast
  moreover have pre: "str ''0x'' = base_prefix 16"
    by (simp add: str_def base_prefix_def)
  moreover have "simple_strtoul (base_prefix 16 @ hex8 val @ []) 0 = (of_nat (digits_nat 16 (hex8 val)), [])"
    using hex8_digits [of val]
    by (intro simple_strtoul_base) (auto simp: is_digit_of_def isxdigit_iff)
  ultimately show ?thesis
    using hex8_digits [of val] by (auto simp: base_prefix_def)
qed

text \<open>A transmitter that is always ready and keeps what it sent.\<close>

definition uart_ready_bus :: "u8 list bus" where
  "uart_ready_bus = \<lparr>rd8 = (\<lambda>a s. (0, s)), rd16 = (\<lambda>a s. (0, s)), rd32 = (\<lambda>a s. (6, s)),
     wr8 = (\<lambda>a c s. if a = UTXH0 then s @ [c] else s), wr16 = (\<lambda>a c s. s), wr32 = (\<lambda>a c s. s)\<rparr>"

lemma uart_ready_bus_tx: "uart_tx uart_ready_bus id"
  by (auto simp: uart_tx_def uart_ready_bus_def)

theorem printHex_roundtrip_witness:
  "\<exists>s' out. printHex uart_ready_bus 0xABCDEF12 [] = Some s' \<and> s' = out \<and> length out = 10 \<and>
    simple_strtoul out 0 = (0xABCDEF12, [])"
  using printHex_roundtrip [OF uart_ready_bus_tx, of "0xABCDEF12" "[]"] by simp

end
