(* ===== verification/My_Printf.thy ===== *)
theory My_Printf
  imports Console
begin

text \<open>
  The formatted output of \<^verbatim>\<open>my_printf.c\<close>. The functions compute the characters in the order in which
  the code hands them to \<^verbatim>\<open>putchar\<close>; \<^verbatim>\<open>printf\<close> sends them.
\<close>

section \<open>Numbers\<close>

definition hex_tab :: cstring where
  "hex_tab = [0x30, 0x31, 0x32, 0x33, 0x34, 0x35, 0x36, 0x37,
              0x38, 0x39, 0x61, 0x62, 0x63, 0x64, 0x65, 0x66]"

definition MAX_NUMBER_BYTES :: nat where
  "MAX_NUMBER_BYTES = 64"

text \<open>
  \<^verbatim>\<open>*--s = c\<close>: the buffer is filled from its end, so the list is what lies between \<^verbatim>\<open>s\<close> and the
  end. \<open>None\<close> stands for the store below the buffer.
\<close>

definition push :: "u8 \<Rightarrow> cstring \<Rightarrow> cstring option" where
  "push c buf = (if length buf < MAX_NUMBER_BYTES then Some (c # buf) else None)"

text \<open>The \<^verbatim>\<open>do ... while ((m /= base) != 0)\<close> loop; it ends because the buffer does.\<close>

function out_digits :: "u32 \<Rightarrow> u32 \<Rightarrow> cstring \<Rightarrow> cstring option" where
  "out_digits m base buf =
     (case push (hex_tab ! unat (m mod base)) buf of
        None \<Rightarrow> None
      | Some buf' \<Rightarrow> if m div base \<noteq> 0 then out_digits (m div base) base buf' else Some buf')"
  by pat_completeness auto
termination
  by (relation "measure (\<lambda>(m, base, buf). MAX_NUMBER_BYTES - length buf)")
    (auto simp: push_def split: if_splits)

declare out_digits.simps [simp del]

fun out_lead :: "nat \<Rightarrow> u8 \<Rightarrow> cstring \<Rightarrow> cstring option" where
  "out_lead 0 lead buf = Some buf"
| "out_lead (Suc i) lead buf = do { buf' \<leftarrow> push lead buf; out_lead i lead buf' }"

text \<open>The string in the buffer, which \<^verbatim>\<open>outs\<close> sends up to its terminator.\<close>

definition outs :: "cstring \<Rightarrow> cstring" where
  "outs s = takeWhile (\<lambda>c. c \<noteq> 0) s"

definition out_num :: "u32 \<Rightarrow> u32 \<Rightarrow> u8 \<Rightarrow> nat \<Rightarrow> cstring option" where
  "out_num n base lead maxwidth = do {
     buf \<leftarrow> push 0 [];
     let m = (if sint n < 0 then - n else n);
     buf1 \<leftarrow> out_digits m base buf;
     let count = length buf1 - length buf;
     buf2 \<leftarrow> (if maxwidth \<noteq> 0 \<and> count < maxwidth then out_lead (maxwidth - count) lead buf1
              else Some buf1);
     buf3 \<leftarrow> (if sint n < 0 then push 0x2D buf2 else Some buf2);
     Some (outs buf3) }"

section \<open>Formats\<close>

fun parse_width :: "cstring \<Rightarrow> nat \<Rightarrow> nat \<times> cstring" where
  "parse_width [] maxwidth = (maxwidth, [])"
| "parse_width (c # fmt) maxwidth =
     (if 0x30 \<le> c \<and> c \<le> 0x39 then parse_width fmt (maxwidth * 10 + (unat c - 0x30))
      else (maxwidth, c # fmt))"

lemma length_parse_width: "length (snd (parse_width fmt w)) \<le> length fmt"
  by (induction fmt w rule: parse_width.induct) auto

text \<open>The flag \<^verbatim>\<open>0\<close> and the width after a percent sign, and where the conversion character is.\<close>

definition parse_directive :: "cstring \<Rightarrow> u8 \<times> nat \<times> cstring" where
  "parse_directive fmt =
     (let (lead, fmt1) = (if deref fmt = 0x30 then (0x30, tl fmt) else (0x20, fmt))
      in (lead, parse_width fmt1 0))"

lemma parse_directive_shorter:
  assumes "(lead, w, d # fmt') = parse_directive fmt"
  shows "length fmt' \<le> length fmt"
proof -
  have "length (snd (snd (parse_directive fmt))) \<le> length fmt"
    using length_parse_width [of "tl fmt" 0] length_parse_width [of fmt 0]
    by (auto simp: parse_directive_def simp del: parse_width.simps)
  then show ?thesis by (simp flip: assms)
qed

text \<open>
  The arguments \<open>ap k\<close>, \<open>ap (k + 1)\<close>, \dots are the words on the stack that \<^verbatim>\<open>va_arg\<close> reads, and
  \<open>mem p\<close> is the string at address \<open>p\<close>. A format that ends in the middle of a directive makes
  the loop step over the terminator of the format; what it then reads is undefined (\<open>None\<close>).
\<close>

function my_vprintf :: "(u32 \<Rightarrow> cstring) \<Rightarrow> cstring \<Rightarrow> (nat \<Rightarrow> u32) \<Rightarrow> nat \<Rightarrow> cstring option" where
  "my_vprintf mem [] ap k = Some []"
| "my_vprintf mem (c # fmt) ap k =
     (if c \<noteq> 0x25 then do { rest \<leftarrow> my_vprintf mem fmt ap k; Some (c # rest) }
      else
        let (lead, maxwidth, fmt2) = parse_directive fmt
        in case fmt2 of
             [] \<Rightarrow> None
           | d # fmt3 \<Rightarrow>
               if d = 0x64 then do { txt \<leftarrow> out_num (ap k) 10 lead maxwidth;
                 rest \<leftarrow> my_vprintf mem fmt3 ap (Suc k); Some (txt @ rest) }
               else if d = 0x6f then do { txt \<leftarrow> out_num (ap k) 8 lead maxwidth;
                 rest \<leftarrow> my_vprintf mem fmt3 ap (Suc k); Some (txt @ rest) }
               else if d = 0x75 then do { txt \<leftarrow> out_num (ap k) 10 lead maxwidth;
                 rest \<leftarrow> my_vprintf mem fmt3 ap (Suc k); Some (txt @ rest) }
               else if d = 0x78 then do { txt \<leftarrow> out_num (ap k) 16 lead maxwidth;
                 rest \<leftarrow> my_vprintf mem fmt3 ap (Suc k); Some (txt @ rest) }
               else if d = 0x63 then do {
                 rest \<leftarrow> my_vprintf mem fmt3 ap (Suc k); Some (ucast (ap k) # rest) }
               else if d = 0x73 then do {
                 rest \<leftarrow> my_vprintf mem fmt3 ap (Suc k); Some (outs (mem (ap k)) @ rest) }
               else do { rest \<leftarrow> my_vprintf mem fmt3 ap k; Some (d # rest) })"
  by pat_completeness auto
termination
proof (relation "measure (\<lambda>(mem, fmt, ap, k). length fmt)")
  show "wf (measure (\<lambda>(mem :: u32 \<Rightarrow> cstring, fmt :: cstring, ap :: nat \<Rightarrow> u32, k :: nat). length fmt))"
    by simp
qed (auto simp: less_Suc_eq_le dest: parse_directive_shorter)

definition printf :: "'s bus \<Rightarrow> (u32 \<Rightarrow> cstring) \<Rightarrow> cstring \<Rightarrow> (nat \<Rightarrow> u32) \<Rightarrow> 's \<Rightarrow> 's option" where
  "printf B mem fmt ap s = do { txt \<leftarrow> my_vprintf mem fmt ap 0; puts B txt s }"

text \<open>
  A call \<^verbatim>\<open>printf(fmt, a, b, ...)\<close>: the arguments are words, or strings, whose addresses are
  their positions.
\<close>

datatype va_arg = Va_int u32 | Va_str cstring

definition va_word :: "va_arg list \<Rightarrow> nat \<Rightarrow> u32" where
  "va_word args k = (if k < length args then (case args ! k of Va_int v \<Rightarrow> v | Va_str _ \<Rightarrow> of_nat k) else 0)"

definition va_mem :: "va_arg list \<Rightarrow> u32 \<Rightarrow> cstring" where
  "va_mem args p =
     (if unat p < length args then (case args ! unat p of Va_int _ \<Rightarrow> [] | Va_str txt \<Rightarrow> txt) else [])"

definition printf_va :: "'s bus \<Rightarrow> cstring \<Rightarrow> va_arg list \<Rightarrow> 's \<Rightarrow> 's option" where
  "printf_va B fmt args s = printf B (va_mem args) fmt (va_word args) s"

lemma printf_sends:
  assumes "uart_tx B tx" and "my_vprintf mem fmt ap 0 = Some txt"
  shows "\<exists>s'. printf B mem fmt ap s = Some s' \<and> tx s' = tx s @ txt"
  using puts_sends [OF assms(1)] assms(2) by (simp add: printf_def)

section \<open>Correctness of the number output\<close>

text \<open>The digits of a number, most significant first, without a buffer.\<close>

fun digit_chars :: "nat \<Rightarrow> nat \<Rightarrow> cstring" where
  "digit_chars b n =
     (if n < b \<or> b < 2 then [hex_tab ! (n mod b)] else digit_chars b (n div b) @ [hex_tab ! (n mod b)])"

declare digit_chars.simps [simp del]

lemma digit_chars_small: "n < b \<Longrightarrow> digit_chars b n = [hex_tab ! n]"
  by (simp add: digit_chars.simps)

lemma digit_chars_large:
  "\<not> n < b \<Longrightarrow> 1 < b \<Longrightarrow> digit_chars b n = digit_chars b (n div b) @ [hex_tab ! (n mod b)]"
  by (subst digit_chars.simps) simp

lemma word_div_eq_0: "0 < unat b \<Longrightarrow> m div b = 0 \<longleftrightarrow> unat m < unat (b :: u32)"
proof -
  assume b: "0 < unat b"
  have "m div b = 0 \<longleftrightarrow> unat (m div b) = 0" by (metis unat_0_iff)
  also have "\<dots> \<longleftrightarrow> unat m < unat b" using b by (simp add: unat_div div_eq_0_iff)
  finally show ?thesis .
qed

lemma out_digits_eq:
  assumes "1 < unat base"
  shows "out_digits m base buf =
    (if length (digit_chars (unat base) (unat m)) + length buf \<le> MAX_NUMBER_BYTES
     then Some (digit_chars (unat base) (unat m) @ buf) else None)"
  using assms
proof (induction m base buf rule: out_digits.induct)
  case (1 m base buf)
  let ?b = "unat base" and ?m = "unat m" and ?c = "hex_tab ! unat (m mod base)"
  have c: "unat (m mod base) = ?m mod ?b" by (simp add: unat_mod)
  show ?case
  proof (cases "?m < ?b")
    case True
    then have "m div base = 0" using "1.prems" by (simp add: word_div_eq_0)
    then have "out_digits m base buf = push ?c buf"
      by (subst out_digits.simps) (simp split: option.split)
    then show ?thesis using True c by (simp add: push_def digit_chars_small Suc_le_eq)
  next
    case False
    then have d: "m div base \<noteq> 0" using "1.prems" by (simp add: word_div_eq_0)
    have m': "unat (m div base) = ?m div ?b" by (simp add: unat_div)
    have dc: "digit_chars ?b ?m = digit_chars ?b (?m div ?b) @ [?c]"
      using False "1.prems" c by (simp add: digit_chars_large)
    show ?thesis
    proof (cases "length buf < MAX_NUMBER_BYTES")
      case True
      then have "out_digits m base buf = out_digits (m div base) base (?c # buf)"
        using d by (subst out_digits.simps) (simp add: push_def)
      also have "\<dots> = (if length (digit_chars ?b (?m div ?b)) + length (?c # buf) \<le> MAX_NUMBER_BYTES
          then Some (digit_chars ?b (?m div ?b) @ ?c # buf) else None)"
        using "1.IH" [of "?c # buf"] True d "1.prems" by (simp add: push_def m')
      finally show ?thesis by (simp add: dc)
    next
      case False
      then show ?thesis by (subst out_digits.simps) (simp add: push_def dc)
    qed
  qed
qed

lemma out_lead_eq:
  "out_lead i lead buf =
    (if i = 0 \<or> i + length buf \<le> MAX_NUMBER_BYTES then Some (replicate i lead @ buf) else None)"
  by (induction i lead buf rule: out_lead.induct)
    (auto simp: push_def replicate_app_Cons_same)

text \<open>At most eleven digits are needed, so the digits alone always fit.\<close>

lemma length_digit_chars: "8 \<le> b \<Longrightarrow> n < 8 ^ k \<Longrightarrow> 0 < k \<Longrightarrow> length (digit_chars b n) \<le> k"
proof (induction k arbitrary: n)
  case 0
  then show ?case by simp
next
  case (Suc k)
  show ?case
  proof (cases "n < b")
    case True
    then show ?thesis by (simp add: digit_chars_small)
  next
    case False
    have "n div b \<le> n div 8" using Suc.prems(1) by (simp add: div_le_mono2)
    also have "\<dots> < 8 ^ k" using Suc.prems(2) by (simp add: less_mult_imp_div_less mult.commute)
    finally have small: "n div b < 8 ^ k" .
    have "0 < k"
    proof (rule ccontr)
      assume "\<not> 0 < k"
      with Suc.prems False show False by simp
    qed
    with Suc.IH small Suc.prems(1) False show ?thesis by (simp add: digit_chars_large)
  qed
qed

lemma hex_tab_digit:
  assumes "n < b" and "b \<le> 16"
  shows "is_digit_of b (hex_tab ! n) \<and> digit_nat (hex_tab ! n) = n \<and> hex_tab ! n \<noteq> 0 \<and>
    (hex_tab ! n = 0x30 \<longleftrightarrow> n = 0)"
proof -
  have "n \<in> {0, 1, 2, 3, 4, 5, 6, 7, 8, 9, 10, 11, 12, 13, 14, 15}"
    using assms by (simp only: insert_iff empty_iff) presburger
  then show ?thesis
    using assms(1) by (elim insertE emptyE)
      (simp_all add: hex_tab_def is_digit_of_def isxdigit_iff digit_nat_def)
qed

lemma digit_chars_digits:
  assumes "1 < b" and "b \<le> 16"
  shows "digits_nat b (digit_chars b n) = n \<and> (\<forall>c \<in> set (digit_chars b n). is_digit_of b c \<and> c \<noteq> 0) \<and>
    digit_chars b n \<noteq> [] \<and> (hd (digit_chars b n) = 0x30 \<longleftrightarrow> n = 0)"
proof (induction n rule: less_induct)
  case (less n)
  show ?case
  proof (cases "n < b")
    case True
    then show ?thesis
      using hex_tab_digit [OF True assms(2)] by (simp add: digit_chars_small digits_nat_def)
  next
    case False
    then have "n div b < n" "n div b \<noteq> 0" "n mod b < b" using assms by (auto simp: div_eq_0_iff)
    with less [of "n div b"] False assms hex_tab_digit [of "n mod b" b] show ?thesis
      by (auto simp: digit_chars_large digits_nat_snoc)
  qed
qed

text \<open>The magnitude that is printed, and the sign.\<close>

definition magnitude :: "u32 \<Rightarrow> u32" where
  "magnitude n = (if sint n < 0 then - n else n)"

definition sign_chars :: "u32 \<Rightarrow> cstring" where
  "sign_chars n = (if sint n < 0 then [0x2D] else [])"

text \<open>
  Without limits on the width: the text of the number, padded, with the sign in front, provided
  that it fits into the buffer with its terminator.
\<close>

lemma out_num_eq:
  assumes b: "8 \<le> unat base" "unat base \<le> 16" and lead: "lead \<noteq> 0"
  shows "out_num n base lead w =
    (let ds = digit_chars (unat base) (unat (magnitude n));
         txt = sign_chars n @ replicate (w - length ds) lead @ ds
     in if length txt < MAX_NUMBER_BYTES then Some txt else None)"
proof -
  define ds where "ds = digit_chars (unat base) (unat (magnitude n))"
  have "unat (magnitude n) < 8 ^ 11" using unat_less [of "magnitude n"] by simp
  then have len: "length ds \<le> 11"
    unfolding ds_def using b by (intro length_digit_chars) simp_all
  have nz: "\<forall>c \<in> set ds. c \<noteq> 0"
    unfolding ds_def using digit_chars_digits [of "unat base" "unat (magnitude n)"] b by simp
  have digits: "out_digits (magnitude n) base [0] = Some (ds @ [0])"
    using len b by (simp add: out_digits_eq ds_def [symmetric] MAX_NUMBER_BYTES_def)
  have p0: "push 0 [] = Some [0]" and cnt: "length (ds @ [0]) - length [0 :: u8] = length ds"
    by (simp_all add: push_def MAX_NUMBER_BYTES_def)
  have outs: "outs (xs @ ds @ [0]) = xs @ ds" if "\<forall>c \<in> set xs. c \<noteq> 0" for xs
    using that nz unfolding outs_def
    by (subst append.assoc [symmetric], subst takeWhile_append2) auto
  have pad: "(if w \<noteq> 0 \<and> length ds < w then out_lead (w - length ds) lead (ds @ [0]) else Some (ds @ [0])) =
      (if length ds < w \<and> MAX_NUMBER_BYTES \<le> w then None
       else Some (replicate (w - length ds) lead @ ds @ [0]))"
    by (auto simp: out_lead_eq)
  have "out_num n base lead w = do {
      buf2 \<leftarrow> (if length ds < w \<and> MAX_NUMBER_BYTES \<le> w then None
        else Some (replicate (w - length ds) lead @ ds @ [0]));
      buf3 \<leftarrow> (if sint n < 0 then push 0x2D buf2 else Some buf2);
      Some (outs buf3) }"
    unfolding out_num_def Let_def magnitude_def [symmetric]
    by (simp only: p0 bind.bind_lunit digits cnt pad)
  also have "\<dots> = (let txt = sign_chars n @ replicate (w - length ds) lead @ ds
      in if length txt < MAX_NUMBER_BYTES then Some txt else None)"
    using len lead outs [of "replicate (w - length ds) lead"] outs [of "0x2D # replicate (w - length ds) lead"]
    by (auto simp: push_def sign_chars_def MAX_NUMBER_BYTES_def)
  finally show ?thesis by (simp add: ds_def Let_def)
qed



text \<open>
  A format that ends no directive early and asks for no wide fields is always printed: the drivers
  rely on their messages not getting stuck.
\<close>

function fmt_ok :: "cstring \<Rightarrow> bool" where
  "fmt_ok [] = True"
| "fmt_ok (c # fmt) =
     (if c \<noteq> 0x25 then fmt_ok fmt
      else let (lead, w, fmt2) = parse_directive fmt
        in case fmt2 of [] \<Rightarrow> False | d # fmt3 \<Rightarrow> w \<le> 50 \<and> fmt_ok fmt3)"
  by pat_completeness auto
termination
proof (relation "measure length")
  show "wf (measure (length :: cstring \<Rightarrow> nat))" by simp
qed (auto simp: less_Suc_eq_le dest: parse_directive_shorter)

lemma out_num_returns:
  assumes "base \<in> {8, 10, 16}" and "lead \<noteq> 0" and "w \<le> 50"
  shows "\<exists>txt. out_num n base lead w = Some txt"
proof -
  have b: "8 \<le> unat base" "unat base \<le> 16" using assms(1) by auto
  have "unat (magnitude n) < 8 ^ 11" using unat_less [of "magnitude n"] by simp
  then have "length (digit_chars (unat base) (unat (magnitude n))) \<le> 11"
    using b by (intro length_digit_chars) simp_all
  with assms(3) show ?thesis
    unfolding out_num_eq [OF b assms(2)]
    by (simp add: Let_def sign_chars_def MAX_NUMBER_BYTES_def) linarith
qed

lemma parse_directive_lead: "fst (parse_directive fmt) \<noteq> 0"
  by (simp add: parse_directive_def split: prod.split)

lemma vprintf_returns:
  assumes "fmt_ok fmt"
  shows "\<exists>txt. my_vprintf mem fmt ap k = Some txt"
  using assms
proof (induction fmt arbitrary: k rule: fmt_ok.induct)
  case 1
  then show ?case by simp
next
  case (2 c fmt)
  show ?case
  proof (cases "c = 0x25")
    case False
    with 2 have "\<exists>txt. my_vprintf mem fmt ap k = Some txt" by simp
    with False show ?thesis by auto
  next
    case True
    obtain lead w fmt2 where p: "parse_directive fmt = (lead, w, fmt2)" by (cases "parse_directive fmt")
    with True "2.prems" obtain d fmt3 where d: "fmt2 = d # fmt3" "w \<le> 50" "fmt_ok fmt3"
      by (cases fmt2) simp_all
    have "lead \<noteq> 0" using parse_directive_lead [of fmt] p by simp
    then have num: "\<exists>txt. out_num n base lead w = Some txt" if "base \<in> {8, 10, 16}" for n base
      using out_num_returns that d(2) by blast
    from num obtain t8 t10 t16 where t: "out_num (ap k) 8 lead w = Some t8"
      "out_num (ap k) 10 lead w = Some t10" "out_num (ap k) 16 lead w = Some t16"
      by (metis insertCI)
    have "\<exists>txt. my_vprintf mem fmt3 ap j = Some txt" for j
      using "2.IH"(2) [OF _ p [symmetric] refl refl d(1,3)] True by simp
    then obtain r r' where "my_vprintf mem fmt3 ap k = Some r" "my_vprintf mem fmt3 ap (Suc k) = Some r'"
      by metis
    with True p d(1) t show ?thesis by simp
  qed
qed

lemma printf_frame:
  assumes "uart_frame B f" and "printf_va B fmt args s = Some s'"
  shows "f s' = f s"
  using assms(2) puts_frame [OF assms(1)] by (auto simp: printf_va_def printf_def split: Option.bind_splits)

lemma printf_returns:
  assumes "uart_tx B tx" and "fmt_ok fmt"
  shows "\<exists>s' txt. printf_va B fmt args s = Some s' \<and> tx s' = tx s @ txt"
  using printf_sends [OF assms(1)] vprintf_returns [OF assms(2)] unfolding printf_va_def by metis

text \<open>
  With a field width \<open>w\<close> the number is padded on the left to \<open>w\<close> digits, with the sign before
  the padding; the store leaves the 64-byte buffer exactly when the text and its terminator do
  not fit.
\<close>

theorem out_num_padded:
  assumes "base \<in> {8, 10, 16}" and "lead \<noteq> 0"
  shows "\<exists>ds. digits_nat (unat base) ds = unat (magnitude n) \<and>
    out_num n base lead w =
      (if length (sign_chars n) + max w (length ds) < 64
       then Some (sign_chars n @ replicate (w - length ds) lead @ ds) else None)"
proof -
  let ?ds = "digit_chars (unat base) (unat (magnitude n))"
  have b: "8 \<le> unat base" "unat base \<le> 16" using assms(1) by auto
  have "digits_nat (unat base) ?ds = unat (magnitude n)"
    using digit_chars_digits [of "unat base"] b by simp
  moreover have "out_num n base lead w = (if length (sign_chars n) + max w (length ?ds) < 64
       then Some (sign_chars n @ replicate (w - length ?ds) lead @ ?ds) else None)"
    using b assms(2) by (auto simp: out_num_eq Let_def MAX_NUMBER_BYTES_def max_def)
  ultimately show ?thesis by blast
qed

theorem out_num_padded_witness: "out_num 12345 10 0x30 100 = None"
  using out_num_padded [of 10 "0x30" 12345 100] by (auto simp: max_def)

text \<open>
  The unsigned conversions share the signed \<^verbatim>\<open>out_num\<close>: for a word with its top bit set,
  \<^verbatim>\<open>%x\<close> prints a minus sign and the digits of the two's complement, not the digits of the word.
\<close>

theorem vprintf_hex_top_bit:
  assumes "bit n 31"
  shows "\<exists>ds. my_vprintf mem (str ''%x'') (\<lambda>_. n) 0 = Some (0x2D # ds) \<and> digits_nat 16 ds = unat (- n)"
proof -
  have neg: "sint n < 0" using assms bit_last_iff [of n] by simp
  let ?ds = "digit_chars 16 (unat (- n))"
  have "unat (- n) < 8 ^ 11" using unat_less [of "- n"] by simp
  then have len: "length ?ds \<le> 11" by (intro length_digit_chars) simp_all
  have "my_vprintf mem (str ''%x'') (\<lambda>_. n) 0 = out_num n 16 0x20 0"
    by (simp add: str_def parse_directive_def split: option.split)
  also have "\<dots> = Some (0x2D # ?ds)"
    using len neg by (simp add: out_num_eq Let_def magnitude_def sign_chars_def MAX_NUMBER_BYTES_def)
  finally show ?thesis using digit_chars_digits [of 16 "unat (- n)"] by auto
qed

theorem vprintf_hex_top_bit_witness:
  "\<exists>ds. my_vprintf (\<lambda>_. []) (str ''%x'') (\<lambda>_. 0xFFFFFFFF) 0 = Some (0x2D # ds) \<and> digits_nat 16 ds = 1"
  using vprintf_hex_top_bit [of "0xFFFFFFFF" "\<lambda>_. []"] by simp

end
