(* ===== verification/Interrupt.thy ===== *)
theory Interrupt
  imports My_Printf
begin

text \<open>
  \<^verbatim>\<open>interrupt.c\<close>: the table of interrupt handlers, the dispatcher called from the IRQ vector, and
  the handler of the keys and the photoresistor.

  A function pointer is a value of a type \<open>'f\<close> that names the handlers of the program; \<open>call\<close> says
  what calling one does. A null pointer is \<open>None\<close>.
\<close>

section \<open>Operations\<close>

type_synonym 'f irq_array = "'f option list"

text \<open>The static array at start.\<close>

definition irq_array_init :: "'f irq_array" where
  "irq_array_init = replicate 32 None"

definition interrupt_init :: "'s bus \<Rightarrow> 's \<Rightarrow> 's" where
  "interrupt_init B s =
     (let s = reg_and B INTMSK (NOT (push_bit 0 1 OR push_bit 2 1 OR push_bit 5 1)) s
      in reg_and B INTMSK (NOT (push_bit 10 1)) s)"

text \<open>\<open>None\<close>: the store leaves the array.\<close>

definition register_irq ::
  "'s bus \<Rightarrow> u32 \<Rightarrow> 'f \<Rightarrow> 'f irq_array \<times> 's \<Rightarrow> ('f irq_array \<times> 's) option" where
  "register_irq B irq fp = (\<lambda>(irqs, s).
     if unat irq < length irqs
     then Some (irqs[unat irq := Some fp], reg_and B INTMSK (NOT (push_bit (unat irq) 1)) s) else None)"

text \<open>
  The handler of EINT0 (key S2, lamp D12 on GPF6), EINT2 (S3, D11 on GPF5) and EINT8-23 (S4, D10 on
  GPF4; S5, all lamps; the photoresistor on EINT15).
\<close>

definition key_eint_irq :: "'s bus \<Rightarrow> u32 \<Rightarrow> 's \<Rightarrow> 's option" where
  "key_eint_irq B irq s = (
     let (val, s) = rd32 B EINTPEND s;
         (val1, s) = rd32 B GPFDAT s;
         (val2, s) = rd32 B GPGDAT s
     in do {
       s \<leftarrow>
         (if irq = 0 then
            if val1 AND push_bit 0 1 \<noteq> 0 then Some (reg_or B GPFDAT (push_bit 6 1) s)
            else Some (reg_and B GPFDAT (NOT (push_bit 6 1)) s)
          else if irq = 2 then
            if val1 AND push_bit 2 1 \<noteq> 0 then Some (reg_or B GPFDAT (push_bit 5 1) s)
            else Some (reg_and B GPFDAT (NOT (push_bit 5 1)) s)
          else if irq = 5 then
            if val AND push_bit 11 1 \<noteq> 0 then
              if val2 AND push_bit 3 1 \<noteq> 0 then Some (reg_or B GPFDAT (push_bit 4 1) s)
              else Some (reg_and B GPFDAT (NOT (push_bit 4 1)) s)
            else if val AND push_bit 19 1 \<noteq> 0 then
              if val2 AND push_bit 11 1 \<noteq> 0
              then Some (reg_or B GPFDAT (push_bit 4 1 OR push_bit 5 1 OR push_bit 6 1) s)
              else Some (reg_and B GPFDAT (NOT (push_bit 4 1 OR push_bit 5 1 OR push_bit 6 1)) s)
            else if val AND push_bit 15 1 \<noteq> 0 then
              if val2 AND push_bit 7 1 \<noteq> 0
              then printf_va B ([10, 13] @ str ''photoresistor dark!'' @ [10, 13]) [] s
              else printf_va B ([10, 13] @ str ''photoresistor light!'' @ [10, 13]) [] s
            else Some s
          else Some s);
       Some (wr32 B EINTPEND val s) })"

text \<open>The call through a null pointer restarts the program at address 0: it does not return.\<close>

definition handle_irq_c :: "'s bus \<Rightarrow> ('f \<Rightarrow> u32 \<Rightarrow> 's \<Rightarrow> 's option) \<Rightarrow> 'f irq_array \<Rightarrow> 's \<Rightarrow> 's option" where
  "handle_irq_c B call irqs s = (
     let (b, s) = rd32 B INTOFFSET s
     in do {
       fp \<leftarrow> (if unat b < length irqs then irqs ! unat b else None);
       s \<leftarrow> call fp b s;
       let s = wr32 B SRCPND (push_bit (unat b) 1) s;
       Some (wr32 B INTPND (push_bit (unat b) 1) s) })"

definition key_eint_init :: "'s bus \<Rightarrow> 'f \<Rightarrow> 'f irq_array \<times> 's \<Rightarrow> ('f irq_array \<times> 's) option" where
  "key_eint_init B key_fp = (\<lambda>(irqs, s).
     let s = reg_and B GPFCON (NOT (push_bit 0 3 OR push_bit 4 3)) s;
         s = reg_or B GPFCON (push_bit 0 2 OR push_bit 4 2) s;
         s = reg_and B GPGCON (NOT (push_bit 6 3 OR push_bit 22 3)) s;
         s = reg_or B GPGCON (push_bit 6 2 OR push_bit 22 2) s;
         s = reg_and B GPGCON (NOT (push_bit 14 3)) s;
         s = reg_or B GPGCON (push_bit 14 2) s;
         s = reg_or B EXTINT0 (push_bit 0 7 OR push_bit 8 7) s;
         s = reg_or B EXTINT1 (push_bit 12 7) s;
         s = reg_or B EXTINT2 (push_bit 12 7) s;
         s = reg_or B EXTINT1 (push_bit 28 7) s;
         s = reg_and B EINTMASK (NOT (push_bit 11 1 OR push_bit 19 1)) s;
         s = reg_and B EINTMASK (NOT (push_bit 15 1)) s
     in do {
       st \<leftarrow> register_irq B 0 key_fp (irqs, s);
       st \<leftarrow> register_irq B 2 key_fp st;
       register_irq B 5 key_fp st })"

section \<open>The handler table\<close>

lemma length_irq_array_init [simp]: "length irq_array_init = 32"
  by (simp add: irq_array_init_def)

lemma register_irq_in_range:
  assumes "unat irq < length irqs"
  shows "register_irq B irq fp (irqs, s) =
    Some (irqs[unat irq := Some fp], reg_and B INTMSK (NOT (push_bit (unat irq) 1)) s)"
  using assms by (simp add: register_irq_def)

text \<open>
  C37. After \<^verbatim>\<open>register_irq\<close> the source is enabled and every interrupt of that source reaches the
  registered handler, exactly once and with its own number, before the pending bits of that
  source, and only those, are acknowledged, first in \<^verbatim>\<open>SRCPND\<close> and then in \<^verbatim>\<open>INTPND\<close>.
\<close>

theorem register_then_dispatch:
  assumes "length irqs = 32" and "unat irq < 32" and "plain_reg B INTMSK msk"
    and "fst (rd32 B INTOFFSET t) = irq"
  shows "\<exists>irqs' s'. register_irq B irq fp (irqs, s) = Some (irqs', s') \<and>
    (\<forall>n < 32. bit (msk s') n \<longleftrightarrow> n \<noteq> unat irq \<and> bit (msk s) n) \<and>
    handle_irq_c B call irqs' t =
      map_option (\<lambda>u. wr32 B INTPND (push_bit (unat irq) 1) (wr32 B SRCPND (push_bit (unat irq) 1) u))
        (call fp irq (snd (rd32 B INTOFFSET t)))"
proof -
  obtain t' where t: "rd32 B INTOFFSET t = (irq, t')"
    using assms(4) by (metis prod.collapse)
  have "bit (msk (reg_and B INTMSK (NOT (push_bit (unat irq) 1)) s)) n \<longleftrightarrow> n \<noteq> unat irq \<and> bit (msk s) n"
    if "n < 32" for n
    using that assms(3) by (auto simp: plain_reg_and bit_simps)
  moreover have "handle_irq_c B call (irqs[unat irq := Some fp]) t =
      map_option (\<lambda>u. wr32 B INTPND (push_bit (unat irq) 1) (wr32 B SRCPND (push_bit (unat irq) 1) u))
        (call fp irq (snd (rd32 B INTOFFSET t)))"
    using assms t by (cases "call fp irq t'") (simp_all add: handle_irq_c_def)
  ultimately show ?thesis using assms by (simp add: register_irq_in_range)
qed

theorem register_then_dispatch_witness:
  "\<exists>irqs' s'. register_irq ram_bus 10 () (irq_array_init, (\<lambda>a. 0xFFFFFFFF)) = Some (irqs', s') \<and>
    \<not> bit (s' INTMSK) 10 \<and>
    handle_irq_c ram_bus (\<lambda>_ irq s. Some (s(0x30000000 := irq))) irqs' ((\<lambda>a. 0)(INTOFFSET := 10)) =
      Some ((\<lambda>a. 0)(INTOFFSET := 10, 0x30000000 := 10, SRCPND := 0x400, INTPND := 0x400))"
proof -
  let ?call = "\<lambda>_ irq s. Some (s(0x30000000 := irq))"
  obtain irqs' s' where r: "register_irq ram_bus 10 () (irq_array_init, (\<lambda>a. 0xFFFFFFFF)) = Some (irqs', s')"
    "\<forall>n < 32. bit (s' INTMSK) n \<longleftrightarrow> n \<noteq> unat (10 :: u32) \<and> bit (0xFFFFFFFF :: u32) n"
    "handle_irq_c ram_bus ?call irqs' ((\<lambda>a. 0)(INTOFFSET := 10)) =
      Some (((\<lambda>a. 0)(INTOFFSET := 10, 0x30000000 := 10))(SRCPND := push_bit 10 1, INTPND := push_bit 10 1))"
    using register_then_dispatch [of irq_array_init 10 ram_bus "\<lambda>s. s INTMSK" "(\<lambda>a. 0)(INTOFFSET := 10)"
      "()" "\<lambda>a. 0xFFFFFFFF" ?call] ram_bus_plain [of INTMSK] by auto
  from r(2) have "\<not> bit (s' INTMSK) 10" by simp
  with r(1,3) show ?thesis by (intro exI conjI) simp_all
qed

section \<open>Keys and lamps\<close>

text \<open>
  The documented ports: \<^verbatim>\<open>GPFDAT\<close>, \<^verbatim>\<open>GPGDAT\<close> and \<^verbatim>\<open>EINTPEND\<close> are read without side effect,
  \<^verbatim>\<open>GPFDAT\<close> keeps what is stored, and the acknowledge store to \<^verbatim>\<open>EINTPEND\<close> does not touch it.
\<close>

definition key_ports :: "'s bus \<Rightarrow> ('s \<Rightarrow> u32) \<Rightarrow> ('s \<Rightarrow> u32) \<Rightarrow> ('s \<Rightarrow> u32) \<Rightarrow> bool" where
  "key_ports B gpf gpg pend \<longleftrightarrow>
     plain_reg B GPFDAT gpf \<and> (\<forall>s. rd32 B GPGDAT s = (gpg s, s)) \<and> (\<forall>s. rd32 B EINTPEND s = (pend s, s)) \<and>
     (\<forall>v s. gpf (wr32 B EINTPEND v s) = gpf s)"

text \<open>Which lamps an interrupt drives, and the level it drives them to (high is off).\<close>

definition lamps_of :: "u32 \<Rightarrow> u32 \<Rightarrow> nat set" where
  "lamps_of irq pend =
     (if irq = 0 then {6} else if irq = 2 then {5}
      else if irq = 5 \<and> bit pend 11 then {4} else if irq = 5 \<and> bit pend 19 then {4, 5, 6} else {})"

definition key_level :: "u32 \<Rightarrow> u32 \<Rightarrow> u32 \<Rightarrow> u32 \<Rightarrow> bool" where
  "key_level irq pend gpf gpg =
     (if irq = 0 then bit gpf 0 else if irq = 2 then bit gpf 2
      else if bit pend 11 then bit gpg 3 else bit gpg 11)"

definition drive :: "'s bus \<Rightarrow> u32 \<Rightarrow> bool \<Rightarrow> 's \<Rightarrow> 's" where
  "drive B m level s = (if level then reg_or B GPFDAT m s else reg_and B GPFDAT (NOT m) s)"

lemma bit_drive:
  assumes "plain_reg B GPFDAT gpf" and "n < 32"
  shows "bit (gpf (drive B m level s)) n \<longleftrightarrow> (if bit m n then level else bit (gpf s) n)"
  using assms by (simp add: drive_def plain_reg_simps [OF assms(1)] bit_simps)

lemma key_eint_irq_drive:
  assumes p: "key_ports B gpf gpg pend" and l: "lamps_of irq (pend s) = L" "L \<noteq> {}"
  shows "\<exists>m. (\<forall>n < 32. bit m n \<longleftrightarrow> n \<in> L) \<and> key_eint_irq B irq s =
    Some (wr32 B EINTPEND (pend s) (drive B m (key_level irq (pend s) (gpf s) (gpg s)) s))"
proof -
  have r: "\<And>s. rd32 B GPFDAT s = (gpf s, s)" "\<And>s. rd32 B GPGDAT s = (gpg s, s)" "\<And>s. rd32 B EINTPEND s = (pend s, s)"
    using p by (simp_all add: key_ports_def plain_reg_rd)
  let ?m = "if irq = 0 then push_bit 6 1 else if irq = 2 then push_bit 5 1
    else if bit (pend s) 11 then push_bit 4 1 else push_bit 4 1 OR push_bit 5 1 OR push_bit 6 1 :: u32"
  have "\<forall>n < 32. bit ?m n \<longleftrightarrow> n \<in> L"
    using l by (auto simp: lamps_of_def bit_simps simp del: push_bit_of_1 split: if_splits)
  moreover have "key_eint_irq B irq s =
      Some (wr32 B EINTPEND (pend s) (drive B ?m (key_level irq (pend s) (gpf s) (gpg s)) s))"
    using l unfolding key_eint_irq_def and_bit_eq_0 r drive_def key_level_def lamps_of_def Let_def
    by (simp del: push_bit_of_1 split: if_splits)
  ultimately show ?thesis by blast
qed

lemma key_eint_irq_other:
  assumes p: "key_ports B gpf gpg pend" and "lamps_of irq (pend s) = {}" "irq = 5 \<longrightarrow> \<not> bit (pend s) 15"
  shows "key_eint_irq B irq s = Some (wr32 B EINTPEND (pend s) s)"
proof -
  have r: "\<And>s. rd32 B GPFDAT s = (gpf s, s)" "\<And>s. rd32 B GPGDAT s = (gpg s, s)" "\<And>s. rd32 B EINTPEND s = (pend s, s)"
    using p by (simp_all add: key_ports_def plain_reg_rd)
  have c: "irq \<noteq> 0" "irq \<noteq> 2" "irq = 5 \<longrightarrow> \<not> bit (pend s) 11 \<and> \<not> bit (pend s) 19 \<and> \<not> bit (pend s) 15"
    using assms(2,3) by (auto simp: lamps_of_def split: if_splits)
  show ?thesis
    unfolding key_eint_irq_def and_bit_eq_0 r Let_def
    using c by (cases "irq = 5") simp_all
qed

text \<open>
  A key interrupt (no photoresistor event pending) drives exactly the lamps of that key to the
  level of the key's pin, leaves every other bit of the port alone and acknowledges what was
  pending when it started.
\<close>

theorem key_eint_irq_lamps:
  assumes "key_ports B gpf gpg pend" and "irq = 5 \<longrightarrow> bit (pend s) 11 \<or> bit (pend s) 19 \<or> \<not> bit (pend s) 15"
  shows "\<exists>u. key_eint_irq B irq s = Some (wr32 B EINTPEND (pend s) u) \<and>
    (\<forall>n < 32. bit (gpf (wr32 B EINTPEND (pend s) u)) n \<longleftrightarrow>
      (if n \<in> lamps_of irq (pend s) then key_level irq (pend s) (gpf s) (gpg s) else bit (gpf s) n))"
proof -
  have gpf: "plain_reg B GPFDAT gpf" and ack: "\<And>v s. gpf (wr32 B EINTPEND v s) = gpf s"
    using assms(1) by (simp_all add: key_ports_def)
  show ?thesis
  proof (cases "lamps_of irq (pend s) = {}")
    case True
    with assms(2) have "irq = 5 \<longrightarrow> \<not> bit (pend s) 15" by (auto simp: lamps_of_def split: if_splits)
    with key_eint_irq_other [OF assms(1) True] True ack show ?thesis by auto
  next
    case False
    with key_eint_irq_drive [OF assms(1) refl] obtain m where
      "\<forall>n < 32. bit m n \<longleftrightarrow> n \<in> lamps_of irq (pend s)" "key_eint_irq B irq s =
        Some (wr32 B EINTPEND (pend s) (drive B m (key_level irq (pend s) (gpf s) (gpg s)) s))"
      by blast
    with bit_drive [OF gpf] ack show ?thesis by auto
  qed
qed

theorem key_eint_irq_lamps_witness:
  "\<exists>u. key_eint_irq ram_bus 2 ((\<lambda>a. 0)(GPFDAT := 0x14)) = Some u \<and> bit (u GPFDAT) 5 \<and> bit (u GPFDAT) 4"
proof -
  have "key_ports ram_bus (\<lambda>s. s GPFDAT) (\<lambda>s. s GPGDAT) (\<lambda>s. s EINTPEND)"
    by (simp add: key_ports_def ram_bus_plain sfr)
  from key_eint_irq_lamps [OF this, of 2 "(\<lambda>a. 0)(GPFDAT := 0x14)"]
  show ?thesis by (fastforce simp: lamps_of_def key_level_def)
qed

end
