(* ===== verification/Timers.thy ===== *)
theory Timers
  imports Interrupt
begin

text \<open>
  \<^verbatim>\<open>timer.c\<close> and \<^verbatim>\<open>led.c\<close>: the table of software timers that the 10 ms interrupt runs, the delay
  loops and the system time, which read the free-running counter of timer 0, and the counting
  lamps, the table's client.
\<close>

section \<open>The table of software timers\<close>

definition TIMER_NUM :: nat where
  "TIMER_NUM = 32"

record 'f timer_desc =
  timer_name :: "cstring option"
  timer_fp :: "'f option"

record 'f timers =
  timer_array :: "'f timer_desc list"
  g_system_time_10ms_cnt :: u64

definition timers_init :: "'f timers" where
  "timers_init = \<lparr>timer_array = replicate TIMER_NUM \<lparr>timer_name = None, timer_fp = None\<rparr>,
     g_system_time_10ms_cnt = 0\<rparr>"

text \<open>The loop over the slots is the recursion over the array.\<close>

fun register_timer :: "cstring \<Rightarrow> 'f \<Rightarrow> 'f timer_desc list \<Rightarrow> int \<times> 'f timer_desc list" where
  "register_timer nm f [] = (-1, [])"
| "register_timer nm f (t # ts) =
     (if timer_fp t = None then (0, t\<lparr>timer_name := Some nm, timer_fp := Some f\<rparr> # ts)
      else let (r, ts') = register_timer nm f ts in (r, t # ts'))"

text \<open>
  The comparison also reads the names of free slots, null pointers: what \<^verbatim>\<open>strcmp\<close> then finds is
  the string at address 0, \<open>str0\<close>. (The source declares the function \<^verbatim>\<open>void\<close> but returns these codes.)
\<close>

fun unregister_timer :: "cstring \<Rightarrow> cstring \<Rightarrow> 'f timer_desc list \<Rightarrow> int \<times> 'f timer_desc list" where
  "unregister_timer str0 nm [] = (-1, [])"
| "unregister_timer str0 nm (t # ts) =
     (if strcmp (case timer_name t of None \<Rightarrow> str0 | Some n \<Rightarrow> n) nm = 0
      then (0, t\<lparr>timer_name := None, timer_fp := None\<rparr> # ts)
      else let (r, ts') = unregister_timer str0 nm ts in (r, t # ts'))"

fun call_timers :: "('f \<Rightarrow> 's \<Rightarrow> 's option) \<Rightarrow> 'f timer_desc list \<Rightarrow> 's \<Rightarrow> 's option" where
  "call_timers call [] s = Some s"
| "call_timers call (t # ts) s =
     (case timer_fp t of
        None \<Rightarrow> call_timers call ts s
      | Some f \<Rightarrow> do { s1 \<leftarrow> call f s; call_timers call ts s1 })"

definition timer_irq :: "('f \<Rightarrow> 's \<Rightarrow> 's option) \<Rightarrow> 'f timers \<times> 's \<Rightarrow> ('f timers \<times> 's) option" where
  "timer_irq call = (\<lambda>(tm, s).
     let tm = tm\<lparr>g_system_time_10ms_cnt := g_system_time_10ms_cnt tm + 1\<rparr>
     in do { s1 \<leftarrow> call_timers call (timer_array tm) s; Some (tm, s1) })"

definition timer_init :: "'s bus \<Rightarrow> 'h \<Rightarrow> 'h irq_array \<times> 's \<Rightarrow> ('h irq_array \<times> 's) option" where
  "timer_init B timer_irq_fp = (\<lambda>(irqs, s).
     let s = wr32 B TCFG0 4 s;
         s = reg_and B TCFG1 (NOT 0xf) s;
         s = wr32 B TCNTB0 50000 s;
         s = reg_or B TCON (push_bit 1 1) s;
         s = reg_and B TCON (NOT (push_bit 1 1)) s;
         s = reg_or B TCON (push_bit 0 1 OR push_bit 3 1) s
     in register_irq B 10 timer_irq_fp (irqs, s))"

section \<open>Delays and the system time\<close>

partial_function (option) udelay_loop :: "'s bus \<Rightarrow> u32 \<Rightarrow> u32 \<Rightarrow> 's \<Rightarrow> 's option" where
  "udelay_loop B cnt pre s =
     (if 0 < sint cnt then
        let (cur, s1) = rd32 B TCNTO0 s;
            delta = (if sint cur \<le> sint pre then pre - cur else pre + (50000 - cur))
        in udelay_loop B (cnt - delta) cur s1
      else Some s)"

definition udelay :: "'s bus \<Rightarrow> u32 \<Rightarrow> 's \<Rightarrow> 's option" where
  "udelay B n s = (let cnt = n * 5; (pre, s) = rd32 B TCNTO0 s in udelay_loop B cnt pre s)"

definition mdelay :: "'s bus \<Rightarrow> u32 \<Rightarrow> 's \<Rightarrow> 's option" where
  "mdelay B m = udelay B (m * 1000)"

definition get_system_time_us :: "'s bus \<Rightarrow> u64 \<Rightarrow> 's \<Rightarrow> u64 \<times> 's" where
  "get_system_time_us B cnt_10ms s =
     (let (v, s) = rd32 B TCNTO0 s; us = ucast ((50000 - v) div 5) in (cnt_10ms * 10 * 1000 + us, s))"

definition delta_time_us :: "u64 \<Rightarrow> u64 \<Rightarrow> u32" where
  "delta_time_us pre now = ucast (now - pre)"

section \<open>The counting lamps\<close>

record led_state =
  timer_num :: u32
  led_cnt :: u32

definition led_state_init :: led_state where
  "led_state_init = \<lparr>timer_num = 0, led_cnt = 0\<rparr>"

definition led_timer_irq :: "'s bus \<Rightarrow> led_state \<times> 's \<Rightarrow> led_state \<times> 's" where
  "led_timer_irq B = (\<lambda>(l, s).
     let l = l\<lparr>timer_num := timer_num l + 1\<rparr>
     in if sint (timer_num l) < 50 then (l, s)
        else
          let l = l\<lparr>timer_num := 0, led_cnt := led_cnt l + 1\<rparr>;
              tmp = NOT (led_cnt l) AND 7;
              s = reg_and B GPFDAT (NOT (push_bit 4 7)) s
          in (l, reg_or B GPFDAT (push_bit 4 tmp) s))"

definition led_init :: "'s bus \<Rightarrow> 'f \<Rightarrow> 'f timer_desc list \<times> 's \<Rightarrow> 'f timer_desc list \<times> 's" where
  "led_init B led_fp = (\<lambda>(ts, s).
     let s = reg_and B GPFCON (NOT (push_bit 8 3 OR push_bit 10 3 OR push_bit 12 3)) s;
         s = reg_or B GPFCON (push_bit 8 1 OR push_bit 10 1 OR push_bit 12 1) s
     in (snd (register_timer (str ''led'') led_fp ts), s))"

section \<open>Registered timers run\<close>

text \<open>The functions the interrupt calls, in slot order.\<close>

definition active :: "'f timer_desc list \<Rightarrow> 'f list" where
  "active ts = List.map_filter timer_fp ts"

lemma active_simps [simp]:
  "active [] = []" "active (t # ts) = (case timer_fp t of None \<Rightarrow> active ts | Some f \<Rightarrow> f # active ts)"
  by (simp_all add: active_def map_filter_simps split: option.split)

fun call_all :: "('f \<Rightarrow> 's \<Rightarrow> 's option) \<Rightarrow> 'f list \<Rightarrow> 's \<Rightarrow> 's option" where
  "call_all call [] s = Some s"
| "call_all call (f # fs) s = do { s1 \<leftarrow> call f s; call_all call fs s1 }"

lemma call_timers_active: "call_timers call ts s = call_all call (active ts) s"
  by (induction ts arbitrary: s) (auto split: option.split bind_split)

text \<open>A slot is free in both fields or in none, and names are C strings.\<close>

definition slot_ok :: "'f timer_desc \<Rightarrow> bool" where
  "slot_ok t \<longleftrightarrow> (timer_fp t = None \<longleftrightarrow> timer_name t = None) \<and> (\<forall>n. timer_name t = Some n \<longrightarrow> is_cstring n)"

definition timers_ok :: "'f timer_desc list \<Rightarrow> bool" where
  "timers_ok ts \<longleftrightarrow> (\<forall>t \<in> set ts. slot_ok t)"

lemma timers_ok_simps [simp]: "timers_ok []" "timers_ok (t # ts) \<longleftrightarrow> slot_ok t \<and> timers_ok ts"
  by (simp_all add: timers_ok_def)

lemma register_timer_ok:
  "timers_ok ts \<Longrightarrow> is_cstring nm \<Longrightarrow> timers_ok (snd (register_timer nm f ts))"
  by (induction ts) (simp_all add: slot_ok_def case_prod_unfold Let_def)

lemma unregister_timer_ok: "timers_ok ts \<Longrightarrow> timers_ok (snd (unregister_timer str0 nm ts))"
  by (induction ts) (simp_all add: slot_ok_def case_prod_unfold Let_def)

lemma timers_init_ok: "timers_ok (timer_array timers_init)"
  by (simp add: timers_ok_def slot_ok_def timers_init_def)

lemma register_timer_split:
  assumes "\<exists>t \<in> set ts. timer_fp t = None"
  shows "\<exists>us t vs. ts = us @ t # vs \<and> (\<forall>u \<in> set us. timer_fp u \<noteq> None) \<and> timer_fp t = None \<and>
    register_timer nm f ts = (0, us @ t\<lparr>timer_name := Some nm, timer_fp := Some f\<rparr> # vs)"
  using assms
proof (induction ts)
  case Nil
  then show ?case by simp
next
  case (Cons t ts)
  show ?case
  proof (cases "timer_fp t = None")
    case True
    then show ?thesis by (intro exI [of _ "[]"]) auto
  next
    case False
    with Cons obtain us u vs where "ts = us @ u # vs" "\<forall>u \<in> set us. timer_fp u \<noteq> None" "timer_fp u = None"
      "register_timer nm f ts = (0, us @ u\<lparr>timer_name := Some nm, timer_fp := Some f\<rparr> # vs)"
      by auto
    with False show ?thesis by (intro exI [of _ "t # us"]) auto
  qed
qed

lemma register_timer_full:
  "\<forall>t \<in> set ts. timer_fp t \<noteq> None \<Longrightarrow> register_timer nm f ts = (-1, ts)"
  by (induction ts) auto

lemma active_append: "active (us @ vs) = active us @ active vs"
  by (induction us) (auto split: option.split)

text \<open>
  Registering a timer function makes every later 10 ms interrupt call it exactly once, besides
  the functions that were called before and in an unchanged order among these; if all slots are taken the call
  fails and the table is unchanged.
\<close>

theorem register_timer_runs:
  "if \<exists>t \<in> set (timer_array tm). timer_fp t = None
   then \<exists>us vs ts'. active (timer_array tm) = us @ vs \<and> register_timer nm f (timer_array tm) = (0, ts') \<and>
     timer_irq call (tm\<lparr>timer_array := ts'\<rparr>, s) =
       map_option (\<lambda>s'. (tm\<lparr>timer_array := ts', g_system_time_10ms_cnt := g_system_time_10ms_cnt tm + 1\<rparr>, s'))
         (call_all call (us @ f # vs) s)
   else register_timer nm f (timer_array tm) = (-1, timer_array tm)"
proof (cases "\<exists>t \<in> set (timer_array tm). timer_fp t = None")
  case True
  from register_timer_split [OF this] obtain us t vs where
    ts: "timer_array tm = us @ t # vs" "timer_fp t = None"
      "register_timer nm f (timer_array tm) = (0, us @ t\<lparr>timer_name := Some nm, timer_fp := Some f\<rparr> # vs)"
    by blast
  let ?ts' = "us @ t\<lparr>timer_name := Some nm, timer_fp := Some f\<rparr> # vs"
  have "active ?ts' = active us @ f # active vs" "active (timer_array tm) = active us @ active vs"
    using ts by (simp_all add: active_append)
  moreover have "timer_irq call (tm\<lparr>timer_array := ?ts'\<rparr>, s) =
      map_option (\<lambda>s'. (tm\<lparr>timer_array := ?ts', g_system_time_10ms_cnt := g_system_time_10ms_cnt tm + 1\<rparr>, s'))
        (call_all call (active ?ts') s)"
    by (cases "call_all call (active ?ts') s") (simp_all add: timer_irq_def call_timers_active Let_def)
  ultimately show ?thesis using True ts(3) by metis
next
  case False
  then show ?thesis using register_timer_full by (metis (no_types, lifting))
qed

lemma unregister_timer_skip:
  assumes "\<forall>u \<in> set us. strcmp (case timer_name u of None \<Rightarrow> str0 | Some n \<Rightarrow> n) nm \<noteq> 0"
  shows "unregister_timer str0 nm (us @ vs) = (let (r, vs') = unregister_timer str0 nm vs in (r, us @ vs'))"
  using assms by (induction us) (auto split: prod.splits)

text \<open>
  Unregistering undoes registering: when the name is not in use, \<^verbatim>\<open>unregister_timer\<close> after
  \<^verbatim>\<open>register_timer\<close> gives back the table as it was.
\<close>

theorem unregister_undoes_register:
  assumes "timers_ok ts" and "\<exists>t \<in> set ts. timer_fp t = None" and "is_cstring nm"
    and "\<forall>t \<in> set ts. timer_name t \<noteq> Some nm"
  shows "\<exists>ts'. register_timer nm f ts = (0, ts') \<and> unregister_timer str0 nm ts' = (0, ts)"
proof -
  from register_timer_split [OF assms(2)] obtain us t vs where
    ts: "ts = us @ t # vs" "\<forall>u \<in> set us. timer_fp u \<noteq> None" "timer_fp t = None"
      "register_timer nm f ts = (0, us @ t\<lparr>timer_name := Some nm, timer_fp := Some f\<rparr> # vs)"
    by blast
  have "strcmp (case timer_name u of None \<Rightarrow> str0 | Some n \<Rightarrow> n) nm \<noteq> 0" if "u \<in> set us" for u
  proof -
    have "u \<in> set ts" "timer_fp u \<noteq> None" using that ts by auto
    with assms(1) obtain n where "timer_name u = Some n" "is_cstring n"
      unfolding timers_ok_def slot_ok_def by (metis option.exhaust)
    with that ts assms(3,4) show ?thesis by (auto simp: strcmp_eq_0)
  qed
  then have "unregister_timer str0 nm (us @ t\<lparr>timer_name := Some nm, timer_fp := Some f\<rparr> # vs) =
      (0, us @ t\<lparr>timer_name := None, timer_fp := None\<rparr> # vs)"
    using assms(3) by (simp add: unregister_timer_skip strcmp_eq_0)
  moreover have "t\<lparr>timer_name := None, timer_fp := None\<rparr> = t"
    using ts assms(1) by (simp add: timers_ok_def slot_ok_def)
  ultimately show ?thesis using ts by simp
qed

theorem unregister_undoes_register_witness:
  "\<exists>ts'. register_timer (str ''led'') () (timer_array timers_init) = (0, ts') \<and>
    unregister_timer [] (str ''led'') ts' = (0, timer_array timers_init)"
  by (rule unregister_undoes_register)
    (simp_all add: timers_init_ok, simp_all add: timers_init_def TIMER_NUM_def str_def is_cstring_def)

section \<open>Delays are long enough\<close>

text \<open>
  Timer 0 as \<^verbatim>\<open>timer_init\<close> sets it up: it counts down from 50000 with a reload, one count every
  0.2 us. \<open>now\<close> is the time in counts; between two reads some time passes, at most \<open>g\<close> counts and
  less than one period, whatever else (interrupts included) runs in between.
\<close>

definition timer0 :: "'s bus \<Rightarrow> ('s \<Rightarrow> nat) \<Rightarrow> nat \<Rightarrow> bool" where
  "timer0 B now g \<longleftrightarrow> g < 50000 \<and>
     (\<forall>s. fst (rd32 B TCNTO0 s) = of_nat (50000 - now (snd (rd32 B TCNTO0 s)) mod 50000) \<and>
       now s < now (snd (rd32 B TCNTO0 s)) \<and> now (snd (rd32 B TCNTO0 s)) \<le> now s + g)"

lemma timer0_read:
  assumes "timer0 B now g" and "rd32 B TCNTO0 s = (v, s')"
  shows "v = of_nat (50000 - now s' mod 50000)" "now s < now s'" "now s' \<le> now s + g" "g < 50000"
  using assms unfolding timer0_def by (metis fst_conv snd_conv)+

lemma mod_less_twice: "(x :: nat) < n + n \<Longrightarrow> x mod n = (if x < n then x else x - n)"
  by (simp add: le_mod_geq)

lemma mod_period:
  assumes "(a :: nat) < b" and "b < a + 50000"
  shows "b mod 50000 = (if a mod 50000 + (b - a) < 50000 then a mod 50000 + (b - a) else a mod 50000 + (b - a) - 50000)"
proof -
  have "b mod 50000 = (a mod 50000 + (b - a)) mod 50000"
    using assms by (metis le_add_diff_inverse less_imp_le mod_add_left_eq)
  moreover have "a mod 50000 + (b - a) < 50000 + 50000"
    using assms mod_less_divisor [of 50000 a] by linarith
  ultimately show ?thesis by (simp only: mod_less_twice)
qed

text \<open>One pass of the loop subtracts the time since the previous read.\<close>

lemma udelay_delta:
  assumes "a < b" and "b < a + 50000"
  defines "pre \<equiv> of_nat (50000 - a mod 50000) :: u32" and "cur \<equiv> of_nat (50000 - b mod 50000) :: u32"
  shows "(if sint cur \<le> sint pre then pre - cur else pre + (50000 - cur)) = of_nat (b - a)"
proof -
  have small: "sint pre = int (50000 - a mod 50000)" "sint cur = int (50000 - b mod 50000)"
    unfolding pre_def cur_def by (rule sint_of_nat_small, simp)+
  have le: "b mod 50000 \<le> 50000" "a mod 50000 \<le> 50000" by (simp_all add: less_imp_le)
  show ?thesis
  proof (cases "a mod 50000 + (b - a) < 50000")
    case True
    with mod_period [OF assms(1,2)] have m: "b mod 50000 = a mod 50000 + (b - a)" by (simp only: if_True)
    then have "50000 - a mod 50000 = (50000 - b mod 50000) + (b - a)" using True by linarith
    then have "pre = cur + of_nat (b - a)" by (simp only: pre_def cur_def of_nat_add)
    moreover have "sint cur \<le> sint pre" using small m by simp
    ultimately show ?thesis by simp
  next
    case False
    with mod_period [OF assms(1,2)] have "b mod 50000 = a mod 50000 + (b - a) - 50000" by (simp only: if_False)
    with False have m: "b mod 50000 + 50000 = a mod 50000 + (b - a)" by linarith
    then have "(50000 - a mod 50000) + 50000 = (50000 - b mod 50000) + (b - a)" using le by linarith
    then have "of_nat ((50000 - a mod 50000) + 50000) = (of_nat ((50000 - b mod 50000) + (b - a)) :: u32)"
      by (rule arg_cong)
    then have "pre + 50000 = cur + of_nat (b - a)"
      by (simp only: pre_def cur_def of_nat_add of_nat_numeral)
    moreover have "\<not> sint cur \<le> sint pre"
      using small m assms(2) le by (simp add: of_nat_diff)
    ultimately show ?thesis by (simp add: algebra_simps)
  qed
qed

lemma udelay_loop_returns:
  assumes t: "timer0 B now g"
  shows "pre = of_nat (50000 - now s mod 50000) \<Longrightarrow>
    \<exists>s'. udelay_loop B cnt pre s = Some s' \<and> now s + nat (sint cnt) \<le> now s' \<and> now s' \<le> now s + nat (sint cnt) + g"
proof (induction "nat (sint cnt)" arbitrary: cnt pre s rule: less_induct)
  case less
  show ?case
  proof (cases "0 < sint cnt")
    case False
    then show ?thesis by (simp add: udelay_loop.simps)
  next
    case True
    obtain cur s1 where r: "rd32 B TCNTO0 s = (cur, s1)" by fastforce
    note read = timer0_read [OF t r]
    define d where "d = now s1 - now s"
    have d: "0 < d" "d \<le> g" "now s1 = now s + d" using read by (simp_all add: d_def)
    have "now s1 < now s + 50000" using read by linarith
    with udelay_delta [OF read(2)] read(1) less.prems
    have delta: "(if sint cur \<le> sint pre then pre - cur else pre + (50000 - cur)) = of_nat d"
      by (simp only: d_def)
    have step: "udelay_loop B cnt pre s = udelay_loop B (cnt - of_nat d) cur s1"
      by (subst udelay_loop.simps) (simp only: True if_True r Let_def prod.case delta)
    have cnt: "sint (cnt - of_nat d) = sint cnt - int d"
    proof -
      have "sint (of_nat d :: u32) = int d" using d read(4) by (intro sint_of_nat_small) simp
      moreover have "sint cnt < 2 ^ 31" using sint_lt [of cnt] by simp
      ultimately show ?thesis
        using True d read(4) by (simp add: sint_word_diff signed_take_bit_int_eq_self)
    qed
    with True d have "nat (sint (cnt - of_nat d)) < nat (sint cnt)" by linarith
    from less.hyps [OF this read(1)] obtain s' where s': "udelay_loop B (cnt - of_nat d) cur s1 = Some s'"
      "now s1 + nat (sint (cnt - of_nat d)) \<le> now s'" "now s' \<le> now s1 + nat (sint (cnt - of_nat d)) + g"
      by blast
    then have "now s + nat (sint cnt) \<le> now s'" using cnt d by linarith
    show ?thesis
    proof (cases "sint cnt \<le> int d")
      case True
      then have "\<not> 0 < sint (cnt - of_nat d)" using cnt by simp
      then have "s' = s1" using s'(1) by (simp add: udelay_loop.simps)
      with s'(1) step d True \<open>now s + nat (sint cnt) \<le> now s'\<close> show ?thesis by auto
    next
      case False
      then have "now s' \<le> now s + nat (sint cnt) + g" using s'(3) cnt d by linarith
      with s'(1) step \<open>now s + nat (sint cnt) \<le> now s'\<close> show ?thesis by auto
    qed
  qed
qed

lemma udelay_returns:
  assumes "timer0 B now g" and "5 * unat n < 2 ^ 31"
  shows "\<exists>s'. udelay B n s = Some s' \<and> now s + 5 * unat n < now s' \<and> now s' \<le> now s + 5 * unat n + 2 * g"
proof -
  obtain pre s1 where r: "rd32 B TCNTO0 s = (pre, s1)" by fastforce
  note read = timer0_read [OF assms(1) r]
  have "n * 5 = of_nat (5 * unat n)" by simp
  then have cnt: "nat (sint (n * 5)) = 5 * unat n" using assms(2) by (simp only: sint_of_nat_small nat_int)
  with udelay_loop_returns [OF assms(1) read(1), of "n * 5"] obtain s' where
    "udelay_loop B (n * 5) pre s1 = Some s'" "now s1 + 5 * unat n \<le> now s'" "now s' \<le> now s1 + 5 * unat n + g"
    unfolding cnt by blast
  with r read show ?thesis by (auto simp: udelay_def)
qed

text \<open>
  C33. \<^verbatim>\<open>udelay(n)\<close> returns, after at least \<open>n\<close> microseconds (\<open>5 n\<close> counts of the timer) and at
  most two reads of the counter later than that, also when the counter reloads meanwhile.
\<close>

theorem udelay_waits:
  assumes "timer0 B now g" and "5 * unat n < 2 ^ 31"
  shows "\<exists>s'. udelay B n s = Some s' \<and> now s + 5 * unat n < now s' \<and> now s' \<le> now s + 5 * unat n + 2 * g"
  using assms by (rule udelay_returns)

text \<open>A timer that advances by three counts per read.\<close>

definition counting_bus :: "nat bus" where
  "counting_bus = \<lparr>rd8 = (\<lambda>a s. (0, s)), rd16 = (\<lambda>a s. (0, s)),
     rd32 = (\<lambda>a s. (of_nat (50000 - (s + 3) mod 50000), s + 3)),
     wr8 = (\<lambda>a v s. s), wr16 = (\<lambda>a v s. s), wr32 = (\<lambda>a v s. s)\<rparr>"

lemma counting_bus_timer0: "timer0 counting_bus id 3"
  by (simp add: timer0_def counting_bus_def)

theorem udelay_waits_witness:
  "\<exists>s'. udelay counting_bus 20000 49990 = Some s' \<and> 49990 + 100000 < s' \<and> s' \<le> 49990 + 100000 + 6"
  using udelay_waits [OF counting_bus_timer0, of 20000 49990] by simp

lemma system_time_exact:
  assumes "timer0 B now g" and "get_system_time_us B cnt s = (us, s')"
    and "unat cnt + pending = now s' div 50000" and "now s' < 2 ^ 63"
  shows "unat us + 10000 * pending = now s' div 5"
proof -
  obtain v t where r: "rd32 B TCNTO0 s = (v, t)" by fastforce
  with assms(2) have us: "us = cnt * 10 * 1000 + ucast ((50000 - v) div 5)" and t: "t = s'"
    by (simp_all add: get_system_time_us_def)
  let ?m = "now s' mod 50000"
  have m: "?m < 50000" by simp
  have "50000 - v = of_nat ?m"
    using timer0_read(1) [OF assms(1) r] t m by (simp add: of_nat_diff)
  then have "unat ((50000 - v) div 5) = ?m div 5"
    using m by (simp add: unat_div unat_of_nat take_bit_nat_eq_self)
  then have low: "unat (ucast ((50000 - v) div 5) :: u64) = ?m div 5"
    by (subst unat_ucast_up) simp_all
  have now: "now s' div 5 = now s' div 50000 * 10000 + ?m div 5"
  proof -
    have "(?m + q * 10000 * 5) div 5 = q * 10000 + ?m div 5" for q by (subst div_mult_self1) simp_all
    moreover have "?m + now s' div 50000 * 10000 * 5 = now s'" by simp
    ultimately show ?thesis by metis
  qed
  have "us = of_nat (unat cnt * 10000 + ?m div 5)"
    using us word_eq_of_nat [OF low] by simp
  moreover have "unat cnt * 10000 + ?m div 5 < 2 ^ 64"
  proof -
    have "unat cnt * 10000 + ?m div 5 \<le> now s' div 5" using assms(3) now by linarith
    also have "\<dots> \<le> now s'" by simp
    also have "\<dots> < 2 ^ 64" using assms(4) by simp
    finally show ?thesis .
  qed
  ultimately have "unat us = unat cnt * 10000 + ?m div 5"
    by (simp only: unat_of_nat64)
  with now assms(3) show ?thesis by linarith
qed

text \<open>
  C38. The system time is the time of the counter in microseconds, less 10 ms for every reload whose
  interrupt has not been handled yet.
\<close>

theorem get_system_time_us_exact:
  assumes "timer0 B now g" and "get_system_time_us B cnt s = (us, s')"
    and "unat cnt + pending = now s' div 50000" and "now s' < 2 ^ 63"
  shows "unat us + 10000 * pending = now s' div 5"
  using assms by (rule system_time_exact)

theorem get_system_time_us_exact_witness:
  "unat (fst (get_system_time_us counting_bus 1 60000)) = 60003 div 5"
  using get_system_time_us_exact [OF counting_bus_timer0, of 1 60000 _ 60003 0]
  by (simp add: get_system_time_us_def counting_bus_def)

section \<open>The lamps count\<close>

lemma led_bits:
  assumes "n < 32"
  shows "bit ((w AND NOT (push_bit 4 7)) OR push_bit 4 (NOT c AND 7) :: u32) n \<longleftrightarrow>
    (if 4 \<le> n \<and> n \<le> 6 then \<not> bit c (n - 4) else bit w n)"
proof -
  have "(7 :: u32) = mask 3" by (simp add: mask_eq_exp_minus_1)
  then show ?thesis using assms unfolding \<open>7 = mask 3\<close> by (auto simp: bit_simps)
qed

definition led_show :: "'s bus \<Rightarrow> u32 \<Rightarrow> 's \<Rightarrow> 's" where
  "led_show B c s = reg_or B GPFDAT (push_bit 4 (NOT c AND 7)) (reg_and B GPFDAT (NOT (push_bit 4 7)) s)"

lemma bit_led_show:
  assumes "plain_reg B GPFDAT gpf" and "n < 32"
  shows "bit (gpf (led_show B (of_nat q) s)) n \<longleftrightarrow> (if 4 \<le> n \<and> n \<le> 6 then \<not> bit q (n - 4) else bit (gpf s) n)"
proof -
  have "bit (of_nat q :: u32) (n - 4) \<longleftrightarrow> bit q (n - 4)"
    using assms(2) less_imp_diff_less [of n 32 4] by (simp add: bit_simps)
  then show ?thesis
    unfolding led_show_def plain_reg_simps [OF assms(1)] led_bits [OF assms(2)] by simp
qed

lemma led_timer_irq_step:
  assumes "unat (timer_num l) < 50"
  shows "led_timer_irq B (l, s) =
    (if Suc (unat (timer_num l)) < 50 then (l\<lparr>timer_num := timer_num l + 1\<rparr>, s)
     else (l\<lparr>timer_num := 0, led_cnt := led_cnt l + 1\<rparr>,
       led_show B (led_cnt l + 1) s))"
proof -
  have "unat (timer_num l + 1) = Suc (unat (timer_num l))"
    using assms by (simp add: unat_plus_one)
  then have "sint (timer_num l + 1) = int (Suc (unat (timer_num l)))"
    using assms by (subst sint_small) simp_all
  then have "sint (timer_num l + 1) < 50 \<longleftrightarrow> Suc (unat (timer_num l)) < 50" by presburger
  then show ?thesis by (simp add: led_timer_irq_def led_show_def Let_def)
qed

text \<open>
  The lamps count half seconds: after \<open>k\<close> timer interrupts the lamp port shows the complement
  of the low three bits of \<open>k div 50\<close> (a lit lamp is low), once the first 50 interrupts have passed,
  and no other bit of the port has changed.
\<close>

theorem led_counts:
  assumes "plain_reg B GPFDAT gpf"
  shows "case (led_timer_irq B ^^ k) (led_state_init, s) of (l, s') \<Rightarrow>
    unat (timer_num l) = k mod 50 \<and> led_cnt l = of_nat (k div 50) \<and>
    (\<forall>n < 32. bit (gpf s') n \<longleftrightarrow>
      (if 50 \<le> k \<and> 4 \<le> n \<and> n \<le> 6 then \<not> bit (k div 50) (n - 4) else bit (gpf s) n))"
proof (induction k)
  case 0
  then show ?case by (simp add: led_state_init_def)
next
  case (Suc k)
  obtain l s' where st: "(led_timer_irq B ^^ k) (led_state_init, s) = (l, s')" by fastforce
  with Suc have IH: "unat (timer_num l) = k mod 50" "led_cnt l = of_nat (k div 50)"
    "\<And>n. n < 32 \<Longrightarrow> bit (gpf s') n \<longleftrightarrow>
      (if 50 \<le> k \<and> 4 \<le> n \<and> n \<le> 6 then \<not> bit (k div 50) (n - 4) else bit (gpf s) n)"
    by simp_all
  show ?case
  proof (cases "Suc (k mod 50) < 50")
    case True
    then have "k \<noteq> 49" by auto
    then have "50 \<le> Suc k \<longleftrightarrow> 50 \<le> k" by linarith
    moreover from True have "Suc k mod 50 = Suc (k mod 50)" "Suc k div 50 = k div 50"
      by (auto simp: mod_Suc div_Suc)
    ultimately show ?thesis using True IH st led_timer_irq_step [of l B s']
      by (simp add: unat_plus_one)
  next
    case False
    then have "k mod 50 = 49" using mod_less_divisor [of 50 k] by linarith
    then have "Suc k mod 50 = 0" "Suc k div 50 = Suc (k div 50)" "50 \<le> Suc k"
      by (auto simp: mod_Suc div_Suc)
    moreover have "led_cnt l + 1 = of_nat (Suc (k div 50))" using IH(2) by simp
    ultimately show ?thesis
      using IH False st led_timer_irq_step [of l B s'] by (simp add: bit_led_show [OF assms] del: of_nat_Suc)
  qed
qed

theorem led_counts_witness:
  "bit (snd ((led_timer_irq ram_bus ^^ 150) (led_state_init, \<lambda>a. 0)) GPFDAT) 6"
  using led_counts [OF ram_bus_plain, of 150 "\<lambda>a. 0"]
  by (auto simp: bit_numeral_rec split: prod.splits)

end
