(* ===== verification/Irda.thy ===== *)
theory Irda
  imports Circle_Buffer Timers
begin

text \<open>
  The infrared receiver, \<^verbatim>\<open>sensors/irda/irda_raw.c\<close> and \<^verbatim>\<open>sensors/irda/irda_nec.c\<close>: the interrupt
  handler that turns edges into timed pulses, and the decoder of the NEC protocol that takes
  them from the ring buffer. The decoder is compared with a decoder on the list of pulses, which
  inverts the encoding of the protocol.
\<close>

section \<open>The interrupt handler\<close>

record irda_state =
  ir_q :: ir_buf
  g_last_time :: u64

definition irda_state_init :: irda_state where
  "irda_state_init = \<lparr>ir_q = ir_buf_init, g_last_time = 0\<rparr>"

definition irda_data_cfg_as_eint :: "'s bus \<Rightarrow> 's \<Rightarrow> 's" where
  "irda_data_cfg_as_eint B s =
     (let s = reg_and B GPFCON (NOT (push_bit 2 3)) s;
          s = reg_or B GPFCON (push_bit 2 2) s
      in reg_or B EXTINT0 (push_bit 4 7) s)"

definition irda_data_get :: "'s bus \<Rightarrow> 's \<Rightarrow> u32 \<times> 's" where
  "irda_data_get B s = (let (v, s) = rd32 B GPFDAT s in (if v AND push_bit 1 1 \<noteq> 0 then 1 else 0, s))"

definition irda_irq :: "'s bus \<Rightarrow> u64 \<Rightarrow> u32 \<Rightarrow> irda_state \<times> 's \<Rightarrow> irda_state \<times> 's" where
  "irda_irq B cnt_10ms irq = (\<lambda>(st, s).
     let (cur, s) = get_system_time_us B cnt_10ms s;
         dur = delta_time_us (g_last_time st) cur;
         (v, s) = irda_data_get B s;
         event = \<lparr>pol = (if v = 0 then 1 else 0), duration = dur\<rparr>;
         (_, q) = ir_event_put event (ir_q st)
     in (\<lparr>ir_q = q, g_last_time = cur\<rparr>, s))"

definition irda_init :: "'s bus \<Rightarrow> 'h \<Rightarrow> 'h irq_array \<times> 's \<Rightarrow> ('h irq_array \<times> 's) option" where
  "irda_init B irda_fp = (\<lambda>(irqs, s). register_irq B 1 irda_fp (irqs, irda_data_cfg_as_eint B s))"

section \<open>The decoder\<close>

definition DURATION_BASE :: int where "DURATION_BASE = 563"
definition DURATION_DELTA :: int where "DURATION_DELTA = DURATION_BASE div 2"
definition DURATION_HEAD_LOW :: int where "DURATION_HEAD_LOW = 16 * DURATION_BASE"
definition DURATION_HEAD_HIGH :: int where "DURATION_HEAD_HIGH = 8 * DURATION_BASE"
definition DURATION_REPEAT_HIGH :: int where "DURATION_REPEAT_HIGH = 4 * DURATION_BASE"
definition DURATION_DATA_LOW :: int where "DURATION_DATA_LOW = 1 * DURATION_BASE"
definition DURATION_DATA1_HIGH :: int where "DURATION_DATA1_HIGH = 3 * DURATION_BASE"
definition DURATION_DATA0_HIGH :: int where "DURATION_DATA0_HIGH = 1 * DURATION_BASE"

lemmas nec_durations = DURATION_BASE_def DURATION_DELTA_def DURATION_HEAD_LOW_def
  DURATION_HEAD_HIGH_def DURATION_REPEAT_HIGH_def DURATION_DATA_LOW_def
  DURATION_DATA1_HIGH_def DURATION_DATA0_HIGH_def

definition duration_in_margin :: "u32 \<Rightarrow> int \<Rightarrow> bool" where
  "duration_in_margin d us \<longleftrightarrow> us - DURATION_DELTA < sint d \<and> sint d < us + DURATION_DELTA"

text \<open>
  The loop over the 32 bits, with \<open>n\<close> of them left. An error is the line of the source whose
  message is printed.
\<close>

fun nec_bits :: "irda_raw_event \<Rightarrow> u32 \<Rightarrow> nat \<Rightarrow> nat \<Rightarrow> ir_buf \<times> arrivals \<Rightarrow> (u32 + u32) \<times> ir_buf \<times> arrivals" where
  "nec_bits event val i 0 st = (Inr val, st)"
| "nec_bits event val i (Suc n) st =
     (let (r, event, st) = ir_event_get_timeout event 10000 st
      in if r \<noteq> 0 then (Inl 101, st)
         else if \<not> (pol event = 0 \<and> duration_in_margin (duration event) DURATION_DATA_LOW) then (Inl 95, st)
         else let (r, event, st) = ir_event_get_timeout event 10000 st
           in if r \<noteq> 0 then (Inl 89, st)
              else if pol event = 1 \<and> duration_in_margin (duration event) DURATION_DATA1_HIGH
              then nec_bits event (val OR push_bit i 1) (Suc i) n st
              else if pol event = 1 \<and> duration_in_margin (duration event) DURATION_DATA0_HIGH
              then nec_bits event val (Suc i) n st
              else (Inl 83, st))"

text \<open>\<^verbatim>\<open>printf("%s %d\n\r", __FUNCTION__, __LINE__)\<close>\<close>

definition nec_message :: "'s bus \<Rightarrow> u32 \<Rightarrow> 's \<Rightarrow> 's option" where
  "nec_message B line s =
     printf_va B (str ''%s %d'' @ [10, 13]) [Va_str (str ''irda_nec_read''), Va_int line] s"

text \<open>Steps 7 and on: the four bytes, and the check of the inverted data byte.\<close>

definition nec_bytes :: "u32 \<Rightarrow> (u8 \<times> u8) option" where
  "nec_bytes val =
     (let byte0 = ucast (val AND 0xff) :: u8;
          byte2 = ucast (drop_bit 16 val AND 0xff) :: u8;
          byte3 = NOT (ucast (drop_bit 24 val AND 0xff) :: u8)
      in if byte2 \<noteq> byte3 then None else Some (byte0, byte2))"

text \<open>The pulse after the 9 ms one: data, a repeat code or an error.\<close>

definition nec_after_head :: "'s bus \<Rightarrow> irda_raw_event \<Rightarrow> u32 \<Rightarrow> u32 \<Rightarrow> ir_buf \<times> arrivals \<Rightarrow> 's \<Rightarrow>
    (int \<times> u32 \<times> u32 \<times> (ir_buf \<times> arrivals) \<times> 's) option" where
  "nec_after_head B event address data st s =
     (if pol event = 1 \<and> duration_in_margin (duration event) DURATION_HEAD_HIGH
      then (case nec_bits event 0 0 32 st of
          (Inl line, st) \<Rightarrow> do { s \<leftarrow> nec_message B line s; Some (-1, address, data, st, s) }
        | (Inr val, st) \<Rightarrow>
            (case nec_bytes val of
               None \<Rightarrow> do { s \<leftarrow> nec_message B 124 s; Some (-1, address, data, st, s) }
             | Some (byte0, byte2) \<Rightarrow> Some (0, ucast byte0, ucast byte2, st, s)))
      else if pol event = 1 \<and> duration_in_margin (duration event) DURATION_REPEAT_HIGH
      then Some (1, address, data, st, s)
      else do { s \<leftarrow> nec_message B 140 s; Some (-1, address, data, st, s) })"

text \<open>
  The endless loop. Interrupts are taken before each look into the buffer; when no further events
  come it runs forever (\<open>None\<close>). The results \<^verbatim>\<open>*address\<close> and \<^verbatim>\<open>*data\<close> are passed in and returned.
\<close>

partial_function (option) nec_read_loop :: "'s bus \<Rightarrow> irda_raw_event \<Rightarrow> u32 \<Rightarrow> u32 \<Rightarrow> ir_buf \<times> arrivals \<Rightarrow> 's \<Rightarrow>
    (int \<times> u32 \<times> u32 \<times> (ir_buf \<times> arrivals) \<times> 's) option" where
  "nec_read_loop B event address data st s =
     (let (b, arr) = irq_window st;
          (r, event, b) = ir_event_get event b
      in if r \<noteq> 0 then nec_read_loop B event address data (b, arr) s
         else if \<not> (pol event = 0 \<and> duration_in_margin (duration event) DURATION_HEAD_LOW)
         then Some (-1, address, data, (b, arr), s)
         else let (r, event, st) = ir_event_get_timeout event 10000 (b, arr)
           in if r \<noteq> 0 then nec_read_loop B event address data st s
              else nec_after_head B event address data st s)"

definition irda_nec_read :: "'s bus \<Rightarrow> irda_raw_event \<Rightarrow> u32 \<Rightarrow> u32 \<Rightarrow> ir_buf \<times> arrivals \<Rightarrow> 's \<Rightarrow>
    (int \<times> u32 \<times> u32 \<times> (ir_buf \<times> arrivals) \<times> 's) option" where
  "irda_nec_read B event address data st s = nec_read_loop B event address data st s"

section \<open>Delivery of pulses\<close>

text \<open>
  The decoder waits 10000 passes for a pulse; the last look into the buffer comes after 9999
  delays. Pulses are prompt if, while any are to come, 9999 consecutive delays bring one.
\<close>

definition prompt :: "arrivals \<Rightarrow> bool" where
  "prompt arr \<longleftrightarrow> (\<forall>i. concat (drop i arr) \<noteq> [] \<longrightarrow> concat (take 9999 (drop i arr)) \<noteq> [])"

lemma prompt_drop: "prompt arr \<Longrightarrow> prompt (drop k arr)"
  unfolding prompt_def by simp

lemma prompt_tl: "prompt (es # arr) \<Longrightarrow> prompt arr"
  using prompt_drop [of "es # arr" 1] by simp

lemma prompt_dense: "\<forall>es \<in> set arr. es \<noteq> [] \<Longrightarrow> prompt arr"
  unfolding prompt_def
proof (intro allI impI)
  fix i assume ne: "\<forall>es \<in> set arr. es \<noteq> []" and "concat (drop i arr) \<noteq> []"
  then obtain es xs where d: "drop i arr = es # xs" by (cases "drop i arr") auto
  with ne have "es \<noteq> []" by (metis in_set_dropD list.set_intros(1))
  with d show "concat (take 9999 (drop i arr)) \<noteq> []" by (simp add: take_Cons')
qed

text \<open>The pulses \<open>es\<close> are those in the buffer and those to come, and none is lost.\<close>

fun delivers :: "ir_buf \<times> arrivals \<Rightarrow> irda_raw_event list \<Rightarrow> bool" where
  "delivers (b, arr) es \<longleftrightarrow>
     ir_buf_ok b \<and> prompt arr \<and> length es \<le> 1023 \<and> ir_buf_content b @ concat arr = es"

lemma irq_window_delivers:
  assumes "delivers st es"
  shows "delivers (irq_window st) es"
proof (cases st)
  case (Pair b arr)
  show ?thesis
  proof (cases arr)
    case Nil
    with assms Pair show ?thesis by simp
  next
    case (Cons new arr')
    with assms Pair have d: "ir_buf_ok b" "prompt arr'" "length es \<le> 1023"
      "ir_buf_content b @ new @ concat arr' = es"
      using prompt_tl by auto
    then have "length (ir_buf_content b @ new) \<le> 1023" by auto
    with irq.put_all [OF d(1), of new] Pair Cons d show ?thesis by auto
  qed
qed

lemma irq_window_arr: "snd (irq_window st) = tl (snd st)"
  by (cases st rule: irq_window.cases) simp_all

text \<open>Taking one event out of a buffer that holds one.\<close>

lemma take_delivers:
  assumes "delivers (b, arr) (e # es)" and "ir_buf_content b \<noteq> []"
  shows "\<not> is_ir_event_buf_empty b" "g_events b ! unat (g_r b) = e"
    "delivers (b\<lparr>g_r := NEXT_PLACE (g_r b)\<rparr>, arr) es"
proof -
  from assms obtain xs where c: "ir_buf_content b = e # xs" by (cases "ir_buf_content b") auto
  moreover have ok: "ir_buf_ok b" using assms by simp
  ultimately show "\<not> is_ir_event_buf_empty b"
    using ir_buf_empty_iff [OF ok] length_ir_buf_content [of b] by (metis length_0_conv list.distinct(1))
  from ir_event_get_some [OF ok c] c assms(1)
  show "g_events b ! unat (g_r b) = e" "delivers (b\<lparr>g_r := NEXT_PLACE (g_r b)\<rparr>, arr) es" by auto
qed

lemma content_empty: "ir_buf_ok b \<Longrightarrow> ir_buf_content b = [] \<longleftrightarrow> is_ir_event_buf_empty b"
  using ir_buf_empty_iff length_ir_buf_content by (metis length_0_conv)

lemma get_timeout_waits:
  assumes "delivers (b, arr) (e # es)" and "ir_buf_content b \<noteq> [] \<or> concat (take n arr) \<noteq> []"
  shows "\<exists>st'. ir_event_get_timeout pd (Suc n) (b, arr) = (0, e, st') \<and> delivers st' es"
  using assms
proof (induction n arbitrary: b arr)
  case 0
  then have "ir_buf_content b \<noteq> []" by simp
  from take_delivers [OF "0.prems"(1) this] show ?case by simp
next
  case (Suc n)
  show ?case
  proof (cases "ir_buf_content b = []")
    case False
    from take_delivers [OF Suc.prems(1) False] show ?thesis by simp
  next
    case True
    then have c: "concat (take (Suc n) arr) \<noteq> []" using Suc.prems by simp
    then obtain new arr' where arr: "arr = new # arr'" by (cases arr) auto
    obtain b1 where w: "irq_window (b, arr) = (b1, arr')"
      using irq_window_arr [of "(b, arr)"] arr by (metis prod.collapse list.sel(3) snd_conv)
    have d1: "delivers (b1, arr') (e # es)" using irq_window_delivers [OF Suc.prems(1)] w by simp
    have "ir_buf_content b1 \<noteq> [] \<or> concat (take n arr') \<noteq> []"
    proof (rule ccontr)
      assume "\<not> (ir_buf_content b1 \<noteq> [] \<or> concat (take n arr') \<noteq> [])"
      then have "concat arr' = e # es" "concat (take n arr') = []" using d1 by auto
      moreover have "new @ concat arr' = e # es" using Suc.prems(1) True arr by simp
      ultimately show False using c arr by simp
    qed
    from Suc.IH [OF d1 this] True Suc.prems(1) w show ?thesis
      by (simp add: content_empty del: delivers.simps) (simp add: content_empty)
  qed
qed

lemma get_timeout_Cons:
  assumes "delivers st (e # es)"
  shows "\<exists>st'. ir_event_get_timeout pd 10000 st = (0, e, st') \<and> delivers st' es"
proof -
  obtain b arr where st: "st = (b, arr)" by fastforce
  have "ir_buf_content b \<noteq> [] \<or> concat (take 9999 arr) \<noteq> []"
    using assms unfolding st delivers.simps prompt_def by (metis append_Nil drop0 list.distinct(1))
  from get_timeout_waits [OF assms [unfolded st] this] st show ?thesis by simp
qed

lemma get_timeout_none:
  assumes "delivers st []"
  shows "\<exists>st'. ir_event_get_timeout pd n st = (-1, pd, st') \<and> delivers st' []"
  using assms
proof (induction n arbitrary: st)
  case 0
  then show ?case by (cases st) simp
next
  case (Suc n)
  obtain b arr where st: "st = (b, arr)" by fastforce
  with Suc.prems have "is_ir_event_buf_empty b" by (auto simp flip: content_empty)
  with Suc.IH [OF irq_window_delivers [OF Suc.prems]] st show ?case by simp
qed

declare delivers.simps [simp del]

section \<open>The protocol on lists of pulses\<close>

definition is_pulse :: "u32 \<Rightarrow> int \<Rightarrow> irda_raw_event \<Rightarrow> bool" where
  "is_pulse p us e \<longleftrightarrow> pol e = p \<and> duration_in_margin (duration e) us"

text \<open>What a list of pulses means, without buffers and delays; an error carries its message line.\<close>

datatype nec_result = Nec_data u8 u8 | Nec_repeat | Nec_noise | Nec_error u32

fun decode_bits :: "u32 \<Rightarrow> nat \<Rightarrow> nat \<Rightarrow> irda_raw_event list \<Rightarrow> (u32 + u32) \<times> irda_raw_event list" where
  "decode_bits val i 0 es = (Inr val, es)"
| "decode_bits val i (Suc n) [] = (Inl 101, [])"
| "decode_bits val i (Suc n) (e # es) =
     (if \<not> is_pulse 0 DURATION_DATA_LOW e then (Inl 95, es)
      else case es of
        [] \<Rightarrow> (Inl 89, [])
      | e' # es' \<Rightarrow>
          if is_pulse 1 DURATION_DATA1_HIGH e' then decode_bits (val OR push_bit i 1) (Suc i) n es'
          else if is_pulse 1 DURATION_DATA0_HIGH e' then decode_bits val (Suc i) n es'
          else (Inl 83, es'))"

fun nec_decode :: "irda_raw_event list \<Rightarrow> (nec_result \<times> irda_raw_event list) option" where
  "nec_decode [] = None"
| "nec_decode (e # es) =
     (if \<not> is_pulse 0 DURATION_HEAD_LOW e then Some (Nec_noise, es)
      else case es of
        [] \<Rightarrow> None
      | e' # es' \<Rightarrow>
          if is_pulse 1 DURATION_HEAD_HIGH e' then
            (case decode_bits 0 0 32 es' of
               (Inl line, rest) \<Rightarrow> Some (Nec_error line, rest)
             | (Inr val, rest) \<Rightarrow>
                 (case nec_bytes val of None \<Rightarrow> Some (Nec_error 124, rest)
                  | Some (a, d) \<Rightarrow> Some (Nec_data a d, rest)))
          else if is_pulse 1 DURATION_REPEAT_HIGH e' then Some (Nec_repeat, es')
          else Some (Nec_error 140, es'))"

section \<open>The decoder implements the protocol\<close>

lemma nec_bits_refines:
  assumes "delivers st es"
  shows "\<exists>st'. nec_bits ev val i n st = (fst (decode_bits val i n es), st') \<and>
    delivers st' (snd (decode_bits val i n es))"
  using assms
proof (induction n arbitrary: val i es st ev)
  case 0
  then show ?case by simp
next
  case (Suc n)
  show ?case
  proof (cases es)
    case Nil
    with get_timeout_none [of st ev 10000] Suc.prems show ?thesis by auto
  next
    case (Cons e es1)
    with get_timeout_Cons [of st e es1 ev] Suc.prems obtain st1 where
      st1: "ir_event_get_timeout ev 10000 st = (0, e, st1)" "delivers st1 es1" by blast
    consider "\<not> is_pulse 0 DURATION_DATA_LOW e" | "is_pulse 0 DURATION_DATA_LOW e" "es1 = []"
      | e' es' where "is_pulse 0 DURATION_DATA_LOW e" "es1 = e' # es'"
      by (cases es1) auto
    then show ?thesis
    proof cases
      case 1
      then have "nec_bits ev val i (Suc n) st = (Inl 95, st1)"
        using st1(1) unfolding is_pulse_def by simp
      with 1 Cons st1(2) show ?thesis by simp
    next
      case 2
      with st1(2) get_timeout_none [of st1 e 10000] obtain st2 where
        "ir_event_get_timeout e 10000 st1 = (-1, e, st2)" "delivers st2 []" by auto
      with 2 Cons st1(1) show ?thesis by (simp add: is_pulse_def)
    next
      case (3 e' es')
      with st1(2) get_timeout_Cons [of st1 e' es' e] obtain st2 where
        st2: "ir_event_get_timeout e 10000 st1 = (0, e', st2)" "delivers st2 es'" by blast
      have code: "nec_bits ev val i (Suc n) st =
          (if is_pulse 1 DURATION_DATA1_HIGH e' then nec_bits e' (val OR push_bit i 1) (Suc i) n st2
           else if is_pulse 1 DURATION_DATA0_HIGH e' then nec_bits e' val (Suc i) n st2 else (Inl 83, st2))"
        using st1(1) st2(1) 3(1) unfolding is_pulse_def by simp
      show ?thesis
        using Suc.IH [OF st2(2)] st2(2) 3 Cons unfolding code by (cases st2) simp
    qed
  qed
qed

text \<open>The loop passes over the time until the first pulse arrives.\<close>

lemma nec_read_loop_first:
  assumes "delivers st (e # es)"
  shows "\<exists>st'. delivers st' es \<and> nec_read_loop B ev address data st s =
     (if \<not> is_pulse 0 DURATION_HEAD_LOW e then Some (-1, address, data, st', s)
      else let (r, event, st) = ir_event_get_timeout e 10000 st'
        in if r \<noteq> 0 then nec_read_loop B event address data st s
           else nec_after_head B event address data st s)"
  using assms
proof (induction "length (snd st)" arbitrary: st rule: less_induct)
  case less
  obtain b arr where w: "irq_window st = (b, arr)" by fastforce
  have d: "delivers (b, arr) (e # es)" using irq_window_delivers [OF less.prems] w by simp
  have arr: "arr = tl (snd st)" using irq_window_arr [of st] w by simp
  show ?case
  proof (cases "ir_buf_content b = []")
    case True
    then have "arr \<noteq> []" using d by (auto simp: delivers.simps)
    then have shorter: "length (snd (b, arr)) < length (snd st)" using arr by (cases "snd st") auto
    have "is_ir_event_buf_empty b" using True d by (simp add: content_empty delivers.simps)
    then have eq: "nec_read_loop B ev address data st s = nec_read_loop B ev address data (b, arr) s"
      by (subst nec_read_loop.simps) (simp add: w ir_event_get_def)
    show ?thesis unfolding eq by (rule less.hyps [OF shorter d])
  next
    case False
    from take_delivers [OF d False] show ?thesis
      by (intro exI [of _ "(b\<lparr>g_r := NEXT_PLACE (g_r b)\<rparr>, arr)"], subst nec_read_loop.simps)
        (simp add: w ir_event_get_def is_pulse_def)
  qed
qed

lemma nec_message_returns:
  assumes "uart_tx B tx"
  shows "\<exists>s' txt. nec_message B line s = Some s' \<and> tx s' = tx s @ txt"
  unfolding nec_message_def
  by (rule printf_returns [OF assms]) (simp add: str_def parse_directive_def)

text \<open>What a call of \<^verbatim>\<open>irda_nec_read\<close> has to return for each meaning of the pulses.\<close>

definition nec_returns :: "nec_result \<Rightarrow> u32 \<Rightarrow> u32 \<Rightarrow> int \<times> u32 \<times> u32" where
  "nec_returns res address data = (case res of
      Nec_data a d \<Rightarrow> (0, ucast a, ucast d)
    | Nec_repeat \<Rightarrow> (1, address, data)
    | Nec_noise \<Rightarrow> (-1, address, data)
    | Nec_error line \<Rightarrow> (-1, address, data))"

lemma nec_after_head_decodes:
  assumes tx: "uart_tx B tx" and st: "delivers st es" and low: "is_pulse 0 DURATION_HEAD_LOW e"
    and dec: "nec_decode (e # e' # es) = Some (res, rest)"
  shows "\<exists>r a d st' s'. nec_after_head B e' address data st s = Some (r, a, d, st', s') \<and>
    (r, a, d) = nec_returns res address data \<and> delivers st' rest \<and> ((\<forall>l. res \<noteq> Nec_error l) \<longrightarrow> s' = s)"
proof -
  define m where "m line = the (nec_message B line s)" for line
  have msg: "nec_message B line s = Some (m line)" for line
    using nec_message_returns [OF tx, of line s] by (auto simp: m_def)
  obtain rb rest' where db: "decode_bits 0 0 32 es = (rb, rest')" by fastforce
  with nec_bits_refines [OF st, of e' 0 0 32] obtain st' where
    nb: "nec_bits e' 0 0 32 st = (rb, st')" "delivers st' rest'" by auto
  show ?thesis
  proof (cases "is_pulse 1 DURATION_HEAD_HIGH e'")
    case True
    then have code: "nec_after_head B e' address data st s =
        (case rb of Inl line \<Rightarrow> Some (-1, address, data, st', m line)
         | Inr val \<Rightarrow> (case nec_bytes val of None \<Rightarrow> Some (-1, address, data, st', m 124)
             | Some (byte0, byte2) \<Rightarrow> Some (0, ucast byte0, ucast byte2, st', s)))"
      using nb(1) msg by (simp add: nec_after_head_def is_pulse_def split: sum.split option.split)
    show ?thesis
    proof (cases rb)
      case (Inl line)
      then have "res = Nec_error line" "rest = rest'" using dec db low True by simp_all
      then show ?thesis using Inl nb(2) unfolding code nec_returns_def by simp
    next
      case (Inr val)
      then have "(res, rest) = (case nec_bytes val of None \<Rightarrow> (Nec_error 124, rest') | Some (a, d) \<Rightarrow> (Nec_data a d, rest'))"
        using dec db low True by (simp split: option.splits prod.splits)
      then show ?thesis using Inr nb(2) unfolding code nec_returns_def
        by (cases st'; cases "nec_bytes val") auto
    qed
  next
    case False
    then have code: "nec_after_head B e' address data st s =
        (if is_pulse 1 DURATION_REPEAT_HIGH e' then Some (1, address, data, st, s)
         else Some (-1, address, data, st, m 140))"
      unfolding nec_after_head_def is_pulse_def [symmetric] using msg by simp
    have "(res, rest) = (if is_pulse 1 DURATION_REPEAT_HIGH e' then (Nec_repeat, es) else (Nec_error 140, es))"
      using dec low False by (simp split: if_splits)
    then show ?thesis using st unfolding code nec_returns_def by (cases st) (simp split: if_splits)
  qed
qed

lemma irda_nec_read_decodes:
  assumes tx: "uart_tx B tx" and st: "delivers st es" and dec: "nec_decode es = Some (res, rest)"
  shows "\<exists>r a d st' s'. irda_nec_read B ev address data st s = Some (r, a, d, st', s') \<and>
    (r, a, d) = nec_returns res address data \<and> delivers st' rest \<and> ((\<forall>l. res \<noteq> Nec_error l) \<longrightarrow> s' = s)"
proof -
  obtain e es1 where es: "es = e # es1" using dec by (cases es) auto
  obtain st0 where first: "delivers st0 es1" and loop: "nec_read_loop B ev address data st s =
     (if \<not> is_pulse 0 DURATION_HEAD_LOW e then Some (-1, address, data, st0, s)
      else let (r, event, st) = ir_event_get_timeout e 10000 st0
        in if r \<noteq> 0 then nec_read_loop B event address data st s
           else nec_after_head B event address data st s)"
    using nec_read_loop_first [OF st [unfolded es], of B ev address data s] by (elim exE conjE) simp
  show ?thesis
  proof (cases "is_pulse 0 DURATION_HEAD_LOW e")
    case False
    with dec es loop first show ?thesis by (cases st0) (auto simp: irda_nec_read_def nec_returns_def)
  next
    case low: True
    with dec es obtain e' es' where es1: "es1 = e' # es'" by (cases es1) auto
    with get_timeout_Cons [of st0 e' es' e] first obtain st1 where
      st1: "ir_event_get_timeout e 10000 st0 = (0, e', st1)" "delivers st1 es'" by blast
    with loop low have "irda_nec_read B ev address data st s = nec_after_head B e' address data st1 s"
      by (simp add: irda_nec_read_def)
    with nec_after_head_decodes [OF tx st1(2) low] dec es es1 show ?thesis by simp
  qed
qed

text \<open>
  C34. \<^verbatim>\<open>irda_nec_read\<close> implements the protocol: however the interrupts are spread over its delays,
  as long as the pulses are prompt and the buffer does not overflow, the call returns what the list
  of pulses means, consumes exactly the pulses of one frame, and prints only on an error.
\<close>

theorem irda_nec_read_refines:
  assumes tx: "uart_tx B tx" and st: "delivers st es" and dec: "nec_decode es = Some (res, rest)"
  shows "\<exists>r a d st' s'. irda_nec_read B ev address data st s = Some (r, a, d, st', s') \<and>
    (r, a, d) = nec_returns res address data \<and> delivers st' rest \<and> ((\<forall>l. res \<noteq> Nec_error l) \<longrightarrow> s' = s)"
  using assms by (rule irda_nec_read_decodes)

text \<open>Pulses of exactly the nominal durations, one per delay.\<close>

definition nominal :: "(u32 \<times> int) list \<Rightarrow> irda_raw_event list" where
  "nominal wave = map (\<lambda>(p, us). \<lparr>pol = p, duration = of_int us\<rparr>) wave"

lemma delivers_one_by_one: "length es \<le> 1023 \<Longrightarrow> delivers (ir_buf_init, map (\<lambda>e. [e]) es) es"
  by (auto simp: delivers.simps ir_buf_init_ok ir_buf_init_content intro: prompt_dense)

theorem irda_nec_read_refines_witness:
  "\<exists>st' s'. irda_nec_read uart_ready_bus \<lparr>pol = 0, duration = 0\<rparr> 7 9
     (ir_buf_init, map (\<lambda>e. [e]) (nominal [(0, DURATION_HEAD_LOW), (1, DURATION_REPEAT_HIGH)])) [] =
   Some (1, 7, 9, st', s')"
proof -
  let ?es = "nominal [(0, DURATION_HEAD_LOW), (1, DURATION_REPEAT_HIGH)]"
  have "nec_decode ?es = Some (Nec_repeat, [])"
    by (simp add: nominal_def is_pulse_def duration_in_margin_def nec_durations)
  moreover have "delivers (ir_buf_init, map (\<lambda>e. [e]) ?es) ?es"
    by (rule delivers_one_by_one) (simp add: nominal_def)
  ultimately show ?thesis
    using irda_nec_read_refines [OF uart_ready_bus_tx] by (fastforce simp: nec_returns_def)
qed

section \<open>Round trip through the protocol\<close>

text \<open>The four bytes of a frame, sent least significant bit first, and its nominal waveform.\<close>

definition nec_word :: "u8 \<Rightarrow> u8 \<Rightarrow> u8 \<Rightarrow> u8 \<Rightarrow> u32" where
  "nec_word b0 b1 b2 b3 =
     ucast b0 OR push_bit 8 (ucast b1) OR push_bit 16 (ucast b2) OR push_bit 24 (ucast b3)"

definition bit_wave :: "u32 \<Rightarrow> nat \<Rightarrow> (u32 \<times> int) list" where
  "bit_wave w i = [(0, DURATION_DATA_LOW), (1, if bit w i then DURATION_DATA1_HIGH else DURATION_DATA0_HIGH)]"

definition nec_wave :: "u32 \<Rightarrow> (u32 \<times> int) list" where
  "nec_wave w = (0, DURATION_HEAD_LOW) # (1, DURATION_HEAD_HIGH) # concat (map (bit_wave w) [0..<32])"

definition received :: "(u32 \<times> int) list \<Rightarrow> irda_raw_event list \<Rightarrow> bool" where
  "received wave es \<longleftrightarrow> list_all2 (\<lambda>(p, us) e. is_pulse p us e) wave es"

lemma data_pulses_differ: "is_pulse p DURATION_DATA0_HIGH e \<Longrightarrow> \<not> is_pulse p DURATION_DATA1_HIGH e"
  by (auto simp: is_pulse_def duration_in_margin_def nec_durations)

lemma take_bit_Suc_set:
  "take_bit (Suc i) w = (if bit w i then take_bit i w OR push_bit i 1 else take_bit i (w :: u32))"
  by (rule bit_word_eqI) (auto simp: bit_simps less_Suc_eq)

lemma decode_bits_wave:
  assumes "received (concat (map (bit_wave w) [i..<i + n])) es"
  shows "decode_bits (take_bit i w) i n (es @ rest) = (Inr (take_bit (i + n) w), rest)"
  using assms
proof (induction n arbitrary: i es)
  case 0
  then show ?case by (simp add: received_def)
next
  case (Suc n)
  have "[i..<i + Suc n] = i # [Suc i..<Suc i + n]" by (simp add: upt_conv_Cons del: upt_Suc)
  with Suc.prems have "received (bit_wave w i @ concat (map (bit_wave w) [Suc i..<Suc i + n])) es"
    by (simp only: list.map concat.simps)
  then obtain e e' es' where es: "es = e # e' # es'" "is_pulse 0 DURATION_DATA_LOW e"
    "is_pulse 1 (if bit w i then DURATION_DATA1_HIGH else DURATION_DATA0_HIGH) e'"
    "received (concat (map (bit_wave w) [Suc i..<Suc i + n])) es'"
    by (auto simp: received_def bit_wave_def list_all2_Cons1)
  from Suc.IH [OF es(4)] es(1-3) data_pulses_differ [of 1 e'] show ?case
    by (auto simp: take_bit_Suc_set split: if_splits)
qed

lemma bit_u8_high: "8 \<le> n \<Longrightarrow> bit (b :: u8) n \<longleftrightarrow> False"
  using bit_imp_le_length [of b n] by auto

lemma bit_nec_word:
  "bit (nec_word b0 b1 b2 b3) n \<longleftrightarrow>
    (if n < 8 then bit b0 n else if n < 16 then bit b1 (n - 8)
     else if n < 24 then bit b2 (n - 16) else n < 32 \<and> bit b3 (n - 24))"
  by (auto simp: nec_word_def bit_simps bit_u8_high)

lemma nec_word_bytes:
  "ucast (nec_word b0 b1 b2 b3 AND mask 8) = b0"
  "ucast (drop_bit 16 (nec_word b0 b1 b2 b3) AND mask 8) = b2"
  "ucast (drop_bit 24 (nec_word b0 b1 b2 b3) AND mask 8) = b3"
  by (rule bit_word_eqI; simp add: bit_simps bit_nec_word)+

lemma nec_bytes_word: "nec_bytes (nec_word b0 b1 b2 b3) = (if b2 = NOT b3 then Some (b0, b2) else None)"
proof -
  have "0xff = (mask 8 :: u32)" by (simp add: mask_eq_exp_minus_1)
  then show ?thesis unfolding nec_bytes_def by (simp only: nec_word_bytes Let_def) simp
qed

lemma nec_decode_frame:
  assumes "received (nec_wave (nec_word a x d (NOT d))) frame"
  shows "nec_decode (frame @ rest) = Some (Nec_data a d, rest)"
proof -
  let ?w = "nec_word a x d (NOT d)"
  from assms obtain e e' es where frame: "frame = e # e' # es" "is_pulse 0 DURATION_HEAD_LOW e"
    "is_pulse 1 DURATION_HEAD_HIGH e'" "received (concat (map (bit_wave ?w) [0..<0 + 32])) es"
    by (auto simp: received_def nec_wave_def list_all2_Cons1 simp del: upt_rec_numeral)
  have "take_bit 32 ?w = ?w" by (simp add: take_bit_word_eq_self)
  with decode_bits_wave [OF frame(4), of rest] have "decode_bits 0 0 32 (es @ rest) = (Inr ?w, rest)"
    by simp
  then show ?thesis using frame by (simp add: nec_bytes_word)
qed

text \<open>
  C8. A frame of the NEC protocol with address \<open>a\<close> and data \<open>d\<close>, every pulse within the tolerance,
  is read as exactly this address and data, also from remote controls whose second byte is not
  the inverted address; the buffer is left at the pulse after the frame.
\<close>

theorem irda_nec_read_frame:
  assumes "received (nec_wave (nec_word a x d (NOT d))) frame" and "delivers st (frame @ rest)"
    and "uart_tx B tx"
  shows "\<exists>st'. irda_nec_read B ev address data st s = Some (0, ucast a, ucast d, st', s) \<and> delivers st' rest"
  using irda_nec_read_decodes [OF assms(3,2) nec_decode_frame [OF assms(1)]] by (auto simp: nec_returns_def)

lemma received_nominal: "received (nec_wave w) (nominal (nec_wave w))"
proof -
  have "is_pulse p us \<lparr>pol = p, duration = of_int us\<rparr>" if "(p, us) \<in> set (nec_wave w)" for p us
  proof -
    have "us \<in> {563, 1689, 4504, 9008}"
      using that by (auto simp: nec_wave_def bit_wave_def nec_durations split: if_splits)
    then show ?thesis by (auto simp: is_pulse_def duration_in_margin_def nec_durations)
  qed
  then show ?thesis unfolding received_def nominal_def
    by (auto simp: list_all2_conv_all_nth set_conv_nth split: prod.splits) (metis fst_conv snd_conv)
qed

lemma length_nec_wave: "length (nec_wave w) = 66"
  by (simp add: nec_wave_def bit_wave_def length_concat o_def sum_list_triv)

theorem irda_nec_read_frame_witness:
  "\<exists>st'. irda_nec_read uart_ready_bus \<lparr>pol = 0, duration = 0\<rparr> 0 0
     (ir_buf_init, map (\<lambda>e. [e]) (nominal (nec_wave (nec_word 0x12 0x99 0x34 (NOT 0x34))))) [] =
   Some (0, 0x12, 0x34, st', [])"
proof -
  let ?es = "nominal (nec_wave (nec_word 0x12 0x99 0x34 (NOT 0x34)))"
  have "delivers (ir_buf_init, map (\<lambda>e. [e]) ?es) (?es @ [])"
    using delivers_one_by_one [of ?es] by (simp add: nominal_def length_nec_wave)
  from irda_nec_read_frame [OF received_nominal this uart_ready_bus_tx, of "\<lparr>pol = 0, duration = 0\<rparr>" 0 0 "[]"]
  show ?thesis by auto
qed

section \<open>Edges become pulses\<close>

text \<open>
  A run of edge interrupts: for each the tick count and the machine state in which it is taken.
\<close>

type_synonym 's edge = "u64 \<times> 's"

fun irda_irqs :: "'s bus \<Rightarrow> 's edge list \<Rightarrow> irda_state \<Rightarrow> irda_state" where
  "irda_irqs B [] st = st"
| "irda_irqs B ((cnt, s) # edges) st = irda_irqs B edges (fst (irda_irq B cnt 1 (st, s)))"

text \<open>
  The time of an edge in microseconds, the level of the pin after it, and that the 10 ms ticks
  before it have been counted.
\<close>

definition edge_time :: "'s bus \<Rightarrow> ('s \<Rightarrow> nat) \<Rightarrow> 's edge \<Rightarrow> nat" where
  "edge_time B now e = now (snd (rd32 B TCNTO0 (snd e))) div 5"

definition edge_level :: "'s bus \<Rightarrow> 's edge \<Rightarrow> bool" where
  "edge_level B e = bit (fst (rd32 B GPFDAT (snd (rd32 B TCNTO0 (snd e))))) 1"

definition edge_ok :: "'s bus \<Rightarrow> ('s \<Rightarrow> nat) \<Rightarrow> 's edge \<Rightarrow> bool" where
  "edge_ok B now e \<longleftrightarrow> (let t = now (snd (rd32 B TCNTO0 (snd e))) in unat (fst e) = t div 50000 \<and> t < 2 ^ 63)"

text \<open>The pulses between the edges: a pulse has the level before the edge that ends it.\<close>

fun pulses :: "nat \<Rightarrow> (nat \<times> bool) list \<Rightarrow> irda_raw_event list" where
  "pulses prev [] = []"
| "pulses prev ((t, level) # edges) =
     \<lparr>pol = (if level then 0 else 1), duration = of_nat (t - prev)\<rparr> # pulses t edges"

lemma length_pulses [simp]: "length (pulses prev edges) = length edges"
  by (induction prev edges rule: pulses.induct) simp_all

lemma system_time_of_nat:
  assumes "timer0 B now g" and "edge_ok B now e"
  shows "fst (get_system_time_us B (fst e) (snd e)) = of_nat (edge_time B now e)"
    "snd (get_system_time_us B (fst e) (snd e)) = snd (rd32 B TCNTO0 (snd e))"
proof -
  let ?s = "snd (rd32 B TCNTO0 (snd e))"
  show s: "snd (get_system_time_us B (fst e) (snd e)) = ?s"
    by (simp add: get_system_time_us_def split: prod.split)
  then have "get_system_time_us B (fst e) (snd e) = (fst (get_system_time_us B (fst e) (snd e)), ?s)"
    by (metis prod.collapse)
  from system_time_exact [OF assms(1) this, of 0] assms(2)
  show "fst (get_system_time_us B (fst e) (snd e)) = of_nat (edge_time B now e)"
    by (simp add: edge_ok_def edge_time_def Let_def word_eq_of_nat)
qed

lemma ucast64_of_nat: "ucast (of_nat n :: u64) = (of_nat n :: u32)"
  by (rule bit_word_eqI) (simp add: bit_simps)

lemma irda_irq_event:
  assumes "timer0 B now g" and "edge_ok B now e"
    and "g_last_time st = of_nat t0" and "t0 \<le> edge_time B now e"
  shows "fst (irda_irq B (fst e) irq (st, snd e)) =
    \<lparr>ir_q = snd (ir_event_put \<lparr>pol = (if edge_level B e then 0 else 1), duration = of_nat (edge_time B now e - t0)\<rparr>
       (ir_q st)), g_last_time = of_nat (edge_time B now e)\<rparr>"
proof -
  have "delta_time_us (of_nat t0) (of_nat (edge_time B now e)) = of_nat (edge_time B now e - t0)"
    using assms(4) by (simp add: delta_time_us_def ucast64_of_nat flip: of_nat_diff)
  moreover obtain v s1 where "rd32 B GPFDAT (snd (rd32 B TCNTO0 (snd e))) = (v, s1)" by fastforce
  moreover have "get_system_time_us B (fst e) (snd e) =
      (of_nat (edge_time B now e), snd (rd32 B TCNTO0 (snd e)))"
    using system_time_of_nat [OF assms(1,2)] by (simp add: prod_eq_iff)
  ultimately show ?thesis
    using assms(3) unfolding irda_irq_def irda_data_get_def and_bit_eq_0 edge_level_def
    by (simp add: case_prod_unfold)
qed

lemma irda_irqs_content:
  assumes t: "timer0 B now g"
  shows "\<forall>e \<in> set edges. edge_ok B now e \<Longrightarrow> sorted (t0 # map (edge_time B now) edges) \<Longrightarrow>
    g_last_time st = of_nat t0 \<Longrightarrow> ir_buf_ok (ir_q st) \<Longrightarrow>
    ir_buf_ok (ir_q (irda_irqs B edges st)) \<and> ir_buf_content (ir_q (irda_irqs B edges st)) =
    take 1023 (ir_buf_content (ir_q st) @ pulses t0 (map (\<lambda>e. (edge_time B now e, edge_level B e)) edges))"
proof (induction edges arbitrary: t0 st)
  case Nil
  then show ?case using irq.content_le [of "ir_q st"] by simp
next
  case (Cons e edges)
  let ?ev = "\<lparr>pol = (if edge_level B e then 0 else 1), duration = of_nat (edge_time B now e - t0)\<rparr>"
  let ?st = "fst (irda_irq B (fst e) 1 (st, snd e))"
  have st: "?st = \<lparr>ir_q = snd (ir_event_put ?ev (ir_q st)), g_last_time = of_nat (edge_time B now e)\<rparr>"
    using Cons.prems by (intro irda_irq_event [OF t]) auto
  have put: "ir_buf_ok (ir_q ?st)" "ir_buf_content (ir_q ?st) = take 1023 (ir_buf_content (ir_q st) @ [?ev])"
    using irq.put_all [OF Cons.prems(4), of "[?ev]"] unfolding st by simp_all
  have "ir_buf_ok (ir_q (irda_irqs B edges ?st)) \<and> ir_buf_content (ir_q (irda_irqs B edges ?st)) =
      take 1023 (ir_buf_content (ir_q ?st) @ pulses (edge_time B now e) (map (\<lambda>e. (edge_time B now e, edge_level B e)) edges))"
    using Cons.prems put(1) by (intro Cons.IH) (auto simp: st)
  moreover have "irda_irqs B (e # edges) st = irda_irqs B edges ?st" by (cases e) simp
  ultimately show ?case using put(2) by (simp add: take_Cons' min_def split: if_splits)
qed

end
