(* ===== verification/System.thy ===== *)
theory System
  imports Irda
begin

text \<open>
  The parts put together as \<^verbatim>\<open>main.c\<close> does: the handlers that the program registers, the interrupt
  entry that runs them on the variables of the program, and the foreground loop of
  \<^verbatim>\<open>irda_nec_test\<close>. The theorem follows a frame from the edges at the pin, through timer ticks, key
  interrupts and the ring buffer, to the text on the console.
\<close>

section \<open>The program\<close>

text \<open>The functions whose addresses the program puts into its two tables.\<close>

datatype irq_fp = Key_eint_irq | Timer_irq | Irda_irq

datatype timer_fn = Led_timer_irq

text \<open>The static variables of the files taken together.\<close>

record ram =
  irqs :: "irq_fp irq_array"
  tmrs :: "timer_fn timers"
  leds :: led_state
  irda :: irda_state

definition ram_init :: ram where
  "ram_init = \<lparr>irqs = irq_array_init, tmrs = timers_init, leds = led_state_init, irda = irda_state_init\<rparr>"

definition call_timer_fn :: "'s bus \<Rightarrow> timer_fn \<Rightarrow> led_state \<times> 's \<Rightarrow> (led_state \<times> 's) option" where
  "call_timer_fn B f st = (case f of Led_timer_irq \<Rightarrow> Some (led_timer_irq B st))"

definition call_irq_fp :: "'s bus \<Rightarrow> irq_fp \<Rightarrow> u32 \<Rightarrow> ram \<times> 's \<Rightarrow> (ram \<times> 's) option" where
  "call_irq_fp B fp irq = (\<lambda>(r, s).
     case fp of
       Key_eint_irq \<Rightarrow> do { s \<leftarrow> key_eint_irq B irq s; Some (r, s) }
     | Timer_irq \<Rightarrow> do {
         (t, l, s) \<leftarrow> timer_irq (call_timer_fn B) (tmrs r, leds r, s);
         Some (r\<lparr>tmrs := t, leds := l\<rparr>, s) }
     | Irda_irq \<Rightarrow> (let (i, s) = irda_irq B (g_system_time_10ms_cnt (tmrs r)) irq (irda r, s) in Some (r\<lparr>irda := i\<rparr>, s)))"

text \<open>The registers seen from code that also has variables.\<close>

definition with_ram :: "'s bus \<Rightarrow> ('r \<times> 's) bus" where
  "with_ram B = \<lparr>
     rd8 = (\<lambda>a (r, s). let (v, s) = rd8 B a s in (v, r, s)),
     rd16 = (\<lambda>a (r, s). let (v, s) = rd16 B a s in (v, r, s)),
     rd32 = (\<lambda>a (r, s). let (v, s) = rd32 B a s in (v, r, s)),
     wr8 = (\<lambda>a v (r, s). (r, wr8 B a v s)),
     wr16 = (\<lambda>a v (r, s). (r, wr16 B a v s)),
     wr32 = (\<lambda>a v (r, s). (r, wr32 B a v s))\<rparr>"

definition irq_entry :: "'s bus \<Rightarrow> ram \<times> 's \<Rightarrow> (ram \<times> 's) option" where
  "irq_entry B st = handle_irq_c (with_ram B) (call_irq_fp B) (irqs (fst st)) st"

text \<open>\<^verbatim>\<open>main\<close> up to the demonstrations it calls; \<open>g_A\<close> is the global variable it prints.\<close>

definition main_init :: "'s bus \<Rightarrow> u32 \<Rightarrow> ram \<times> 's \<Rightarrow> (ram \<times> 's) option" where
  "main_init B g_A = (\<lambda>(r, s).
     let (ts, s) = led_init B Led_timer_irq (timer_array (tmrs r), s);
         r = r\<lparr>tmrs := (tmrs r)\<lparr>timer_array := ts\<rparr>\<rparr>
     in do {
       st \<leftarrow> key_eint_init B Key_eint_irq (irqs r, s);
       (t, s) \<leftarrow> timer_init B Timer_irq st;
       s \<leftarrow> puts B ([10, 13] @ str ''g_A = '') s;
       s \<leftarrow> printHex B g_A s;
       s \<leftarrow> puts B [10, 13] s;
       Some (r\<lparr>irqs := t\<rparr>, s) })"

text \<open>\<^verbatim>\<open>irda_nec_test\<close>: the registration, and one round of its endless loop.\<close>

definition irda_nec_test_init :: "'s bus \<Rightarrow> ram \<times> 's \<Rightarrow> (ram \<times> 's) option" where
  "irda_nec_test_init B = (\<lambda>(r, s). do {
     (t, s) \<leftarrow> irda_init B Irda_irq (irqs r, s);
     Some (r\<lparr>irqs := t\<rparr>, s) })"

definition irda_nec_test_round :: "'s bus \<Rightarrow> irda_raw_event \<Rightarrow> u32 \<times> u32 \<Rightarrow> ir_buf \<times> arrivals \<Rightarrow> 's \<Rightarrow>
    ((u32 \<times> u32) \<times> (ir_buf \<times> arrivals) \<times> 's) option" where
  "irda_nec_test_round B event = (\<lambda>(address, data) q s. do {
     (ret, address, data, q, s) \<leftarrow> irda_nec_read B event address data q s;
     s \<leftarrow> (if ret = 0
          then printf_va B (str ''irda_nec_read: address = 0x%x, data = 0x%x'' @ [10, 13]) [Va_int address, Va_int data] s
          else if ret = 1 then printf_va B (str ''irda_nec_read: repeat code'' @ [10, 13]) [] s
          else Some s);
     Some ((address, data), q, s) })"

section \<open>Initialisation\<close>

text \<open>The handler table of the running program.\<close>

definition program_irqs :: "irq_fp irq_array" where
  "program_irqs = irq_array_init[0 := Some Key_eint_irq, 2 := Some Key_eint_irq, 5 := Some Key_eint_irq,
     10 := Some Timer_irq, 1 := Some Irda_irq]"

lemma program_irqs_nth:
  "length program_irqs = 32" "program_irqs ! 10 = Some Timer_irq" "program_irqs ! Suc 0 = Some Irda_irq"
  "program_irqs ! 0 = Some Key_eint_irq" "program_irqs ! 2 = Some Key_eint_irq" "program_irqs ! 5 = Some Key_eint_irq"
  by (simp_all add: program_irqs_def)

lemma program_starts:
  assumes "uart_tx B tx"
  shows "\<exists>r1 s1 r2 s2. main_init B g_A (ram_init, s) = Some (r1, s1) \<and> irda_nec_test_init B (r1, s1) = Some (r2, s2) \<and>
    irqs r2 = program_irqs \<and> irda r2 = irda_state_init \<and> g_system_time_10ms_cnt (tmrs r2) = 0"
proof -
  define pu where "pu cs s = the (puts B cs s)" for cs s
  define ph where "ph v s = the (printHex B v s)" for v s
  have p: "puts B cs s = Some (pu cs s)" "printHex B v s = Some (ph v s)" for cs v s
    unfolding pu_def ph_def using puts_sends [OF assms, of cs s] printHex_sends [OF assms, of v s] by auto
  have r: "unat (10 :: u32) = 10" "unat (5 :: u32) = 5" "unat (2 :: u32) = 2" "unat (1 :: u32) = 1" "unat (0 :: u32) = 0"
    by simp_all
  show ?thesis
    unfolding main_init_def irda_nec_test_init_def timer_init_def key_eint_init_def irda_init_def led_init_def ram_init_def
    by (simp add: register_irq_def Let_def p program_irqs_def irq_array_init_def timers_init_def r del: puts.simps)
qed

section \<open>Runs of interrupts\<close>

text \<open>
  A sequence of interrupts, each taken in some state of the hardware: what happens in between is left
  open. What the handlers need is said of these states.
\<close>

fun run_irqs :: "'s bus \<Rightarrow> 's list \<Rightarrow> ram \<Rightarrow> ram option" where
  "run_irqs B [] r = Some r"
| "run_irqs B (s # ss) r = do { (r, _) \<leftarrow> irq_entry B (r, s); run_irqs B ss r }"

definition source :: "'s bus \<Rightarrow> 's \<Rightarrow> u32" where
  "source B s = fst (rd32 B INTOFFSET s)"

text \<open>The edges among the interrupts, each with the number of ticks before it, counting from \<open>n\<close>.\<close>

fun edges :: "'s bus \<Rightarrow> nat \<Rightarrow> 's list \<Rightarrow> 's edge list" where
  "edges B n [] = []"
| "edges B n (s # ss) =
     (if source B s = 10 then edges B (Suc n) ss
      else if source B s = 1 then (of_nat n, snd (rd32 B INTOFFSET s)) # edges B n ss
      else edges B n ss)"

definition ticks :: "'s bus \<Rightarrow> 's list \<Rightarrow> nat" where
  "ticks B ss = length (filter (\<lambda>s. source B s = 10) ss)"

lemma call_timers_returns: "\<exists>st'. call_timers (call_timer_fn B) ts st = Some st'"
  by (induction ts arbitrary: st) (auto simp: call_timer_fn_def split: option.split timer_fn.split)

lemma key_returns:
  assumes "uart_tx B tx"
  shows "\<exists>s'. key_eint_irq B irq s = Some s'"
proof -
  define pf where "pf f s = the (printf_va B f [] s)" for f s
  have "printf_va B ([10, 13] @ str ''photoresistor dark!'' @ [10, 13]) [] s = Some (pf ([10, 13] @ str ''photoresistor dark!'' @ [10, 13]) s)"
    "printf_va B ([10, 13] @ str ''photoresistor light!'' @ [10, 13]) [] s = Some (pf ([10, 13] @ str ''photoresistor light!'' @ [10, 13]) s)" for s
    unfolding pf_def using printf_returns [OF assms, of "[10, 13] @ str ''photoresistor dark!'' @ [10, 13]" "[]" s]
      printf_returns [OF assms, of "[10, 13] @ str ''photoresistor light!'' @ [10, 13]" "[]" s]
    by (auto simp: str_def)
  then show ?thesis
    unfolding key_eint_irq_def by (cases "rd32 B EINTPEND s") (simp add: Let_def split: prod.split)
qed

lemma irq_entry_step:
  assumes tx: "uart_tx B tx" and r: "irqs r = program_irqs" and src: "source B s \<in> {0, 1, 2, 5, 10}"
  shows "\<exists>r' s'. irq_entry B (r, s) = Some (r', s') \<and> irqs r' = program_irqs \<and>
    g_system_time_10ms_cnt (tmrs r') = g_system_time_10ms_cnt (tmrs r) + (if source B s = 10 then 1 else 0) \<and>
    irda r' = (if source B s = 1
      then fst (irda_irq B (g_system_time_10ms_cnt (tmrs r)) 1 (irda r, snd (rd32 B INTOFFSET s))) else irda r)"
proof -
  obtain v s1 where v: "rd32 B INTOFFSET s = (v, s1)" by fastforce
  have src': "v \<in> {0, 1, 2, 5, 10}" using src v by (simp add: source_def)
  define fp where "fp = the (program_irqs ! unat v)"
  have fp: "unat v < length program_irqs" "program_irqs ! unat v = Some fp"
    using src' by (auto simp: fp_def program_irqs_nth)
  have entry: "irq_entry B (r, s) = do { (r', s') \<leftarrow> call_irq_fp B fp v (r, s1);
      Some (r', wr32 B INTPND (push_bit (unat v) 1) (wr32 B SRCPND (push_bit (unat v) 1) s')) }"
    using fp r v by (simp add: irq_entry_def handle_irq_c_def with_ram_def split: Option.bind_splits)
  consider "v = 1" "fp = Irda_irq" | "v = 10" "fp = Timer_irq" | "v \<in> {0, 2, 5}" "fp = Key_eint_irq"
    using src' by (auto simp: fp_def program_irqs_nth)
  then show ?thesis
  proof cases
    case 1
    then show ?thesis using r v unfolding entry by (simp add: call_irq_fp_def source_def split: prod.split)
  next
    case 2
    obtain l s2 where "call_timers (call_timer_fn B) (timer_array (tmrs r)) (leds r, s1) = Some (l, s2)"
      using call_timers_returns by fast
    with 2 r v show ?thesis unfolding entry by (simp add: call_irq_fp_def source_def timer_irq_def)
  next
    case 3
    obtain s2 where "key_eint_irq B v s1 = Some s2" using key_returns [OF tx] by blast
    with 3 r v show ?thesis unfolding entry by (auto simp: call_irq_fp_def source_def)
  qed
qed

lemma run_irqs_irda:
  assumes tx: "uart_tx B tx" and "\<forall>s \<in> set ss. source B s \<in> {0, 1, 2, 5, 10}" and "irqs r = program_irqs"
    and "g_system_time_10ms_cnt (tmrs r) = of_nat n"
  shows "\<exists>r'. run_irqs B ss r = Some r' \<and> irqs r' = program_irqs \<and>
    g_system_time_10ms_cnt (tmrs r') = of_nat (n + ticks B ss) \<and> irda r' = irda_irqs B (edges B n ss) (irda r)"
  using assms(2-)
proof (induction ss arbitrary: r n)
  case Nil
  then show ?case by (simp add: ticks_def)
next
  case (Cons s ss)
  obtain r1 s1 where r1: "irq_entry B (r, s) = Some (r1, s1)" "irqs r1 = program_irqs"
    "g_system_time_10ms_cnt (tmrs r1) = of_nat (n + (if source B s = 10 then 1 else 0))"
    "irda r1 = (if source B s = 1 then fst (irda_irq B (of_nat n) 1 (irda r, snd (rd32 B INTOFFSET s))) else irda r)"
    using irq_entry_step [OF tx Cons.prems(2), of s] Cons.prems by auto
  with Cons.IH [OF _ r1(2,3)] Cons.prems(1) show ?case by (auto simp: ticks_def)
qed

section \<open>From the pin to the console\<close>

text \<open>
  Edges at these times, with these levels after them, end the pulses of a waveform that starts at
  \<open>prev\<close>: every pulse is within the tolerance of the decoder.
\<close>

fun wave_edges :: "(u32 \<times> int) list \<Rightarrow> nat \<Rightarrow> (nat \<times> bool) list \<Rightarrow> bool" where
  "wave_edges [] prev es \<longleftrightarrow> es = []"
| "wave_edges ((p, us) # w) prev es \<longleftrightarrow>
     (case es of [] \<Rightarrow> False
      | (t, level) # es \<Rightarrow> p = (if level then 0 else 1) \<and> prev \<le> t \<and>
          us - DURATION_DELTA < int (t - prev) \<and> int (t - prev) < us + DURATION_DELTA \<and> wave_edges w t es)"

lemma wave_edges_received:
  assumes "\<forall>(p, us) \<in> set w. us < 100000" and "wave_edges w prev es"
  shows "received w (pulses prev es) \<and> sorted (prev # map fst es)"
  using assms
proof (induction w arbitrary: prev es)
  case Nil
  then show ?case by (simp add: received_def)
next
  case (Cons pus w)
  obtain p us where pus: "pus = (p, us)" by fastforce
  with Cons.prems(2) obtain t level es' where es: "es = (t, level) # es'" "p = (if level then 0 else 1)" "prev \<le> t"
    "us - DURATION_DELTA < int (t - prev)" "int (t - prev) < us + DURATION_DELTA" "wave_edges w t es'"
    by (auto split: list.splits)
  have "sint (of_nat (t - prev) :: u32) = int (t - prev)"
    using es(5) Cons.prems(1) pus by (intro sint_of_nat_small) (simp add: nec_durations)
  then have "is_pulse p us \<lparr>pol = p, duration = of_nat (t - prev)\<rparr>"
    using es(4,5) by (simp add: is_pulse_def duration_in_margin_def)
  moreover have "received w (pulses t es') \<and> sorted (t # map fst es')"
    using Cons.IH [OF _ es(6)] Cons.prems(1) by simp
  ultimately show ?case using es(1-3) pus by (auto simp: received_def dest: order_trans)
qed

lemma nec_wave_short: "\<forall>(p, us) \<in> set (nec_wave w). us < 100000"
  by (auto simp: nec_wave_def bit_wave_def nec_durations split: if_splits)

definition frame_text :: "u8 \<Rightarrow> u8 \<Rightarrow> cstring" where
  "frame_text a d = str ''irda_nec_read: address = 0x'' @ digit_chars 16 (unat a) @
     str '', data = 0x'' @ digit_chars 16 (unat d) @ [10, 13]"

lemma frame_text_printed:
  "my_vprintf mem (str ''irda_nec_read: address = 0x%x, data = 0x%x'' @ [10, 13]) (va_word [Va_int (ucast a), Va_int (ucast d)]) 0 =
    Some (frame_text a d)"
proof -
  have m: "magnitude (ucast b) = ucast b" "sign_chars (ucast b) = []" for b :: u8
  proof -
    have "\<not> sint (ucast b :: u32) < 0" using bit_last_iff [of "ucast b :: u32"] by (simp add: bit_simps bit_u8_high)
    then show "magnitude (ucast b) = ucast b" "sign_chars (ucast b) = []" by (simp_all add: magnitude_def sign_chars_def)
  qed
  have u: "unat (ucast b :: u32) = unat b" for b :: u8 by (simp add: unat_ucast_up)
  have "length (digit_chars 16 (unat b)) \<le> 3" for b :: u8
    using unat_less [of b] by (intro length_digit_chars) simp_all
  then have "length (digit_chars 16 (unat b)) < MAX_NUMBER_BYTES" for b :: u8
    by (rule le_less_trans) (simp add: MAX_NUMBER_BYTES_def)
  then have n: "out_num (ucast b) 16 0x20 0 = Some (digit_chars 16 (unat b))" for b :: u8
    using out_num_eq [of 16 "0x20" "ucast b" 0] by (simp add: m u Let_def)
  show ?thesis by (simp add: str_def frame_text_def parse_directive_def va_word_def n)
qed

lemma two_rounds:
  assumes tx: "uart_tx B tx" and q: "delivers q (e # frame)" and e: "pol e = 1"
    and frame: "received (nec_wave (nec_word a x d (NOT d))) frame"
  shows "\<exists>q1 q2 s2. irda_nec_test_round B ev (address, data) q s = Some ((address, data), q1, s) \<and>
    irda_nec_test_round B ev (address, data) q1 s = Some ((ucast a, ucast d), q2, s2) \<and> tx s2 = tx s @ frame_text a d"
proof -
  have "nec_decode (e # frame) = Some (Nec_noise, frame)" using e by (simp add: is_pulse_def)
  from irda_nec_read_decodes [OF tx q this, of ev address data s] obtain q1 where
    q1: "irda_nec_read B ev address data q s = Some (- 1, address, data, q1, s)" "delivers q1 frame"
    by (auto simp: nec_returns_def)
  from irda_nec_read_decodes [OF tx q1(2), of "Nec_data a d" "[]" ev address data s] nec_decode_frame [OF frame, of "[]"]
  obtain q2 where q2: "irda_nec_read B ev address data q1 s = Some (0, ucast a, ucast d, q2, s)"
    by (auto simp: nec_returns_def)
  obtain s2 where "printf_va B (str ''irda_nec_read: address = 0x%x, data = 0x%x'' @ [10, 13]) [Va_int (ucast a), Va_int (ucast d)] s = Some s2"
    "tx s2 = tx s @ frame_text a d"
    using printf_sends [OF tx frame_text_printed] unfolding printf_va_def by blast
  with q1(1) q2 show ?thesis by (simp add: irda_nec_test_round_def)
qed

lemma edges_time_level:
  "map (\<lambda>e. (edge_time B now e, edge_level B e)) es = (t1, l) # rest \<Longrightarrow> map (edge_time B now) es = t1 # map fst rest"
  by (induction es) (auto simp: o_def split: prod.splits)

text \<open>
  C1. The whole path. The program starts and registers its handlers. Then come interrupts in any
  order, ticks, keys and edges of the infrared pin, such that at every edge the ticks before it have
  been taken; the edges are the start of a NEC frame and the ends of its pulses, each within the
  tolerance. Every interrupt is handled, and of the two rounds of \<^verbatim>\<open>irda_nec_test\<close> the first takes the
  idle time before the frame and the second prints the address and the data of the frame.
\<close>

theorem remote_control_to_console:
  assumes timer: "timer0 B now g" and tx: "uart_tx B tx"
    and src: "\<forall>s \<in> set ss. source B s \<in> {0, 1, 2, 5, 10}" and ok: "\<forall>e \<in> set (edges B 0 ss). edge_ok B now e"
    and sig: "map (\<lambda>e. (edge_time B now e, edge_level B e)) (edges B 0 ss) = (t1, False) # rest"
    and wave: "wave_edges (nec_wave (nec_word a x d (NOT d))) t1 rest"
  shows "\<exists>st1 r s1 r'. main_init B g_A (ram_init, s0) = Some st1 \<and> irda_nec_test_init B st1 = Some (r, s1) \<and>
    run_irqs B ss r = Some r' \<and>
    (\<forall>s. \<exists>q1 q2 s2. irda_nec_test_round B ev (address, data) (ir_q (irda r'), []) s = Some ((address, data), q1, s) \<and>
      irda_nec_test_round B ev (address, data) q1 s = Some ((ucast a, ucast d), q2, s2) \<and> tx s2 = tx s @ frame_text a d)"
proof -
  obtain st1 r s1 where init: "main_init B g_A (ram_init, s0) = Some st1" "irda_nec_test_init B st1 = Some (r, s1)"
    and r: "irqs r = program_irqs" "irda r = irda_state_init" "g_system_time_10ms_cnt (tmrs r) = of_nat 0"
    using program_starts [OF tx, of g_A s0] by auto
  obtain r' where r': "run_irqs B ss r = Some r'" "irda r' = irda_irqs B (edges B 0 ss) irda_state_init"
    using run_irqs_irda [OF tx src r(1,3)] r(2) by auto
  have w: "received (nec_wave (nec_word a x d (NOT d))) (pulses t1 rest)" "sorted (t1 # map fst rest)"
    using wave_edges_received [OF nec_wave_short wave] by auto
  then have len: "length rest = 66"
    using length_nec_wave by (metis list_all2_lengthD received_def length_pulses)
  have "sorted (0 # map (edge_time B now) (edges B 0 ss))"
    using w(2) edges_time_level [OF sig] by simp
  moreover have "g_last_time irda_state_init = of_nat 0" "ir_buf_ok (ir_q irda_state_init)" "ir_buf_content (ir_q irda_state_init) = []"
    by (simp_all add: irda_state_init_def ir_buf_init_ok ir_buf_init_content)
  ultimately have "ir_buf_ok (ir_q (irda r')) \<and> ir_buf_content (ir_q (irda r')) = take 1023 (pulses 0 ((t1, False) # rest))"
    using irda_irqs_content [OF timer ok, of 0 irda_state_init] sig r'(2) by simp
  then have q: "delivers (ir_q (irda r'), []) (\<lparr>pol = 1, duration = of_nat t1\<rparr> # pulses t1 rest)"
    using len by (simp add: delivers.simps prompt_def)
  have "pol \<lparr>pol = 1, duration = of_nat t1\<rparr> = 1" by simp
  from init r'(1) two_rounds [OF tx q this w(1)] show ?thesis by blast
qed

section \<open>A board that receives a frame\<close>

text \<open>
  The state: the counts of the timer, the source of the interrupt, the level of the pin and what was
  sent. Every load of the timer takes one count.
\<close>

definition demo_board :: "(nat \<times> u32 \<times> bool \<times> u8 list) bus" where
  "demo_board = \<lparr>
     rd8 = (\<lambda>a s. (0, s)), rd16 = (\<lambda>a s. (0, s)),
     rd32 = (\<lambda>a (t, src, level, out).
       (if a = TCNTO0 then of_nat (50000 - Suc t mod 50000) else if a = INTOFFSET then src
        else if a = GPFDAT then (if level then 2 else 0) else if a = UTRSTAT0 then 4 else 0,
        if a = TCNTO0 then Suc t else t, src, level, out)),
     wr8 = (\<lambda>a v (t, src, level, out). (t, src, level, if a = UTXH0 then out @ [v] else out)),
     wr16 = (\<lambda>a v s. s), wr32 = (\<lambda>a v s. s)\<rparr>"

lemma demo_board_timer: "timer0 demo_board fst 1"
  by (simp add: timer0_def demo_board_def)

lemma demo_board_uart: "uart_tx demo_board (\<lambda>(t, src, level, out). out)"
  by (simp add: uart_tx_def demo_board_def sfr)

text \<open>The edges of a waveform, and the interrupts: before each edge the ticks that are due.\<close>

fun wave_times :: "nat \<Rightarrow> (u32 \<times> int) list \<Rightarrow> (nat \<times> bool) list" where
  "wave_times prev [] = []"
| "wave_times prev ((p, us) # w) = (prev + nat us, p = 0) # wave_times (prev + nat us) w"

fun demo_ints :: "nat \<Rightarrow> (nat \<times> bool) list \<Rightarrow> (nat \<times> u32 \<times> bool \<times> u8 list) list" where
  "demo_ints n [] = []"
| "demo_ints n ((t, level) # es) =
     replicate (t div 10000 - n) (0, 10, False, []) @ (5 * t - 1, 1, level, []) # demo_ints (t div 10000) es"

lemma wave_times_edges:
  assumes "\<forall>(p, us) \<in> set w. (p = 0 \<or> p = 1) \<and> 0 \<le> us \<and> us \<le> 10000"
  shows "wave_edges w prev (wave_times prev w) \<and> (\<forall>(t, l) \<in> set (wave_times prev w). prev \<le> t \<and> t \<le> prev + 10000 * length w)"
  using assms by (induction prev w rule: wave_times.induct) (fastforce simp: nec_durations)+

lemma edges_ticks: "edges demo_board n (replicate k (0, 10, False, []) @ ss) = edges demo_board (n + k) ss"
  by (induction k arbitrary: n) (simp_all add: source_def demo_board_def sfr)

lemma demo_ints_edges:
  assumes "sorted (map fst es)" and "\<forall>(t, l) \<in> set es. n \<le> t div 10000"
  shows "edges demo_board n (demo_ints n es) = map (\<lambda>(t, l). (of_nat (t div 10000), 5 * t - 1, 1, l, [])) es"
  using assms
proof (induction n es rule: demo_ints.induct)
  case (2 n t level es)
  have "\<forall>(t', l) \<in> set es. t div 10000 \<le> t' div 10000" using "2.prems"(1) by (auto intro: div_le_mono)
  then have "edges demo_board (t div 10000) (demo_ints (t div 10000) es) =
      map (\<lambda>(t, l). (of_nat (t div 10000), 5 * t - 1, 1, l, [])) es"
    using "2.IH" "2.prems"(1) by simp
  with "2.prems"(2) show ?case by (simp add: edges_ticks) (simp add: source_def demo_board_def sfr)
qed simp

lemma demo_ints_source: "s \<in> set (demo_ints n es) \<Longrightarrow> source demo_board s \<in> {0, 1, 2, 5, 10}"
  by (induction n es rule: demo_ints.induct) (auto simp: source_def demo_board_def sfr)

lemma demo_edge:
  assumes "0 < t" "t < 2 ^ 60"
  shows "edge_time demo_board fst (of_nat (t div 10000), 5 * t - 1, 1, l, []) = t"
    "edge_level demo_board (c, 5 * t - 1, 1, l, []) = l"
    "edge_ok demo_board fst (of_nat (t div 10000), 5 * t - 1, 1, l, [])"
proof -
  have r: "rd32 demo_board TCNTO0 (5 * t - 1, 1, l, []) = (of_nat (50000 - 5 * t mod 50000), 5 * t, 1, l, [])"
    using assms(1) by (simp add: demo_board_def)
  show "edge_time demo_board fst (of_nat (t div 10000), 5 * t - 1, 1, l, []) = t" by (simp add: edge_time_def r [simplified])
  show "edge_level demo_board (c, 5 * t - 1, 1, l, []) = l"
    using assms(1) by (simp add: edge_level_def demo_board_def sfr bit_simps)
  have "5 * t div 50000 = t div 10000" using div_mult_mult1 [of 5 t 10000] by simp
  moreover have "unat (of_nat (t div 10000) :: u64) = t div 10000"
    using assms(2) by (intro unat_of_nat64) (simp add: div_less_dividend le_less_trans [OF div_le_dividend])
  ultimately show "edge_ok demo_board fst (of_nat (t div 10000), 5 * t - 1, 1, l, [])"
    using assms(2) by (simp add: edge_ok_def r [simplified] Let_def)
qed

theorem remote_control_to_console_witness:
  "\<exists>st1 r s1 r'. main_init demo_board 0 (ram_init, 0, 0, False, []) = Some st1 \<and> irda_nec_test_init demo_board st1 = Some (r, s1) \<and>
    run_irqs demo_board (demo_ints 0 ((25000, False) # wave_times 25000 (nec_wave (nec_word 0x12 0xED 0x0A (NOT 0x0A))))) r = Some r' \<and>
    (\<forall>s. \<exists>q1 q2 s2. irda_nec_test_round demo_board \<lparr>pol = 0, duration = 0\<rparr> (7, 9) (ir_q (irda r'), []) s = Some ((7, 9), q1, s) \<and>
      irda_nec_test_round demo_board \<lparr>pol = 0, duration = 0\<rparr> (7, 9) q1 s = Some ((0x12, 0x0A), q2, s2) \<and>
      snd (snd (snd s2)) = snd (snd (snd s)) @ str ''irda_nec_read: address = 0x12, data = 0xa'' @ [10, 13])"
proof -
  let ?w = "nec_wave (nec_word 0x12 0xED 0x0A (NOT 0x0A))"
  let ?es = "(25000, False) # wave_times 25000 ?w"
  have "\<forall>(p, us) \<in> set ?w. (p = 0 \<or> p = 1) \<and> 0 \<le> us \<and> us \<le> 10000"
    by (auto simp: nec_wave_def bit_wave_def nec_durations split: if_splits)
  note w = wave_times_edges [OF this, of 25000]
  define es where "es = ?es"
  have sorted: "sorted (map fst es)" using wave_edges_received [OF nec_wave_short] w unfolding es_def by fastforce
  have e: "edges demo_board 0 (demo_ints 0 es) = map (\<lambda>(t, l). (of_nat (t div 10000), 5 * t - 1, 1, l, [])) es"
    by (rule demo_ints_edges [OF sorted]) simp
  have t: "0 < t \<and> t < 2 ^ 60" if "(t, l) \<in> set es" for t l
    using that w by (auto simp: length_nec_wave es_def)
  have ok: "\<forall>e \<in> set (edges demo_board 0 (demo_ints 0 es)). edge_ok demo_board fst e"
  proof
    fix x assume "x \<in> set (edges demo_board 0 (demo_ints 0 es))"
    then obtain t l where "(t, l) \<in> set es" "x = (of_nat (t div 10000), 5 * t - 1, 1, l, [])"
      unfolding e set_map by (elim imageE) (simp only: case_prod_unfold, metis prod.collapse)
    with t demo_edge(3) show "edge_ok demo_board fst x" by metis
  qed
  have sig: "map (\<lambda>e. (edge_time demo_board fst e, edge_level demo_board e)) (edges demo_board 0 (demo_ints 0 es)) = ?es"
    unfolding e map_map es_def [symmetric] by (intro map_idI) (use t in \<open>auto simp: demo_edge [simplified]\<close>)
  have ft: "frame_text 0x12 0x0A = str ''irda_nec_read: address = 0x12, data = 0xa'' @ [10, 13]"
    by (simp add: frame_text_def digit_chars_small digit_chars_large hex_tab_def str_def)
  have u: "ucast (0x12 :: u8) = (0x12 :: u32)" "ucast (0x0A :: u8) = (0x0A :: u32)" by simp_all
  have src: "\<forall>s \<in> set (demo_ints 0 es). source demo_board s \<in> {0, 1, 2, 5, 10}" using demo_ints_source by blast
  from remote_control_to_console [OF demo_board_timer demo_board_uart src ok sig conjunct1 [OF w], of 0 "(0, 0, False, [])"
      "\<lparr>pol = 0, duration = 0\<rparr>" 7 9]
  show ?thesis unfolding ft u es_def case_prod_unfold .
qed

end
