(* ===== verification/Touchscreen.thy ===== *)
theory Touchscreen
  imports Timers
begin

text \<open>
  The analogue converter and the touch screen, \<^verbatim>\<open>adc.c\<close> and \<^verbatim>\<open>touchscreen.c\<close>: the interrupt handlers of
  pen and converter, the 10 ms timer function that restarts a measurement while the pen is down, and the
  mailbox through which the foreground gets the averaged samples.

  The variables are C integers; the invariant bounds them far below the limits of the type, so they are
  unbounded integers here.
\<close>

section \<open>The converter\<close>

definition adc_init :: "'s bus \<Rightarrow> u32 \<Rightarrow> 's \<Rightarrow> 's" where
  "adc_init B channel s =
     (let s = wr32 B ADCCON (push_bit 14 1 OR push_bit 6 49 OR push_bit 3 channel) s
      in wr32 B ADCDLY 0xff s)"

definition adc_read :: "'s bus \<Rightarrow> u32 \<Rightarrow> 's \<Rightarrow> (u32 \<times> 's) option" where
  "adc_read B channel s =
     (let s = adc_init B channel s; s = reg_or B ADCCON (push_bit 0 1) s
      in do {
           (_, s) \<leftarrow> poll (rd32 B ADCCON) (\<lambda>v. v AND push_bit 15 1 \<noteq> 0) s;
           let (v, s) = rd32 B ADCDAT0 s;
           Some (v AND 0x3ff, s) })"

section \<open>Modes of the touch screen interface\<close>

definition ADC_INT_BIT :: nat where "ADC_INT_BIT = 10"
definition TC_INT_BIT :: nat where "TC_INT_BIT = 9"
definition WAIT_PEN_DOWN :: u32 where "WAIT_PEN_DOWN = push_bit 8 0"
definition WAIT_PEN_UP :: u32 where "WAIT_PEN_UP = push_bit 8 1"
definition YM_ENABLE :: u32 where "YM_ENABLE = push_bit 7 1"
definition YP_DISABLE :: u32 where "YP_DISABLE = push_bit 6 1"
definition XM_DISABLE :: u32 where "XM_DISABLE = push_bit 5 0"
definition XP_DISABLE :: u32 where "XP_DISABLE = push_bit 4 1"
definition PULLUP_ENABLE :: u32 where "PULLUP_ENABLE = push_bit 3 0"
definition AUTO_PST :: u32 where "AUTO_PST = push_bit 2 1"
definition WAIT_INT_MODE :: u32 where "WAIT_INT_MODE = 3"
definition NO_OPR_MODE :: u32 where "NO_OPR_MODE = 0"

lemmas adctsc_bits = WAIT_PEN_DOWN_def WAIT_PEN_UP_def YM_ENABLE_def YP_DISABLE_def XM_DISABLE_def XP_DISABLE_def
  PULLUP_ENABLE_def AUTO_PST_def WAIT_INT_MODE_def NO_OPR_MODE_def

definition enter_wait_pen_down_mode :: "'s bus \<Rightarrow> 's \<Rightarrow> 's" where
  "enter_wait_pen_down_mode B s =
     wr32 B ADCTSC (WAIT_PEN_DOWN OR PULLUP_ENABLE OR YM_ENABLE OR YP_DISABLE OR XP_DISABLE OR XM_DISABLE OR WAIT_INT_MODE) s"

definition enter_wait_pen_up_mode :: "'s bus \<Rightarrow> 's \<Rightarrow> 's" where
  "enter_wait_pen_up_mode B s =
     wr32 B ADCTSC (WAIT_PEN_UP OR PULLUP_ENABLE OR YM_ENABLE OR YP_DISABLE OR XP_DISABLE OR XM_DISABLE OR WAIT_INT_MODE) s"

definition enter_auto_measure_mode :: "'s bus \<Rightarrow> 's \<Rightarrow> 's" where
  "enter_auto_measure_mode B s = wr32 B ADCTSC (AUTO_PST OR NO_OPR_MODE) s"

definition is_in_auto_mode :: "'s bus \<Rightarrow> 's \<Rightarrow> u32 \<times> 's" where
  "is_in_auto_mode B s = (let (v, s) = rd32 B ADCTSC s in (v AND AUTO_PST, s))"

section \<open>Samples and reports\<close>

text \<open>The static variables of the file and of \<^verbatim>\<open>Isr_Adc\<close>.\<close>

record ts_state =
  g_ts_timer_enable :: int
  g_ts_x :: int
  g_ts_y :: int
  g_ts_pressure :: int
  g_ts_data_valid :: int
  test_x_array :: "int list"
  test_y_array :: "int list"
  adc_cnt :: int
  adc_x :: int
  adc_y :: int

definition ts_state_init :: ts_state where
  "ts_state_init = \<lparr>g_ts_timer_enable = 0, g_ts_x = 0, g_ts_y = 0, g_ts_pressure = 0, g_ts_data_valid = 0,
     test_x_array = replicate 16 0, test_y_array = replicate 16 0, adc_cnt = 0, adc_x = 0, adc_y = 0\<rparr>"

definition ts_timer_enable :: "ts_state \<Rightarrow> ts_state" where
  "ts_timer_enable st = st\<lparr>g_ts_timer_enable := 1\<rparr>"

definition ts_timer_disable :: "ts_state \<Rightarrow> ts_state" where
  "ts_timer_disable st = st\<lparr>g_ts_timer_enable := 0\<rparr>"

definition get_status_of_ts_timer :: "ts_state \<Rightarrow> int" where
  "get_status_of_ts_timer st = g_ts_timer_enable st"

definition report_ts_xy :: "int \<Rightarrow> int \<Rightarrow> int \<Rightarrow> ts_state \<Rightarrow> ts_state" where
  "report_ts_xy x y pressure st =
     (if g_ts_data_valid st = 0
      then st\<lparr>g_ts_x := x, g_ts_y := y, g_ts_pressure := pressure, g_ts_data_valid := 1\<rparr> else st)"

definition Isr_Tc :: "'s bus \<Rightarrow> ts_state \<times> 's \<Rightarrow> ts_state \<times> 's" where
  "Isr_Tc B = (\<lambda>(st, s).
     let (v, s) = rd32 B ADCDAT0 s
     in if v AND push_bit 15 1 \<noteq> 0
        then let s = enter_wait_pen_down_mode B s in (report_ts_xy 0 0 0 st, s)
        else let s = enter_auto_measure_mode B s in (st, reg_or B ADCCON (push_bit 0 1) s))"

text \<open>The function that the 10 ms timer calls.\<close>

definition touchscreen_timer_irq :: "'s bus \<Rightarrow> ts_state \<times> 's \<Rightarrow> (ts_state \<times> 's) option" where
  "touchscreen_timer_irq B = (\<lambda>(st, s).
     if get_status_of_ts_timer st = 0 then Some (st, s)
     else let (auto, s) = is_in_auto_mode B s
       in if auto \<noteq> 0 then Some (st, s)
          else let (v, s) = rd32 B ADCDAT0 s
            in if v AND push_bit 15 1 \<noteq> 0
               then do {
                 s \<leftarrow> printf_va B (str ''timer set pen down'' @ [10, 13]) [] s;
                 let st = ts_timer_disable st;
                 let s = enter_wait_pen_down_mode B s;
                 Some (report_ts_xy 0 0 0 st, s) }
               else let s = enter_auto_measure_mode B s in Some (st, reg_or B ADCCON (push_bit 0 1) s))"

text \<open>\<open>None\<close>: the store of a sample leaves its array.\<close>

definition Isr_Adc :: "'s bus \<Rightarrow> ts_state \<times> 's \<Rightarrow> (ts_state \<times> 's) option" where
  "Isr_Adc B = (\<lambda>(st, s).
     let (x, s) = rd32 B ADCDAT0 s;
         (y, s) = rd32 B ADCDAT1 s;
         s = enter_wait_pen_up_mode B s;
         (v, s) = rd32 B ADCDAT0 s
     in if v AND push_bit 15 1 = 0
        then
          let st = st\<lparr>adc_x := adc_x st + uint (x AND 0x3ff), adc_y := adc_y st + uint (y AND 0x3ff)\<rparr>
          in if 0 \<le> adc_cnt st \<and> adc_cnt st < int (length (test_x_array st)) \<and> adc_cnt st < int (length (test_y_array st))
             then
               let st = st\<lparr>test_x_array := (test_x_array st)[nat (adc_cnt st) := uint (x AND 0x3ff)]\<rparr>;
                   st = st\<lparr>test_y_array := (test_y_array st)[nat (adc_cnt st) := uint (y AND 0x3ff)]\<rparr>;
                   st = st\<lparr>adc_cnt := adc_cnt st + 1\<rparr>
               in if adc_cnt st = 16
                  then
                    let st = st\<lparr>adc_x := adc_x st div 16, adc_y := adc_y st div 16\<rparr>;
                        st = report_ts_xy (adc_x st) (adc_y st) 1 st;
                        st = st\<lparr>adc_cnt := 0, adc_x := 0, adc_y := 0\<rparr>;
                        s = enter_wait_pen_up_mode B s
                    in Some (ts_timer_enable st, s)
                  else let s = enter_auto_measure_mode B s in Some (st, reg_or B ADCCON (push_bit 0 1) s)
             else None
        else
          let st = st\<lparr>adc_cnt := 0, adc_x := 0, adc_y := 0\<rparr>
          in do {
               s \<leftarrow> printf_va B (str ''adc report pen down'' @ [10, 13]) [] s;
               let st = ts_timer_disable st;
               let s = enter_wait_pen_down_mode B s;
               Some (report_ts_xy 0 0 0 st, s) })"

definition AdcTsIntHandle :: "'s bus \<Rightarrow> u32 \<Rightarrow> ts_state \<times> 's \<Rightarrow> (ts_state \<times> 's) option" where
  "AdcTsIntHandle B irq = (\<lambda>(st, s).
     let (v, s) = rd32 B SUBSRCPND s;
         (st, s) = (if v AND push_bit TC_INT_BIT 1 \<noteq> 0 then Isr_Tc B (st, s) else (st, s));
         (v, s) = rd32 B SUBSRCPND s
     in do {
          (st, s) \<leftarrow> (if v AND push_bit ADC_INT_BIT 1 \<noteq> 0 then Isr_Adc B (st, s) else Some (st, s));
          Some (st, wr32 B SUBSRCPND (push_bit TC_INT_BIT 1 OR push_bit ADC_INT_BIT 1) s) })"

text \<open>
  \<^verbatim>\<open>while (g_ts_data_valid == 0);\<close>: the loop makes progress only through interrupts. \<open>irq\<close> runs the program
  until the next one has been handled; it is \<open>None\<close> if there is none.
\<close>

partial_function (option) wait_data_valid ::
  "(ts_state \<times> 's \<Rightarrow> (ts_state \<times> 's) option) \<Rightarrow> ts_state \<times> 's \<Rightarrow> (ts_state \<times> 's) option" where
  [code]: "wait_data_valid irq st =
     (if g_ts_data_valid (fst st) = 0 then do { st \<leftarrow> irq st; wait_data_valid irq st } else Some st)"

definition ts_read_raw ::
  "(ts_state \<times> 's \<Rightarrow> (ts_state \<times> 's) option) \<Rightarrow> ts_state \<times> 's \<Rightarrow> (int \<times> int \<times> int \<times> ts_state \<times> 's) option" where
  "ts_read_raw irq st = do {
     (st, s) \<leftarrow> wait_data_valid irq st;
     Some (g_ts_x st, g_ts_y st, g_ts_pressure st, st\<lparr>g_ts_data_valid := 0\<rparr>, s) }"

section \<open>Initialisation\<close>

definition adc_ts_int_init :: "'s bus \<Rightarrow> 'f \<Rightarrow> 'f irq_array \<times> 's \<Rightarrow> ('f irq_array \<times> 's) option" where
  "adc_ts_int_init B handle_fp = (\<lambda>(irqs, s).
     let s = wr32 B SUBSRCPND (push_bit TC_INT_BIT 1 OR push_bit ADC_INT_BIT 1) s
     in do {
          (irqs, s) \<leftarrow> register_irq B 31 handle_fp (irqs, s);
          Some (irqs, reg_and B INTSUBMSK (NOT (push_bit ADC_INT_BIT 1 OR push_bit TC_INT_BIT 1)) s) })"

definition adc_ts_reg_init :: "'s bus \<Rightarrow> 's \<Rightarrow> 's" where
  "adc_ts_reg_init B s =
     (let s = wr32 B ADCCON (push_bit 14 1 OR push_bit 6 49 OR push_bit 3 0) s
      in wr32 B ADCDLY 60000 s)"

text \<open>The three registers are arguments of \<^verbatim>\<open>printf\<close>, read from left to right here.\<close>

definition touchscreen_init ::
  "'s bus \<Rightarrow> 'f \<Rightarrow> 't \<Rightarrow> 'f irq_array \<times> 't timer_desc list \<times> 's \<Rightarrow> ('f irq_array \<times> 't timer_desc list \<times> 's) option" where
  "touchscreen_init B handle_fp ts_fp = (\<lambda>(irqs, ts, s).
     let s = adc_ts_reg_init B s;
         (a, s) = rd32 B ADCUPDN s;
         (b, s) = rd32 B SUBSRCPND s;
         (c, s) = rd32 B SRCPND s
     in do {
          s \<leftarrow> printf_va B (str ''ADCUPDN = 0x%x, SUBSRCPND = 0x%x, SRCPND = 0x%x'' @ [10, 13]) [Va_int a, Va_int b, Va_int c] s;
          (irqs, s) \<leftarrow> adc_ts_int_init B handle_fp (irqs, s);
          let ts = snd (register_timer (str ''touchscreen'') ts_fp ts);
          Some (irqs, ts, enter_wait_pen_down_mode B s) })"

text \<open>The raw data of the last measurement on the console.\<close>

fun print_samples :: "'s bus \<Rightarrow> int list \<Rightarrow> 's \<Rightarrow> 's option" where
  "print_samples B [] s = Some s"
| "print_samples B (x # xs) s = do {
     s \<leftarrow> printf_va B (str ''%08d '') [Va_int (word_of_int x)] s;
     print_samples B xs s }"

definition print_test_array :: "'s bus \<Rightarrow> ts_state \<Rightarrow> 's \<Rightarrow> 's option" where
  "print_test_array B st s = do {
     s \<leftarrow> printf_va B (str ''test array x : '') [] s;
     s \<leftarrow> print_samples B (map (\<lambda>i. test_x_array st ! i) [0..<16]) s;
     s \<leftarrow> printf_va B [10, 13] [] s;
     s \<leftarrow> printf_va B (str ''test array y : '') [] s;
     s \<leftarrow> print_samples B (map (\<lambda>i. test_y_array st ! i) [0..<16]) s;
     printf_va B [10, 13] [] s }"

definition ts_read_raw_test ::
  "'s bus \<Rightarrow> (ts_state \<times> 's \<Rightarrow> (ts_state \<times> 's) option) \<Rightarrow> ts_state \<times> 's \<Rightarrow> (int \<times> int \<times> int \<times> ts_state \<times> 's) option" where
  "ts_read_raw_test B irq st = do {
     (st, s) \<leftarrow> wait_data_valid irq st;
     s \<leftarrow> print_test_array B st s;
     Some (g_ts_x st, g_ts_y st, g_ts_pressure st, st\<lparr>g_ts_data_valid := 0\<rparr>, s) }"

section \<open>The invariant\<close>

text \<open>
  The types that the code gives its integers by use: flags are 0 or 1, coordinates have ten bits, the
  counter indexes the arrays, and the sums are sums of that many samples.
\<close>

definition ts_ok :: "ts_state \<Rightarrow> bool" where
  "ts_ok st \<longleftrightarrow> g_ts_timer_enable st \<in> {0, 1} \<and> g_ts_data_valid st \<in> {0, 1} \<and> g_ts_pressure st \<in> {0, 1} \<and>
     g_ts_x st \<in> {0..1023} \<and> g_ts_y st \<in> {0..1023} \<and> length (test_x_array st) = 16 \<and> length (test_y_array st) = 16 \<and>
     adc_cnt st \<in> {0..15} \<and> adc_x st \<in> {0..1023 * adc_cnt st} \<and> adc_y st \<in> {0..1023 * adc_cnt st}"

lemma sample_bounds: "0 \<le> uint (v AND 0x3ff :: u32)" "uint (v AND 0x3ff :: u32) \<le> 1023"
  by (simp, use word_and_le1 [of v "0x3ff"] in \<open>simp add: word_le_def\<close>)

lemma report_ok: "ts_ok st \<Longrightarrow> x \<in> {0..1023} \<Longrightarrow> y \<in> {0..1023} \<Longrightarrow> p \<in> {0, 1} \<Longrightarrow> ts_ok (report_ts_xy x y p st)"
  by (auto simp: ts_ok_def report_ts_xy_def)

lemma timer_flag_ok: "ts_ok st \<Longrightarrow> ts_ok (ts_timer_enable st)" "ts_ok st \<Longrightarrow> ts_ok (ts_timer_disable st)"
  by (simp_all add: ts_ok_def ts_timer_enable_def ts_timer_disable_def)

lemma Isr_Tc_ok: "ts_ok st \<Longrightarrow> ts_ok (fst (Isr_Tc B (st, s)))"
  by (simp add: Isr_Tc_def Let_def report_ok split: prod.split)

lemma ts_messages:
  assumes "uart_tx B tx"
  shows "\<exists>s'. printf_va B (str ''timer set pen down'' @ [10, 13]) [] s = Some s'"
    "\<exists>s'. printf_va B (str ''adc report pen down'' @ [10, 13]) [] s = Some s'"
  using printf_returns [OF assms, of "str ''timer set pen down'' @ [10, 13]" "[]" s]
    printf_returns [OF assms, of "str ''adc report pen down'' @ [10, 13]" "[]" s] by (auto simp: str_def)

lemma timer_irq_ok:
  assumes "ts_ok st" "uart_tx B tx"
  shows "\<exists>st' s'. touchscreen_timer_irq B (st, s) = Some (st', s') \<and> ts_ok st'"
proof -
  obtain f where "\<And>s. printf_va B (str ''timer set pen down'' @ [10, 13]) [] s = Some (f s)"
    using ts_messages(1) [OF assms(2)] by metis
  then show ?thesis
    using assms(1) by (simp add: touchscreen_timer_irq_def Let_def report_ok timer_flag_ok split: prod.split)
qed

text \<open>What one interrupt of the converter does with the pen still down.\<close>

definition pen_down :: "'s bus \<Rightarrow> 's \<Rightarrow> bool" where
  "pen_down B s \<longleftrightarrow>
     \<not> bit (fst (rd32 B ADCDAT0 (enter_wait_pen_up_mode B (snd (rd32 B ADCDAT1 (snd (rd32 B ADCDAT0 s))))))) 15"

definition sample_x :: "'s bus \<Rightarrow> 's \<Rightarrow> int" where
  "sample_x B s = uint (fst (rd32 B ADCDAT0 s) AND 0x3ff)"

definition sample_y :: "'s bus \<Rightarrow> 's \<Rightarrow> int" where
  "sample_y B s = uint (fst (rd32 B ADCDAT1 (snd (rd32 B ADCDAT0 s))) AND 0x3ff)"

definition add_sample :: "int \<Rightarrow> int \<Rightarrow> ts_state \<Rightarrow> ts_state" where
  "add_sample x y st = st\<lparr>test_x_array := (test_x_array st)[nat (adc_cnt st) := x],
     test_y_array := (test_y_array st)[nat (adc_cnt st) := y], adc_cnt := adc_cnt st + 1, adc_x := adc_x st + x, adc_y := adc_y st + y\<rparr>"

definition close_samples :: "ts_state \<Rightarrow> ts_state" where
  "close_samples st = (report_ts_xy (adc_x st div 16) (adc_y st div 16) 1 st)\<lparr>g_ts_timer_enable := 1, adc_cnt := 0, adc_x := 0, adc_y := 0\<rparr>"

lemma Isr_Adc_down:
  assumes "pen_down B s" and "0 \<le> adc_cnt st" "adc_cnt st < 16" "length (test_x_array st) = 16" "length (test_y_array st) = 16"
  shows "\<exists>s'. Isr_Adc B (st, s) =
    Some (let st = add_sample (sample_x B s) (sample_y B s) st in if adc_cnt st = 16 then close_samples st else st, s')"
proof -
  obtain x s1 where x: "rd32 B ADCDAT0 s = (x, s1)" by fastforce
  obtain y s2 where y: "rd32 B ADCDAT1 s1 = (y, s2)" by fastforce
  obtain v s3 where v: "rd32 B ADCDAT0 (enter_wait_pen_up_mode B s2) = (v, s3)" by fastforce
  have "v AND push_bit 15 1 = 0" using assms(1) x y v unfolding and_bit_eq_0 by (simp add: pen_down_def)
  with assms(2-) show ?thesis
    unfolding Isr_Adc_def by (simp add: x y v Let_def sample_x_def sample_y_def add_sample_def close_samples_def
        ts_timer_enable_def report_ts_xy_def)
qed

lemma Isr_Adc_up:
  assumes "\<not> pen_down B s" and "uart_tx B tx"
  shows "\<exists>s'. Isr_Adc B (st, s) =
    Some (report_ts_xy 0 0 0 (st\<lparr>adc_cnt := 0, adc_x := 0, adc_y := 0, g_ts_timer_enable := 0\<rparr>), s')"
proof -
  obtain x s1 where x: "rd32 B ADCDAT0 s = (x, s1)" by fastforce
  obtain y s2 where y: "rd32 B ADCDAT1 s1 = (y, s2)" by fastforce
  obtain v s3 where v: "rd32 B ADCDAT0 (enter_wait_pen_up_mode B s2) = (v, s3)" by fastforce
  have "v AND push_bit 15 1 \<noteq> 0" using assms(1) x y v unfolding and_bit_eq_0 by (simp add: pen_down_def)
  moreover obtain s4 where "printf_va B (str ''adc report pen down'' @ [10, 13]) [] s3 = Some s4"
    using ts_messages(2) [OF assms(2)] by blast
  ultimately show ?thesis unfolding Isr_Adc_def by (simp add: x y v Let_def ts_timer_disable_def)
qed

lemma close_samples_alt:
  "close_samples st =
     ts_timer_enable (report_ts_xy (adc_x st div 16) (adc_y st div 16) 1 (st\<lparr>adc_cnt := 0, adc_x := 0, adc_y := 0\<rparr>))"
  by (simp add: close_samples_def ts_timer_enable_def report_ts_xy_def)

lemma samples_ok:
  assumes "ts_ok st" "x \<in> {0..1023}" "y \<in> {0..1023}"
  shows "ts_ok (let st = add_sample x y st in if adc_cnt st = 16 then close_samples st else st)"
proof -
  let ?st = "add_sample x y st"
  have c: "adc_x ?st = adc_x st + x" "adc_y ?st = adc_y st + y" "adc_cnt ?st = adc_cnt st + 1"
    by (simp_all add: add_sample_def)
  have b: "adc_x st \<in> {0..1023 * adc_cnt st}" "adc_y st \<in> {0..1023 * adc_cnt st}" "adc_cnt st \<in> {0..15}"
    using assms(1) unfolding ts_ok_def by simp_all
  have r: "ts_ok (?st\<lparr>adc_cnt := 0, adc_x := 0, adc_y := 0\<rparr>)"
    using assms(1) by (simp add: ts_ok_def add_sample_def)
  show ?thesis
  proof (cases "adc_cnt ?st = 16")
    case True
    then have "adc_cnt st = 15" using c by simp
    with b assms(2,3) have "adc_x ?st div 16 \<in> {0..1023}" "adc_y ?st div 16 \<in> {0..1023}" unfolding c by auto
    with report_ok [OF r] True show ?thesis by (simp add: Let_def close_samples_alt timer_flag_ok)
  next
    case False
    then have "adc_cnt st \<le> 14" using b c by simp
    with b assms show ?thesis using False by (simp add: ts_ok_def Let_def add_sample_def)
  qed
qed

lemma Isr_Adc_ok:
  assumes "ts_ok st" "uart_tx B tx"
  shows "\<exists>st' s'. Isr_Adc B (st, s) = Some (st', s') \<and> ts_ok st'"
proof (cases "pen_down B s")
  case True
  have "0 \<le> adc_cnt st" "adc_cnt st < 16" "length (test_x_array st) = 16" "length (test_y_array st) = 16"
    using assms(1) by (auto simp: ts_ok_def)
  moreover have "sample_x B s \<in> {0..1023}" "sample_y B s \<in> {0..1023}"
    using sample_bounds by (simp_all add: sample_x_def sample_y_def)
  ultimately show ?thesis using Isr_Adc_down [OF True, of st] samples_ok [OF assms(1)] by blast
next
  case False
  have "ts_ok (st\<lparr>adc_cnt := 0, adc_x := 0, adc_y := 0, g_ts_timer_enable := 0\<rparr>)" using assms(1) by (simp add: ts_ok_def)
  then have "ts_ok (report_ts_xy 0 0 0 (st\<lparr>adc_cnt := 0, adc_x := 0, adc_y := 0, g_ts_timer_enable := 0\<rparr>))" by (rule report_ok) simp_all
  with Isr_Adc_up [OF False assms(2), of st] show ?thesis by blast
qed

lemma handle_ok:
  assumes "ts_ok st" "uart_tx B tx"
  shows "\<exists>st' s'. AdcTsIntHandle B irq (st, s) = Some (st', s') \<and> ts_ok st'"
proof -
  obtain v s1 where v: "rd32 B SUBSRCPND s = (v, s1)" by fastforce
  obtain st2 s2 where st2: "(if v AND push_bit TC_INT_BIT 1 \<noteq> 0 then Isr_Tc B (st, s1) else (st, s1)) = (st2, s2)" by fastforce
  then have ok: "ts_ok st2" using Isr_Tc_ok [OF assms(1), of B s1] assms(1) by (auto split: if_splits)
  obtain w s3 where w: "rd32 B SUBSRCPND s2 = (w, s3)" by fastforce
  obtain st4 s4 where "Isr_Adc B (st2, s3) = Some (st4, s4)" "ts_ok st4" using Isr_Adc_ok [OF ok assms(2)] by blast
  moreover have "AdcTsIntHandle B irq (st, s) = do {
      (st, s) \<leftarrow> (if w AND push_bit ADC_INT_BIT 1 \<noteq> 0 then Isr_Adc B (st2, s3) else Some (st2, s3));
      Some (st, wr32 B SUBSRCPND (push_bit TC_INT_BIT 1 OR push_bit ADC_INT_BIT 1) s) }"
    unfolding AdcTsIntHandle_def by (simp only: v st2 w Let_def prod.case)
  ultimately show ?thesis using ok by auto
qed

text \<open>The states that interrupts of pen and converter, timer ticks and reads of the mailbox lead to.\<close>

inductive ts_reach :: "'s bus \<Rightarrow> ts_state \<Rightarrow> bool" for B where
  ts_start: "ts_reach B ts_state_init"
| ts_irq: "ts_reach B st \<Longrightarrow> AdcTsIntHandle B irq (st, s) = Some (st', s') \<Longrightarrow> ts_reach B st'"
| ts_tick: "ts_reach B st \<Longrightarrow> touchscreen_timer_irq B (st, s) = Some (st', s') \<Longrightarrow> ts_reach B st'"
| ts_taken: "ts_reach B st \<Longrightarrow> g_ts_data_valid st \<noteq> 0 \<Longrightarrow> ts_reach B (st\<lparr>g_ts_data_valid := 0\<rparr>)"

lemma ts_reach_ok:
  assumes "ts_reach B st" "uart_tx B tx"
  shows "ts_ok st"
  using assms(1)
proof induction
  case ts_start
  then show ?case by (simp add: ts_ok_def ts_state_init_def)
next
  case (ts_irq st irq s st' s')
  then show ?case using handle_ok [OF ts_irq.IH assms(2), of irq s] by auto
next
  case (ts_tick st s st' s')
  then show ?case using timer_irq_ok [OF ts_tick.IH assms(2), of s] by auto
next
  case (ts_taken st)
  then show ?case by (simp add: ts_ok_def)
qed

text \<open>
  C24. In every state that interrupts, timer ticks and reads lead to, the variables have their types: flags
  are 0 or 1, coordinates have ten bits, the counter of samples is an index of the arrays and the sums
  are those of at most 15 samples; and from every such state both handlers return.
\<close>

theorem touchscreen_typed:
  assumes "ts_reach B st" "uart_tx B tx"
  shows "ts_ok st \<and> AdcTsIntHandle B irq (st, s) \<noteq> None \<and> touchscreen_timer_irq B (st, s) \<noteq> None"
  using handle_ok [OF ts_reach_ok [OF assms] assms(2), of irq s] timer_irq_ok [OF ts_reach_ok [OF assms] assms(2), of s]
    ts_reach_ok [OF assms] by auto

theorem touchscreen_typed_witness:
  "ts_reach uart_ready_bus ts_state_init \<and> AdcTsIntHandle uart_ready_bus 31 (ts_state_init, []) \<noteq> None"
  using touchscreen_typed [OF ts_start uart_ready_bus_tx, of 31 "[]"] ts_start by blast

section \<open>Averages\<close>

text \<open>Interrupts of the converter, each taken in some state of the hardware.\<close>

fun adc_irqs :: "'s bus \<Rightarrow> 's list \<Rightarrow> ts_state \<Rightarrow> ts_state option" where
  "adc_irqs B [] st = Some st"
| "adc_irqs B (s # ss) st = do { (st, _) \<leftarrow> Isr_Adc B (st, s); adc_irqs B ss st }"

lemma adc_irqs_append: "adc_irqs B (ss @ ss') st = Option.bind (adc_irqs B ss st) (adc_irqs B ss')"
  by (induction ss arbitrary: st) (auto split: Option.bind_splits)

definition add_samples :: "'s bus \<Rightarrow> 's list \<Rightarrow> ts_state \<Rightarrow> ts_state" where
  "add_samples B ss = fold (\<lambda>s. add_sample (sample_x B s) (sample_y B s)) ss"

lemma array_extend:
  assumes "k < length xs"
  shows "take (Suc k) (xs[k := x]) @ ys @ drop (Suc k + n) (xs[k := x]) = take k xs @ (x # ys) @ drop (Suc (k + n)) xs"
  using assms by (simp add: take_Suc_conv_app_nth)

lemma add_samples_fields:
  assumes "adc_cnt st = int k" "k + length ss \<le> 16" "length (test_x_array st) = 16" "length (test_y_array st) = 16"
  shows "adc_cnt (add_samples B ss st) = int (k + length ss) \<and>
    adc_x (add_samples B ss st) = adc_x st + sum_list (map (sample_x B) ss) \<and>
    adc_y (add_samples B ss st) = adc_y st + sum_list (map (sample_y B) ss) \<and>
    test_x_array (add_samples B ss st) = take k (test_x_array st) @ map (sample_x B) ss @ drop (k + length ss) (test_x_array st) \<and>
    test_y_array (add_samples B ss st) = take k (test_y_array st) @ map (sample_y B) ss @ drop (k + length ss) (test_y_array st) \<and>
    g_ts_data_valid (add_samples B ss st) = g_ts_data_valid st \<and> g_ts_x (add_samples B ss st) = g_ts_x st \<and>
    g_ts_y (add_samples B ss st) = g_ts_y st \<and> g_ts_pressure (add_samples B ss st) = g_ts_pressure st"
  using assms
proof (induction ss arbitrary: st k)
  case Nil
  then show ?case by (simp add: add_samples_def)
next
  case (Cons s ss)
  let ?st = "add_sample (sample_x B s) (sample_y B s) st"
  have f: "adc_cnt ?st = int (Suc k)" "adc_x ?st = adc_x st + sample_x B s" "adc_y ?st = adc_y st + sample_y B s"
    "test_x_array ?st = (test_x_array st)[k := sample_x B s]" "test_y_array ?st = (test_y_array st)[k := sample_y B s]"
    "g_ts_data_valid ?st = g_ts_data_valid st" "g_ts_x ?st = g_ts_x st" "g_ts_y ?st = g_ts_y st" "g_ts_pressure ?st = g_ts_pressure st"
    using Cons.prems(1) by (simp_all add: add_sample_def)
  have "Suc k + length ss \<le> 16" "length (test_x_array ?st) = 16" "length (test_y_array ?st) = 16"
    using Cons.prems f by simp_all
  note IH = Cons.IH [OF f(1) this]
  have "add_samples B (s # ss) st = add_samples B ss ?st" by (simp add: add_samples_def)
  moreover have "k < length (test_x_array st)" "k < length (test_y_array st)" using Cons.prems by simp_all
  note array_extend [OF this(1), of "sample_x B s" "map (sample_x B) ss" "length ss"]
    array_extend [OF this(2), of "sample_y B s" "map (sample_y B) ss" "length ss"]
  ultimately show ?case using IH unfolding f by simp
qed

lemma adc_irqs_fill:
  assumes "\<forall>s \<in> set ss. pen_down B s"
    and "adc_cnt st = int k" "k + length ss < 16" "length (test_x_array st) = 16" "length (test_y_array st) = 16"
  shows "adc_irqs B ss st = Some (add_samples B ss st)"
  using assms
proof (induction ss arbitrary: st k)
  case Nil
  then show ?case by (simp add: add_samples_def)
next
  case (Cons s ss)
  let ?st = "add_sample (sample_x B s) (sample_y B s) st"
  have f: "adc_cnt ?st = int (Suc k)" "length (test_x_array ?st) = 16" "length (test_y_array ?st) = 16"
    using Cons.prems by (simp_all add: add_sample_def)
  obtain s' where "Isr_Adc B (st, s) = Some (?st, s')"
    using Isr_Adc_down [of B s st] Cons.prems f(1) by (auto simp: Let_def)
  moreover have "adc_irqs B ss ?st = Some (add_samples B ss ?st)"
    using Cons.prems by (intro Cons.IH [OF _ f(1) _ f(2,3)]) auto
  ultimately show ?case by (simp add: add_samples_def)
qed

text \<open>
  C23. Sixteen interrupts of the converter with the pen down, from a state without samples, report the
  averages of the sixteen samples with pressure 1, unless an older report has not been taken, which then
  stays. The samples are kept in the arrays, the sums are cleared and the timer is enabled.
\<close>

theorem touch_reports_average:
  assumes "length ss = 16" "\<forall>s \<in> set ss. pen_down B s"
    and "adc_cnt st = 0" "adc_x st = 0" "adc_y st = 0" "length (test_x_array st) = 16" "length (test_y_array st) = 16"
  shows "\<exists>st'. adc_irqs B ss st = Some st' \<and>
    adc_cnt st' = 0 \<and> adc_x st' = 0 \<and> adc_y st' = 0 \<and> g_ts_timer_enable st' = 1 \<and>
    test_x_array st' = map (sample_x B) ss \<and> test_y_array st' = map (sample_y B) ss \<and>
    (g_ts_x st', g_ts_y st', g_ts_pressure st', g_ts_data_valid st') =
      (if g_ts_data_valid st = 0
       then (sum_list (map (sample_x B) ss) div 16, sum_list (map (sample_y B) ss) div 16, 1, 1)
       else (g_ts_x st, g_ts_y st, g_ts_pressure st, g_ts_data_valid st))"
proof -
  obtain ss1 s where ss: "ss = ss1 @ [s]" using assms(1) by (cases ss rule: rev_cases) auto
  let ?st1 = "add_samples B ss1 st" and ?st2 = "add_samples B ss st"
  have "\<forall>s \<in> set ss1. pen_down B s" "adc_cnt st = int 0" "0 + length ss1 < 16" using assms ss by simp_all
  then have fill: "adc_irqs B ss1 st = Some ?st1" by (rule adc_irqs_fill) (use assms in simp_all)
  have f1: "adc_cnt ?st1 = 15" "length (test_x_array ?st1) = 16" "length (test_y_array ?st1) = 16"
    using add_samples_fields [of st 0 ss1 B] assms ss by simp_all
  have f2: "adc_cnt ?st2 = 16" "adc_x ?st2 = sum_list (map (sample_x B) ss)" "adc_y ?st2 = sum_list (map (sample_y B) ss)"
    "test_x_array ?st2 = map (sample_x B) ss" "test_y_array ?st2 = map (sample_y B) ss"
    "g_ts_data_valid ?st2 = g_ts_data_valid st" "g_ts_x ?st2 = g_ts_x st" "g_ts_y ?st2 = g_ts_y st" "g_ts_pressure ?st2 = g_ts_pressure st"
    using add_samples_fields [of st 0 ss B] assms by simp_all
  have "?st2 = add_sample (sample_x B s) (sample_y B s) ?st1" by (simp add: add_samples_def ss)
  then obtain s' where "Isr_Adc B (?st1, s) = Some (close_samples ?st2, s')"
    using Isr_Adc_down [of B s ?st1] f1 f2(1) assms(2) ss by (auto simp: Let_def)
  with fill have "adc_irqs B ss st = Some (close_samples ?st2)" by (simp add: ss adc_irqs_append)
  with f2 show ?thesis by (simp add: close_samples_def report_ts_xy_def)
qed

text \<open>The pen held at one point of a memory-like converter.\<close>

theorem touch_reports_average_witness:
  "\<exists>st'. adc_irqs ram_bus (replicate 16 ((\<lambda>_. 0)(ADCDAT0 := 0x123, ADCDAT1 := 0x3ff))) ts_state_init = Some st' \<and>
    (g_ts_x st', g_ts_y st', g_ts_pressure st', g_ts_data_valid st') = (0x123, 0x3ff, 1, 1)"
proof -
  let ?s = "(\<lambda>_. 0)(ADCDAT0 := 0x123, ADCDAT1 := 0x3ff)"
  have d: "pen_down ram_bus ?s" by (simp add: pen_down_def enter_wait_pen_up_mode_def sfr)
  have x: "sample_x ram_bus ?s = 0x123" "sample_y ram_bus ?s = 0x3ff" by (simp_all add: sample_x_def sample_y_def sfr)
  show ?thesis
    using touch_reports_average [of "replicate 16 ?s" ram_bus ts_state_init] d
    by (auto simp: ts_state_init_def x sum_list_replicate map_replicate simp del: fun_upd_apply)
qed

end
