(* ===== verification/Registry.thy ===== *)
theory Registry
  imports String_Utils
begin

text \<open>
  The pattern that \<^verbatim>\<open>lcd.c\<close>, \<^verbatim>\<open>lcd_controller.c\<close> and \<^verbatim>\<open>i2c_controller.c\<close> share: a fixed array of
  pointers in which drivers register themselves, and a selection by name. The loops over such an
  array are here, and so is the interface \<open>registry\<close> that the panels and the controllers of the display implement;
  \<^verbatim>\<open>i2c_controller.c\<close> uses the loops only.
\<close>

section \<open>The loops\<close>

text \<open>The first null pointer is replaced; the result is its index.\<close>

fun register_slot :: "'a \<Rightarrow> 'a option list \<Rightarrow> (nat \<times> 'a option list) option" where
  "register_slot x [] = None"
| "register_slot x (None # ps) = Some (0, Some x # ps)"
| "register_slot x (Some y # ps) = map_option (\<lambda>(i, ps'). (Suc i, Some y # ps')) (register_slot x ps)"

text \<open>The first pointer that is not null and whose object satisfies the test.\<close>

fun find_slot :: "('a \<Rightarrow> bool) \<Rightarrow> 'a option list \<Rightarrow> (nat \<times> 'a) option" where
  "find_slot P [] = None"
| "find_slot P (p # ps) =
     (case p of
        Some x \<Rightarrow> if P x then Some (0, x) else map_option (apfst Suc) (find_slot P ps)
      | None \<Rightarrow> map_option (apfst Suc) (find_slot P ps))"

text \<open>Nothing is ever unregistered, so the array is a list of objects followed by null pointers.\<close>

definition slots :: "nat \<Rightarrow> 'a list \<Rightarrow> 'a option list" where
  "slots n xs = map Some xs @ replicate (n - length xs) None"

lemma register_slot_room:
  "length xs < n \<Longrightarrow> register_slot x (slots n xs) = Some (length xs, slots n (xs @ [x]))"
proof (induction xs arbitrary: n)
  case Nil
  then show ?case by (cases n) (simp_all add: slots_def)
next
  case (Cons y xs)
  then obtain m where "n = Suc m" "length xs < m" by (cases n) auto
  with Cons.IH [of m] show ?case by (simp add: slots_def)
qed

lemma register_slot_full: "length xs = n \<Longrightarrow> register_slot x (slots n xs) = None"
  by (induction xs arbitrary: n) (auto simp: slots_def)

lemma find_slot_none: "\<forall>x \<in> set xs. \<not> P x \<Longrightarrow> find_slot P (slots n xs) = None"
proof (induction xs arbitrary: n)
  case Nil
  have "find_slot P (replicate k None) = None" for k by (induction k) simp_all
  then show ?case by (simp add: slots_def)
next
  case (Cons y xs)
  from Cons.IH [of "n - 1"] Cons.prems show ?case by (simp add: slots_def)
qed

lemma find_slot_first:
  "i < length xs \<Longrightarrow> P (xs ! i) \<Longrightarrow> \<forall>j < i. \<not> P (xs ! j) \<Longrightarrow> find_slot P (slots n xs) = Some (i, xs ! i)"
proof (induction xs arbitrary: i n)
  case Nil
  then show ?case by simp
next
  case (Cons y xs)
  show ?case
  proof (cases i)
    case 0
    with Cons.prems show ?thesis by (simp add: slots_def)
  next
    case (Suc k)
    have "\<not> P y" using Cons.prems(3) Suc by force
    moreover have "find_slot P (slots (n - 1) xs) = Some (k, xs ! k)"
      using Cons.prems Suc by (intro Cons.IH) auto
    ultimately show ?thesis using Suc by (simp add: slots_def)
  qed
qed

section \<open>The interface\<close>

text \<open>
  \<open>reg\<close> and \<open>sel\<close> return the index, or -1; \<open>entries\<close> are the registered objects and \<open>chosen\<close> is the
  selected one.
\<close>

locale registry =
  fixes reg :: "'a \<Rightarrow> 'st \<Rightarrow> int \<times> 'st"
    and sel :: "cstring \<Rightarrow> 'st \<Rightarrow> int \<times> 'st"
    and nm :: "'a \<Rightarrow> cstring"
    and entries :: "'st \<Rightarrow> 'a list"
    and chosen :: "'st \<Rightarrow> 'a option"
    and invar :: "'st \<Rightarrow> bool"
    and cap :: nat
  assumes reg_room: "invar st \<Longrightarrow> is_cstring (nm x) \<Longrightarrow> length (entries st) < cap \<Longrightarrow>
      \<exists>st'. reg x st = (int (length (entries st)), st') \<and> invar st' \<and> entries st' = entries st @ [x] \<and>
        chosen st' = chosen st"
    and reg_full: "invar st \<Longrightarrow> length (entries st) = cap \<Longrightarrow> reg x st = (-1, st)"
    and sel_first: "invar st \<Longrightarrow> is_cstring n \<Longrightarrow> i < length (entries st) \<Longrightarrow> nm (entries st ! i) = n \<Longrightarrow>
      \<forall>j < i. nm (entries st ! j) \<noteq> n \<Longrightarrow>
      \<exists>st'. sel n st = (int i, st') \<and> invar st' \<and> entries st' = entries st \<and> chosen st' = Some (entries st ! i)"
    and sel_none: "invar st \<Longrightarrow> is_cstring n \<Longrightarrow> n \<notin> nm ` set (entries st) \<Longrightarrow> sel n st = (-1, st)"
begin

lemma reg_all:
  assumes "invar st" and "\<forall>x \<in> set xs. is_cstring (nm x)" and "length (entries st) + length xs \<le> cap"
  shows "invar (fold (\<lambda>x st. snd (reg x st)) xs st) \<and>
    entries (fold (\<lambda>x st. snd (reg x st)) xs st) = entries st @ xs"
  using assms
proof (induction xs arbitrary: st)
  case Nil
  then show ?case by simp
next
  case (Cons x xs)
  then obtain st' where "reg x st = (int (length (entries st)), st')" "invar st'" "entries st' = entries st @ [x]"
    using reg_room [of st x] by auto
  with Cons.IH [of st'] Cons.prems show ?case by simp
qed

text \<open>Drivers with different names that all fit can each be selected by name.\<close>

lemma select_registered:
  assumes "invar st" and "entries st = []" and "\<forall>x \<in> set xs. is_cstring (nm x)"
    and "length xs \<le> cap" and "distinct (map nm xs)" and "i < length xs"
  shows "\<exists>st'. sel (nm (xs ! i)) (fold (\<lambda>x st. snd (reg x st)) xs st) = (int i, st') \<and> chosen st' = Some (xs ! i)"
proof -
  let ?st = "fold (\<lambda>x st. snd (reg x st)) xs st"
  have st: "invar ?st" "entries ?st = xs" using reg_all [of st xs] assms by auto
  have "nm (xs ! j) \<noteq> nm (xs ! i)" if "j < i" for j
    using assms(5,6) that nth_eq_iff_index_eq [of "map nm xs" j i] by auto
  then have "\<exists>st'. sel (nm (xs ! i)) ?st = (int i, st') \<and> invar st' \<and> entries st' = entries ?st \<and>
      chosen st' = Some (entries ?st ! i)"
    using st assms(3,6) by (intro sel_first) auto
  with st show ?thesis by auto
qed

end

end
