(* ===== verification/Lcd.thy ===== *)
theory Lcd
  imports Complex_Main Registry Soc_Regs
begin

text \<open>
  The display: the descriptions and the selection of panels (\<^verbatim>\<open>lcd/lcd.h\<close>, \<^verbatim>\<open>lcd/lcd.c\<close>,
  \<^verbatim>\<open>lcd/lcd_4.3.c\<close>) and of display controllers (\<^verbatim>\<open>lcd/lcd_controller.c\<close>), and the driver of the
  S3C2440 controller (\<^verbatim>\<open>lcd/s3c2440_lcd_controller.c\<close>).
\<close>

section \<open>Panels\<close>

definition NORMAL :: int where "NORMAL = 0"
definition INVERT :: int where "INVERT = 1"

record pins_polarity =
  pp_de :: int
  pp_pwren :: int
  pp_vclk :: int
  pp_rgb :: int
  pp_hsync :: int
  pp_vsync :: int

record time_sequence =
  ts_tvp :: int
  ts_tvb :: int
  ts_tvf :: int
  ts_thp :: int
  ts_thb :: int
  ts_thf :: int
  ts_vclk :: int

record lcd_params =
  lcd_name :: cstring
  pins_pol :: pins_polarity
  time_seq :: time_sequence
  lcd_xres :: int
  lcd_yres :: int
  lcd_bpp :: int
  lcd_fb_base :: u32

definition LCD_NUM :: nat where
  "LCD_NUM = 10"

record lcd_state =
  p_array_lcd :: "lcd_params option list"
  g_p_lcd_selected :: "lcd_params option"

definition lcd_state_init :: lcd_state where
  "lcd_state_init = \<lparr>p_array_lcd = replicate LCD_NUM None, g_p_lcd_selected = None\<rparr>"

definition register_lcd :: "lcd_params \<Rightarrow> lcd_state \<Rightarrow> int \<times> lcd_state" where
  "register_lcd plcd st =
     (case register_slot plcd (p_array_lcd st) of
        Some (i, arr) \<Rightarrow> (int i, st\<lparr>p_array_lcd := arr\<rparr>)
      | None \<Rightarrow> (-1, st))"

definition select_lcd :: "cstring \<Rightarrow> lcd_state \<Rightarrow> int \<times> lcd_state" where
  "select_lcd n st =
     (case find_slot (\<lambda>p. strcmp (lcd_name p) n = 0) (p_array_lcd st) of
        Some (i, p) \<Rightarrow> (int i, st\<lparr>g_p_lcd_selected := Some p\<rparr>)
      | None \<Rightarrow> (-1, st))"

text \<open>The four out parameters; without a selected panel the fields are read through a null pointer (\<open>None\<close>).\<close>

definition get_lcd_params :: "lcd_state \<Rightarrow> (u32 \<times> int \<times> int \<times> int) option" where
  "get_lcd_params st =
     map_option (\<lambda>p. (lcd_fb_base p, lcd_xres p, lcd_yres p, lcd_bpp p)) (g_p_lcd_selected st)"

definition LCD_FB_BASE :: u32 where
  "LCD_FB_BASE = 0x33c00000"

definition lcd_4_3_params :: lcd_params where
  "lcd_4_3_params = \<lparr>
     lcd_name = str ''lcd_4.3'',
     pins_pol = \<lparr>pp_de = NORMAL, pp_pwren = NORMAL, pp_vclk = NORMAL, pp_rgb = NORMAL,
       pp_hsync = INVERT, pp_vsync = INVERT\<rparr>,
     time_seq = \<lparr>ts_tvp = 10, ts_tvb = 2, ts_tvf = 2, ts_thp = 41, ts_thb = 2, ts_thf = 2, ts_vclk = 9\<rparr>,
     lcd_xres = 480, lcd_yres = 272, lcd_bpp = 32, lcd_fb_base = LCD_FB_BASE\<rparr>"

definition lcd_4_3_add :: "lcd_state \<Rightarrow> lcd_state" where
  "lcd_4_3_add st = snd (register_lcd lcd_4_3_params st)"

section \<open>Controllers\<close>

record 's lcd_controller =
  lc_name :: cstring
  lc_init :: "lcd_params \<Rightarrow> 's \<Rightarrow> 's"
  lc_enable :: "'s \<Rightarrow> 's"
  lc_disable :: "'s \<Rightarrow> 's"
  lc_init_palette :: "'s \<Rightarrow> 's"

definition LCD_CONTROLLER_NUM :: nat where
  "LCD_CONTROLLER_NUM = 10"

record 's lcdcon_state =
  p_array_lcd_controller :: "'s lcd_controller option list"
  g_p_lcd_controller_selected :: "'s lcd_controller option"

definition lcdcon_state_init :: "'s lcdcon_state" where
  "lcdcon_state_init =
     \<lparr>p_array_lcd_controller = replicate LCD_CONTROLLER_NUM None, g_p_lcd_controller_selected = None\<rparr>"

definition register_lcd_controller :: "'s lcd_controller \<Rightarrow> 's lcdcon_state \<Rightarrow> int \<times> 's lcdcon_state" where
  "register_lcd_controller plcdcon st =
     (case register_slot plcdcon (p_array_lcd_controller st) of
        Some (i, arr) \<Rightarrow> (int i, st\<lparr>p_array_lcd_controller := arr\<rparr>)
      | None \<Rightarrow> (-1, st))"

definition select_lcd_controller :: "cstring \<Rightarrow> 's lcdcon_state \<Rightarrow> int \<times> 's lcdcon_state" where
  "select_lcd_controller n st =
     (case find_slot (\<lambda>p. strcmp (lc_name p) n = 0) (p_array_lcd_controller st) of
        Some (i, p) \<Rightarrow> (int i, st\<lparr>g_p_lcd_controller_selected := Some p\<rparr>)
      | None \<Rightarrow> (-1, st))"

definition lcd_controller_init :: "'s lcdcon_state \<Rightarrow> lcd_params \<Rightarrow> 's \<Rightarrow> int \<times> 's" where
  "lcd_controller_init st plcdparams s =
     (case g_p_lcd_controller_selected st of
        Some c \<Rightarrow> (0, lc_init_palette c (lc_init c plcdparams s))
      | None \<Rightarrow> (-1, s))"

definition lcd_controller_enable :: "'s lcdcon_state \<Rightarrow> 's \<Rightarrow> 's" where
  "lcd_controller_enable st s =
     (case g_p_lcd_controller_selected st of Some c \<Rightarrow> lc_enable c s | None \<Rightarrow> s)"

definition lcd_controller_disable :: "'s lcdcon_state \<Rightarrow> 's \<Rightarrow> 's" where
  "lcd_controller_disable st s =
     (case g_p_lcd_controller_selected st of Some c \<Rightarrow> lc_disable c s | None \<Rightarrow> s)"

section \<open>The S3C2440 controller\<close>

definition HCLK :: int where
  "HCLK = 100"

definition jz2440_lcd_pin_init :: "'s bus \<Rightarrow> 's \<Rightarrow> 's" where
  "jz2440_lcd_pin_init B s =
     (let s = reg_and B GPBCON (NOT 0x3) s;
          s = reg_or B GPBCON 0x01 s;
          s = wr32 B GPCCON 0xaaaaaaaa s;
          s = wr32 B GPDCON 0xaaaaaaaa s
      in reg_or B GPGCON (push_bit 8 3) s)"

text \<open>
  The conversion of a floating point value to \<^verbatim>\<open>int\<close> truncates. The computation of \<^verbatim>\<open>clkval\<close> in
  single precision is exact enough for every integer \<^verbatim>\<open>vclk\<close>: the exact value is a multiple of
  \<open>1 / (2 * vclk)\<close>, and the ties are representable.
\<close>

definition trunc :: "rat \<Rightarrow> int" where
  "trunc x = (if x < 0 then \<lceil>x\<rceil> else \<lfloor>x\<rfloor>)"

definition lcd_clkval :: "int \<Rightarrow> int" where
  "lcd_clkval vclk = trunc (of_int HCLK / of_int vclk / 2 - 1 + 1 / 2)"

definition s3c2440_lcd_controller_init :: "'s bus \<Rightarrow> lcd_params \<Rightarrow> 's \<Rightarrow> 's" where
  "s3c2440_lcd_controller_init B p s =
     (let s = jz2440_lcd_pin_init B s;
          ts = time_seq p; pp = pins_pol p;
          clkval = lcd_clkval (ts_vclk ts);
          bppmode = (if lcd_bpp p = 8 then 0xb else if lcd_bpp p = 16 then 0xc else 0xd);
          s = wr32 B LCDCON1 (push_bit 8 (of_int clkval) OR push_bit 5 3 OR push_bit 1 bppmode) s;
          s = wr32 B LCDCON2 (push_bit 24 (of_int (ts_tvb ts - 1)) OR push_bit 14 (of_int (lcd_yres p - 1)) OR
                push_bit 6 (of_int (ts_tvf ts - 1)) OR push_bit 0 (of_int (ts_tvp ts - 1))) s;
          s = wr32 B LCDCON3 (push_bit 19 (of_int (ts_thb ts - 1)) OR push_bit 8 (of_int (lcd_xres p - 1)) OR
                push_bit 0 (of_int (ts_thf ts - 1))) s;
          s = wr32 B LCDCON4 (push_bit 0 (of_int (ts_thp ts - 1))) s;
          pixelplace = (if lcd_bpp p = 32 then 0 else if lcd_bpp p = 16 then 1 else push_bit 1 1);
          s = wr32 B LCDCON5 (push_bit 10 (of_int (pp_vclk pp)) OR push_bit 7 (of_int (pp_rgb pp)) OR
                push_bit 9 (of_int (pp_hsync pp)) OR push_bit 8 (of_int (pp_vsync pp)) OR
                push_bit 6 (of_int (pp_de pp)) OR push_bit 5 (of_int (pp_pwren pp)) OR
                push_bit 11 1 OR pixelplace) s;
          addr = lcd_fb_base p AND NOT (push_bit 31 1);
          s = wr32 B LCDSADDR1 (drop_bit 1 addr) s;
          addr = lcd_fb_base p + of_int (lcd_xres p * lcd_yres p * lcd_bpp p div 8);
          addr = drop_bit 1 addr;
          addr = addr AND 0x1fffff
      in wr32 B LCDSADDR2 addr s)"

definition s3c2440_lcd_controller_enable :: "'s bus \<Rightarrow> 's \<Rightarrow> 's" where
  "s3c2440_lcd_controller_enable B s =
     (let s = reg_or B GPBDAT (push_bit 0 1) s;
          s = reg_or B LCDCON5 (push_bit 3 1) s
      in reg_or B LCDCON1 (push_bit 0 1) s)"

definition s3c2440_lcd_controller_disable :: "'s bus \<Rightarrow> 's \<Rightarrow> 's" where
  "s3c2440_lcd_controller_disable B s =
     (let s = reg_and B GPBDAT (NOT (push_bit 0 1)) s;
          s = reg_and B LCDCON5 (NOT (push_bit 3 1)) s
      in reg_and B LCDCON1 (NOT (push_bit 0 1)) s)"

fun palette_loop :: "'s bus \<Rightarrow> nat \<Rightarrow> nat \<Rightarrow> u32 \<Rightarrow> 's \<Rightarrow> 's" where
  "palette_loop B 0 i palette_base s = s"
| "palette_loop B (Suc n) i palette_base s =
     palette_loop B n (Suc i) (palette_base + 4) (wr32 B palette_base (of_nat i) s)"

definition s3c2440_lcd_controller_init_palette :: "'s bus \<Rightarrow> 's \<Rightarrow> 's" where
  "s3c2440_lcd_controller_init_palette B s =
     (let (v, s) = rd32 B LCDCON1 s;
          b = v AND push_bit 0 1;
          s = (if b \<noteq> 0 then reg_and B LCDCON1 (NOT (push_bit 0 1)) s else s);
          s = palette_loop B 256 0 0x4D000400 s
      in if b \<noteq> 0 then reg_or B LCDCON1 (push_bit 0 1) s else s)"

definition s3c2440_lcd_controller :: "'s bus \<Rightarrow> 's lcd_controller" where
  "s3c2440_lcd_controller B = \<lparr>
     lc_name = str ''s3c2440'',
     lc_init = s3c2440_lcd_controller_init B,
     lc_enable = s3c2440_lcd_controller_enable B,
     lc_disable = s3c2440_lcd_controller_disable B,
     lc_init_palette = s3c2440_lcd_controller_init_palette B\<rparr>"

definition s3c2440_lcd_contoller_add :: "'s bus \<Rightarrow> 's lcdcon_state \<Rightarrow> 's lcdcon_state" where
  "s3c2440_lcd_contoller_add B st = snd (register_lcd_controller (s3c2440_lcd_controller B) st)"

definition lcd_contoller_add :: "'s bus \<Rightarrow> 's lcdcon_state \<Rightarrow> 's lcdcon_state" where
  "lcd_contoller_add B st = s3c2440_lcd_contoller_add B st"

section \<open>Start of the display\<close>

definition lcd_enable :: "'s lcdcon_state \<Rightarrow> 's \<Rightarrow> 's" where
  "lcd_enable st s = lcd_controller_enable st s"

definition lcd_disable :: "'s lcdcon_state \<Rightarrow> 's \<Rightarrow> 's" where
  "lcd_disable st s = lcd_controller_disable st s"

text \<open>\<open>None\<close>: no panel could be selected and the null pointer is handed on.\<close>

definition lcd_init :: "'s bus \<Rightarrow> lcd_state \<times> 's lcdcon_state \<times> 's \<Rightarrow>
    (lcd_state \<times> 's lcdcon_state \<times> 's) option" where
  "lcd_init B = (\<lambda>(l, c, s).
     let l = lcd_4_3_add l;
         c = lcd_contoller_add B c;
         l = snd (select_lcd (str ''lcd_4.3'') l);
         c = snd (select_lcd_controller (str ''s3c2440'') c)
     in do { p \<leftarrow> g_p_lcd_selected l; Some (l, c, snd (lcd_controller_init c p s)) })"

section \<open>Selection by name\<close>

definition lcd_state_ok :: "lcd_state \<Rightarrow> bool" where
  "lcd_state_ok st \<longleftrightarrow> (\<exists>xs. length xs \<le> LCD_NUM \<and> p_array_lcd st = slots LCD_NUM xs \<and>
     (\<forall>x \<in> set xs. is_cstring (lcd_name x)))"

definition lcds :: "lcd_state \<Rightarrow> lcd_params list" where
  "lcds st = List.map_filter id (p_array_lcd st)"

definition lcdcon_state_ok :: "'s lcdcon_state \<Rightarrow> bool" where
  "lcdcon_state_ok st \<longleftrightarrow> (\<exists>xs. length xs \<le> LCD_CONTROLLER_NUM \<and>
     p_array_lcd_controller st = slots LCD_CONTROLLER_NUM xs \<and> (\<forall>x \<in> set xs. is_cstring (lc_name x)))"

definition lcdcons :: "'s lcdcon_state \<Rightarrow> 's lcd_controller list" where
  "lcdcons st = List.map_filter id (p_array_lcd_controller st)"

lemma map_filter_slots [simp]: "List.map_filter id (slots n xs) = xs"
proof -
  have "List.map_filter id (replicate k None) = []" for k by (induction k) (simp_all add: map_filter_simps)
  then show ?thesis unfolding slots_def
    by (induction xs) (simp_all add: map_filter_simps map_filter_def)
qed

interpretation lcd_reg: registry register_lcd select_lcd lcd_name lcds g_p_lcd_selected lcd_state_ok LCD_NUM
proof unfold_locales
  fix st x n i
  assume "lcd_state_ok st"
  then obtain xs where xs: "length xs \<le> LCD_NUM" "p_array_lcd st = slots LCD_NUM xs"
    "\<forall>x \<in> set xs. is_cstring (lcd_name x)" by (auto simp: lcd_state_ok_def)
  then have entries: "lcds st = xs" by (simp add: lcds_def)
  show "\<exists>st'. register_lcd x st = (int (length (lcds st)), st') \<and> lcd_state_ok st' \<and>
      lcds st' = lcds st @ [x] \<and> g_p_lcd_selected st' = g_p_lcd_selected st"
    if "is_cstring (lcd_name x)" "length (lcds st) < LCD_NUM"
    using that xs entries
    by (auto simp: register_lcd_def register_slot_room lcds_def lcd_state_ok_def intro!: exI [of _ "xs @ [x]"])
  show "register_lcd x st = (-1, st)" if "length (lcds st) = LCD_NUM"
    using that xs entries by (simp add: register_lcd_def register_slot_full)
  show "\<exists>st'. select_lcd n st = (int i, st') \<and> lcd_state_ok st' \<and> lcds st' = lcds st \<and>
      g_p_lcd_selected st' = Some (lcds st ! i)"
    if "is_cstring n" "i < length (lcds st)" "lcd_name (lcds st ! i) = n" "\<forall>j < i. lcd_name (lcds st ! j) \<noteq> n"
  proof -
    have "find_slot (\<lambda>p. strcmp (lcd_name p) n = 0) (slots LCD_NUM xs) = Some (i, xs ! i)"
      using that entries xs(3) by (intro find_slot_first) (auto simp: strcmp_eq_0)
    with xs entries show ?thesis by (auto simp: select_lcd_def lcds_def lcd_state_ok_def)
  qed
  show "select_lcd n st = (-1, st)" if "is_cstring n" "n \<notin> lcd_name ` set (lcds st)"
  proof -
    have "find_slot (\<lambda>p. strcmp (lcd_name p) n = 0) (slots LCD_NUM xs) = None"
      using that entries xs(3) by (intro find_slot_none) (auto simp: strcmp_eq_0)
    with xs show ?thesis by (simp add: select_lcd_def)
  qed
qed

interpretation lcdcon_reg: registry register_lcd_controller select_lcd_controller lc_name lcdcons
  g_p_lcd_controller_selected lcdcon_state_ok LCD_CONTROLLER_NUM
proof unfold_locales
  fix st :: "'a lcdcon_state" and x n i
  assume "lcdcon_state_ok st"
  then obtain xs where xs: "length xs \<le> LCD_CONTROLLER_NUM"
    "p_array_lcd_controller st = slots LCD_CONTROLLER_NUM xs"
    "\<forall>x \<in> set xs. is_cstring (lc_name x)" by (auto simp: lcdcon_state_ok_def)
  then have entries: "lcdcons st = xs" by (simp add: lcdcons_def)
  show "\<exists>st'. register_lcd_controller x st = (int (length (lcdcons st)), st') \<and> lcdcon_state_ok st' \<and>
      lcdcons st' = lcdcons st @ [x] \<and> g_p_lcd_controller_selected st' = g_p_lcd_controller_selected st"
    if "is_cstring (lc_name x)" "length (lcdcons st) < LCD_CONTROLLER_NUM"
    using that xs entries
    by (auto simp: register_lcd_controller_def register_slot_room lcdcons_def lcdcon_state_ok_def
        intro!: exI [of _ "xs @ [x]"])
  show "register_lcd_controller x st = (-1, st)" if "length (lcdcons st) = LCD_CONTROLLER_NUM"
    using that xs entries by (simp add: register_lcd_controller_def register_slot_full)
  show "\<exists>st'. select_lcd_controller n st = (int i, st') \<and> lcdcon_state_ok st' \<and> lcdcons st' = lcdcons st \<and>
      g_p_lcd_controller_selected st' = Some (lcdcons st ! i)"
    if "is_cstring n" "i < length (lcdcons st)" "lc_name (lcdcons st ! i) = n"
      "\<forall>j < i. lc_name (lcdcons st ! j) \<noteq> n"
  proof -
    have "find_slot (\<lambda>p. strcmp (lc_name p) n = 0) (slots LCD_CONTROLLER_NUM xs) = Some (i, xs ! i)"
      using that entries xs(3) by (intro find_slot_first) (auto simp: strcmp_eq_0)
    with xs entries show ?thesis by (auto simp: select_lcd_controller_def lcdcons_def lcdcon_state_ok_def)
  qed
  show "select_lcd_controller n st = (-1, st)" if "is_cstring n" "n \<notin> lc_name ` set (lcdcons st)"
  proof -
    have "find_slot (\<lambda>p. strcmp (lc_name p) n = 0) (slots LCD_CONTROLLER_NUM xs) = None"
      using that entries xs(3) by (intro find_slot_none) (auto simp: strcmp_eq_0)
    with xs show ?thesis by (simp add: select_lcd_controller_def)
  qed
qed

text \<open>
  Up to ten panels with different names can be registered, and \<^verbatim>\<open>select_lcd\<close> then finds each
  of them under its name: it returns the panel's position and makes it the selected one.
\<close>

theorem select_lcd_registered:
  assumes "\<forall>x \<in> set xs. is_cstring (lcd_name x)" and "length xs \<le> 10"
    and "distinct (map lcd_name xs)" and "i < length xs"
  shows "\<exists>st'. select_lcd (lcd_name (xs ! i)) (fold (\<lambda>x st. snd (register_lcd x st)) xs lcd_state_init) = (int i, st') \<and>
    get_lcd_params st' =
      Some (lcd_fb_base (xs ! i), lcd_xres (xs ! i), lcd_yres (xs ! i), lcd_bpp (xs ! i))"
proof -
  have "lcd_state_ok lcd_state_init" "lcds lcd_state_init = []"
    using map_filter_slots [of LCD_NUM "[] :: lcd_params list"]
    by (auto simp: lcd_state_ok_def lcd_state_init_def slots_def lcds_def intro!: exI [of _ "[]"])
  from lcd_reg.select_registered [OF this assms(1) _ assms(3,4)] assms(2) show ?thesis
    by (auto simp: LCD_NUM_def get_lcd_params_def)
qed

theorem select_lcd_registered_witness:
  "\<exists>st'. select_lcd (str ''lcd_4.3'')
      (fold (\<lambda>x st. snd (register_lcd x st)) [lcd_4_3_params\<lparr>lcd_name := str ''other''\<rparr>, lcd_4_3_params] lcd_state_init) =
      (1, st') \<and> get_lcd_params st' = Some (0x33c00000, 480, 272, 32)"
  using select_lcd_registered [of "[lcd_4_3_params\<lparr>lcd_name := str ''other''\<rparr>, lcd_4_3_params]" 1]
  by (simp add: lcd_4_3_params_def LCD_FB_BASE_def str_def is_cstring_def)

section \<open>The timing registers\<close>

definition field :: "nat \<Rightarrow> nat \<Rightarrow> u32 \<Rightarrow> u32" where
  "field k n w = drop_bit k w AND mask n"

lemma bit_field: "bit (field k n w) i \<longleftrightarrow> i < n \<and> bit w (k + i)"
  by (auto simp: field_def bit_simps dest: bit_imp_le_length)

text \<open>A value of \<open>n\<close> bits between disjoint neighbours is read back by its field.\<close>

lemma field_of_or:
  assumes "unat v < 2 ^ n" and "k + n \<le> 32" and "\<forall>i. k \<le> i \<and> i < k + n \<longrightarrow> \<not> bit u i"
  shows "field k n (u OR push_bit k v) = v"
proof (rule bit_word_eqI)
  fix i assume "i < LENGTH(32)"
  have "bit v i \<Longrightarrow> i < n" using bit_above [OF assms(1), of i] by linarith
  with assms(2,3) show "bit (field k n (u OR push_bit k v)) i = bit v i"
    by (auto simp: bit_field bit_simps)
qed

lemma unat_of_int_small: "0 \<le> x \<Longrightarrow> x < 2 ^ n \<Longrightarrow> n \<le> 32 \<Longrightarrow> unat (of_int x :: u32) < 2 ^ n"
proof -
  assume x: "0 \<le> x" "x < 2 ^ n" and n: "n \<le> 32"
  have "(2 :: int) ^ n \<le> 2 ^ 32" using n by (intro power_increasing) simp_all
  with x have "uint (of_int x :: u32) = x" by (simp add: uint_word_of_int)
  with x show ?thesis by (simp add: unat_eq_nat_uint nat_less_iff)
qed

lemma not_bit_push:
  "unat v < 2 ^ n \<Longrightarrow> i < k \<or> k + n \<le> i \<Longrightarrow> \<not> bit (push_bit k v :: u32) i"
  using bit_above [of v n "i - k"] by (auto simp: bit_simps le_diff_conv2 add.commute)

text \<open>The ranges in which the timing of a panel fits into the registers.\<close>

definition lcd_timing_ok :: "lcd_params \<Rightarrow> bool" where
  "lcd_timing_ok p \<longleftrightarrow> (let ts = time_seq p in
     1 \<le> ts_tvb ts \<and> ts_tvb ts \<le> 256 \<and> 1 \<le> lcd_yres p \<and> lcd_yres p \<le> 1024 \<and>
     1 \<le> ts_tvf ts \<and> ts_tvf ts \<le> 256 \<and> 1 \<le> ts_tvp ts \<and> ts_tvp ts \<le> 64 \<and>
     1 \<le> ts_thb ts \<and> ts_thb ts \<le> 128 \<and> 1 \<le> lcd_xres p \<and> lcd_xres p \<le> 2048 \<and>
     1 \<le> ts_thf ts \<and> ts_thf ts \<le> 256 \<and> 1 \<le> ts_thp ts \<and> ts_thp ts \<le> 256)"

lemma lcdcon2_fields:
  assumes "unat a < 2 ^ 8" "unat b < 2 ^ 10" "unat c < 2 ^ 8" "unat d < 2 ^ 6"
  defines "w \<equiv> push_bit 24 a OR push_bit 14 b OR push_bit 6 c OR push_bit 0 d :: u32"
  shows "field 24 8 w = a" "field 14 10 w = b" "field 6 8 w = c" "field 0 6 w = d"
proof -
  note out = not_bit_push [OF assms(1)] not_bit_push [OF assms(2)] not_bit_push [OF assms(3)] not_bit_push [OF assms(4)]
  have "w = (push_bit 14 b OR push_bit 6 c OR push_bit 0 d) OR push_bit 24 a" by (simp add: w_def ac_simps)
  then show "field 24 8 w = a"
    using field_of_or [OF assms(1), of 24 "push_bit 14 b OR push_bit 6 c OR push_bit 0 d"] out
    by (auto simp: bit_or_iff simp del: push_bit_0_id)
  have "w = (push_bit 24 a OR push_bit 6 c OR push_bit 0 d) OR push_bit 14 b" by (simp add: w_def ac_simps)
  then show "field 14 10 w = b"
    using field_of_or [OF assms(2), of 14 "push_bit 24 a OR push_bit 6 c OR push_bit 0 d"] out
    by (auto simp: bit_or_iff simp del: push_bit_0_id)
  have "w = (push_bit 24 a OR push_bit 14 b OR push_bit 0 d) OR push_bit 6 c" by (simp add: w_def ac_simps)
  then show "field 6 8 w = c"
    using field_of_or [OF assms(3), of 6 "push_bit 24 a OR push_bit 14 b OR push_bit 0 d"] out
    by (auto simp: bit_or_iff simp del: push_bit_0_id)
  have "w = (push_bit 24 a OR push_bit 14 b OR push_bit 6 c) OR push_bit 0 d" by (simp add: w_def ac_simps)
  then show "field 0 6 w = d"
    using field_of_or [OF assms(4), of 0 "push_bit 24 a OR push_bit 14 b OR push_bit 6 c"] out
    by (auto simp: bit_or_iff simp del: push_bit_0_id)
qed

lemma lcdcon3_fields:
  assumes "unat a < 2 ^ 7" "unat b < 2 ^ 11" "unat c < 2 ^ 8"
  defines "w \<equiv> push_bit 19 a OR push_bit 8 b OR push_bit 0 c :: u32"
  shows "field 19 7 w = a" "field 8 11 w = b" "field 0 8 w = c"
proof -
  note out = not_bit_push [OF assms(1)] not_bit_push [OF assms(2)] not_bit_push [OF assms(3)]
  have "w = (push_bit 8 b OR push_bit 0 c) OR push_bit 19 a" by (simp add: w_def ac_simps)
  then show "field 19 7 w = a"
    using field_of_or [OF assms(1), of 19 "push_bit 8 b OR push_bit 0 c"] out
    by (auto simp: bit_or_iff simp del: push_bit_0_id)
  have "w = (push_bit 19 a OR push_bit 0 c) OR push_bit 8 b" by (simp add: w_def ac_simps)
  then show "field 8 11 w = b"
    using field_of_or [OF assms(2), of 8 "push_bit 19 a OR push_bit 0 c"] out
    by (auto simp: bit_or_iff simp del: push_bit_0_id)
  have "w = (push_bit 19 a OR push_bit 8 b) OR push_bit 0 c" by (simp add: w_def ac_simps)
  then show "field 0 8 w = c"
    using field_of_or [OF assms(3), of 0 "push_bit 19 a OR push_bit 8 b"] out
    by (auto simp: bit_or_iff simp del: push_bit_0_id)
qed

lemma uint_of_int_small: "0 \<le> x \<Longrightarrow> x < 2 ^ 32 \<Longrightarrow> uint (of_int x :: u32) = x"
  by (simp add: uint_word_of_int)

lemma lcd_controller_init_regs:
  assumes "mem_bus B g"
  shows "g (s3c2440_lcd_controller_init B p s) LCDCON2 =
      push_bit 24 (of_int (ts_tvb (time_seq p) - 1)) OR push_bit 14 (of_int (lcd_yres p - 1)) OR
      push_bit 6 (of_int (ts_tvf (time_seq p) - 1)) OR push_bit 0 (of_int (ts_tvp (time_seq p) - 1))"
    "g (s3c2440_lcd_controller_init B p s) LCDCON3 =
      push_bit 19 (of_int (ts_thb (time_seq p) - 1)) OR push_bit 8 (of_int (lcd_xres p - 1)) OR
      push_bit 0 (of_int (ts_thf (time_seq p) - 1))"
    "g (s3c2440_lcd_controller_init B p s) LCDCON4 = of_int (ts_thp (time_seq p) - 1)"
    "g (s3c2440_lcd_controller_init B p s) LCDSADDR1 = drop_bit 1 (lcd_fb_base p AND NOT (push_bit 31 1))"
  unfolding s3c2440_lcd_controller_init_def Let_def mem_bus_simps [OF assms]
  by (simp_all add: sfr)

text \<open>
  For every panel whose timing fits into the registers, the controller is programmed so that
  the hardware reads back exactly this timing: each field of \<^verbatim>\<open>LCDCON2\<close>, \<^verbatim>\<open>LCDCON3\<close> and \<^verbatim>\<open>LCDCON4\<close>
  holds its parameter less one, and none runs into its neighbour.
\<close>

theorem lcd_controller_init_timing:
  fixes B :: "'s bus" and s :: 's
  assumes "mem_bus B g" and "lcd_timing_ok p"
  defines "s' \<equiv> s3c2440_lcd_controller_init B p s" and "ts \<equiv> time_seq p"
  shows "map uint [field 24 8 (g s' LCDCON2), field 14 10 (g s' LCDCON2), field 6 8 (g s' LCDCON2),
      field 0 6 (g s' LCDCON2), field 19 7 (g s' LCDCON3), field 8 11 (g s' LCDCON3),
      field 0 8 (g s' LCDCON3), g s' LCDCON4] =
    map (\<lambda>v. v - 1) [ts_tvb ts, lcd_yres p, ts_tvf ts, ts_tvp ts, ts_thb ts, lcd_xres p, ts_thf ts, ts_thp ts]"
proof -
  have r: "0 \<le> ts_tvb ts - 1" "ts_tvb ts - 1 < 2 ^ 8" "0 \<le> lcd_yres p - 1" "lcd_yres p - 1 < 2 ^ 10"
    "0 \<le> ts_tvf ts - 1" "ts_tvf ts - 1 < 2 ^ 8" "0 \<le> ts_tvp ts - 1" "ts_tvp ts - 1 < 2 ^ 6"
    "0 \<le> ts_thb ts - 1" "ts_thb ts - 1 < 2 ^ 7" "0 \<le> lcd_xres p - 1" "lcd_xres p - 1 < 2 ^ 11"
    "0 \<le> ts_thf ts - 1" "ts_thf ts - 1 < 2 ^ 8" "0 \<le> ts_thp ts - 1" "ts_thp ts - 1 < 2 ^ 8"
    using assms(2) by (simp_all add: lcd_timing_ok_def Let_def ts_def)
  note small = unat_of_int_small [OF r(1,2)] unat_of_int_small [OF r(3,4)] unat_of_int_small [OF r(5,6)]
    unat_of_int_small [OF r(7,8)] unat_of_int_small [OF r(9,10)] unat_of_int_small [OF r(11,12)]
    unat_of_int_small [OF r(13,14)]
  have "field 24 8 (g s' LCDCON2) = of_int (ts_tvb ts - 1)" "field 14 10 (g s' LCDCON2) = of_int (lcd_yres p - 1)"
    "field 6 8 (g s' LCDCON2) = of_int (ts_tvf ts - 1)" "field 0 6 (g s' LCDCON2) = of_int (ts_tvp ts - 1)"
    unfolding s'_def lcd_controller_init_regs [OF assms(1)] using small
    by (auto simp only: ts_def [symmetric] intro!: lcdcon2_fields)
  moreover have "field 19 7 (g s' LCDCON3) = of_int (ts_thb ts - 1)" "field 8 11 (g s' LCDCON3) = of_int (lcd_xres p - 1)"
    "field 0 8 (g s' LCDCON3) = of_int (ts_thf ts - 1)"
    unfolding s'_def lcd_controller_init_regs [OF assms(1)] using small
    by (auto simp only: ts_def [symmetric] intro!: lcdcon3_fields)
  moreover have "g s' LCDCON4 = of_int (ts_thp ts - 1)"
    by (simp add: s'_def ts_def lcd_controller_init_regs [OF assms(1)])
  moreover have "uint (of_int (v - 1) :: u32) = v - 1"
    if "v \<in> {ts_tvb ts, lcd_yres p, ts_tvf ts, ts_tvp ts, ts_thb ts, lcd_xres p, ts_thf ts, ts_thp ts}" for v
    using that r by (intro uint_of_int_small) auto
  ultimately show ?thesis by (simp only: list.map insert_iff simp_thms)
qed

theorem lcd_controller_init_timing_witness:
  "uint (field 8 11 (s3c2440_lcd_controller_init ram_bus lcd_4_3_params (\<lambda>a. 0) LCDCON3)) = 479"
proof -
  have "lcd_timing_ok lcd_4_3_params" by (simp add: lcd_timing_ok_def lcd_4_3_params_def)
  from lcd_controller_init_timing [OF ram_bus_mem this, of "\<lambda>a. 0"] show ?thesis
    by (simp add: lcd_4_3_params_def)
qed

text \<open>
  The divider chosen for the pixel clock is the best there is: no other setting of \<^verbatim>\<open>CLKVAL\<close>
  brings \<^verbatim>\<open>2 * (CLKVAL + 1) * vclk\<close> closer to the 100 MHz of \<^verbatim>\<open>HCLK\<close>.
\<close>

theorem lcd_clkval_nearest:
  assumes "1 \<le> vclk" and "vclk \<le> 100"
  shows "0 \<le> lcd_clkval vclk \<and>
    (\<forall>k. \<bar>2 * (lcd_clkval vclk + 1) * vclk - HCLK\<bar> \<le> \<bar>2 * (k + 1) * vclk - HCLK\<bar>)"
proof -
  define x :: rat where "x = of_int HCLK / of_int vclk / 2 - 1 + 1 / 2"
  have v: "(0 :: rat) < of_int vclk" using assms by simp
  have xv: "x * (2 * of_int vclk) = 100 - of_int vclk" using v by (simp add: x_def HCLK_def field_simps)
  have "0 \<le> x" using xv v assms(2) by (metis (no_types, opaque_lifting) diff_ge_0_iff_ge mult_pos_pos not_less of_int_le_iff of_int_numeral zero_less_numeral mult_neg_pos)
  then have c: "lcd_clkval vclk = \<lfloor>x\<rfloor>" by (simp add: lcd_clkval_def trunc_def x_def)
  have "of_int (lcd_clkval vclk) \<le> x" "x < of_int (lcd_clkval vclk) + 1" unfolding c by linarith+
  then have "of_int (lcd_clkval vclk) * (2 * of_int vclk) \<le> x * (2 * of_int vclk)"
    "x * (2 * of_int vclk) < (of_int (lcd_clkval vclk) + 1) * (2 * of_int vclk)"
    using v by (auto intro: mult_right_mono mult_strict_right_mono)
  then have "rat_of_int (lcd_clkval vclk * (2 * vclk)) \<le> rat_of_int (100 - vclk)"
    "rat_of_int (100 - vclk) < rat_of_int ((lcd_clkval vclk + 1) * (2 * vclk))"
    unfolding xv by simp_all
  then have lo: "lcd_clkval vclk * (2 * vclk) \<le> 100 - vclk" and hi: "100 - vclk < (lcd_clkval vclk + 1) * (2 * vclk)"
    by (simp_all only: of_int_le_iff of_int_less_iff)
  have "\<bar>2 * (lcd_clkval vclk + 1) * vclk - HCLK\<bar> \<le> \<bar>2 * (k + 1) * vclk - HCLK\<bar>" for k
  proof (cases "k = lcd_clkval vclk")
    case False
    then consider "k + 1 \<le> lcd_clkval vclk" | "lcd_clkval vclk + 1 \<le> k" by linarith
    then have "vclk \<le> \<bar>2 * (k + 1) * vclk - 100\<bar>"
    proof cases
      case 1
      then have "(k + 1) * (2 * vclk) \<le> lcd_clkval vclk * (2 * vclk)" using assms by (intro mult_right_mono) auto
      with lo show ?thesis by (simp add: algebra_simps)
    next
      case 2
      then have "(lcd_clkval vclk + 1) * (2 * vclk) + 2 * vclk \<le> (k + 1) * (2 * vclk)"
        using mult_right_mono [of "lcd_clkval vclk + 1 + 1" "k + 1" "2 * vclk"] assms by (simp add: algebra_simps)
      with hi show ?thesis by (simp add: algebra_simps)
    qed
    moreover have "\<bar>2 * (lcd_clkval vclk + 1) * vclk - 100\<bar> \<le> vclk" using lo hi by (simp add: algebra_simps)
    ultimately show ?thesis unfolding HCLK_def by linarith
  qed simp
  moreover have "0 \<le> lcd_clkval vclk" using \<open>0 \<le> x\<close> c by simp
  ultimately show ?thesis by blast
qed

theorem lcd_clkval_nearest_witness: "\<bar>2 * (lcd_clkval 9 + 1) * 9 - 100\<bar> \<le> \<bar>2 * (4 + 1) * 9 - (100 :: int)\<bar>"
  using lcd_clkval_nearest [of 9] by (auto simp: HCLK_def dest: spec [of _ 4])

section \<open>After the start\<close>

lemma palette_loop_other:
  assumes "mem_bus B g" and "\<forall>k < n. a \<noteq> base + 4 * of_nat k"
  shows "g (palette_loop B n i base s) a = g s a"
  using assms(2)
proof (induction n arbitrary: i base s)
  case 0
  then show ?case by simp
next
  case (Suc n)
  have "a \<noteq> base + 4 + 4 * of_nat k" if "k < n" for k
    using Suc.prems that by (auto dest!: spec [of _ "Suc k"] simp: algebra_simps)
  then have "g (palette_loop B n (Suc i) (base + 4) (wr32 B base (of_nat i) s)) a = g (wr32 B base (of_nat i) s) a"
    by (intro Suc.IH) blast
  moreover have "a \<noteq> base" using Suc.prems by (auto dest: spec [of _ 0])
  ultimately show ?case by (simp add: mem_bus_wr [OF assms(1)])
qed

lemma palette_loop_entry:
  assumes "mem_bus B g" and "n \<le> 2 ^ 29" and "k < n"
  shows "g (palette_loop B n i base s) (base + 4 * of_nat k) = of_nat (i + k)"
  using assms(2,3)
proof (induction n arbitrary: i k base s)
  case 0
  then show ?case by simp
next
  case (Suc n)
  show ?case
  proof (cases k)
    case 0
    have "base \<noteq> base + 4 + 4 * of_nat j" if "j < n" for j
    proof -
      have "unat (of_nat (4 + 4 * j) :: u32) = 4 + 4 * j"
        using that Suc.prems by (intro unat_of_nat32) simp
      then have "(4 + 4 * of_nat j :: u32) \<noteq> 0" by (simp add: word_unat_eq_iff)
      then show ?thesis by (simp add: add.assoc)
    qed
    then have "g (palette_loop B n (Suc i) (base + 4) (wr32 B base (of_nat i) s)) base =
        g (wr32 B base (of_nat i) s) base"
      by (intro palette_loop_other [OF assms(1)]) blast
    with 0 show ?thesis by (simp add: mem_bus_wr [OF assms(1)])
  next
    case (Suc j)
    then have "base + 4 * of_nat k = base + 4 + 4 * of_nat j" by (simp add: algebra_simps)
    with Suc Suc.IH [of j "Suc i" "base + 4"] Suc.prems show ?thesis by (simp add: add.assoc)
  qed
qed

lemma init_palette_regs:
  assumes m: "mem_bus B g"
  shows "k < 256 \<Longrightarrow> g (s3c2440_lcd_controller_init_palette B s) (0x4D000400 + 4 * of_nat k) = of_nat k"
    "g (s3c2440_lcd_controller_init_palette B s) LCDCON1 = g s LCDCON1"
    "a \<noteq> LCDCON1 \<Longrightarrow> \<forall>k < 256. a \<noteq> 0x4D000400 + 4 * of_nat k \<Longrightarrow>
      g (s3c2440_lcd_controller_init_palette B s) a = g s a"
proof -
  define s1 where "s1 = (if g s LCDCON1 AND push_bit 0 1 \<noteq> 0 then reg_and B LCDCON1 (NOT (push_bit 0 1)) s else s)"
  define t1 where "t1 = palette_loop B 256 0 0x4D000400 s1"
  have eq: "s3c2440_lcd_controller_init_palette B s =
      (if g s LCDCON1 AND push_bit 0 1 \<noteq> 0 then reg_or B LCDCON1 (push_bit 0 1) t1 else t1)"
    by (simp add: s3c2440_lcd_controller_init_palette_def mem_bus_rd [OF m] Let_def s1_def t1_def)
  have far: "LCDCON1 \<noteq> 0x4D000400 + 4 * of_nat k" if "k < 256" for k
  proof
    assume "LCDCON1 = 0x4D000400 + 4 * of_nat k"
    also have "\<dots> = of_nat (0x4D000400 + 4 * k)" by simp
    finally have "unat LCDCON1 = unat (of_nat (0x4D000400 + 4 * k) :: u32)" by (rule arg_cong)
    moreover have "unat (of_nat (0x4D000400 + 4 * k) :: u32) = 0x4D000400 + 4 * k"
      using that by (intro unat_of_nat32) simp
    ultimately show False by (simp add: sfr)
  qed
  then have con1: "g t1 LCDCON1 = g s1 LCDCON1" unfolding t1_def by (intro palette_loop_other [OF m]) blast
  have restored: "(w AND NOT (push_bit 0 1)) OR push_bit 0 1 = w" if "w AND push_bit 0 1 \<noteq> 0" for w :: u32
  proof (rule bit_word_eqI)
    fix n assume "n < LENGTH(32)"
    moreover have "bit w 0" using that and_bit_eq_0 by blast
    ultimately show "bit ((w AND NOT (push_bit 0 1)) OR push_bit 0 1) n = bit w n"
      by (cases "n = 0") (simp_all add: bit_simps)
  qed
  show "g (s3c2440_lcd_controller_init_palette B s) (0x4D000400 + 4 * of_nat k) = of_nat k" if "k < 256"
    using palette_loop_entry [OF m, of 256 k 0 "0x4D000400" s1] far [OF that] that
    unfolding eq by (simp add: mem_bus_or [OF m] t1_def)
  show "g (s3c2440_lcd_controller_init_palette B s) LCDCON1 = g s LCDCON1"
    using con1 restored [of "g s LCDCON1"] unfolding eq s1_def
    by (simp add: mem_bus_or [OF m] mem_bus_and [OF m] del: push_bit_0_id split: if_splits)
  show "g (s3c2440_lcd_controller_init_palette B s) a = g s a"
    if "a \<noteq> LCDCON1" "\<forall>k < 256. a \<noteq> 0x4D000400 + 4 * of_nat k"
  proof -
    have "g t1 a = g s1 a" unfolding t1_def using that(2) by (rule palette_loop_other [OF m])
    also have "\<dots> = g s a" using that(1) by (simp add: s1_def mem_bus_and [OF m])
    finally show ?thesis unfolding eq using that(1) by (simp add: mem_bus_or [OF m])
  qed
qed

lemma lcd_clkval_9: "lcd_clkval 9 = 5"
  by (simp add: lcd_clkval_def trunc_def HCLK_def floor_eq_iff)

lemma lcd_init_state:
  "\<exists>l c. lcd_init B (lcd_state_init, lcdcon_state_init, s) =
     Some (l, c, s3c2440_lcd_controller_init_palette B (s3c2440_lcd_controller_init B lcd_4_3_params s)) \<and>
   g_p_lcd_selected l = Some lcd_4_3_params \<and> g_p_lcd_controller_selected c = Some (s3c2440_lcd_controller B)"
proof -
  have names: "is_cstring (str ''lcd_4.3'')" "is_cstring (str ''s3c2440'')"
    by (simp_all add: str_def is_cstring_def)
  show ?thesis
    using names unfolding lcd_init_def Let_def
    by (simp add: lcd_4_3_add_def register_lcd_def lcd_state_init_def LCD_NUM_def numeral_eq_Suc select_lcd_def
        lcd_contoller_add_def s3c2440_lcd_contoller_add_def register_lcd_controller_def lcdcon_state_init_def
        LCD_CONTROLLER_NUM_def select_lcd_controller_def lcd_controller_init_def s3c2440_lcd_controller_def
        strcmp_eq_0 lcd_4_3_params_def)
qed

text \<open>
  \<^verbatim>\<open>lcd_init\<close> selects the 4.3 inch panel and the S3C2440 controller: afterwards
  \<^verbatim>\<open>get_lcd_params\<close> returns 480 by 272 pixels of 32 bits at 0x33c00000, the controller is told this
  base address, its palette is the identity, and its output is off until \<^verbatim>\<open>lcd_enable\<close> turns it on.
\<close>

theorem lcd_init_ready:
  assumes m: "mem_bus B g"
  shows "\<exists>l c s'. lcd_init B (lcd_state_init, lcdcon_state_init, s) = Some (l, c, s') \<and>
    get_lcd_params l = Some (0x33c00000, 480, 272, 32) \<and> 2 * g s' LCDSADDR1 = 0x33c00000 \<and>
    (\<forall>k < 256. g s' (0x4D000400 + 4 * of_nat k) = of_nat k) \<and>
    \<not> bit (g s' LCDCON1) 0 \<and> bit (g (lcd_enable c s') LCDCON1) 0 \<and>
    g (lcd_disable c (lcd_enable c s')) LCDCON1 = g s' LCDCON1"
proof -
  let ?i = "s3c2440_lcd_controller_init B lcd_4_3_params s"
  obtain l c where lc: "lcd_init B (lcd_state_init, lcdcon_state_init, s) =
      Some (l, c, s3c2440_lcd_controller_init_palette B ?i)"
    "g_p_lcd_selected l = Some lcd_4_3_params" "g_p_lcd_controller_selected c = Some (s3c2440_lcd_controller B)"
    using lcd_init_state [of B s] by blast
  let ?s = "s3c2440_lcd_controller_init_palette B ?i"
  have far: "LCDSADDR1 \<noteq> 0x4D000400 + 4 * of_nat k" if "k < 256" for k
  proof
    assume "LCDSADDR1 = 0x4D000400 + 4 * of_nat k"
    also have "\<dots> = of_nat (0x4D000400 + 4 * k)" by simp
    finally have "unat LCDSADDR1 = unat (of_nat (0x4D000400 + 4 * k) :: u32)" by (rule arg_cong)
    moreover have "unat (of_nat (0x4D000400 + 4 * k) :: u32) = 0x4D000400 + 4 * k"
      using that by (intro unat_of_nat32) simp
    ultimately show False by (simp add: sfr)
  qed
  have "g ?s LCDSADDR1 = g ?i LCDSADDR1"
    using far by (intro init_palette_regs(3) [OF m]) (simp_all add: sfr)
  then have addr: "2 * g ?s LCDSADDR1 = 0x33c00000"
    by (simp add: lcd_controller_init_regs [OF m] lcd_4_3_params_def LCD_FB_BASE_def)
  have con1: "g ?s LCDCON1 = 0x57A"
    unfolding init_palette_regs(2) [OF m] s3c2440_lcd_controller_init_def Let_def mem_bus_simps [OF m]
    by (simp add: sfr lcd_4_3_params_def lcd_clkval_9)
  have "g (lcd_enable c ?s) LCDCON1 = g ?s LCDCON1 OR 1" "g (lcd_disable c (lcd_enable c ?s)) LCDCON1 = (g ?s LCDCON1 OR 1) AND NOT 1"
    using lc(3) by (simp_all add: lcd_enable_def lcd_disable_def lcd_controller_enable_def lcd_controller_disable_def
        s3c2440_lcd_controller_def s3c2440_lcd_controller_enable_def s3c2440_lcd_controller_disable_def
        mem_bus_simps [OF m] sfr)
  with lc addr con1 init_palette_regs(1) [OF m] show ?thesis
    by (simp add: get_lcd_params_def lcd_4_3_params_def LCD_FB_BASE_def)
qed

theorem lcd_init_ready_witness:
  "\<exists>l c s'. lcd_init ram_bus (lcd_state_init, lcdcon_state_init, \<lambda>a. 0) = Some (l, c, s') \<and>
    2 * s' LCDSADDR1 = 0x33c00000 \<and> s' 0x4D000404 = 1"
  using lcd_init_ready [OF ram_bus_mem, of "\<lambda>a. 0"] by (fastforce dest: spec [of _ 1])

end
