(* ===== verification/Framebuffer.thy ===== *)
theory Framebuffer
  imports Lcd
begin

text \<open>
  \<^verbatim>\<open>lcd/framebuffer.c\<close>: drawing of single pixels and clearing of the screen. The interface
  \<open>pixel_sink\<close> is what the drawing routines of the other files rely on.
\<close>

section \<open>Operations\<close>

text \<open>The statics \<^verbatim>\<open>fb_base\<close>, \<^verbatim>\<open>xres\<close>, \<^verbatim>\<open>yres\<close> and \<^verbatim>\<open>bpp\<close>.\<close>

record fb =
  fb_base :: u32
  xres :: int
  yres :: int
  bpp :: int

definition fb_get_lcd_params :: "lcd_state \<Rightarrow> fb option" where
  "fb_get_lcd_params l =
     map_option (\<lambda>(base, xr, yr, bp). \<lparr>fb_base = base, xres = xr, yres = yr, bpp = bp\<rparr>) (get_lcd_params l)"

definition convert32bppto16bpp :: "u32 \<Rightarrow> u16" where
  "convert32bppto16bpp rgb =
     (let r = drop_bit 16 rgb AND 0xff;
          g = drop_bit 8 rgb AND 0xff;
          b = rgb AND 0xff;
          r = drop_bit 3 r;
          g = drop_bit 2 g;
          b = drop_bit 3 b
      in ucast (push_bit 11 r OR push_bit 5 g OR b))"

definition fb_put_pixel :: "'s bus \<Rightarrow> fb \<Rightarrow> int \<Rightarrow> int \<Rightarrow> u32 \<Rightarrow> 's \<Rightarrow> 's" where
  "fb_put_pixel B f x y color s =
     (let pixel_base = fb_base f + of_int ((xres f * bpp f div 8) * y) + of_int (x * bpp f div 8)
      in if bpp f = 8 then wr8 B pixel_base (ucast color) s
         else if bpp f = 16 then wr16 B pixel_base (convert32bppto16bpp color) s
         else if bpp f = 32 then wr32 B pixel_base color s
         else s)"

text \<open>The two nested loops of each case count \<^verbatim>\<open>xres * yres\<close> stores through an incremented pointer.\<close>

fun fill_loop :: "(u32 \<Rightarrow> 's \<Rightarrow> 's) \<Rightarrow> u32 \<Rightarrow> nat \<Rightarrow> u32 \<Rightarrow> 's \<Rightarrow> 's" where
  "fill_loop store sz 0 p s = s"
| "fill_loop store sz (Suc n) p s = fill_loop store sz n (p + sz) (store p s)"

definition clear_screen :: "'s bus \<Rightarrow> fb \<Rightarrow> u32 \<Rightarrow> 's \<Rightarrow> 's" where
  "clear_screen B f color s =
     (let n = nat (xres f) * nat (yres f)
      in if bpp f = 8 then fill_loop (\<lambda>p. wr8 B p (ucast color)) 1 n (fb_base f) s
         else if bpp f = 16 then fill_loop (\<lambda>p. wr16 B p (convert32bppto16bpp color)) 2 n (fb_base f) s
         else if bpp f = 32 then fill_loop (\<lambda>p. wr32 B p color) 4 n (fb_base f) s
         else s)"

section \<open>The interface of the drawing routines\<close>

text \<open>\<open>vis\<close> are the pixels of the screen and \<open>pix\<close> reads them.\<close>

locale pixel_sink =
  fixes put :: "int \<Rightarrow> int \<Rightarrow> u32 \<Rightarrow> 's \<Rightarrow> 's"
    and pix :: "'s \<Rightarrow> int \<Rightarrow> int \<Rightarrow> u32"
    and vis :: "int \<Rightarrow> int \<Rightarrow> bool"
  assumes put_pix: "vis x y \<Longrightarrow> vis x' y' \<Longrightarrow>
    pix (put x y c s) x' y' = (if x' = x \<and> y' = y then c else pix s x' y')"
begin

lemma put_list:
  assumes "\<forall>(x, y) \<in> set ps. vis x y" and "vis x y"
  shows "pix (fold (\<lambda>(x, y). put x y c) ps s) x y = (if (x, y) \<in> set ps then c else pix s x y)"
  using assms(1)
proof (induction ps arbitrary: s)
  case Nil
  then show ?case by simp
next
  case (Cons p ps)
  obtain a b where p: "p = (a, b)" by fastforce
  with Cons.prems have "vis a b" by simp
  with Cons p put_pix [OF this assms(2)] show ?case by auto
qed

end

section \<open>Pixels of 32 bits\<close>

text \<open>A frame buffer of 32 bits per pixel that lies in the address space.\<close>

definition fb_ok :: "fb \<Rightarrow> bool" where
  "fb_ok f \<longleftrightarrow> bpp f = 32 \<and> 0 < xres f \<and> 0 < yres f \<and>
     int (unat (fb_base f)) + 4 * xres f * yres f \<le> 2 ^ 32"

definition in_screen :: "fb \<Rightarrow> int \<Rightarrow> int \<Rightarrow> bool" where
  "in_screen f x y \<longleftrightarrow> 0 \<le> x \<and> x < xres f \<and> 0 \<le> y \<and> y < yres f"

text \<open>The address of a pixel: rows follow each other without gaps.\<close>

definition pix_addr :: "fb \<Rightarrow> int \<Rightarrow> int \<Rightarrow> u32" where
  "pix_addr f x y = fb_base f + 4 * of_int (xres f * y + x)"

lemma fb_put_pixel_32: "bpp f = 32 \<Longrightarrow> fb_put_pixel B f x y c s = wr32 B (pix_addr f x y) c s"
proof -
  have "xres f * 32 div 8 * y = 4 * (xres f * y)" "x * 32 div 8 = 4 * x" by simp_all
  moreover assume "bpp f = 32"
  ultimately show ?thesis by (simp add: fb_put_pixel_def pix_addr_def algebra_simps)
qed

lemma pixel_index:
  assumes "in_screen f x y"
  shows "0 \<le> xres f * y + x" "xres f * y + x < xres f * yres f"
proof -
  show "0 \<le> xres f * y + x" using assms by (simp add: in_screen_def)
  have "xres f * y + x < xres f * y + xres f" using assms by (simp add: in_screen_def)
  also have "\<dots> = xres f * (y + 1)" by (simp add: algebra_simps)
  also have "\<dots> \<le> xres f * yres f" using assms by (intro mult_left_mono) (auto simp: in_screen_def)
  finally show "xres f * y + x < xres f * yres f" .
qed

lemma unat_pix_addr:
  assumes "fb_ok f" and "in_screen f x y"
  shows "int (unat (pix_addr f x y)) = int (unat (fb_base f)) + 4 * (xres f * y + x)"
proof -
  let ?n = "int (unat (fb_base f)) + 4 * (xres f * y + x)"
  have "pix_addr f x y = of_int ?n" by (simp add: pix_addr_def)
  moreover have "0 \<le> ?n" "?n < 2 ^ 32"
    using pixel_index [OF assms(2)] assms(1) by (auto simp: fb_ok_def)
  ultimately have "uint (pix_addr f x y) = ?n" by (simp only: uint_of_int_small)
  then show ?thesis by (simp only: uint_nat)
qed

text \<open>Different pixels have different addresses.\<close>

lemma pix_addr_inj:
  assumes "fb_ok f" "in_screen f x y" "in_screen f x' y'" "pix_addr f x y = pix_addr f x' y'"
  shows "x = x' \<and> y = y'"
proof -
  have eq: "xres f * y + x = xres f * y' + x'"
    using unat_pix_addr [OF assms(1,2)] unat_pix_addr [OF assms(1,3)] assms(4) by simp
  have b: "0 \<le> x" "x < xres f" "0 \<le> x'" "x' < xres f" using assms(2,3) by (simp_all add: in_screen_def)
  have "x = (xres f * y + x) mod xres f" "x' = (xres f * y' + x') mod xres f" using b by simp_all
  with eq have "x = x'" by simp
  with eq b show ?thesis by auto
qed

definition fb_visible :: "'s bus \<Rightarrow> ('s \<Rightarrow> u32 \<Rightarrow> u32) \<Rightarrow> fb \<Rightarrow> int \<Rightarrow> int \<Rightarrow> bool" where
  "fb_visible B g f x y \<longleftrightarrow> mem_bus B g \<and> fb_ok f \<and> in_screen f x y"

definition fb_pix :: "('s \<Rightarrow> u32 \<Rightarrow> u32) \<Rightarrow> fb \<Rightarrow> 's \<Rightarrow> int \<Rightarrow> int \<Rightarrow> u32" where
  "fb_pix g f s x y = g s (pix_addr f x y)"

interpretation fb32: pixel_sink "fb_put_pixel B f" "fb_pix g f" "fb_visible B g f" for B g f
proof unfold_locales
  fix x y x' y' c s
  assume "fb_visible B g f x y" "fb_visible B g f x' y'"
  then show "fb_pix g f (fb_put_pixel B f x y c s) x' y' = (if x' = x \<and> y' = y then c else fb_pix g f s x' y')"
    using pix_addr_inj [of f x' y' x y]
    by (auto simp: fb_visible_def fb_pix_def fb_put_pixel_32 fb_ok_def mem_bus_wr)
qed

section \<open>Properties\<close>

text \<open>
  Drawing a pixel of the screen sets exactly this pixel, and no word outside the frame buffer
  changes.
\<close>

theorem fb_put_pixel_exact:
  assumes "mem_bus B g" and "fb_ok f" and "in_screen f x y"
  shows "(\<forall>x' y'. in_screen f x' y' \<longrightarrow>
      g (fb_put_pixel B f x y c s) (pix_addr f x' y') = (if x' = x \<and> y' = y then c else g s (pix_addr f x' y'))) \<and>
    (\<forall>a. int (unat a) < int (unat (fb_base f)) \<or> int (unat (fb_base f)) + 4 * xres f * yres f \<le> int (unat a) \<longrightarrow>
      g (fb_put_pixel B f x y c s) a = g s a)"
proof (intro conjI allI impI)
  fix x' y' assume "in_screen f x' y'"
  then show "g (fb_put_pixel B f x y c s) (pix_addr f x' y') = (if x' = x \<and> y' = y then c else g s (pix_addr f x' y'))"
    using fb32.put_pix [of B g f x y x' y' c s] assms by (simp add: fb_visible_def fb_pix_def)
next
  fix a :: u32
  assume "int (unat a) < int (unat (fb_base f)) \<or> int (unat (fb_base f)) + 4 * xres f * yres f \<le> int (unat a)"
  then have "a \<noteq> pix_addr f x y"
    using unat_pix_addr [OF assms(2,3)] pixel_index [OF assms(3)] by auto
  then show "g (fb_put_pixel B f x y c s) a = g s a"
    using assms by (simp add: fb_put_pixel_32 fb_ok_def mem_bus_wr)
qed

definition demo_fb :: fb where
  "demo_fb = \<lparr>fb_base = 0x33c00000, xres = 480, yres = 272, bpp = 32\<rparr>"

lemma demo_fb_ok: "fb_ok demo_fb"
  by (simp add: fb_ok_def demo_fb_def)

theorem fb_put_pixel_exact_witness:
  "fb_put_pixel ram_bus demo_fb 479 271 0xff0000 (\<lambda>a. 0) (pix_addr demo_fb 479 271) = 0xff0000 \<and>
   fb_put_pixel ram_bus demo_fb 479 271 0xff0000 (\<lambda>a. 0) (pix_addr demo_fb 0 0) = 0"
  using fb_put_pixel_exact [OF ram_bus_mem demo_fb_ok, of 479 271 "0xff0000" "\<lambda>a. 0"]
  by (simp add: in_screen_def demo_fb_def)

lemma fill_loop_word:
  assumes m: "mem_bus B g"
  shows "g (fill_loop (\<lambda>p. wr32 B p c) 4 n p s) a = (if \<exists>k < n. a = p + 4 * of_nat k then c else g s a)"
proof (induction n arbitrary: p s)
  case 0
  then show ?case by simp
next
  case (Suc n)
  have "(\<exists>k < Suc n. a = p + 4 * of_nat k) \<longleftrightarrow> a = p \<or> (\<exists>k < n. a = p + 4 + 4 * of_nat k)"
    by (simp add: Ex_less_Suc2 algebra_simps)
  with Suc show ?case by (auto simp: mem_bus_wr [OF m])
qed

text \<open>
  \<^verbatim>\<open>clear_screen\<close> gives every pixel of the screen the colour and leaves the memory outside the
  frame buffer alone.
\<close>

theorem clear_screen_all:
  assumes m: "mem_bus B g" and f: "fb_ok f"
  shows "(\<forall>x y. in_screen f x y \<longrightarrow> g (clear_screen B f c s) (pix_addr f x y) = c) \<and>
    (\<forall>a. int (unat a) < int (unat (fb_base f)) \<or> int (unat (fb_base f)) + 4 * xres f * yres f \<le> int (unat a) \<longrightarrow>
      g (clear_screen B f c s) a = g s a)"
proof -
  define n where "n = nat (xres f) * nat (yres f)"
  have n: "int n = xres f * yres f" using f by (simp add: n_def fb_ok_def)
  have clear: "g (clear_screen B f c s) a = (if \<exists>k < n. a = fb_base f + 4 * of_nat k then c else g s a)" for a
    using f fill_loop_word [OF m] by (simp add: clear_screen_def fb_ok_def n_def)
  show ?thesis
  proof (intro conjI allI impI)
    fix x y assume v: "in_screen f x y"
    note i = pixel_index [OF v]
    have "pix_addr f x y = fb_base f + 4 * of_nat (nat (xres f * y + x))"
      using i by (simp add: pix_addr_def)
    moreover have "nat (xres f * y + x) < n" using i n by (simp add: nat_less_iff)
    ultimately show "g (clear_screen B f c s) (pix_addr f x y) = c" unfolding clear by auto
  next
    fix a :: u32
    assume out: "int (unat a) < int (unat (fb_base f)) \<or> int (unat (fb_base f)) + 4 * xres f * yres f \<le> int (unat a)"
    have "a \<noteq> fb_base f + 4 * of_nat k" if "k < n" for k
    proof
      assume a: "a = fb_base f + 4 * of_nat k"
      have "int (unat (fb_base f) + 4 * n) \<le> int (2 ^ 32)"
        using f unfolding fb_ok_def of_nat_add of_nat_mult n
        by (simp only: of_nat_numeral of_nat_power mult.assoc)
      then have le: "unat (fb_base f) + 4 * n \<le> 2 ^ 32" by (simp only: of_nat_le_iff)
      have "a = of_nat (unat (fb_base f) + 4 * k)" using a by simp
      moreover have "unat (fb_base f) + 4 * k < 2 ^ 32" using le that by linarith
      ultimately have "unat a = unat (fb_base f) + 4 * k" by (simp only: unat_of_nat32)
      with out n that show False by auto
    qed
    then show "g (clear_screen B f c s) a = g s a" unfolding clear by auto
  qed
qed

theorem clear_screen_all_witness:
  "clear_screen ram_bus demo_fb 0x23ff77 (\<lambda>a. 0) (pix_addr demo_fb 100 200) = 0x23ff77 \<and>
   clear_screen ram_bus demo_fb 0x23ff77 (\<lambda>a. 0) 0x33bffffc = 0"
  using clear_screen_all [OF ram_bus_mem demo_fb_ok, of "0x23ff77" "\<lambda>a. 0"]
  by (simp add: in_screen_def) (simp add: demo_fb_def)

text \<open>
  The conversion to 16 bits keeps the upper bits of each colour: five of red, six of green and
  five of blue, in the 5-6-5 layout.
\<close>

theorem convert_565:
  "bit (convert32bppto16bpp rgb) n \<longleftrightarrow>
    (if n < 5 then bit rgb (3 + n) else if n < 11 then bit rgb (n - 5 + 10) else n < 16 \<and> bit rgb (n - 11 + 19))"
proof -
  have ff: "0xff = (mask 8 :: u32)" by (simp add: mask_eq_exp_minus_1)
  show ?thesis
    unfolding convert32bppto16bpp_def ff Let_def
    by (auto simp: bit_simps not_less)
qed

end
