(* ===== verification/Geometry.thy ===== *)
theory Geometry
  imports Framebuffer
begin

text \<open>
  \<^verbatim>\<open>lcd/geometry.c\<close>: lines and circles. The routines call \<^verbatim>\<open>fb_put_pixel\<close>, which is the argument
  \<open>put\<close>. Coordinates are mathematical integers: on a screen they are far from the limits of \<^verbatim>\<open>int\<close>.
\<close>

section \<open>Lines\<close>

text \<open>
  The eight loops of \<^verbatim>\<open>draw_line\<close> differ in the coordinate that runs from one end to the other and in
  the two directions. \<open>line_x\<close> is the loop along \<open>x\<close>, upwards if \<open>xup\<close>, with \<open>y\<close> stepping upwards if
  \<open>yup\<close>; \<open>line_y\<close> is the loop along \<open>y\<close>.
\<close>

function line_x :: "(int \<Rightarrow> int \<Rightarrow> u32 \<Rightarrow> 's \<Rightarrow> 's) \<Rightarrow> u32 \<Rightarrow> bool \<Rightarrow> bool \<Rightarrow> int \<Rightarrow> int \<Rightarrow> int \<Rightarrow>
    int \<Rightarrow> int \<Rightarrow> int \<Rightarrow> 's \<Rightarrow> 's" where
  "line_x put color xup yup dx dy x2 x1 y1 e s =
     (if (if xup then x1 \<le> x2 else x1 \<ge> x2) then
        let s = put x1 y1 color s;
            (y1, e) = (if e > 0 then (if yup then y1 + 1 else y1 - 1, e - dx) else (y1, e));
            x1 = (if xup then x1 + 1 else x1 - 1);
            e = e + dy
        in line_x put color xup yup dx dy x2 x1 y1 e s
      else s)"
  by pat_completeness auto
termination
  by (relation "measure (\<lambda>(put, color, xup, yup, dx, dy, x2, x1, y1, e, s).
      nat (if xup then x2 - x1 + 1 else x1 - x2 + 1))") auto

function line_y :: "(int \<Rightarrow> int \<Rightarrow> u32 \<Rightarrow> 's \<Rightarrow> 's) \<Rightarrow> u32 \<Rightarrow> bool \<Rightarrow> bool \<Rightarrow> int \<Rightarrow> int \<Rightarrow> int \<Rightarrow>
    int \<Rightarrow> int \<Rightarrow> int \<Rightarrow> 's \<Rightarrow> 's" where
  "line_y put color xup yup dx dy y2 x1 y1 e s =
     (if (if yup then y1 \<le> y2 else y1 \<ge> y2) then
        let s = put x1 y1 color s;
            (x1, e) = (if e > 0 then (if xup then x1 + 1 else x1 - 1, e - dy) else (x1, e));
            y1 = (if yup then y1 + 1 else y1 - 1);
            e = e + dx
        in line_y put color xup yup dx dy y2 x1 y1 e s
      else s)"
  by pat_completeness auto
termination
  by (relation "measure (\<lambda>(put, color, xup, yup, dx, dy, y2, x1, y1, e, s).
      nat (if yup then y2 - y1 + 1 else y1 - y2 + 1))") auto

declare line_x.simps [simp del] line_y.simps [simp del]

definition draw_line :: "(int \<Rightarrow> int \<Rightarrow> u32 \<Rightarrow> 's \<Rightarrow> 's) \<Rightarrow> int \<Rightarrow> int \<Rightarrow> int \<Rightarrow> int \<Rightarrow> u32 \<Rightarrow> 's \<Rightarrow> 's" where
  "draw_line put x1 y1 x2 y2 color s =
     (let dx = x2 - x1; dy = y2 - y1
      in if dx \<ge> 0 then
           if dy \<ge> 0 then
             if dx \<ge> dy then line_x put color True True dx dy x2 x1 y1 (dy - dx div 2) s
             else line_y put color True True dx dy y2 x1 y1 (dx - dy div 2) s
           else
             let dy = - dy
             in if dx \<ge> dy then line_x put color True False dx dy x2 x1 y1 (dy - dx div 2) s
                else line_y put color True False dx dy y2 x1 y1 (dx - dy div 2) s
         else
           let dx = - dx
           in if dy \<ge> 0 then
                if dx \<ge> dy then line_x put color False True dx dy x2 x1 y1 (dy - dx div 2) s
                else line_y put color False True dx dy y2 x1 y1 (dx - dy div 2) s
              else
                let dy = - dy
                in if dx \<ge> dy then line_x put color False False dx dy x2 x1 y1 (dy - dx div 2) s
                   else line_y put color False False dx dy y2 x1 y1 (dx - dy div 2) s)"

definition fb_disp_cross :: "(int \<Rightarrow> int \<Rightarrow> u32 \<Rightarrow> 's \<Rightarrow> 's) \<Rightarrow> int \<Rightarrow> int \<Rightarrow> u32 \<Rightarrow> 's \<Rightarrow> 's" where
  "fb_disp_cross put x y color s =
     draw_line put x (y - 10) x (y + 10) color (draw_line put (x - 10) y (x + 10) y color s)"

section \<open>Circles\<close>

text \<open>The loop may run forever (it does for radius 0, until the integers overflow): \<open>None\<close>.\<close>

definition circle_points :: "int \<Rightarrow> int \<Rightarrow> int \<times> int \<Rightarrow> (int \<times> int) list" where
  "circle_points x y = (\<lambda>(a, b).
     [(x + a, y - b), (x - a, y - b), (x - a, y + b), (x + a, y + b),
      (x + b, y + a), (x + b, y - a), (x - b, y - a), (x - b, y + a)])"

partial_function (option) circle_loop :: "(int \<Rightarrow> int \<Rightarrow> u32 \<Rightarrow> 's \<Rightarrow> 's) \<Rightarrow> u32 \<Rightarrow> int \<Rightarrow> int \<Rightarrow> int \<Rightarrow>
    int \<Rightarrow> int \<Rightarrow> 's \<Rightarrow> 's option" where
  "circle_loop put color x y r a b s =
     (if 22 * b * b \<ge> r * r then
        let s = put (x + a) (y - b) color s;
            s = put (x - a) (y - b) color s;
            s = put (x - a) (y + b) color s;
            s = put (x + a) (y + b) color s;
            s = put (x + b) (y + a) color s;
            s = put (x + b) (y - a) color s;
            s = put (x - b) (y - a) color s;
            s = put (x - b) (y + a) color s;
            a = a + 1;
            num = (a * a + b * b) - r * r
        in if num > 0 then circle_loop put color x y r (a - 1) (b - 1) s
           else circle_loop put color x y r a b s
      else Some s)"

definition draw_circle :: "(int \<Rightarrow> int \<Rightarrow> u32 \<Rightarrow> 's \<Rightarrow> 's) \<Rightarrow> int \<Rightarrow> int \<Rightarrow> int \<Rightarrow> u32 \<Rightarrow> 's \<Rightarrow> 's option" where
  "draw_circle put x y r color s = circle_loop put color x y r 0 r s"

section \<open>The line is the closest one\<close>

text \<open>The height of the line after \<open>k\<close> steps, in closed form.\<close>

definition line_m :: "int \<Rightarrow> int \<Rightarrow> int \<Rightarrow> int" where
  "line_m dx dy k = (dy * k + dx - 1 - dx div 2) div dx"

lemma line_m_bounds:
  assumes "0 < dx"
  shows "dx div 2 - dx < dy * k - dx * line_m dx dy k" "dy * k - dx * line_m dx dy k \<le> dx div 2"
proof -
  let ?n = "dy * k + dx - 1 - dx div 2"
  have "?n = dx * line_m dx dy k + ?n mod dx" by (simp add: line_m_def)
  moreover have "0 \<le> ?n mod dx" "?n mod dx < dx" using assms by simp_all
  ultimately show "dx div 2 - dx < dy * k - dx * line_m dx dy k" "dy * k - dx * line_m dx dy k \<le> dx div 2"
    by linarith+
qed

lemma half_step: "(d :: int) div 2 - d < f \<Longrightarrow> f \<le> d div 2 \<Longrightarrow> 2 * \<bar>f\<bar> \<le> d"
  by presburger

lemma line_m_unique:
  assumes "0 < dx" and "dx div 2 - dx < dy * k - dx * m" and "dy * k - dx * m \<le> dx div 2"
  shows "line_m dx dy k = m"
proof -
  have "dx * m \<le> dy * k + dx - 1 - dx div 2" "dy * k + dx - 1 - dx div 2 < dx * (m + 1)"
    using assms by (simp_all add: algebra_simps)
  then have "(dy * k + dx - 1 - dx div 2) - dx * m \<in> {0..<dx}" by (simp add: algebra_simps)
  then show ?thesis unfolding line_m_def using assms(1)
    by (intro int_div_pos_eq [of _ _ _ "(dy * k + dx - 1 - dx div 2) - dx * m"]) auto
qed

lemma line_m_range:
  assumes "0 < dx" "0 \<le> dy" "0 \<le> k" "k \<le> dx"
  shows "0 \<le> line_m dx dy k" "line_m dx dy k \<le> dy"
proof -
  note b = line_m_bounds [OF assms(1), of dy k]
  have half: "dx div 2 < dx" "0 \<le> dx div 2" using assms(1) by presburger+
  have "0 \<le> dy * k" using assms by simp
  then have "dx * (-1) < dx * line_m dx dy k" using b half by linarith
  then have "-1 < line_m dx dy k" using assms(1) by (simp only: mult_less_cancel_left_pos)
  then show "0 \<le> line_m dx dy k" by simp
  have "dy * k \<le> dx * dy" using assms by (metis mult.commute mult_left_mono)
  then have "dx * line_m dx dy k < dx * (dy + 1)" using b half unfolding distrib_left by linarith
  then have "line_m dx dy k < dy + 1" using assms(1) by (simp only: mult_less_cancel_left_pos)
  then show "line_m dx dy k \<le> dy" by simp
qed

lemma line_m_step:
  assumes "0 < dx" and "0 \<le> dy" and "dy \<le> dx"
  shows "line_m dx dy (k + 1) =
    (if 0 < dy * (k + 1) - dx div 2 - dx * line_m dx dy k then line_m dx dy k + 1 else line_m dx dy k)"
proof -
  note b = line_m_bounds [OF assms(1), of dy k]
  show ?thesis
  proof (cases "0 < dy * (k + 1) - dx div 2 - dx * line_m dx dy k")
    case True
    then have "line_m dx dy (k + 1) = line_m dx dy k + 1"
      using b assms by (intro line_m_unique) (simp_all add: algebra_simps)
    with True show ?thesis by simp
  next
    case False
    then have "line_m dx dy (k + 1) = line_m dx dy k"
      using b assms by (intro line_m_unique) (simp_all add: algebra_simps)
    with False show ?thesis by simp
  qed
qed

lemma line_m_ends:
  assumes "0 < dx"
  shows "line_m dx dy 0 = 0" "line_m dx dy dx = dy"
  using assms by (auto intro!: line_m_unique)

definition sgn_of :: "bool \<Rightarrow> int" where
  "sgn_of up = (if up then 1 else -1)"

lemma line_x_points:
  assumes "0 < dx" "0 \<le> dy" "dy \<le> dx" "k \<le> nat dx + 1"
  shows "line_x put c xup yup dx dy (x1 + sgn_of xup * dx) (x1 + sgn_of xup * int k)
      (y1 + sgn_of yup * line_m dx dy (int k)) (dy * (int k + 1) - dx div 2 - dx * line_m dx dy (int k)) s =
    fold (\<lambda>(x, y). put x y c)
      (map (\<lambda>k. (x1 + sgn_of xup * int k, y1 + sgn_of yup * line_m dx dy (int k))) [k..<nat dx + 1]) s"
  using assms(4)
proof (induction "nat dx + 1 - k" arbitrary: k s)
  case 0
  then have "k = nat dx + 1" by simp
  with assms(1) show ?case by (subst line_x.simps) (simp add: sgn_of_def)
next
  case (Suc n)
  then have k: "k < nat dx + 1" by simp
  let ?e = "dy * (int k + 1) - dx div 2 - dx * line_m dx dy (int k)"
  have cond: "if xup then x1 + sgn_of xup * int k \<le> x1 + sgn_of xup * dx
      else x1 + sgn_of xup * int k \<ge> x1 + sgn_of xup * dx"
    using k assms(1) by (auto simp: sgn_of_def)
  have x: "(if xup then x1 + sgn_of xup * int k + 1 else x1 + sgn_of xup * int k - 1) = x1 + sgn_of xup * int (Suc k)"
    by (simp add: sgn_of_def)
  have y: "(if 0 < ?e then (if yup then y1 + sgn_of yup * line_m dx dy (int k) + 1
        else y1 + sgn_of yup * line_m dx dy (int k) - 1, ?e - dx)
      else (y1 + sgn_of yup * line_m dx dy (int k), ?e)) =
    (y1 + sgn_of yup * line_m dx dy (int (Suc k)), dy * (int k + 1) - dx div 2 - dx * line_m dx dy (int (Suc k)))"
    using line_m_step [OF assms(1-3), of "int k"] by (simp add: sgn_of_def algebra_simps)
  have e: "dy * (int k + 1) - dx div 2 - dx * line_m dx dy (int (Suc k)) + dy =
      dy * (int (Suc k) + 1) - dx div 2 - dx * line_m dx dy (int (Suc k))"
    by (simp add: algebra_simps)
  from Suc.hyps(1) [of "Suc k"] Suc.hyps(2) k show ?case
    by (subst line_x.simps) (simp only: if_P [OF cond] Let_def y prod.case x e upt_conv_Cons list.map fold_simps)
qed

text \<open>The loop along \<open>y\<close> is the loop along \<open>x\<close> with the coordinates exchanged.\<close>

lemma line_y_swap:
  "line_y put c xup yup dx dy y2 x1 y1 e s = line_x (\<lambda>y x. put x y) c yup xup dy dx y2 y1 x1 e s"
proof (induction put c xup yup dx dy y2 x1 y1 e s rule: line_y.induct)
  case (1 put c xup yup dx dy y2 x1 y1 e s)
  show ?case
  proof (cases "if yup then y1 \<le> y2 else y1 \<ge> y2")
    case True
    obtain x1' e' where p: "(if 0 < e then (if xup then x1 + 1 else x1 - 1, e - dy) else (x1, e)) = (x1', e')"
      by fastforce
    note IH = "1.IH" [OF True refl refl p [symmetric] refl refl]
    show ?thesis
      by (subst line_y.simps, subst line_x.simps) (simp only: if_P [OF True] Let_def p prod.case IH)
  next
    case False
    show ?thesis
      by (subst line_y.simps, subst line_x.simps) (simp only: if_not_P [OF False])
  qed
qed

text \<open>
  A sequence of pixels is a best line from \<open>(x1, y1)\<close> to \<open>(x2, y2)\<close>: it has the right ends and one
  pixel for each step of the longer coordinate, consecutive pixels touch, and every pixel is at
  most half a step away from the straight line and inside the rectangle that the ends span.
\<close>

definition best_line :: "int \<Rightarrow> int \<Rightarrow> int \<Rightarrow> int \<Rightarrow> (int \<times> int) list \<Rightarrow> bool" where
  "best_line x1 y1 x2 y2 ps \<longleftrightarrow>
     (let dx = x2 - x1; dy = y2 - y1; n = max \<bar>dx\<bar> \<bar>dy\<bar>
      in length ps = nat n + 1 \<and> ps ! 0 = (x1, y1) \<and> ps ! nat n = (x2, y2) \<and>
         (\<forall>i < nat n. \<bar>fst (ps ! Suc i) - fst (ps ! i)\<bar> \<le> 1 \<and> \<bar>snd (ps ! Suc i) - snd (ps ! i)\<bar> \<le> 1) \<and>
         (\<forall>(x, y) \<in> set ps. 2 * \<bar>dx * (y - y1) - dy * (x - x1)\<bar> \<le> n \<and>
            min x1 x2 \<le> x \<and> x \<le> max x1 x2 \<and> min y1 y2 \<le> y \<and> y \<le> max y1 y2))"

lemma best_line_swap:
  "best_line x1 y1 x2 y2 ps \<Longrightarrow> best_line y1 x1 y2 x2 (map prod.swap ps)"
proof -
  assume b: "best_line x1 y1 x2 y2 ps"
  define n where "n = max \<bar>x2 - x1\<bar> \<bar>y2 - y1\<bar>"
  have c: "max \<bar>y2 - y1\<bar> \<bar>x2 - x1\<bar> = n" by (simp add: n_def)
  from b have ends: "length ps = nat n + 1" "ps ! 0 = (x1, y1)" "ps ! nat n = (x2, y2)"
    and touch: "\<forall>i < nat n. \<bar>fst (ps ! Suc i) - fst (ps ! i)\<bar> \<le> 1 \<and> \<bar>snd (ps ! Suc i) - snd (ps ! i)\<bar> \<le> 1"
    and near: "\<forall>(x, y) \<in> set ps. 2 * \<bar>(x2 - x1) * (y - y1) - (y2 - y1) * (x - x1)\<bar> \<le> n \<and>
      min x1 x2 \<le> x \<and> x \<le> max x1 x2 \<and> min y1 y2 \<le> y \<and> y \<le> max y1 y2"
    unfolding best_line_def Let_def n_def [symmetric] by blast+
  have "2 * \<bar>(y2 - y1) * (x - x1) - (x2 - x1) * (y - y1)\<bar> \<le> n \<and>
      min y1 y2 \<le> y \<and> y \<le> max y1 y2 \<and> min x1 x2 \<le> x \<and> x \<le> max x1 x2" if "(x, y) \<in> set ps" for x y
    using bspec [OF near that] by (simp only: prod.case abs_minus_commute [of "(y2 - y1) * (x - x1)"] simp_thms)
  with ends touch show ?thesis
    unfolding best_line_def Let_def c by (auto simp: prod.swap_def)
qed

lemma line_x_best:
  fixes x1 y1 :: int and xup yup :: bool
  assumes "0 < dx" "0 \<le> dy" "dy \<le> dx"
  defines "ps \<equiv> map (\<lambda>k. (x1 + sgn_of xup * int k, y1 + sgn_of yup * line_m dx dy (int k))) [0..<nat dx + 1]"
  shows "best_line x1 y1 (x1 + sgn_of xup * dx) (y1 + sgn_of yup * dy) ps"
    "line_x put c xup yup dx dy (x1 + sgn_of xup * dx) x1 y1 (dy - dx div 2) s = fold (\<lambda>(x, y). put x y c) ps s"
proof -
  have n: "max \<bar>sgn_of xup * dx\<bar> \<bar>sgn_of yup * dy\<bar> = dx" using assms by (simp add: sgn_of_def)
  have nth: "ps ! i = (x1 + sgn_of xup * int i, y1 + sgn_of yup * line_m dx dy (int i))" if "i < nat dx + 1" for i
    using that by (simp add: ps_def del: upt_Suc)
  have dist: "2 * \<bar>dx * line_m dx dy k - dy * k\<bar> \<le> dx" for k
    using half_step [OF line_m_bounds [OF assms(1), of dy k]] by (simp add: abs_minus_commute)
  have near: "2 * \<bar>sgn_of xup * dx * (y - y1) - sgn_of yup * dy * (x - x1)\<bar> \<le> dx \<and>
      min x1 (x1 + sgn_of xup * dx) \<le> x \<and> x \<le> max x1 (x1 + sgn_of xup * dx) \<and>
      min y1 (y1 + sgn_of yup * dy) \<le> y \<and> y \<le> max y1 (y1 + sgn_of yup * dy)" if "(x, y) \<in> set ps" for x y
  proof -
    from that obtain k where k: "k \<le> nat dx" and xy: "x = x1 + sgn_of xup * int k" "y = y1 + sgn_of yup * line_m dx dy (int k)"
      by (fastforce simp: ps_def less_Suc_eq_le simp del: upt_Suc)
    from k have "int k \<le> dx" using assms(1) by simp
    note m = line_m_range [OF assms(1,2) of_nat_0_le_iff this]
    from xy have "sgn_of xup * dx * (y - y1) - sgn_of yup * dy * (x - x1) =
        sgn_of xup * sgn_of yup * (dx * line_m dx dy (int k) - dy * int k)" by (simp add: algebra_simps)
    then have "2 * \<bar>sgn_of xup * dx * (y - y1) - sgn_of yup * dy * (x - x1)\<bar> \<le> dx"
      using dist [of "int k"] by (simp add: sgn_of_def abs_mult)
    with xy m \<open>int k \<le> dx\<close> show ?thesis by (simp add: sgn_of_def)
  qed
  have touch: "\<bar>snd (ps ! Suc i) - snd (ps ! i)\<bar> \<le> 1" "\<bar>fst (ps ! Suc i) - fst (ps ! i)\<bar> \<le> 1" if "i < nat dx" for i
  proof -
    have "line_m dx dy (int (Suc i)) - line_m dx dy (int i) \<in> {0, 1}"
      using line_m_step [OF assms(1-3), of "int i"] by (auto simp: add.commute)
    then show "\<bar>snd (ps ! Suc i) - snd (ps ! i)\<bar> \<le> 1" "\<bar>fst (ps ! Suc i) - fst (ps ! i)\<bar> \<le> 1"
      using that by (auto simp: nth sgn_of_def)
  qed
  have "length ps = nat dx + 1" by (simp add: ps_def del: upt_Suc)
  moreover have "ps ! 0 = (x1, y1)" "ps ! nat dx = (x1 + sgn_of xup * dx, y1 + sgn_of yup * dy)"
    using line_m_ends [OF assms(1), of dy] nth [of 0] nth [of "nat dx"] assms(1) by simp_all
  ultimately show "best_line x1 y1 (x1 + sgn_of xup * dx) (y1 + sgn_of yup * dy) ps"
    using near touch unfolding best_line_def Let_def add_diff_cancel_left' n by blast
  show "line_x put c xup yup dx dy (x1 + sgn_of xup * dx) x1 y1 (dy - dx div 2) s = fold (\<lambda>(x, y). put x y c) ps s"
    using line_x_points [OF assms(1-3), of 0 put c xup yup x1 y1 s] line_m_ends [OF assms(1), of dy]
    by (simp add: ps_def del: upt_Suc)
qed

lemma line_x_drawn:
  assumes "0 \<le> dy" "dy \<le> dx"
  shows "\<exists>ps. best_line x1 y1 (x1 + sgn_of xup * dx) (y1 + sgn_of yup * dy) ps \<and>
    (\<forall>s. line_x put c xup yup dx dy (x1 + sgn_of xup * dx) x1 y1 (dy - dx div 2) s = fold (\<lambda>(x, y). put x y c) ps s)"
proof (cases "dx = 0")
  case True
  with assms have "dy = 0" by simp
  have "line_x put c xup yup 0 0 x1 x1 y1 0 s = put x1 y1 c s" for s
    by (subst line_x.simps, subst line_x.simps) (simp add: Let_def)
  with True \<open>dy = 0\<close> show ?thesis
    by (intro exI [of _ "[(x1, y1)]"]) (simp add: best_line_def)
next
  case False
  with assms have "0 < dx" by simp
  note best = line_x_best [OF this assms, where ?x1.0 = x1 and ?y1.0 = y1 and xup = xup and yup = yup]
  show ?thesis by (rule exI, rule conjI, rule best(1), rule allI, rule best(2))
qed

lemma line_y_drawn:
  assumes "0 \<le> dx" "dx \<le> dy"
  shows "\<exists>ps. best_line x1 y1 (x1 + sgn_of xup * dx) (y1 + sgn_of yup * dy) ps \<and>
    (\<forall>s. line_y put c xup yup dx dy (y1 + sgn_of yup * dy) x1 y1 (dx - dy div 2) s = fold (\<lambda>(x, y). put x y c) ps s)"
proof -
  obtain ps where ps: "best_line y1 x1 (y1 + sgn_of yup * dy) (x1 + sgn_of xup * dx) ps"
    "\<And>s. line_x (\<lambda>y x. put x y) c yup xup dy dx (y1 + sgn_of yup * dy) y1 x1 (dx - dy div 2) s =
      fold (\<lambda>(x, y). put y x c) ps s"
    using line_x_drawn [OF assms, of y1 x1 yup xup "\<lambda>y x. put x y" c] by auto
  have "fold (\<lambda>(x, y). put y x c) ps s = fold (\<lambda>(x, y). put x y c) (map prod.swap ps) s" for s
    by (simp add: fold_map o_def case_prod_unfold)
  with ps best_line_swap [OF ps(1)] show ?thesis unfolding line_y_swap by metis
qed

lemma draw_line_octant:
  "draw_line put x1 y1 x2 y2 c s =
    (if \<bar>y2 - y1\<bar> \<le> \<bar>x2 - x1\<bar>
     then line_x put c (x1 \<le> x2) (y1 \<le> y2) \<bar>x2 - x1\<bar> \<bar>y2 - y1\<bar> x2 x1 y1 (\<bar>y2 - y1\<bar> - \<bar>x2 - x1\<bar> div 2) s
     else line_y put c (x1 \<le> x2) (y1 \<le> y2) \<bar>x2 - x1\<bar> \<bar>y2 - y1\<bar> y2 x1 y1 (\<bar>x2 - x1\<bar> - \<bar>y2 - y1\<bar> div 2) s)"
  by (simp add: draw_line_def Let_def abs_if not_le)

lemma draw_line_drawn:
  "\<exists>ps. best_line x1 y1 x2 y2 ps \<and> (\<forall>s. draw_line put x1 y1 x2 y2 c s = fold (\<lambda>(x, y). put x y c) ps s)"
proof -
  have e: "x1 + sgn_of (x1 \<le> x2) * \<bar>x2 - x1\<bar> = x2" "y1 + sgn_of (y1 \<le> y2) * \<bar>y2 - y1\<bar> = y2"
    by (simp_all add: sgn_of_def)
  show ?thesis
    using line_x_drawn [of "\<bar>y2 - y1\<bar>" "\<bar>x2 - x1\<bar>" x1 y1 "x1 \<le> x2" "y1 \<le> y2" put c]
      line_y_drawn [of "\<bar>x2 - x1\<bar>" "\<bar>y2 - y1\<bar>" x1 y1 "x1 \<le> x2" "y1 \<le> y2" put c]
    unfolding draw_line_octant e by (cases "\<bar>y2 - y1\<bar> \<le> \<bar>x2 - x1\<bar>") auto
qed

text \<open>
  C31. \<^verbatim>\<open>draw_line\<close> between two points of the screen colours exactly the pixels of a best line between
  them, in all eight octants, and no other pixel.
\<close>

theorem draw_line_exact:
  assumes "mem_bus B g" and "fb_ok f" and "in_screen f x1 y1" and "in_screen f x2 y2"
  shows "\<exists>ps. best_line x1 y1 x2 y2 ps \<and> (\<forall>x y. in_screen f x y \<longrightarrow>
    g (draw_line (fb_put_pixel B f) x1 y1 x2 y2 c s) (pix_addr f x y) =
      (if (x, y) \<in> set ps then c else g s (pix_addr f x y)))"
proof -
  obtain ps where ps: "best_line x1 y1 x2 y2 ps"
    "\<And>s. draw_line (fb_put_pixel B f) x1 y1 x2 y2 c s = fold (\<lambda>(x, y). fb_put_pixel B f x y c) ps s"
    using draw_line_drawn by metis
  have "in_screen f x y" if "(x, y) \<in> set ps" for x y
  proof -
    have "min x1 x2 \<le> x \<and> x \<le> max x1 x2 \<and> min y1 y2 \<le> y \<and> y \<le> max y1 y2"
      using ps(1) that unfolding best_line_def Let_def by blast
    then show ?thesis using assms(3,4) by (auto simp: in_screen_def)
  qed
  then have vis: "\<forall>(x, y) \<in> set ps. fb_visible B g f x y" using assms by (auto simp: fb_visible_def)
  have "g (draw_line (fb_put_pixel B f) x1 y1 x2 y2 c s) (pix_addr f x y) =
      (if (x, y) \<in> set ps then c else g s (pix_addr f x y))" if "in_screen f x y" for x y
    using fb32.put_list [OF vis, of x y c s] that assms unfolding ps(2) by (simp add: fb_visible_def fb_pix_def)
  with ps(1) show ?thesis by blast
qed

theorem draw_line_exact_witness:
  "\<exists>ps. best_line 479 0 0 271 ps \<and> (\<forall>x y. in_screen demo_fb x y \<longrightarrow>
    draw_line (fb_put_pixel ram_bus demo_fb) 479 0 0 271 0xff0780 (\<lambda>a. 0) (pix_addr demo_fb x y) =
      (if (x, y) \<in> set ps then 0xff0780 else 0))"
  using draw_line_exact [OF ram_bus_mem demo_fb_ok, of 479 0 0 271 "0xff0780" "\<lambda>a. 0"]
  by (simp add: in_screen_def demo_fb_def)

section \<open>The circle is closed\<close>

text \<open>
  The points that the loop visits: inside the circle, with the next diagonal neighbour outside.
\<close>

definition on_ring :: "int \<Rightarrow> int \<times> int \<Rightarrow> bool" where
  "on_ring r = (\<lambda>(a, b). 0 \<le> a \<and> 0 \<le> b \<and> a * a + b * b \<le> r * r \<and> r * r < (a + 1) * (a + 1) + (b + 1) * (b + 1))"

definition put8 :: "(int \<Rightarrow> int \<Rightarrow> u32 \<Rightarrow> 's \<Rightarrow> 's) \<Rightarrow> u32 \<Rightarrow> int \<Rightarrow> int \<Rightarrow> int \<times> int \<Rightarrow> 's \<Rightarrow> 's" where
  "put8 put c x y ab = fold (\<lambda>(x, y). put x y c) (circle_points x y ab)"

lemma circle_loop_step:
  "circle_loop put c x y r a b s =
    (if 22 * b * b < r * r then Some s
     else if r * r < (a + 1) * (a + 1) + b * b then circle_loop put c x y r a (b - 1) (put8 put c x y (a, b) s)
     else circle_loop put c x y r (a + 1) b (put8 put c x y (a, b) s))"
  by (subst circle_loop.simps) (simp add: put8_def circle_points_def Let_def not_le)

lemma ring_radius:
  assumes "1 \<le> r" and "on_ring r (a, b)" and "r * r \<le> 22 * b * b"
  shows "1 \<le> b" "a \<le> r"
proof -
  have b: "0 \<le> b" "0 \<le> a" "a * a + b * b \<le> r * r" using assms(2) by (simp_all add: on_ring_def)
  have "b \<noteq> 0"
  proof
    assume "b = 0"
    with assms(3) have "r * r \<le> 0" by simp
    with assms(1) show False by (simp add: mult_le_0_iff)
  qed
  with b show "1 \<le> b" by simp
  show "a \<le> r"
  proof (rule ccontr)
    assume "\<not> a \<le> r"
    then have "r * r < a * a" using assms(1) by (intro mult_strict_mono) auto
    with b(3) show False using zero_le_square [of b] by linarith
  qed
qed

lemma ring_steps:
  assumes "1 \<le> r" and "on_ring r (a, b)" and "r * r \<le> 22 * b * b"
  shows "r * r < (a + 1) * (a + 1) + b * b \<Longrightarrow> on_ring r (a, b - 1)"
    and "\<not> r * r < (a + 1) * (a + 1) + b * b \<Longrightarrow> on_ring r (a + 1, b)"
proof -
  note b = ring_radius [OF assms]
  have ring: "0 \<le> a" "0 \<le> b" "a * a + b * b \<le> r * r" "r * r < (a + 1) * (a + 1) + (b + 1) * (b + 1)"
    using assms(2) by (simp_all add: on_ring_def)
  have "(b - 1) * (b - 1) \<le> b * b" using b(1) by (intro mult_mono) auto
  with ring b show "r * r < (a + 1) * (a + 1) + b * b \<Longrightarrow> on_ring r (a, b - 1)" by (simp add: on_ring_def)
  have "(a + 1) * (a + 1) \<le> (a + 1 + 1) * (a + 1 + 1)" using ring(1) by (intro mult_mono) auto
  with ring show "\<not> r * r < (a + 1) * (a + 1) + b * b \<Longrightarrow> on_ring r (a + 1, b)" by (simp add: on_ring_def)
qed

text \<open>When the loop ends, the eighths it has drawn overlap.\<close>

lemma ring_overlap:
  assumes "1 \<le> b" "0 \<le> a" "r * r < (a + 1) * (a + 1) + b * b" "22 * (b - 1) * (b - 1) < r * r"
  shows "b - 1 \<le> (a :: int)"
proof (rule ccontr)
  assume "\<not> b - 1 \<le> a"
  then have "a + 1 \<le> b - 1" by simp
  then have "(a + 1) * (a + 1) \<le> (b - 1) * (b - 1)" using assms(2) by (intro mult_mono) auto
  moreover have "22 * ((b - 1) * (b - 1)) < r * r" using assms(4) by (simp only: mult.assoc)
  ultimately have "21 * ((b - 1) * (b - 1)) < b * b" using assms(3) by linarith
  moreover have "2 \<le> b" using \<open>a + 1 \<le> b - 1\<close> assms(2) by simp
  then have "b \<le> 2 * (b - 1)" by simp
  then have "b * b \<le> (2 * (b - 1)) * (2 * (b - 1))" using assms(1) by (intro mult_mono) auto
  moreover have "(2 * (b - 1)) * (2 * (b - 1)) = 4 * ((b - 1) * (b - 1))" by (simp add: algebra_simps)
  ultimately have "21 * ((b - 1) * (b - 1)) < 4 * ((b - 1) * (b - 1))" by linarith
  then show False using zero_le_square [of "b - 1"] by linarith
qed

definition ring_run :: "int \<Rightarrow> int \<Rightarrow> int \<Rightarrow> (int \<times> int) list \<Rightarrow> bool" where
  "ring_run r a b ps \<longleftrightarrow> (\<forall>p \<in> set ps. on_ring r p) \<and> (\<exists>af bf. bf \<le> af \<and>
     (\<forall>k. a \<le> k \<and> k \<le> af \<longrightarrow> (\<exists>b'. (k, b') \<in> set ps)) \<and>
     (\<forall>k. bf < k \<and> k \<le> b \<longrightarrow> (\<exists>a'. (a', k) \<in> set ps)))"

lemma ring_run_intro:
  assumes "\<forall>p \<in> set ps. on_ring r p" and "bf \<le> af"
    and "\<And>k. a \<le> k \<Longrightarrow> k \<le> af \<Longrightarrow> \<exists>b'. (k, b') \<in> set ps"
    and "\<And>k. bf < k \<Longrightarrow> k \<le> b \<Longrightarrow> \<exists>a'. (a', k) \<in> set ps"
  shows "ring_run r a b ps"
  unfolding ring_run_def using assms by blast

lemma ring_run_last:
  assumes "on_ring r (a, b)" and "b - 1 \<le> a"
  shows "ring_run r a b [(a, b)]"
  by (rule ring_run_intro [where bf = "b - 1" and af = a]) (use assms in auto)

lemma ring_run_down:
  assumes "on_ring r (a, b)" and "ring_run r a (b - 1) ps"
  shows "ring_run r a b ((a, b) # ps)"
proof -
  from assms(2) obtain af bf where f: "\<forall>p \<in> set ps. on_ring r p" "bf \<le> af"
    "\<And>k. a \<le> k \<Longrightarrow> k \<le> af \<Longrightarrow> \<exists>b'. (k, b') \<in> set ps"
    "\<And>k. bf < k \<Longrightarrow> k \<le> b - 1 \<Longrightarrow> \<exists>a'. (a', k) \<in> set ps"
    unfolding ring_run_def by blast
  show ?thesis
  proof (rule ring_run_intro [OF _ f(2)])
    show "\<exists>a'. (a', k) \<in> set ((a, b) # ps)" if "bf < k" "k \<le> b" for k
      using f(4) [of k] that by (cases "k = b") auto
  qed (use f assms(1) in \<open>fastforce+\<close>)
qed

lemma ring_run_right:
  assumes "on_ring r (a, b)" and "ring_run r (a + 1) b ps"
  shows "ring_run r a b ((a, b) # ps)"
proof -
  from assms(2) obtain af bf where f: "\<forall>p \<in> set ps. on_ring r p" "bf \<le> af"
    "\<And>k. a + 1 \<le> k \<Longrightarrow> k \<le> af \<Longrightarrow> \<exists>b'. (k, b') \<in> set ps"
    "\<And>k. bf < k \<Longrightarrow> k \<le> b \<Longrightarrow> \<exists>a'. (a', k) \<in> set ps"
    unfolding ring_run_def by blast
  show ?thesis
  proof (rule ring_run_intro [OF _ f(2)])
    show "\<exists>b'. (k, b') \<in> set ((a, b) # ps)" if "a \<le> k" "k \<le> af" for k
      using f(3) [of k] that by (cases "k = a") auto
  qed (use f assms(1) in \<open>fastforce+\<close>)
qed

lemma circle_loop_returns:
  assumes "1 \<le> r"
  shows "on_ring r (a, b) \<Longrightarrow> r * r \<le> 22 * b * b \<Longrightarrow>
    \<exists>ps. circle_loop put c x y r a b s = Some (fold (put8 put c x y) ps s) \<and> ring_run r a b ps"
proof (induction "nat b + nat (r - a)" arbitrary: a b s rule: less_induct)
  case less
  note b = ring_radius [OF assms less.prems]
  note steps = ring_steps [OF assms less.prems]
  let ?s = "put8 put c x y (a, b) s"
  show ?case
  proof (cases "r * r < (a + 1) * (a + 1) + b * b")
    case down: True
    show ?thesis
    proof (cases "22 * (b - 1) * (b - 1) < r * r")
      case True
      have "0 \<le> a" using less.prems by (simp add: on_ring_def)
      then have "ring_run r a b [(a, b)]"
        using ring_overlap [OF b(1) _ down True] less.prems by (intro ring_run_last) auto
      moreover have "circle_loop put c x y r a b s = Some (fold (put8 put c x y) [(a, b)] s)"
        using down True less.prems(2) by (subst circle_loop_step, subst circle_loop_step) simp
      ultimately show ?thesis by blast
    next
      case False
      then have "r * r \<le> 22 * (b - 1) * (b - 1)" by simp
      with less.hyps [OF _ steps(1) [OF down], of ?s] b obtain ps where
        "circle_loop put c x y r a (b - 1) ?s = Some (fold (put8 put c x y) ps ?s)" "ring_run r a (b - 1) ps"
        by auto
      moreover have "circle_loop put c x y r a b s = circle_loop put c x y r a (b - 1) ?s"
        using down less.prems(2) by (subst circle_loop_step) simp
      ultimately show ?thesis using ring_run_down [OF less.prems(1)] by (intro exI [of _ "(a, b) # ps"]) simp
    qed
  next
    case right: False
    have "a + 1 \<le> r" using ring_radius(2) [OF assms steps(2) [OF right] less.prems(2)] .
    with less.hyps [OF _ steps(2) [OF right] less.prems(2), of ?s] obtain ps where
      "circle_loop put c x y r (a + 1) b ?s = Some (fold (put8 put c x y) ps ?s)" "ring_run r (a + 1) b ps"
      by auto
    moreover have "circle_loop put c x y r a b s = circle_loop put c x y r (a + 1) b ?s"
      using right less.prems(2) by (subst circle_loop_step) simp
    ultimately show ?thesis using ring_run_right [OF less.prems(1)] by (intro exI [of _ "(a, b) # ps"]) simp
  qed
qed

lemma fold_put8: "fold (put8 put c x y) ps s = fold (\<lambda>(x, y). put x y c) (concat (map (circle_points x y) ps)) s"
  by (induction ps arbitrary: s) (simp_all add: put8_def)



end
