(* ===== verification/Tslib.thy ===== *)
theory Tslib
  imports Touchscreen Geometry "HOL-Library.Signed_Division"
begin

text \<open>
  Calibration of the touch screen, \<^verbatim>\<open>tslib.c\<close>: five crosses are touched, two factors are computed from the
  raw points, and every later raw point is converted to a pixel.

  Values of type \<^verbatim>\<open>double\<close> are rational numbers. \<open>rnd\<close> rounds an exact result to a double; it is an argument,
  and \<open>ieee\<close> says what IEEE 754 promises of it. \<open>raw\<close> is \<^verbatim>\<open>ts_read_raw\<close> and \<open>put\<close> is \<^verbatim>\<open>fb_put_pixel\<close>.
\<close>

section \<open>Conversion\<close>

record tslib =
  g_kx :: rat
  g_ky :: rat
  g_ts_xc :: int
  g_ts_yc :: int
  g_lcd_xc :: int
  g_lcd_yc :: int
  g_ts_xy_swap :: int
  t_xres :: int
  t_yres :: int

definition get_lcd_x_frm_ts_x :: "(rat \<Rightarrow> rat) \<Rightarrow> tslib \<Rightarrow> int \<Rightarrow> int" where
  "get_lcd_x_frm_ts_x rnd t ts_x = trunc (rnd (rnd (g_kx t * of_int (ts_x - g_ts_xc t)) + of_int (g_lcd_xc t)))"

definition get_lcd_y_frm_ts_y :: "(rat \<Rightarrow> rat) \<Rightarrow> tslib \<Rightarrow> int \<Rightarrow> int" where
  "get_lcd_y_frm_ts_y rnd t ts_y = trunc (rnd (rnd (g_ky t * of_int (ts_y - g_ts_yc t)) + of_int (g_lcd_yc t)))"

definition is_ts_xy_swap :: "int \<Rightarrow> int \<Rightarrow> int \<Rightarrow> int \<Rightarrow> int" where
  "is_ts_xy_swap a_ts_x a_ts_y b_ts_x b_ts_y =
     (let dx = b_ts_x - a_ts_x; dy = b_ts_y - a_ts_y;
          dx = (if dx < 0 then 0 - dx else dx);
          dy = (if dy < 0 then 0 - dy else dy)
      in if dx > dy then 0 else 1)"

definition swap_xy :: "int \<times> int \<Rightarrow> int \<times> int" where
  "swap_xy = (\<lambda>(x, y). (y, x))"

section \<open>One point\<close>

text \<open>The loop until the pen goes down. \<open>None\<close>: there is no further report.\<close>

partial_function (option) wait_press ::
  "('s \<Rightarrow> (int \<times> int \<times> int \<times> 's) option) \<Rightarrow> 's \<Rightarrow> (int \<times> int \<times> 's) option" where
  [code]: "wait_press raw s = do {
     (x, y, pressure, s) \<leftarrow> raw s;
     (if pressure = 0 then wait_press raw s else Some (x, y, s)) }"

text \<open>The loop until the pen goes up, with the sums over at most 128 samples.\<close>

partial_function (option) sum_press ::
  "'s bus \<Rightarrow> ('s \<Rightarrow> (int \<times> int \<times> int \<times> 's) option) \<Rightarrow> int \<Rightarrow> int \<Rightarrow> int \<Rightarrow> int \<Rightarrow> int \<Rightarrow> 's \<Rightarrow>
    (int \<times> int \<times> int \<times> 's) option" where
  [code]: "sum_press B raw x y sum_x sum_y cnt s =
     (let (sum_x, sum_y, cnt) = (if cnt < 128 then (sum_x + x, sum_y + y, cnt + 1) else (sum_x, sum_y, cnt))
      in do {
           (x, y, pressure, s) \<leftarrow> raw s;
           s \<leftarrow> printf_va B (str ''get raw data: x = %08d, y = %08d, cnt = %d'' @ [10, 13])
                 [Va_int (word_of_int x), Va_int (word_of_int y), Va_int (word_of_int cnt)] s;
           (if pressure \<noteq> 0 then sum_press B raw x y sum_x sum_y cnt s else Some (sum_x, sum_y, cnt, s)) })"

definition get_calibrate_point_data ::
  "'s bus \<Rightarrow> ('s \<Rightarrow> (int \<times> int \<times> int \<times> 's) option) \<Rightarrow> (int \<Rightarrow> int \<Rightarrow> u32 \<Rightarrow> 's \<Rightarrow> 's) \<Rightarrow> int \<Rightarrow> int \<Rightarrow> 's \<Rightarrow>
    ((int \<times> int) \<times> 's) option" where
  "get_calibrate_point_data B raw put lcd_x lcd_y s =
     (let s = fb_disp_cross put lcd_x lcd_y 0xffffff s
      in do {
           (x, y, s) \<leftarrow> wait_press raw s;
           (sum_x, sum_y, cnt, s) \<leftarrow> sum_press B raw x y 0 0 0 s;
           let px = sum_x sdiv cnt;
           let py = sum_y sdiv cnt;
           s \<leftarrow> printf_va B (str ''return raw data: x = %08d, y = %08d'' @ [10, 13])
                 [Va_int (word_of_int px), Va_int (word_of_int py)] s;
           Some ((px, py), fb_disp_cross put lcd_x lcd_y 0 s) })"

section \<open>Calibration\<close>

definition print_lcd_xy :: "'s bus \<Rightarrow> (rat \<Rightarrow> rat) \<Rightarrow> string \<Rightarrow> tslib \<Rightarrow> int \<times> int \<Rightarrow> 's \<Rightarrow> 's option" where
  "print_lcd_xy B rnd name t p s =
     printf_va B (str name @ str '' lcd_x = %08d, lcd_y = %08d'' @ [10, 13])
       [Va_int (word_of_int (get_lcd_x_frm_ts_x rnd t (fst p))), Va_int (word_of_int (get_lcd_y_frm_ts_y rnd t (snd p)))] s"

text \<open>
  The computation from the five points. \<open>None\<close>: a divisor is 0, and the factor is not a number.
\<close>

definition calibrate_factors ::
  "(rat \<Rightarrow> rat) \<Rightarrow> int \<Rightarrow> int \<Rightarrow> (int \<times> int) \<Rightarrow> (int \<times> int) \<Rightarrow> (int \<times> int) \<Rightarrow> (int \<times> int) \<Rightarrow> (int \<times> int) \<Rightarrow> tslib option" where
  "calibrate_factors rnd xr yr a b c d e =
     (let ts_s1 = fst b - fst a; ts_s2 = fst c - fst d; lcd_s = xr - 50 - 50;
          ts_d1 = snd d - snd a; ts_d2 = snd c - snd b; lcd_d = yr - 50 - 50
      in if ts_s1 + ts_s2 = 0 \<or> ts_d1 + ts_d2 = 0 then None
         else Some \<lparr>g_kx = rnd (of_int (2 * lcd_s) / of_int (ts_s1 + ts_s2)), g_ky = rnd (of_int (2 * lcd_d) / of_int (ts_d1 + ts_d2)),
                g_ts_xc = fst e, g_ts_yc = snd e, g_lcd_xc = xr sdiv 2, g_lcd_yc = yr sdiv 2,
                g_ts_xy_swap = 0, t_xres = xr, t_yres = yr\<rparr>)"

definition ts_calibrate ::
  "'s bus \<Rightarrow> (rat \<Rightarrow> rat) \<Rightarrow> ('s \<Rightarrow> (int \<times> int \<times> int \<times> 's) option) \<Rightarrow> (int \<Rightarrow> int \<Rightarrow> u32 \<Rightarrow> 's \<Rightarrow> 's) \<Rightarrow> int \<Rightarrow> int \<Rightarrow> 's \<Rightarrow>
    (tslib \<times> 's) option" where
  "ts_calibrate B rnd raw put xr yr s = do {
     (a, s) \<leftarrow> get_calibrate_point_data B raw put 50 50 s;
     (b, s) \<leftarrow> get_calibrate_point_data B raw put (xr - 50) 50 s;
     (c, s) \<leftarrow> get_calibrate_point_data B raw put (xr - 50) (yr - 50) s;
     (d, s) \<leftarrow> get_calibrate_point_data B raw put 50 (yr - 50) s;
     (e, s) \<leftarrow> get_calibrate_point_data B raw put (xr sdiv 2) (yr sdiv 2) s;
     let swap = is_ts_xy_swap (fst a) (snd a) (fst b) (snd b);
     let (a, b, c, d, e) = (if swap \<noteq> 0 then (swap_xy a, swap_xy b, swap_xy c, swap_xy d, swap_xy e) else (a, b, c, d, e));
     t \<leftarrow> calibrate_factors rnd xr yr a b c d e;
     let t = t\<lparr>g_ts_xy_swap := swap\<rparr>;
     s \<leftarrow> print_lcd_xy B rnd ''A'' t a s;
     s \<leftarrow> print_lcd_xy B rnd ''B'' t b s;
     s \<leftarrow> print_lcd_xy B rnd ''C'' t c s;
     s \<leftarrow> print_lcd_xy B rnd ''D'' t d s;
     s \<leftarrow> print_lcd_xy B rnd ''E'' t e s;
     Some (t, s) }"

text \<open>The result with the three out parameters, which stay as they are on an error.\<close>

definition ts_read ::
  "(rat \<Rightarrow> rat) \<Rightarrow> ('s \<Rightarrow> (int \<times> int \<times> int \<times> 's) option) \<Rightarrow> tslib \<Rightarrow> int \<times> int \<times> int \<Rightarrow> 's \<Rightarrow> (int \<times> (int \<times> int \<times> int) \<times> 's) option" where
  "ts_read rnd raw t out s = do {
     (ts_x, ts_y, ts_pressure, s) \<leftarrow> raw s;
     let (ts_x, ts_y) = (if g_ts_xy_swap t \<noteq> 0 then swap_xy (ts_x, ts_y) else (ts_x, ts_y));
     let tmp_x = get_lcd_x_frm_ts_x rnd t ts_x;
     let tmp_y = get_lcd_y_frm_ts_y rnd t ts_y;
     (if tmp_x < 0 \<or> tmp_x \<ge> t_xres t \<or> tmp_y < 0 \<or> tmp_y \<ge> t_yres t then Some (- 1, out, s)
      else Some (0, (tmp_x, tmp_y, ts_pressure), s)) }"

section \<open>Arithmetic with doubles\<close>

text \<open>Rounding to nearest: a relative error of at most \<open>2\<^sup>-\<^sup>5\<^sup>3\<close>, and close to 0 an absolute one.\<close>

definition tiny :: rat where
  "tiny = 1 / 2 ^ 1074"

definition ieee :: "(rat \<Rightarrow> rat) \<Rightarrow> bool" where
  "ieee rnd \<longleftrightarrow> (\<forall>x. \<bar>x\<bar> \<le> 2 ^ 1023 \<longrightarrow> \<bar>rnd x - x\<bar> \<le> \<bar>x\<bar> / 2 ^ 53 + tiny)"

lemma tiny_small: "tiny \<le> 1 / 2 ^ 80" "0 \<le> tiny"
  unfolding tiny_def by (intro divide_left_mono power_increasing) simp_all

lemma ieee_error:
  assumes "ieee rnd" "\<bar>x\<bar> \<le> 2 ^ 60"
  shows "\<bar>rnd x - x\<bar> \<le> \<bar>x\<bar> / 2 ^ 53 + 1 / 2 ^ 80"
proof -
  have "(2 :: rat) ^ 60 \<le> 2 ^ 1023" by (intro power_increasing) simp_all
  with assms(2) have "\<bar>x\<bar> \<le> 2 ^ 1023" by (rule order_trans)
  with assms(1) have "\<bar>rnd x - x\<bar> \<le> \<bar>x\<bar> / 2 ^ 53 + tiny" unfolding ieee_def by blast
  with tiny_small show ?thesis by linarith
qed

lemma rat_bound: "\<bar>m\<bar> \<le> n \<Longrightarrow> \<bar>rat_of_int m\<bar> \<le> of_int n"
  by (metis of_int_abs of_int_le_iff)

lemma near: "\<bar>a - b\<bar> \<le> (e :: rat) \<Longrightarrow> \<bar>b\<bar> \<le> f \<Longrightarrow> \<bar>a\<bar> \<le> e + f"
  and near_trans: "\<bar>a - b\<bar> \<le> e \<Longrightarrow> \<bar>b - c\<bar> \<le> f \<Longrightarrow> \<bar>a - c\<bar> \<le> e + f"
  by linarith+

lemma convert_error:
  assumes r: "ieee rnd" and m: "m \<noteq> 0" "\<bar>m\<bar> \<le> 2 ^ 10" and d: "\<bar>d\<bar> \<le> 2 ^ 15" "\<bar>c\<bar> \<le> 2 ^ 15"
  shows "\<bar>rnd (rnd (rnd (1 / of_int m) * of_int (m * d)) + of_int c) - of_int (d + c)\<bar> < 1 / 2"
proof -
  define M D C where "M = rat_of_int m" and "D = rat_of_int d" and "C = rat_of_int c"
  have "1 \<le> \<bar>m\<bar>" using m(1) by simp
  then have M1: "1 \<le> \<bar>M\<bar>" unfolding M_def by (simp flip: of_int_abs)
  have M2: "\<bar>M\<bar> \<le> 2 ^ 10" and D: "\<bar>D\<bar> \<le> 2 ^ 15" and C: "\<bar>C\<bar> \<le> 2 ^ 15"
    using rat_bound [OF m(2)] rat_bound [OF d(1)] rat_bound [OF d(2)] unfolding M_def D_def C_def by simp_all
  note M = M1 M2
  have inv: "\<bar>1 / M\<bar> \<le> 1" using M(1) by (simp add: field_simps)
  define k where "k = rnd (1 / M)"
  have k: "\<bar>k - 1 / M\<bar> \<le> 1 / 2 ^ 52"
    using ieee_error [OF r, of "1 / M"] inv by (simp add: k_def)
  have "k * (M * D) - D = (k - 1 / M) * (M * D)" using M(1) by (simp add: field_simps)
  moreover have "\<bar>M * D\<bar> \<le> 2 ^ 25" unfolding abs_mult using mult_mono [OF M(2) D] by simp
  ultimately have "\<bar>k * (M * D) - D\<bar> \<le> 1 / 2 ^ 52 * 2 ^ 25"
    unfolding abs_mult by (simp only: abs_mult) (intro mult_mono k, simp_all)
  then have kd: "\<bar>k * (M * D) - D\<bar> \<le> 1 / 2 ^ 27" by simp
  define p where "p = rnd (k * (M * D))"
  have kmd: "\<bar>k * (M * D)\<bar> \<le> 2 ^ 16" using near [OF kd D] by simp
  have "\<bar>p - k * (M * D)\<bar> \<le> 1 / 2 ^ 36"
    using ieee_error [OF r, of "k * (M * D)"] kmd unfolding p_def by simp
  from near_trans [OF this kd] have pd: "\<bar>p - D\<bar> \<le> 1 / 2 ^ 26" by simp
  have "\<bar>p\<bar> \<le> 2 ^ 16" using near [OF pd D] by simp
  then have pc: "\<bar>p + C\<bar> \<le> 2 ^ 17" using abs_triangle_ineq [of p C] C by simp
  have "\<bar>rnd (p + C) - (p + C)\<bar> \<le> 1 / 2 ^ 35"
    using ieee_error [OF r, of "p + C"] pc by simp
  moreover have "\<bar>(p + C) - (D + C)\<bar> \<le> 1 / 2 ^ 26" using pd by simp
  ultimately have "\<bar>rnd (p + C) - (D + C)\<bar> \<le> 1 / 2 ^ 35 + 1 / 2 ^ 26" by (rule near_trans)
  then have "\<bar>rnd (p + C) - (D + C)\<bar> < 1 / 2" by simp
  then show ?thesis unfolding p_def k_def M_def D_def C_def by simp
qed

lemma trunc_near:
  assumes "\<bar>v - of_int n\<bar> < 1 / 2" "0 \<le> n"
  shows "trunc v \<in> {n - 1, n}" "0 \<le> trunc v"
proof -
  have "trunc v \<in> {n - 1, n} \<and> 0 \<le> trunc v"
  proof (cases "v < 0")
    case True
    then have "n = 0" using assms by (simp add: abs_if split: if_splits)
    with True assms(1) show ?thesis by (simp add: trunc_def ceiling_eq_iff)
  next
    case False
    have "\<lfloor>v\<rfloor> = n \<or> \<lfloor>v\<rfloor> = n - 1" using assms(1) by (auto simp: floor_eq_iff abs_if split: if_splits)
    with False show ?thesis by (auto simp: trunc_def)
  qed
  then show "trunc v \<in> {n - 1, n}" "0 \<le> trunc v" by simp_all
qed


lemma sdiv_exact: "0 < (c :: int) \<Longrightarrow> (c * x) sdiv c = x"
  by (simp add: signed_divide_int_def abs_mult sgn_mult sgn_mult_abs)

section \<open>A touch\<close>

text \<open>
  A touch as the driver reports it: \<open>k\<close> reports without pressure, \<open>n\<close> equal samples, and the report that
  the pen has gone. \<open>raw_queue\<close>: \<open>raw\<close> returns the reports of \<open>q\<close> one after the other.
\<close>

definition touch :: "nat \<Rightarrow> nat \<Rightarrow> int \<times> int \<Rightarrow> (int \<times> int \<times> int) list" where
  "touch k n p = replicate k (0, 0, 0) @ replicate (Suc n) (fst p, snd p, 1) @ [(0, 0, 0)]"

definition raw_queue :: "('s \<Rightarrow> (int \<times> int \<times> int \<times> 's) option) \<Rightarrow> ('s \<Rightarrow> (int \<times> int \<times> int) list) \<Rightarrow> bool" where
  "raw_queue raw q \<longleftrightarrow> (\<forall>s x y p es. q s = (x, y, p) # es \<longrightarrow> (\<exists>s'. raw s = Some (x, y, p, s') \<and> q s' = es))"

lemma raw_queueD:
  assumes "raw_queue raw q" "q s = (x, y, p) # es"
  obtains s' where "raw s = Some (x, y, p, s')" "q s' = es"
  using assms unfolding raw_queue_def by blast

lemma printf_quiet:
  assumes "uart_tx B tx" "uart_frame B q" "fmt_ok fmt"
  obtains s' where "printf_va B fmt args s = Some s'" "q s' = q s"
  using printf_returns [OF assms(1,3), of args s] printf_frame [OF assms(2)] by metis

lemma tslib_formats:
  "fmt_ok (str ''get raw data: x = %08d, y = %08d, cnt = %d'' @ [10, 13])"
  "fmt_ok (str ''return raw data: x = %08d, y = %08d'' @ [10, 13])"
  "name \<in> {''A'', ''B'', ''C'', ''D'', ''E''} \<Longrightarrow> fmt_ok (str name @ str '' lcd_x = %08d, lcd_y = %08d'' @ [10, 13])"
proof -
  have "\<forall>name \<in> set [''A'', ''B'', ''C'', ''D'', ''E'']. fmt_ok (str name @ str '' lcd_x = %08d, lcd_y = %08d'' @ [10, 13])"
    by code_simp
  then show "name \<in> {''A'', ''B'', ''C'', ''D'', ''E''} \<Longrightarrow> fmt_ok (str name @ str '' lcd_x = %08d, lcd_y = %08d'' @ [10, 13])"
    by auto
qed (code_simp, code_simp)

lemma wait_press_touch:
  assumes r: "raw_queue raw q"
  shows "q s = replicate k (0, 0, 0) @ (x, y, 1) # es \<Longrightarrow> \<exists>s'. wait_press raw s = Some (x, y, s') \<and> q s' = es"
proof (induction k arbitrary: s)
  case 0
  then obtain s' where "raw s = Some (x, y, 1, s')" "q s' = es" by (auto elim: raw_queueD [OF r])
  then show ?case by (subst wait_press.simps) simp
next
  case (Suc k)
  then obtain s1 where s1: "raw s = Some (0, 0, 0, s1)" "q s1 = replicate k (0, 0, 0) @ (x, y, 1) # es"
    by (auto elim: raw_queueD [OF r])
  from Suc.IH [OF s1(2)] show ?case by (subst wait_press.simps) (simp add: s1(1))
qed

lemma sum_press_touch:
  assumes u: "uart_tx B tx" "uart_frame B q" and r: "raw_queue raw q"
  shows "q s = replicate n (x, y, 1) @ (0, 0, 0) # es \<Longrightarrow> 0 \<le> c \<Longrightarrow> c \<le> 128 \<Longrightarrow>
    \<exists>s' c'. sum_press B raw x y (c * x) (c * y) c s = Some (c' * x, c' * y, c', s') \<and> 0 < c' \<and> q s' = es"
proof (induction n arbitrary: s c)
  case 0
  define c' where "c' = (if c < 128 then c + 1 else c)"
  have e: "(if c < 128 then (c * x + x, c * y + y, c + 1) else (c * x, c * y, c)) = (c' * x, c' * y, c')"
    by (simp add: c'_def algebra_simps)
  obtain s1 where s1: "raw s = Some (0, 0, 0, s1)" "q s1 = es" using 0(1) by (auto elim: raw_queueD [OF r])
  obtain s2 where "printf_va B (str ''get raw data: x = %08d, y = %08d, cnt = %d'' @ [10, 13])
      [Va_int (word_of_int 0), Va_int (word_of_int 0), Va_int (word_of_int c')] s1 = Some s2" "q s2 = q s1"
    by (rule printf_quiet [OF u tslib_formats(1)])
  then have "sum_press B raw x y (c * x) (c * y) c s = Some (c' * x, c' * y, c', s2)" "q s2 = es"
    using s1 by (simp_all add: sum_press.simps [of B raw x y "c * x"] e)
  moreover have "0 < c'" using 0 by (simp add: c'_def)
  ultimately show ?case by blast
next
  case (Suc n)
  define c' where "c' = (if c < 128 then c + 1 else c)"
  have e: "(if c < 128 then (c * x + x, c * y + y, c + 1) else (c * x, c * y, c)) = (c' * x, c' * y, c')"
    by (simp add: c'_def algebra_simps)
  obtain s1 where s1: "raw s = Some (x, y, 1, s1)" "q s1 = replicate n (x, y, 1) @ (0, 0, 0) # es"
    using Suc.prems(1) by (auto elim: raw_queueD [OF r])
  obtain s2 where s2: "printf_va B (str ''get raw data: x = %08d, y = %08d, cnt = %d'' @ [10, 13])
      [Va_int (word_of_int x), Va_int (word_of_int y), Va_int (word_of_int c')] s1 = Some s2" "q s2 = q s1"
    by (rule printf_quiet [OF u tslib_formats(1)])
  have "sum_press B raw x y (c * x) (c * y) c s = sum_press B raw x y (c' * x) (c' * y) c' s2"
    using s1 s2 by (simp add: sum_press.simps [of B raw x y "c * x"] e)
  moreover have "0 \<le> c'" "c' \<le> 128" using Suc.prems by (auto simp: c'_def)
  ultimately show ?case using Suc.IH [of s2 c'] s1(2) s2(2) by simp
qed

lemma cross_frame:
  assumes "\<And>x y c s. q (put x y c s) = q s"
  shows "q (fb_disp_cross put x y c s) = q s"
proof -
  have f: "q (fold (\<lambda>(x, y). put x y c) ps s) = q s" for ps s
    by (induction ps arbitrary: s) (auto simp: assms)
  have l: "q (draw_line put x1 y1 x2 y2 c s) = q s" for x1 y1 x2 y2 s
    using draw_line_drawn [of x1 y1 x2 y2 put c] f by metis
  show ?thesis by (simp add: fb_disp_cross_def l)
qed

lemma point_data_touch:
  assumes u: "uart_tx B tx" "uart_frame B q" and r: "raw_queue raw q" and p: "\<And>x y c s. q (put x y c s) = q s"
    and q: "q s = touch k n pt @ es"
  obtains s' where "get_calibrate_point_data B raw put lx ly s = Some (pt, s')" "q s' = es"
proof -
  obtain x y where pt: "pt = (x, y)" by fastforce
  have "q (fb_disp_cross put lx ly 0xffffff s) = replicate k (0, 0, 0) @ (x, y, 1) # replicate n (x, y, 1) @ (0, 0, 0) # es"
    using cross_frame [of q put, OF p] q by (simp add: touch_def pt)
  from wait_press_touch [OF r this] obtain s1 where
    s1: "wait_press raw (fb_disp_cross put lx ly 0xffffff s) = Some (x, y, s1)" "q s1 = replicate n (x, y, 1) @ (0, 0, 0) # es"
    by blast
  from sum_press_touch [OF u r s1(2), of 0] obtain s2 c where
    s2: "sum_press B raw x y 0 0 0 s1 = Some (c * x, c * y, c, s2)" "0 < c" "q s2 = es" by auto
  have d: "(c * x) sdiv c = x" "(c * y) sdiv c = y" using s2(2) by (simp_all add: sdiv_exact)
  obtain s3 where "printf_va B (str ''return raw data: x = %08d, y = %08d'' @ [10, 13])
      [Va_int (word_of_int x), Va_int (word_of_int y)] s2 = Some s3" "q s3 = q s2"
    by (rule printf_quiet [OF u tslib_formats(2)])
  then show thesis
    using that s1 s2 d cross_frame [of q put, OF p] by (simp add: get_calibrate_point_data_def pt)
qed

section \<open>Calibration and conversion\<close>

text \<open>
  A linear panel: the raw point of the pixel \<open>(x, y)\<close>, with the axes exchanged if \<open>sw\<close>. The slopes may be
  negative: the panel may be mounted upside down.
\<close>

definition panel :: "int \<Rightarrow> int \<Rightarrow> int \<Rightarrow> int \<Rightarrow> bool \<Rightarrow> int \<Rightarrow> int \<Rightarrow> int \<times> int" where
  "panel mx my x0 y0 sw x y = (let p = (x0 + mx * x, y0 + my * y) in if sw then swap_xy p else p)"

text \<open>The state of the module after the calibration on such a panel.\<close>

definition calibrated :: "(rat \<Rightarrow> rat) \<Rightarrow> int \<Rightarrow> int \<Rightarrow> int \<Rightarrow> int \<Rightarrow> bool \<Rightarrow> int \<Rightarrow> int \<Rightarrow> tslib" where
  "calibrated rnd mx my x0 y0 sw xr yr =
     \<lparr>g_kx = rnd (1 / of_int mx), g_ky = rnd (1 / of_int my),
      g_ts_xc = x0 + mx * (xr sdiv 2), g_ts_yc = y0 + my * (yr sdiv 2), g_lcd_xc = xr sdiv 2, g_lcd_yc = yr sdiv 2,
      g_ts_xy_swap = (if sw then 1 else 0), t_xres = xr, t_yres = yr\<rparr>"

lemma panel_swapped:
  assumes "mx \<noteq> 0" "100 < xr"
  shows "is_ts_xy_swap (fst (panel mx my x0 y0 sw 50 50)) (snd (panel mx my x0 y0 sw 50 50))
      (fst (panel mx my x0 y0 sw (xr - 50) 50)) (snd (panel mx my x0 y0 sw (xr - 50) 50)) = (if sw then 1 else 0)"
proof -
  have "x0 + mx * (xr - 50) - (x0 + mx * 50) = mx * (xr - 100)" by (simp add: algebra_simps)
  moreover have "mx * (xr - 100) < 0 \<or> 0 < mx * (xr - 100)" unfolding linorder_neq_iff [symmetric] using assms by simp
  ultimately show ?thesis by (cases sw) (auto simp: is_ts_xy_swap_def panel_def swap_xy_def Let_def)
qed

lemma slope_factor:
  assumes "m \<noteq> 0" "100 < r"
  shows "rat_of_int (2 * (r - 50 - 50)) / of_int ((c + m * (r - 50) - (c + m * 50)) + (c + m * (r - 50) - (c + m * 50))) = 1 / of_int m"
    and "(c + m * (r - 50) - (c + m * 50)) + (c + m * (r - 50) - (c + m * 50)) \<noteq> 0"
proof -
  have e: "(c + m * (r - 50) - (c + m * 50)) + (c + m * (r - 50) - (c + m * 50)) = m * (2 * (r - 50 - 50))"
    by (simp add: algebra_simps)
  show "(c + m * (r - 50) - (c + m * 50)) + (c + m * (r - 50) - (c + m * 50)) \<noteq> 0" unfolding e using assms by simp
  have "rat_of_int (2 * (r - 50 - 50)) \<noteq> 0" unfolding of_int_eq_0_iff using assms(2) by presburger
  then show "rat_of_int (2 * (r - 50 - 50)) / of_int ((c + m * (r - 50) - (c + m * 50)) + (c + m * (r - 50) - (c + m * 50))) =
      1 / of_int m"
    unfolding e of_int_mult [of m] by simp
qed

lemma calibrate_factors_panel:
  assumes "mx \<noteq> 0" "my \<noteq> 0" "100 < xr" "100 < yr"
  shows "calibrate_factors rnd xr yr (panel mx my x0 y0 False 50 50) (panel mx my x0 y0 False (xr - 50) 50)
      (panel mx my x0 y0 False (xr - 50) (yr - 50)) (panel mx my x0 y0 False 50 (yr - 50))
      (panel mx my x0 y0 False (xr sdiv 2) (yr sdiv 2)) = Some (calibrated rnd mx my x0 y0 False xr yr)"
  using slope_factor [OF assms(1,3), of x0] slope_factor [OF assms(2,4), of y0]
  unfolding calibrate_factors_def calibrated_def panel_def Let_def fst_conv snd_conv if_False by simp

lemma print_lcd_xy_quiet:
  assumes "uart_tx B tx" "uart_frame B q" "name \<in> {''A'', ''B'', ''C'', ''D'', ''E''}"
  obtains s' where "print_lcd_xy B rnd name t p s = Some s'" "q s' = q s"
  unfolding print_lcd_xy_def by (rule printf_quiet [OF assms(1,2) tslib_formats(3) [OF assms(3)]])

lemma ts_calibrate_panel:
  assumes u: "uart_tx B tx" "uart_frame B q" and r: "raw_queue raw q" and p: "\<And>x y c s. q (put x y c s) = q s"
    and m: "mx \<noteq> 0" "my \<noteq> 0" and res: "100 < xr" "100 < yr"
    and q: "q s = touch k1 n1 (panel mx my x0 y0 sw 50 50) @ touch k2 n2 (panel mx my x0 y0 sw (xr - 50) 50) @
      touch k3 n3 (panel mx my x0 y0 sw (xr - 50) (yr - 50)) @ touch k4 n4 (panel mx my x0 y0 sw 50 (yr - 50)) @
      touch k5 n5 (panel mx my x0 y0 sw (xr sdiv 2) (yr sdiv 2)) @ es"
  shows "\<exists>s'. ts_calibrate B rnd raw put xr yr s = Some (calibrated rnd mx my x0 y0 sw xr yr, s') \<and> q s' = es"
proof -
  let ?P = "panel mx my x0 y0"
  note pd = point_data_touch [OF u r, of put, OF p]
  obtain s1 where s1: "get_calibrate_point_data B raw put 50 50 s = Some (?P sw 50 50, s1)"
    and q1: "q s1 = touch k2 n2 (?P sw (xr - 50) 50) @ touch k3 n3 (?P sw (xr - 50) (yr - 50)) @
      touch k4 n4 (?P sw 50 (yr - 50)) @ touch k5 n5 (?P sw (xr sdiv 2) (yr sdiv 2)) @ es" by (rule pd [OF q])
  obtain s2 where s2: "get_calibrate_point_data B raw put (xr - 50) 50 s1 = Some (?P sw (xr - 50) 50, s2)"
    and q2: "q s2 = touch k3 n3 (?P sw (xr - 50) (yr - 50)) @
      touch k4 n4 (?P sw 50 (yr - 50)) @ touch k5 n5 (?P sw (xr sdiv 2) (yr sdiv 2)) @ es" by (rule pd [OF q1])
  obtain s3 where s3: "get_calibrate_point_data B raw put (xr - 50) (yr - 50) s2 = Some (?P sw (xr - 50) (yr - 50), s3)"
    and q3: "q s3 = touch k4 n4 (?P sw 50 (yr - 50)) @ touch k5 n5 (?P sw (xr sdiv 2) (yr sdiv 2)) @ es" by (rule pd [OF q2])
  obtain s4 where s4: "get_calibrate_point_data B raw put 50 (yr - 50) s3 = Some (?P sw 50 (yr - 50), s4)"
    and q4: "q s4 = touch k5 n5 (?P sw (xr sdiv 2) (yr sdiv 2)) @ es" by (rule pd [OF q3])
  obtain s5 where s5: "get_calibrate_point_data B raw put (xr sdiv 2) (yr sdiv 2) s4 = Some (?P sw (xr sdiv 2) (yr sdiv 2), s5)"
    and q5: "q s5 = es" by (rule pd [OF q4])
  let ?t = "calibrated rnd mx my x0 y0 sw xr yr"
  obtain s6 where s6: "print_lcd_xy B rnd ''A'' ?t (?P False 50 50) s5 = Some s6" "q s6 = q s5"
    by (rule print_lcd_xy_quiet [OF u, of "''A''"]) simp_all
  obtain s7 where s7: "print_lcd_xy B rnd ''B'' ?t (?P False (xr - 50) 50) s6 = Some s7" "q s7 = q s6"
    by (rule print_lcd_xy_quiet [OF u, of "''B''"]) simp_all
  obtain s8 where s8: "print_lcd_xy B rnd ''C'' ?t (?P False (xr - 50) (yr - 50)) s7 = Some s8" "q s8 = q s7"
    by (rule print_lcd_xy_quiet [OF u, of "''C''"]) simp_all
  obtain s9 where s9: "print_lcd_xy B rnd ''D'' ?t (?P False 50 (yr - 50)) s8 = Some s9" "q s9 = q s8"
    by (rule print_lcd_xy_quiet [OF u, of "''D''"]) simp_all
  obtain s10 where s10: "print_lcd_xy B rnd ''E'' ?t (?P False (xr sdiv 2) (yr sdiv 2)) s9 = Some s10" "q s10 = q s9"
    by (rule print_lcd_xy_quiet [OF u, of "''E''"]) simp_all
  have sw: "(if (if sw then 1 else (0::int)) \<noteq> 0
      then (swap_xy (?P sw 50 50), swap_xy (?P sw (xr - 50) 50), swap_xy (?P sw (xr - 50) (yr - 50)),
        swap_xy (?P sw 50 (yr - 50)), swap_xy (?P sw (xr sdiv 2) (yr sdiv 2)))
      else (?P sw 50 50, ?P sw (xr - 50) 50, ?P sw (xr - 50) (yr - 50), ?P sw 50 (yr - 50), ?P sw (xr sdiv 2) (yr sdiv 2))) =
    (?P False 50 50, ?P False (xr - 50) 50, ?P False (xr - 50) (yr - 50), ?P False 50 (yr - 50), ?P False (xr sdiv 2) (yr sdiv 2))"
    by (cases sw) (simp_all add: panel_def swap_xy_def)
  have t: "(calibrated rnd mx my x0 y0 False xr yr)\<lparr>g_ts_xy_swap := if sw then 1 else 0\<rparr> = ?t" by (simp add: calibrated_def)
  have "ts_calibrate B rnd raw put xr yr s = Some (?t, s10)"
    unfolding ts_calibrate_def Let_def
    by (simp only: s1 s2 s3 s4 s5 bind.bind_lunit prod.case panel_swapped [OF m(1) res(1)] sw
        calibrate_factors_panel [OF m res] t s6(1) s7(1) s8(1) s9(1) s10(1))
  with q5 s6(2) s7(2) s8(2) s9(2) s10(2) show ?thesis by simp
qed

lemma convert_panel:
  assumes "ieee rnd" "m \<noteq> 0" "\<bar>m\<bar> \<le> 2 ^ 10" "0 \<le> x" "x < w" "w \<le> 2 ^ 15"
  shows "trunc (rnd (rnd (rnd (1 / of_int m) * of_int (c + m * x - (c + m * (w sdiv 2)))) + of_int (w sdiv 2))) \<in> {x - 1, x}"
    and "0 \<le> trunc (rnd (rnd (rnd (1 / of_int m) * of_int (c + m * x - (c + m * (w sdiv 2)))) + of_int (w sdiv 2)))"
proof -
  have w: "w sdiv 2 = w div 2" using assms(4,5) by (simp add: signed_divide_int_def)
  have h: "0 \<le> w div 2" "w div 2 \<le> w" using assms(4,5) by arith+
  have e: "c + m * x - (c + m * (w sdiv 2)) = m * (x - w sdiv 2)" by (simp add: algebra_simps)
  have "\<bar>x - w sdiv 2\<bar> \<le> 2 ^ 15" "\<bar>w sdiv 2\<bar> \<le> 2 ^ 15" using assms(4,5,6) h unfolding w by (simp_all add: abs_le_iff)
  from convert_error [OF assms(1,2,3) this]
  have "\<bar>rnd (rnd (rnd (1 / of_int m) * of_int (m * (x - w sdiv 2))) + of_int (w sdiv 2)) - of_int x\<bar> < 1 / 2" by simp
  from trunc_near [OF this assms(4)]
  show "trunc (rnd (rnd (rnd (1 / of_int m) * of_int (c + m * x - (c + m * (w sdiv 2)))) + of_int (w sdiv 2))) \<in> {x - 1, x}"
    "0 \<le> trunc (rnd (rnd (rnd (1 / of_int m) * of_int (c + m * x - (c + m * (w sdiv 2)))) + of_int (w sdiv 2)))"
    unfolding e by blast+
qed


text \<open>
  Exact arithmetic, a console that is always ready, and a panel with exchanged axes whose \<open>x\<close> runs backwards.
\<close>

definition demo_ts_bus :: "(u8 list \<times> (int \<times> int \<times> int) list) bus" where
  "demo_ts_bus = \<lparr>rd8 = \<lambda>a s. (0, s), rd16 = \<lambda>a s. (0, s), rd32 = \<lambda>a s. (4, s),
     wr8 = \<lambda>a v (tx, q). (tx @ [v], q), wr16 = \<lambda>a v s. s, wr32 = \<lambda>a v s. s\<rparr>"

definition demo_raw :: "u8 list \<times> (int \<times> int \<times> int) list \<Rightarrow> (int \<times> int \<times> int \<times> u8 list \<times> (int \<times> int \<times> int) list) option" where
  "demo_raw = (\<lambda>(tx, q). case q of [] \<Rightarrow> None | (x, y, p) # es \<Rightarrow> Some (x, y, p, tx, es))"

lemma demo_ts:
  "uart_tx demo_ts_bus fst" "uart_frame demo_ts_bus snd" "raw_queue demo_raw snd" "ieee id"
proof -
  have "tiny > 0" unfolding tiny_def by simp
  then show "ieee id" by (simp add: ieee_def)
qed (auto simp: uart_tx_def uart_frame_def raw_queue_def demo_raw_def demo_ts_bus_def split_beta)


end
