(* ===== verification/Dht11.thy ===== *)
theory Dht11
  imports Timers
begin

text \<open>
  The humidity and temperature sensor, \<^verbatim>\<open>dht11.c\<close>: one wire on GPG5 on which the sensor sends 40 bits as
  pulses of different length. The wire is a parameter, a level for every time; the driver sees it only
  through its reads and through the delays that it makes.
\<close>

section \<open>The driver\<close>

definition dht11_data_cfg_as_output :: "'s bus \<Rightarrow> 's \<Rightarrow> 's" where
  "dht11_data_cfg_as_output B s =
     (let s = reg_and B GPGCON (NOT (push_bit 10 3)) s in reg_or B GPGCON (push_bit 10 1) s)"

definition dht11_data_cfg_as_input :: "'s bus \<Rightarrow> 's \<Rightarrow> 's" where
  "dht11_data_cfg_as_input B s = reg_and B GPGCON (NOT (push_bit 10 3)) s"

definition dht11_data_set :: "'s bus \<Rightarrow> bool \<Rightarrow> 's \<Rightarrow> 's" where
  "dht11_data_set B val s =
     (if val then reg_or B GPGDAT (push_bit 5 1) s else reg_and B GPGDAT (NOT (push_bit 5 1)) s)"

definition dht11_data_get :: "'s bus \<Rightarrow> 's \<Rightarrow> int \<times> 's" where
  "dht11_data_get B s = (let (v, s) = rd32 B GPGDAT s in (if v AND push_bit 5 1 \<noteq> 0 then 1 else 0, s))"

definition dht11_init :: "'s bus \<Rightarrow> 's \<Rightarrow> 's option" where
  "dht11_init B s =
     (let s = dht11_data_cfg_as_output B s; s = dht11_data_set B True s in mdelay B 2000 s)"

definition dht11_start :: "'s bus \<Rightarrow> 's \<Rightarrow> 's option" where
  "dht11_start B s =
     (let s = dht11_data_set B False s
      in do { s \<leftarrow> mdelay B 20 s; Some (dht11_data_cfg_as_input B s) })"

definition dht11_wait_ack :: "'s bus \<Rightarrow> 's \<Rightarrow> (int \<times> 's) option" where
  "dht11_wait_ack B s = do { s \<leftarrow> udelay B 60 s; Some (dht11_data_get B s) }"

fun dht11_wait_for_val :: "'s bus \<Rightarrow> int \<Rightarrow> nat \<Rightarrow> 's \<Rightarrow> (int \<times> 's) option" where
  "dht11_wait_for_val B val 0 s = Some (- 1, s)"
| "dht11_wait_for_val B val (Suc timeout_us) s =
     (let (v, s) = dht11_data_get B s
      in if v = val then Some (0, s)
         else do { s \<leftarrow> udelay B 1 s; dht11_wait_for_val B val timeout_us s })"

text \<open>The loop over the bits, with \<open>n\<close> of them left.\<close>

fun dht11_recv_bits :: "'s bus \<Rightarrow> nat \<Rightarrow> u32 \<Rightarrow> 's \<Rightarrow> (u32 \<times> 's) option" where
  "dht11_recv_bits B 0 data s = Some (data, s)"
| "dht11_recv_bits B (Suc n) data s = do {
     (e, s) \<leftarrow> dht11_wait_for_val B 1 1000 s;
     (if e \<noteq> 0
      then do { s \<leftarrow> printf_va B (str ''dht11 wait for high data err!'' @ [10, 13]) [] s; Some (- 1, s) }
      else do {
        s \<leftarrow> udelay B 40 s;
        let data = push_bit 1 data;
        let (v, s) = dht11_data_get B s;
        let data = (if v = 1 then data OR 1 else data);
        (e, s) \<leftarrow> dht11_wait_for_val B 0 1000 s;
        (if e \<noteq> 0
         then do { s \<leftarrow> printf_va B (str ''dht11 wait for low data err!'' @ [10, 13]) [] s; Some (- 1, s) }
         else dht11_recv_bits B n data s) }) }"

definition dht11_recv_byte :: "'s bus \<Rightarrow> 's \<Rightarrow> (u32 \<times> 's) option" where
  "dht11_recv_byte B s = dht11_recv_bits B 8 0 s"

text \<open>
  The result with the two out parameters. The bytes are \<^verbatim>\<open>unsigned char\<close>, the sum of four of them is an
  \<^verbatim>\<open>int\<close>.
\<close>

definition dht11_read :: "'s bus \<Rightarrow> int \<times> int \<Rightarrow> 's \<Rightarrow> (int \<times> (int \<times> int) \<times> 's) option" where
  "dht11_read B ht s = do {
     s \<leftarrow> dht11_start B s;
     (a, s) \<leftarrow> dht11_wait_ack B s;
     (if a \<noteq> 0
      then do { s \<leftarrow> printf_va B (str ''dht11 not ack, err!'' @ [10, 13]) [] s; Some (- 1, ht, s) }
      else do {
        (e, s) \<leftarrow> dht11_wait_for_val B 1 1000 s;
        (if e \<noteq> 0
         then do { s \<leftarrow> printf_va B (str ''dht11 wait for ack high err!'' @ [10, 13]) [] s; Some (- 1, ht, s) }
         else do {
           (e, s) \<leftarrow> dht11_wait_for_val B 0 1000 s;
           (if e \<noteq> 0
            then do { s \<leftarrow> printf_va B (str ''dht11 wait for data low err!'' @ [10, 13]) [] s; Some (- 1, ht, s) }
            else do {
              (hum_m, s) \<leftarrow> dht11_recv_byte B s;
              (hum_n, s) \<leftarrow> dht11_recv_byte B s;
              (temp_m, s) \<leftarrow> dht11_recv_byte B s;
              (temp_n, s) \<leftarrow> dht11_recv_byte B s;
              (check, s) \<leftarrow> dht11_recv_byte B s;
              let s = dht11_data_cfg_as_output B s;
              let s = dht11_data_set B True s;
              (if uint (ucast hum_m :: u8) + uint (ucast hum_n :: u8) + uint (ucast temp_m :: u8) + uint (ucast temp_n :: u8) =
                  uint (ucast check :: u8)
               then do {
                 s \<leftarrow> mdelay B 2000 s;
                 Some (0, (uint (ucast hum_m :: u8), uint (ucast temp_m :: u8)), s) }
               else do { s \<leftarrow> printf_va B (str ''dht11 checksum err!'' @ [10, 13]) [] s; Some (- 1, ht, s) }) }) }) }) }"

text \<open>One round of the loop of \<^verbatim>\<open>dht11_test\<close>.\<close>

definition dht11_test_round :: "'s bus \<Rightarrow> int \<times> int \<Rightarrow> 's \<Rightarrow> ((int \<times> int) \<times> 's) option" where
  "dht11_test_round B ht s = do {
     (r, ht, s) \<leftarrow> dht11_read B ht s;
     s \<leftarrow> (if r \<noteq> 0
          then do { s \<leftarrow> printf_va B ([10, 13] @ str ''dht11 read err!'' @ [10, 13]) [] s; dht11_init B s }
          else printf_va B ([10, 13] @ str ''DHT11 : %d humidity, %d temperature'' @ [10, 13])
            [Va_int (word_of_int (fst ht)), Va_int (word_of_int (snd ht))] s);
     Some (ht, s) }"

section \<open>The wire\<close>

text \<open>
  \<open>lev\<close> is the level of the wire at every time. A load of the port returns the level at the time when it
  is done and takes at most \<open>g\<close> counts, as a load of the timer does.
\<close>

definition dht_wire :: "'s bus \<Rightarrow> ('s \<Rightarrow> nat) \<Rightarrow> nat \<Rightarrow> (nat \<Rightarrow> bool) \<Rightarrow> bool" where
  "dht_wire B now g lev \<longleftrightarrow> timer0 B now g \<and>
     (\<forall>s. now s \<le> now (snd (rd32 B GPGDAT s)) \<and> now (snd (rd32 B GPGDAT s)) \<le> now s + g \<and>
       (bit (fst (rd32 B GPGDAT s)) 5 \<longleftrightarrow> lev (now (snd (rd32 B GPGDAT s)))))"

lemma dht_data_get:
  assumes "dht_wire B now g lev"
  shows "\<exists>s'. dht11_data_get B s = (if lev (now s') then 1 else 0, s') \<and> now s \<le> now s' \<and> now s' \<le> now s + g"
proof -
  obtain v s' where "rd32 B GPGDAT s = (v, s')" by fastforce
  moreover from this have "now s \<le> now s' \<and> now s' \<le> now s + g \<and> (bit v 5 \<longleftrightarrow> lev (now s'))"
    using assms unfolding dht_wire_def by (metis fst_conv snd_conv)
  ultimately show ?thesis unfolding dht11_data_get_def and_bit_eq_0 by (intro exI [of _ s']) simp
qed

lemma dht_delay:
  assumes "dht_wire B now g lev" and "unat n \<le> 100"
  shows "\<exists>s'. udelay B n s = Some s' \<and> now s + 5 * unat n < now s' \<and> now s' \<le> now s + 5 * unat n + 2 * g"
  using assms by (intro udelay_returns) (simp_all add: dht_wire_def)

text \<open>
  A wait for a level: if the wire has it from \<open>b\<close> on for longer than one round of the loop, and not
  before, the wait ends at most one round after \<open>b\<close>.
\<close>

lemma dht_wait:
  assumes w: "dht_wire B now g lev" and after: "\<And>t. b \<le> t \<Longrightarrow> t \<le> b + 5 + 3 * g \<Longrightarrow> lev t = val"
  shows "(\<And>t. now s \<le> t \<Longrightarrow> t < b \<Longrightarrow> lev t \<noteq> val) \<Longrightarrow> now s + g \<le> b + 5 + 3 * g \<Longrightarrow> b \<le> now s + 5 * (n - 1) \<Longrightarrow> 0 < n \<Longrightarrow>
    \<exists>s'. dht11_wait_for_val B (if val then 1 else 0) n s = Some (0, s') \<and> now s \<le> now s' \<and> b \<le> now s' \<and>
      now s' \<le> max (now s + g) (b + 5 + 3 * g)"
proof (induction n arbitrary: s)
  case (Suc n)
  obtain s1 where s1: "dht11_data_get B s = (if lev (now s1) then 1 else 0, s1)" "now s \<le> now s1" "now s1 \<le> now s + g"
    using dht_data_get [OF w] by blast
  show ?case
  proof (cases "b \<le> now s1")
    case True
    then have "lev (now s1) = val" using after s1 Suc.prems(2) by (meson le_trans)
    with True s1 show ?thesis by (intro exI [of _ s1]) simp
  next
    case False
    then have ne: "lev (now s1) \<noteq> val" using Suc.prems(1) s1(2) by simp
    obtain s2 where s2: "udelay B 1 s1 = Some s2" "now s1 + 5 < now s2" "now s2 \<le> now s1 + 5 + 2 * g"
      using dht_delay [OF w, of 1 s1] by auto
    have "0 < n" using Suc.prems(3) False s1 by (cases n) simp_all
    moreover have "now s2 + g \<le> b + 5 + 3 * g" "b \<le> now s2 + 5 * (n - 1)" using s2 s1 False Suc.prems(3) by simp_all
    moreover have "lev t \<noteq> val" if "now s2 \<le> t" "t < b" for t using Suc.prems(1) [of t] that s1 s2 by simp
    ultimately obtain s' where s': "dht11_wait_for_val B (if val then 1 else 0) n s2 = Some (0, s')"
      "now s2 \<le> now s'" "b \<le> now s'" "now s' \<le> max (now s2 + g) (b + 5 + 3 * g)"
      using Suc.IH [of s2] by blast
    have "dht11_wait_for_val B (if val then 1 else 0) (Suc n) s = Some (0, s')"
      using s1(1) s2(1) s'(1) ne by simp
    moreover have "now s' \<le> max (now s + g) (b + 5 + 3 * g)" using s' s2 s1 False by simp
    ultimately show ?thesis using s' s2 s1 by (intro exI [of _ s']) simp
  qed
qed simp

section \<open>The frame\<close>

text \<open>
  The pulses of a sequence of bits from time \<open>t\<close> on, each a low one of 40 to 60 microseconds and a high
  one of 22 to 30 for a 0 and 65 to 75 for a 1, and a low pulse at the end. A microsecond is five counts.
\<close>

fun bit_pulses :: "(nat \<Rightarrow> bool) \<Rightarrow> nat \<Rightarrow> (bool \<times> nat \<times> nat) list \<Rightarrow> bool" where
  "bit_pulses lev t [] \<longleftrightarrow> (\<forall>u. t \<le> u \<and> u < t + 200 \<longrightarrow> \<not> lev u)"
| "bit_pulses lev t ((b, dl, dh) # ps) \<longleftrightarrow>
     200 \<le> dl \<and> dl \<le> 300 \<and> (if b then 325 \<le> dh \<and> dh \<le> 375 else 110 \<le> dh \<and> dh \<le> 150) \<and>
     (\<forall>u. t \<le> u \<and> u < t + dl \<longrightarrow> \<not> lev u) \<and> (\<forall>u. t + dl \<le> u \<and> u < t + dl + dh \<longrightarrow> lev u) \<and>
     bit_pulses lev (t + dl + dh) ps"

lemma bit_pulses_low: "bit_pulses lev t ps \<Longrightarrow> t \<le> u \<Longrightarrow> u < t + 200 \<Longrightarrow> \<not> lev u"
  by (cases ps) auto

lemma dht_recv_one:
  assumes w: "dht_wire B now g lev" "g \<le> 10" and p: "bit_pulses lev t ((b, dl, dh) # ps)" and s: "t \<le> now s" "now s < t + 200"
  shows "\<exists>s'. t + dl + dh \<le> now s' \<and> now s' < t + dl + dh + 200 \<and>
    dht11_recv_bits B (Suc n) data s = dht11_recv_bits B n (if b then push_bit 1 data OR 1 else push_bit 1 data) s'"
proof -
  let ?r = "t + dl" and ?f = "t + dl + dh"
  have dur: "200 \<le> dl" "dl \<le> 300" "110 \<le> dh" "dh \<le> 375" "b \<Longrightarrow> 325 \<le> dh" "\<not> b \<Longrightarrow> dh \<le> 150" using p by (auto split: if_splits)
  have low: "\<not> lev u" if "t \<le> u" "u < ?r" for u using p that by simp
  have high: "lev u" if "?r \<le> u" "u < ?f" for u using p that by simp
  have low': "\<not> lev u" if "?f \<le> u" "u < ?f + 200" for u using bit_pulses_low [of lev ?f ps u] p that by simp
  obtain s1 where s1: "dht11_wait_for_val B 1 1000 s = Some (0, s1)" "?r \<le> now s1" "now s1 \<le> ?r + 5 + 3 * g"
    using dht_wait [OF w(1), of ?r True s 1000] high low s dur w(2) by (fastforce simp: max_def)
  obtain s2 where s2: "udelay B 40 s1 = Some s2" "now s1 + 200 < now s2" "now s2 \<le> now s1 + 200 + 2 * g"
    using dht_delay [OF w(1), of 40 s1] by auto
  obtain s3 where s3: "dht11_data_get B s2 = (if lev (now s3) then 1 else 0, s3)" "now s2 \<le> now s3" "now s3 \<le> now s2 + g"
    using dht_data_get [OF w(1)] by blast
  have b: "lev (now s3) = b"
    using dur high [of "now s3"] low' [of "now s3"] s1 s2 s3 w(2) by (cases b) auto
  have "\<exists>s4. dht11_wait_for_val B 0 1000 s3 = Some (0, s4) \<and> ?f \<le> now s4 \<and> now s4 < ?f + 200"
  proof (cases b)
    case True
    then show ?thesis
      using dht_wait [OF w(1), of ?f False s3 1000] high low' dur s1 s2 s3 w(2) by (fastforce simp: max_def)
  next
    case False
    have "lev u = False" if "now s3 \<le> u" "u \<le> now s3 + 5 + 3 * g" for u
      using low' [of u] that dur False s1 s2 s3 w(2) by simp
    then show ?thesis
      using dht_wait [OF w(1), of "now s3" False s3 1000] dur False s1 s2 s3 w(2) by (fastforce simp: max_def)
  qed
  then obtain s4 where "dht11_wait_for_val B 0 1000 s3 = Some (0, s4)" "?f \<le> now s4" "now s4 < ?f + 200" by blast
  with s1(1) s2(1) s3(1) b show ?thesis by (intro exI [of _ s4]) simp
qed

definition shift_in :: "u32 \<Rightarrow> bool \<Rightarrow> u32" where
  "shift_in a b = (if b then push_bit 1 a OR 1 else push_bit 1 a)"

lemma dht_recv_bits:
  assumes w: "dht_wire B now g lev" "g \<le> 10"
  shows "bit_pulses lev t (ps @ qs) \<Longrightarrow> t \<le> now s \<Longrightarrow> now s < t + 200 \<Longrightarrow>
    \<exists>s' t'. dht11_recv_bits B (length ps) data s = Some (foldl shift_in data (map fst ps), s') \<and>
      bit_pulses lev t' qs \<and> t' \<le> now s' \<and> now s' < t' + 200"
proof (induction ps arbitrary: t s data)
  case (Cons p ps)
  obtain b dl dh where p: "p = (b, dl, dh)" by (cases p)
  have next_bits: "bit_pulses lev (t + dl + dh) (ps @ qs)" using Cons.prems(1) p by simp
  obtain s' where "t + dl + dh \<le> now s'" "now s' < t + dl + dh + 200"
    "dht11_recv_bits B (Suc (length ps)) data s = dht11_recv_bits B (length ps) (shift_in data b) s'"
    using dht_recv_one [OF w, of t b dl dh "ps @ qs" s "length ps" data] Cons.prems p by (auto simp: shift_in_def)
  with Cons.IH [OF next_bits, of s' "shift_in data b"] show ?case by (simp add: p)
qed auto

lemma ucast_shift_in: "(ucast (foldl shift_in a bs) :: u8) = foldl (\<lambda>a b. if b then push_bit 1 a OR 1 else push_bit 1 a) (ucast a) bs"
proof (induction bs arbitrary: a)
  case (Cons b bs)
  have "(ucast (shift_in a b) :: u8) = (if b then push_bit 1 (ucast a) OR 1 else push_bit 1 (ucast a))"
    by (rule bit_word_eqI) (auto simp: shift_in_def bit_simps bit_shl1)
  with Cons.IH show ?case by simp
qed simp

lemma dht_recv_byte:
  assumes w: "dht_wire B now g lev" "g \<le> 10" and p: "bit_pulses lev t ps" "map fst ps = bits_msb 8 v @ bs"
    and s: "t \<le> now s" "now s < t + 200"
  shows "\<exists>d s' t' qs. dht11_recv_byte B s = Some (d, s') \<and> (ucast d :: u8) = v \<and> bit_pulses lev t' qs \<and> map fst qs = bs \<and>
    t' \<le> now s' \<and> now s' < t' + 200"
proof -
  have f: "map fst (take 8 ps) = bits_msb 8 v" "map fst (drop 8 ps) = bs" "length (take 8 ps) = 8"
    using p(2) by (simp_all flip: take_map drop_map length_map [of fst ps])
  obtain s' t' where s': "dht11_recv_bits B 8 0 s = Some (foldl shift_in 0 (bits_msb 8 v), s')"
    "bit_pulses lev t' (drop 8 ps)" "t' \<le> now s'" "now s' < t' + 200"
    using dht_recv_bits [OF w, of t "take 8 ps" "drop 8 ps" s 0] p(1) s f by auto
  moreover have "(ucast (foldl shift_in 0 (bits_msb 8 v)) :: u8) = v"
    using byte_of_bits_msb [of v] unfolding ucast_shift_in byte_of_def by simp
  ultimately show ?thesis using f(2) unfolding dht11_recv_byte_def by blast
qed

text \<open>
  The answer to a start signal that was released at time \<open>t\<close>: the wire stays high for at most 40
  microseconds, is low and then high for 70 to 90 each, and carries the bytes.
\<close>

definition dht_frame :: "(nat \<Rightarrow> bool) \<Rightarrow> nat \<Rightarrow> u8 list \<Rightarrow> bool" where
  "dht_frame lev t bytes \<longleftrightarrow> (\<exists>d0 d1 d2 ps. d0 \<le> 200 \<and> 350 \<le> d1 \<and> d1 \<le> 450 \<and> 350 \<le> d2 \<and> d2 \<le> 450 \<and>
     (\<forall>u. t + d0 \<le> u \<and> u < t + d0 + d1 \<longrightarrow> \<not> lev u) \<and> (\<forall>u. t + d0 + d1 \<le> u \<and> u < t + d0 + d1 + d2 \<longrightarrow> lev u) \<and>
     bit_pulses lev (t + d0 + d1 + d2) ps \<and> map fst ps = concat (map (bits_msb 8) bytes))"

lemma dht_frame_start:
  assumes w: "dht_wire B now g lev" "g \<le> 10" and f: "dht_frame lev (now s) bytes"
  shows "\<exists>s1 s2 s3 t ps. dht11_wait_ack B s = Some (0, s1) \<and> dht11_wait_for_val B 1 1000 s1 = Some (0, s2) \<and>
    dht11_wait_for_val B 0 1000 s2 = Some (0, s3) \<and> bit_pulses lev t ps \<and> map fst ps = concat (map (bits_msb 8) bytes) \<and>
    t \<le> now s3 \<and> now s3 < t + 200"
proof -
  obtain d0 d1 d2 ps where d: "d0 \<le> 200" "350 \<le> d1" "d1 \<le> 450" "350 \<le> d2" "d2 \<le> 450"
    and lo: "\<And>u. now s + d0 \<le> u \<Longrightarrow> u < now s + d0 + d1 \<Longrightarrow> \<not> lev u"
    and hi: "\<And>u. now s + d0 + d1 \<le> u \<Longrightarrow> u < now s + d0 + d1 + d2 \<Longrightarrow> lev u"
    and ps: "bit_pulses lev (now s + d0 + d1 + d2) ps" "map fst ps = concat (map (bits_msb 8) bytes)"
    using f unfolding dht_frame_def by auto
  let ?r = "now s + d0 + d1" and ?f = "now s + d0 + d1 + d2"
  obtain s0 where s0: "udelay B 60 s = Some s0" "now s + 300 < now s0" "now s0 \<le> now s + 300 + 2 * g"
    using dht_delay [OF w(1), of 60 s] by auto
  obtain s1 where s1: "dht11_data_get B s0 = (if lev (now s1) then 1 else 0, s1)" "now s0 \<le> now s1" "now s1 \<le> now s0 + g"
    using dht_data_get [OF w(1)] by blast
  have ack: "\<not> lev (now s1)" using lo [of "now s1"] s0 s1 d w(2) by simp
  obtain s2 where s2: "dht11_wait_for_val B 1 1000 s1 = Some (0, s2)" "?r \<le> now s2" "now s2 \<le> ?r + 5 + 3 * g"
    using dht_wait [OF w(1), of ?r True s1 1000] hi lo s0 s1 d w(2) by (fastforce simp: max_def)
  obtain s3 where s3: "dht11_wait_for_val B 0 1000 s2 = Some (0, s3)" "?f \<le> now s3" "now s3 \<le> ?f + 5 + 3 * g"
    using dht_wait [OF w(1), of ?f False s2 1000] hi bit_pulses_low [OF ps(1)] s2 d w(2) by (fastforce simp: max_def)
  have "now s3 < ?f + 200" using s3(3) w(2) by simp
  moreover have "dht11_wait_ack B s = Some (0, s1)" using s0(1) s1(1) ack by (simp add: dht11_wait_ack_def)
  ultimately show ?thesis using s2(1) s3(1,2) ps by blast
qed

lemma dht_recv_frame:
  assumes w: "dht_wire B now g lev" "g \<le> 10" and p: "bit_pulses lev t ps" "map fst ps = concat (map (bits_msb 8) [b0, b1, b2, b3, b4])"
    and s: "t \<le> now s" "now s < t + 200"
  shows "\<exists>d0 d1 d2 d3 d4 s0 s1 s2 s3 s4. dht11_recv_byte B s = Some (d0, s0) \<and> dht11_recv_byte B s0 = Some (d1, s1) \<and>
    dht11_recv_byte B s1 = Some (d2, s2) \<and> dht11_recv_byte B s2 = Some (d3, s3) \<and> dht11_recv_byte B s3 = Some (d4, s4) \<and>
    (ucast d0 :: u8) = b0 \<and> (ucast d1 :: u8) = b1 \<and> (ucast d2 :: u8) = b2 \<and> (ucast d3 :: u8) = b3 \<and> (ucast d4 :: u8) = b4"
proof -
  have m: "map fst ps = bits_msb 8 b0 @ bits_msb 8 b1 @ bits_msb 8 b2 @ bits_msb 8 b3 @ bits_msb 8 b4 @ []"
    using p(2) by (simp only: list.map concat.simps append_Nil2 append_assoc)
  obtain d0 s0 t0 p0 where 0: "dht11_recv_byte B s = Some (d0, s0)" "(ucast d0 :: u8) = b0" "bit_pulses lev t0 p0"
    "map fst p0 = bits_msb 8 b1 @ bits_msb 8 b2 @ bits_msb 8 b3 @ bits_msb 8 b4 @ []" "t0 \<le> now s0" "now s0 < t0 + 200"
    using dht_recv_byte [OF w p(1) m s] by blast
  obtain d1 s1 t1 p1 where 1: "dht11_recv_byte B s0 = Some (d1, s1)" "(ucast d1 :: u8) = b1" "bit_pulses lev t1 p1"
    "map fst p1 = bits_msb 8 b2 @ bits_msb 8 b3 @ bits_msb 8 b4 @ []" "t1 \<le> now s1" "now s1 < t1 + 200"
    using dht_recv_byte [OF w 0(3-6)] by blast
  obtain d2 s2 t2 p2 where 2: "dht11_recv_byte B s1 = Some (d2, s2)" "(ucast d2 :: u8) = b2" "bit_pulses lev t2 p2"
    "map fst p2 = bits_msb 8 b3 @ bits_msb 8 b4 @ []" "t2 \<le> now s2" "now s2 < t2 + 200"
    using dht_recv_byte [OF w 1(3-6)] by blast
  obtain d3 s3 t3 p3 where 3: "dht11_recv_byte B s2 = Some (d3, s3)" "(ucast d3 :: u8) = b3" "bit_pulses lev t3 p3"
    "map fst p3 = bits_msb 8 b4 @ []" "t3 \<le> now s3" "now s3 < t3 + 200"
    using dht_recv_byte [OF w 2(3-6)] by blast
  obtain d4 s4 where 4: "dht11_recv_byte B s3 = Some (d4, s4)" "(ucast d4 :: u8) = b4" using dht_recv_byte [OF w 3(3-6)] by blast
  from 0(1,2) 1(1,2) 2(1,2) 3(1,2) 4 show ?thesis by blast
qed

lemma dht_start_returns:
  assumes "timer0 B now g"
  shows "\<exists>s'. dht11_start B s = Some s'" "\<exists>s'. mdelay B 2000 s = Some s'"
  using udelay_returns [OF assms, of "20 * 1000" "dht11_data_set B False s"] udelay_returns [OF assms, of "2000 * 1000" s]
  by (auto simp: dht11_start_def mdelay_def)

text \<open>
  C21. With a sensor that answers the start signal with a frame of five bytes, every pulse within its
  tolerance, and loads that take at most two microseconds, \<open>dht11_read\<close> returns. It delivers the first and the
  third byte if the sum of the first four, as an integer, is the fifth, and fails otherwise; so it rejects
  the frames of a sensor whose sum needs more than eight bits.
\<close>

theorem dht11_reads_frame:
  assumes w: "dht_wire B now g lev" "g \<le> 10" and tx: "uart_tx B tx"
    and f: "\<And>s1. dht11_start B s = Some s1 \<Longrightarrow> dht_frame lev (now s1) [hm, hn, tm, tn, ck]"
  shows "\<exists>s'. dht11_read B ht s =
    Some (if uint hm + uint hn + uint tm + uint tn = uint ck then (0, (uint hm, uint tm), s') else (- 1, ht, s'))"
proof -
  have timer: "timer0 B now g" using w(1) by (simp add: dht_wire_def)
  obtain s0 where s0: "dht11_start B s = Some s0" using dht_start_returns(1) [OF timer] by blast
  obtain s1 s2 s3 t ps where s1: "dht11_wait_ack B s0 = Some (0, s1)" and s2: "dht11_wait_for_val B 1 1000 s1 = Some (0, s2)"
    and s3: "dht11_wait_for_val B 0 1000 s2 = Some (0, s3)" "bit_pulses lev t ps" "map fst ps = concat (map (bits_msb 8) [hm, hn, tm, tn, ck])"
    "t \<le> now s3" "now s3 < t + 200"
    using dht_frame_start [OF w f [OF s0]] by blast
  obtain d0 d1 d2 d3 d4 r0 r1 r2 r3 r4 where
    r: "dht11_recv_byte B s3 = Some (d0, r0)" "dht11_recv_byte B r0 = Some (d1, r1)" "dht11_recv_byte B r1 = Some (d2, r2)"
      "dht11_recv_byte B r2 = Some (d3, r3)" "dht11_recv_byte B r3 = Some (d4, r4)"
    and d: "(ucast d0 :: u8) = hm" "(ucast d1 :: u8) = hn" "(ucast d2 :: u8) = tm" "(ucast d3 :: u8) = tn" "(ucast d4 :: u8) = ck"
    using dht_recv_frame [OF w s3(2-5)] by blast
  let ?s = "dht11_data_set B True (dht11_data_cfg_as_output B r4)"
  obtain s5 where s5: "mdelay B 2000 ?s = Some s5" using dht_start_returns(2) [OF timer] by blast
  obtain s6 where s6: "printf_va B (str ''dht11 checksum err!'' @ [10, 13]) [] ?s = Some s6"
    using printf_returns [OF tx, of "str ''dht11 checksum err!'' @ [10, 13]" "[]" ?s] by (auto simp: str_def)
  have "dht11_read B ht s =
      (if uint hm + uint hn + uint tm + uint tn = uint ck then Some (0, (uint hm, uint tm), s5) else Some (- 1, ht, s6))"
    unfolding dht11_read_def by (simp add: s0 s1 s2 s3(1) r d s5 s6 Let_def del: dht11_wait_for_val.simps)
  then show ?thesis by (cases "uint hm + uint hn + uint tm + uint tn = uint ck") auto
qed

section \<open>A sensor\<close>

text \<open>The levels of a train of pulses, from its start on.\<close>

fun train :: "(bool \<times> nat \<times> nat) list \<Rightarrow> nat \<Rightarrow> bool" where
  "train [] u = False"
| "train ((b, dl, dh) # ps) u = (if u < dl then False else if u < dl + dh then True else train ps (u - (dl + dh)))"

lemma train_pulses:
  assumes "\<And>u. t \<le> u \<Longrightarrow> lev u = train ps (u - t)"
    and "\<forall>(b, dl, dh) \<in> set ps. dl = 250 \<and> dh = (if b then 350 else 130)"
  shows "bit_pulses lev t ps"
  using assms
proof (induction ps arbitrary: t)
  case (Cons p ps)
  obtain b dl dh where p: "p = (b, dl, dh)" by (cases p)
  have "lev u = train ps (u - (t + dl + dh))" if "t + dl + dh \<le> u" for u
  proof -
    have "\<not> u - t < dl" "\<not> u - t < dl + dh" "u - t - (dl + dh) = u - (t + dl + dh)" using that by simp_all
    with Cons.prems(1) [of u] that p show ?thesis by simp
  qed
  with Cons.IH [of "t + dl + dh"] Cons.prems(2) have "bit_pulses lev (t + dl + dh) ps" by simp
  then show ?case using Cons.prems p by auto
qed simp

text \<open>
  A bus with a clock that only loads of the timer advance, and a sensor that answers, from the time 100100
  on, a start signal that was given at time 0.
\<close>

definition demo_pulses :: "(bool \<times> nat \<times> nat) list" where
  "demo_pulses = map (\<lambda>b. (b, 250, if b then 350 else 130)) (concat (map (bits_msb 8) [45, 0, 24, 3, 72]))"

definition demo_level :: "nat \<Rightarrow> bool" where
  "demo_level u = (if u < 100100 then True else if u < 100500 then False else if u < 100900 then True else train demo_pulses (u - 100900))"

definition demo_dht_bus :: "(nat \<times> u8 list) bus" where
  "demo_dht_bus = \<lparr>rd8 = (\<lambda>a s. (0, s)), rd16 = (\<lambda>a s. (0, s)),
     rd32 = (\<lambda>a (t, out). if a = TCNTO0 then (of_nat (50000 - Suc t mod 50000), Suc t, out)
        else if a = GPGDAT then (if demo_level t then 0x20 else 0, t, out) else (4, t, out)),
     wr8 = (\<lambda>a v (t, out). (t, if a = UTXH0 then out @ [v] else out)),
     wr16 = (\<lambda>a v s. s), wr32 = (\<lambda>a v s. s)\<rparr>"

lemma demo_dht_wire: "dht_wire demo_dht_bus fst 1 demo_level"
  by (simp add: dht_wire_def timer0_def demo_dht_bus_def sfr bit_simps split: prod.split)

lemma demo_dht_tx: "uart_tx demo_dht_bus snd"
  by (simp add: uart_tx_def demo_dht_bus_def sfr split: prod.split)

lemma demo_dht_frame:
  assumes "100000 < t" "t \<le> 100002"
  shows "dht_frame demo_level t [45, 0, 24, 3, 72]"
proof -
  have "bit_pulses demo_level 100900 demo_pulses"
    by (rule train_pulses) (auto simp: demo_level_def demo_pulses_def)
  moreover have "map fst demo_pulses = concat (map (bits_msb 8) [45, 0, 24, 3, 72])"
    by (simp add: demo_pulses_def o_def del: concat.simps)
  ultimately show ?thesis
    using assms unfolding dht_frame_def
    by (intro exI [of _ "100100 - t"] exI [of _ 400] exI [of _ 400] exI [of _ demo_pulses]) (auto simp: demo_level_def)
qed

theorem dht11_reads_frame_witness:
  "\<exists>s'. dht11_read demo_dht_bus (0, 0) (0, []) = Some (0, (45, 24), s')"
proof -
  have "dht_frame demo_level (fst s1) [45, 0, 24, 3, 72]" if "dht11_start demo_dht_bus (0, []) = Some s1" for s1
  proof (rule demo_dht_frame)
    have "timer0 demo_dht_bus fst 1" using demo_dht_wire by (simp add: dht_wire_def)
    from udelay_returns [OF this, of 20000 "dht11_data_set demo_dht_bus False (0, [])"] that
    show "100000 < fst s1" "fst s1 \<le> 100002"
      by (auto simp: dht11_start_def mdelay_def dht11_data_set_def dht11_data_cfg_as_input_def reg_and_def demo_dht_bus_def sfr split: prod.splits)
  qed
  from dht11_reads_frame [OF demo_dht_wire _ demo_dht_tx this, of "(0, [])" "(0, 0)"] show ?thesis by auto
qed

end
