(* ===== verification/Ds18b20.thy ===== *)
theory Ds18b20
  imports Timers Complex_Main
begin

text \<open>
  The temperature sensor, \<^verbatim>\<open>ds18b20.c\<close>: one wire on GPG6 that both sides pull low. The driver sends a bit by the
  length of a low pulse and reads one by a short pulse after which the sensor may hold the wire low. The sensor is a
  parameter; its contract is a state machine over the pulses that the driver made.
\<close>

section \<open>The driver\<close>

definition READ_ROM :: u8 where "READ_ROM = 0x33"
definition SKIP_ROM :: u8 where "SKIP_ROM = 0xCC"
definition CONVERT_TEAMPERATURE :: u8 where "CONVERT_TEAMPERATURE = 0x44"
definition READ_SCRATCHPAD :: u8 where "READ_SCRATCHPAD = 0xBE"

definition ds18b20_data_cfg_as_output :: "'s bus \<Rightarrow> 's \<Rightarrow> 's" where
  "ds18b20_data_cfg_as_output B s =
     (let s = reg_and B GPGCON (NOT (push_bit 12 3)) s in reg_or B GPGCON (push_bit 12 1) s)"

definition ds18b20_data_cfg_as_input :: "'s bus \<Rightarrow> 's \<Rightarrow> 's" where
  "ds18b20_data_cfg_as_input B s = reg_and B GPGCON (NOT (push_bit 12 3)) s"

definition ds18b20_data_set :: "'s bus \<Rightarrow> bool \<Rightarrow> 's \<Rightarrow> 's" where
  "ds18b20_data_set B val s =
     (if val then reg_or B GPGDAT (push_bit 6 1) s else reg_and B GPGDAT (NOT (push_bit 6 1)) s)"

definition ds18b20_data_get :: "'s bus \<Rightarrow> 's \<Rightarrow> int \<times> 's" where
  "ds18b20_data_get B s = (let (v, s) = rd32 B GPGDAT s in (if v AND push_bit 6 1 \<noteq> 0 then 1 else 0, s))"

definition ds18b20_data_set_val_for_time :: "'s bus \<Rightarrow> bool \<Rightarrow> u32 \<Rightarrow> 's \<Rightarrow> 's option" where
  "ds18b20_data_set_val_for_time B val us s =
     (let s = ds18b20_data_cfg_as_output B s; s = ds18b20_data_set B val s in udelay B us s)"

definition ds18b20_data_release :: "'s bus \<Rightarrow> 's \<Rightarrow> 's" where
  "ds18b20_data_release B s = ds18b20_data_cfg_as_input B s"

definition ds18b20_initialization :: "'s bus \<Rightarrow> 's \<Rightarrow> (int \<times> 's) option" where
  "ds18b20_initialization B s = do {
     s \<leftarrow> ds18b20_data_set_val_for_time B False 500 s;
     let s = ds18b20_data_release B s;
     s \<leftarrow> udelay B 80 s;
     let (val, s) = ds18b20_data_get B s;
     s \<leftarrow> udelay B 250 s;
     Some (val, s) }"

definition ds18b20_write_bit :: "'s bus \<Rightarrow> bool \<Rightarrow> 's \<Rightarrow> 's option" where
  "ds18b20_write_bit B val s =
     (if \<not> val
      then do {
        s \<leftarrow> ds18b20_data_set_val_for_time B False 60 s;
        let s = ds18b20_data_release B s;
        udelay B 2 s }
      else do {
        s \<leftarrow> ds18b20_data_set_val_for_time B False 2 s;
        let s = ds18b20_data_release B s;
        udelay B 60 s })"

definition ds18b20_read_bit :: "'s bus \<Rightarrow> 's \<Rightarrow> (int \<times> 's) option" where
  "ds18b20_read_bit B s = do {
     s \<leftarrow> ds18b20_data_set_val_for_time B False 2 s;
     let s = ds18b20_data_release B s;
     s \<leftarrow> udelay B 10 s;
     let (val, s) = ds18b20_data_get B s;
     s \<leftarrow> udelay B 50 s;
     Some (val, s) }"

text \<open>The loops over the bits, from bit \<open>i\<close> on, with \<open>n\<close> of them left.\<close>

fun ds18b20_write_bits :: "'s bus \<Rightarrow> u8 \<Rightarrow> nat \<Rightarrow> nat \<Rightarrow> 's \<Rightarrow> 's option" where
  "ds18b20_write_bits B data i 0 s = Some s"
| "ds18b20_write_bits B data i (Suc n) s = do {
     s \<leftarrow> ds18b20_write_bit B (data AND push_bit i 1 \<noteq> 0) s;
     ds18b20_write_bits B data (Suc i) n s }"

definition ds18b20_write_byte :: "'s bus \<Rightarrow> u8 \<Rightarrow> 's \<Rightarrow> 's option" where
  "ds18b20_write_byte B data s = ds18b20_write_bits B data 0 8 s"

fun ds18b20_read_bits :: "'s bus \<Rightarrow> nat \<Rightarrow> nat \<Rightarrow> u8 \<Rightarrow> 's \<Rightarrow> (u8 \<times> 's) option" where
  "ds18b20_read_bits B i 0 data s = Some (data, s)"
| "ds18b20_read_bits B i (Suc n) data s = do {
     (v, s) \<leftarrow> ds18b20_read_bit B s;
     ds18b20_read_bits B (Suc i) n (if v = 1 then data OR push_bit i 1 else data) s }"

definition ds18b20_read_byte :: "'s bus \<Rightarrow> 's \<Rightarrow> (u8 \<times> 's) option" where
  "ds18b20_read_byte B s = ds18b20_read_bits B 0 8 0 s"

definition ds18b20_write_rom_cmd :: "'s bus \<Rightarrow> u8 \<Rightarrow> 's \<Rightarrow> 's option" where
  "ds18b20_write_rom_cmd B cmd s = ds18b20_write_byte B cmd s"

definition ds18b20_write_function_cmd :: "'s bus \<Rightarrow> u8 \<Rightarrow> 's \<Rightarrow> 's option" where
  "ds18b20_write_function_cmd B cmd s = ds18b20_write_byte B cmd s"

text \<open>The loops that fill an array with \<open>n\<close> bytes.\<close>

fun ds18b20_read_bytes :: "'s bus \<Rightarrow> nat \<Rightarrow> 's \<Rightarrow> (u8 list \<times> 's) option" where
  "ds18b20_read_bytes B 0 s = Some ([], s)"
| "ds18b20_read_bytes B (Suc n) s = do {
     (v, s) \<leftarrow> ds18b20_read_byte B s;
     (vs, s) \<leftarrow> ds18b20_read_bytes B n s;
     Some (v # vs, s) }"

text \<open>The results carry the array, which stays as it was on an error.\<close>

definition ds18b20_read_rom :: "'s bus \<Rightarrow> u8 list \<Rightarrow> 's \<Rightarrow> (int \<times> u8 list \<times> 's) option" where
  "ds18b20_read_rom B rom s = do {
     (e, s) \<leftarrow> ds18b20_initialization B s;
     (if e \<noteq> 0
      then do { s \<leftarrow> printf_va B (str ''ds18b20_initialization err!'' @ [10, 13]) [] s; Some (- 1, rom, s) }
      else do {
        s \<leftarrow> ds18b20_write_rom_cmd B READ_ROM s;
        (rom, s) \<leftarrow> ds18b20_read_bytes B 8 s;
        Some (0, rom, s) }) }"

fun ds18b20_wait_when_processing :: "'s bus \<Rightarrow> nat \<Rightarrow> 's \<Rightarrow> (int \<times> 's) option" where
  "ds18b20_wait_when_processing B 0 s = Some (- 1, s)"
| "ds18b20_wait_when_processing B (Suc timeout_us) s = do {
     (v, s) \<leftarrow> ds18b20_read_bit B s;
     (if v = 1 then Some (0, s)
      else do { s \<leftarrow> udelay B 1 s; ds18b20_wait_when_processing B timeout_us s }) }"

definition ds18b20_start_convert :: "'s bus \<Rightarrow> 's \<Rightarrow> (int \<times> 's) option" where
  "ds18b20_start_convert B s = do {
     (e, s) \<leftarrow> ds18b20_initialization B s;
     (if e \<noteq> 0
      then do { s \<leftarrow> printf_va B (str ''ds18b20_initialization err!'' @ [10, 13]) [] s; Some (- 1, s) }
      else do {
        s \<leftarrow> ds18b20_write_rom_cmd B SKIP_ROM s;
        s \<leftarrow> ds18b20_write_function_cmd B CONVERT_TEAMPERATURE s;
        (e, s) \<leftarrow> ds18b20_wait_when_processing B 1000000 s;
        (if e \<noteq> 0
         then do { s \<leftarrow> printf_va B (str ''ds18b20_wait_when_processing err!'' @ [10, 13]) [] s; Some (- 1, s) }
         else Some (0, s)) }) }"

definition ds18b20_read_ram :: "'s bus \<Rightarrow> u8 list \<Rightarrow> 's \<Rightarrow> (int \<times> u8 list \<times> 's) option" where
  "ds18b20_read_ram B ram s = do {
     (e, s) \<leftarrow> ds18b20_initialization B s;
     (if e \<noteq> 0
      then do { s \<leftarrow> printf_va B (str ''ds18b20_initialization err!'' @ [10, 13]) [] s; Some (- 1, ram, s) }
      else do {
        s \<leftarrow> ds18b20_write_rom_cmd B SKIP_ROM s;
        s \<leftarrow> ds18b20_write_function_cmd B READ_SCRATCHPAD s;
        (ram, s) \<leftarrow> ds18b20_read_bytes B 9 s;
        Some (0, ram, s) }) }"

text \<open>
  The computation of the temperature. Every value is a multiple of 1/16 below 128, so the double arithmetic is exact.
  The condition \<^verbatim>\<open>ram[4] & (3<<5) == 0\<close> is \<^verbatim>\<open>ram[4] & ((3<<5) == 0)\<close> in C, and so are the others.
\<close>

definition c_bool :: "bool \<Rightarrow> u32" where
  "c_bool b = (if b then 1 else 0)"

definition ds18b20_val :: "rat list" where
  "ds18b20_val = [1 / 16, 1 / 8, 1 / 4, 1 / 2, 1, 2, 4, 8, 16, 32, 64]"

definition ds18b20_sum :: "u8 list \<Rightarrow> rat" where
  "ds18b20_sum ram =
     (let r4 = ucast (ram ! 4) :: u32;
          i = (if r4 AND c_bool (push_bit 5 3 = (0 :: u32)) \<noteq> 0 then 3
               else if r4 AND c_bool (push_bit 5 3 = (push_bit 5 1 :: u32)) \<noteq> 0 then 2
               else if r4 AND c_bool (push_bit 5 3 = (push_bit 5 2 :: u32)) \<noteq> 0 then 1
               else 0);
          sum = 0;
          sum = fold (\<lambda>i sum. if ram ! 0 AND push_bit i 1 \<noteq> 0 then sum + ds18b20_val ! i else sum) [i..<8] sum;
          sum = fold (\<lambda>i sum. if ram ! 1 AND push_bit i 1 \<noteq> 0 then sum + ds18b20_val ! (8 + i) else sum) [0..<3] sum
      in if ram ! 1 AND push_bit 3 1 \<noteq> 0 then 0 - sum else sum)"

text \<open>\<open>ram\<close> is the local array with its undefined first contents.\<close>

definition ds18b20_read_temperature :: "'s bus \<Rightarrow> u8 list \<Rightarrow> rat \<Rightarrow> 's \<Rightarrow> (int \<times> rat \<times> 's) option" where
  "ds18b20_read_temperature B ram temp s = do {
     (err, s) \<leftarrow> ds18b20_start_convert B s;
     (if err \<noteq> 0 then Some (err, temp, s)
      else do {
        (err, ram, s) \<leftarrow> ds18b20_read_ram B ram s;
        (if err \<noteq> 0 then Some (err, temp, s) else Some (0, ds18b20_sum ram, s)) }) }"

definition ds18b20_init_state :: "'s bus \<Rightarrow> 's \<Rightarrow> 's" where
  "ds18b20_init_state B s = ds18b20_data_release B s"

section \<open>The wire\<close>

text \<open>
  The port: the registers, since when the driver pulls the wire low, and the low pulses it has made, newest first, each
  with its start and its end.
\<close>

record ow_port =
  p_con :: u32
  p_dat :: u32
  p_low :: "nat option"
  p_pulses :: "(nat \<times> nat) list"

definition ow_drives :: "u32 \<Rightarrow> u32 \<Rightarrow> bool" where
  "ow_drives con dat \<longleftrightarrow> bit con 12 \<and> \<not> bit con 13 \<and> \<not> bit dat 6"

definition ow_set :: "u32 \<Rightarrow> u32 \<Rightarrow> nat \<Rightarrow> ow_port \<Rightarrow> ow_port" where
  "ow_set con dat t p =
     (if ow_drives con dat
      then p\<lparr>p_con := con, p_dat := dat, p_low := Some (case p_low p of None \<Rightarrow> t | Some t0 \<Rightarrow> t0)\<rparr>
      else p\<lparr>p_con := con, p_dat := dat, p_low := None,
             p_pulses := (case p_low p of None \<Rightarrow> p_pulses p | Some t0 \<Rightarrow> (t0, t) # p_pulses p)\<rparr>)"

text \<open>
  \<open>answer ps t\<close> is the level of the released wire at time \<open>t\<close> after the pulses \<open>ps\<close>. Every access takes at most \<open>g\<close>
  counts of the timer.
\<close>

definition ow_bus :: "'s bus \<Rightarrow> ('s \<Rightarrow> nat) \<Rightarrow> nat \<Rightarrow> ('s \<Rightarrow> ow_port) \<Rightarrow> ((nat \<times> nat) list \<Rightarrow> nat \<Rightarrow> bool) \<Rightarrow> bool" where
  "ow_bus B now g port answer \<longleftrightarrow> timer0 B now g \<and>
     (\<forall>s. port (snd (rd32 B TCNTO0 s)) = port s) \<and>
     (\<forall>s a. a \<in> {GPGCON, GPGDAT} \<longrightarrow> port (snd (rd32 B a s)) = port s \<and>
        now s \<le> now (snd (rd32 B a s)) \<and> now (snd (rd32 B a s)) \<le> now s + g) \<and>
     (\<forall>s a v. a \<in> {GPGCON, GPGDAT} \<longrightarrow> now s \<le> now (wr32 B a v s) \<and> now (wr32 B a v s) \<le> now s + g) \<and>
     (\<forall>s. fst (rd32 B GPGCON s) = p_con (port s)) \<and>
     (\<forall>s. p_low (port s) = None \<longrightarrow> bit (fst (rd32 B GPGDAT s)) 6 = answer (p_pulses (port s)) (now (snd (rd32 B GPGDAT s)))) \<and>
     (\<forall>v s. port (wr32 B GPGCON v s) = ow_set v (p_dat (port s)) (now (wr32 B GPGCON v s)) (port s)) \<and>
     (\<forall>v s. port (wr32 B GPGDAT v s) = ow_set (p_con (port s)) v (now (wr32 B GPGDAT v s)) (port s))"

lemma ow_busD:
  assumes "ow_bus B now g port answer"
  shows "timer0 B now g" "port (snd (rd32 B TCNTO0 s)) = port s"
    "a \<in> {GPGCON, GPGDAT} \<Longrightarrow> port (snd (rd32 B a s)) = port s"
    "a \<in> {GPGCON, GPGDAT} \<Longrightarrow> now s \<le> now (snd (rd32 B a s))" "a \<in> {GPGCON, GPGDAT} \<Longrightarrow> now (snd (rd32 B a s)) \<le> now s + g"
    "a \<in> {GPGCON, GPGDAT} \<Longrightarrow> now s \<le> now (wr32 B a v s)" "a \<in> {GPGCON, GPGDAT} \<Longrightarrow> now (wr32 B a v s) \<le> now s + g"
    "fst (rd32 B GPGCON s) = p_con (port s)"
    "p_low (port s) = None \<Longrightarrow> bit (fst (rd32 B GPGDAT s)) 6 = answer (p_pulses (port s)) (now (snd (rd32 B GPGDAT s)))"
    "port (wr32 B GPGCON v s) = ow_set v (p_dat (port s)) (now (wr32 B GPGCON v s)) (port s)"
    "port (wr32 B GPGDAT v s) = ow_set (p_con (port s)) v (now (wr32 B GPGDAT v s)) (port s)"
  using assms unfolding ow_bus_def by blast+

lemma udelay_loop_frame:
  fixes B :: "'s bus"
  assumes ret: "udelay_loop B cnt pre s = Some s'" and fr: "\<And>s. f (snd (rd32 B TCNTO0 s)) = f s"
  shows "f s' = f s"
proof -
  have "(\<forall>s. f (snd (rd32 B TCNTO0 s)) = f s) \<longrightarrow> f s' = f s"
  proof (rule udelay_loop.raw_induct [where P = "\<lambda>B cnt pre s s'. (\<forall>s. f (snd (rd32 B TCNTO0 s)) = f s) \<longrightarrow> f s' = f s", OF _ ret])
    fix h and B :: "'s bus" and cnt pre s s'
    assume IH: "\<And>B cnt pre s s'. h B cnt pre s = Some s' \<Longrightarrow> (\<forall>s. f (snd (rd32 B TCNTO0 s)) = f s) \<longrightarrow> f s' = f s"
      and eq: "(if 0 < sint cnt then
          let (cur, s1) = rd32 B TCNTO0 s;
              delta = (if sint cur \<le> sint pre then pre - cur else pre + (50000 - cur))
          in h B (cnt - delta) cur s1
        else Some s) = Some s'"
    show "(\<forall>s. f (snd (rd32 B TCNTO0 s)) = f s) \<longrightarrow> f s' = f s"
    proof
      assume fr: "\<forall>s. f (snd (rd32 B TCNTO0 s)) = f s"
      obtain cur s1 where r: "rd32 B TCNTO0 s = (cur, s1)" by fastforce
      with fr have "f s1 = f s" by (metis snd_conv)
      with eq r fr show "f s' = f s" by (auto simp: Let_def split: if_splits dest: IH)
    qed
  qed
  with fr show ?thesis by simp
qed

lemma udelay_frame:
  assumes "udelay B n s = Some s'" "\<And>s. f (snd (rd32 B TCNTO0 s)) = f s"
  shows "f s' = f s"
proof -
  obtain pre s1 where r: "rd32 B TCNTO0 s = (pre, s1)" by fastforce
  then have "f s1 = f s" using assms(2) [of s] by simp
  moreover have l: "udelay_loop B (n * 5) pre s1 = Some s'" using assms(1) r by (simp add: udelay_def)
  have "f s' = f s1" by (rule udelay_loop_frame [OF l, of f, OF assms(2)])
  ultimately show ?thesis by simp
qed

lemma ow_delay:
  assumes "ow_bus B now g port answer" "unat n \<le> 1000"
  shows "\<exists>s'. udelay B n s = Some s' \<and> now s + 5 * unat n < now s' \<and> now s' \<le> now s + 5 * unat n + 2 * g \<and> port s' = port s"
proof -
  obtain s' where "udelay B n s = Some s'" "now s + 5 * unat n < now s'" "now s' \<le> now s + 5 * unat n + 2 * g"
    using udelay_returns [OF ow_busD(1) [OF assms(1)], of n s] assms(2) by auto
  moreover from this(1) have "port s' = port s" by (rule udelay_frame) (rule ow_busD(2) [OF assms(1)])
  ultimately show ?thesis by blast
qed

text \<open>A read-modify-write of one of the two registers.\<close>

lemma ow_con_and:
  assumes B: "ow_bus B now g port answer"
  shows "port (reg_and B GPGCON m s) = ow_set (p_con (port s) AND m) (p_dat (port s)) (now (reg_and B GPGCON m s)) (port s)"
    "now s \<le> now (reg_and B GPGCON m s)" "now (reg_and B GPGCON m s) \<le> now s + 2 * g"
proof -
  obtain v s1 where r: "rd32 B GPGCON s = (v, s1)" by fastforce
  have s1: "port s1 = port s" "v = p_con (port s)" "now s \<le> now s1" "now s1 \<le> now s + g"
    using ow_busD(3-5) [OF B, of GPGCON s] ow_busD(8) [OF B, of s] r by auto
  show "port (reg_and B GPGCON m s) = ow_set (p_con (port s) AND m) (p_dat (port s)) (now (reg_and B GPGCON m s)) (port s)"
    by (simp add: reg_and_def r ow_busD(10) [OF B] s1(1,2))
  show "now s \<le> now (reg_and B GPGCON m s)" "now (reg_and B GPGCON m s) \<le> now s + 2 * g"
    using ow_busD(6,7) [OF B, where a = GPGCON and s = s1 and v = "v AND m"] s1(3,4) by (simp_all add: reg_and_def r)
qed

lemma ow_con_or:
  assumes B: "ow_bus B now g port answer"
  shows "port (reg_or B GPGCON m s) = ow_set (p_con (port s) OR m) (p_dat (port s)) (now (reg_or B GPGCON m s)) (port s)"
    "now s \<le> now (reg_or B GPGCON m s)" "now (reg_or B GPGCON m s) \<le> now s + 2 * g"
proof -
  obtain v s1 where r: "rd32 B GPGCON s = (v, s1)" by fastforce
  have s1: "port s1 = port s" "v = p_con (port s)" "now s \<le> now s1" "now s1 \<le> now s + g"
    using ow_busD(3-5) [OF B, of GPGCON s] ow_busD(8) [OF B, of s] r by auto
  show "port (reg_or B GPGCON m s) = ow_set (p_con (port s) OR m) (p_dat (port s)) (now (reg_or B GPGCON m s)) (port s)"
    by (simp add: reg_or_def r ow_busD(10) [OF B] s1(1,2))
  show "now s \<le> now (reg_or B GPGCON m s)" "now (reg_or B GPGCON m s) \<le> now s + 2 * g"
    using ow_busD(6,7) [OF B, where a = GPGCON and s = s1 and v = "v OR m"] s1(3,4) by (simp_all add: reg_or_def r)
qed

lemma ow_dat_clear:
  assumes B: "ow_bus B now g port answer"
  obtains d where "port (reg_and B GPGDAT (NOT (push_bit 6 1)) s) =
      ow_set (p_con (port s)) d (now (reg_and B GPGDAT (NOT (push_bit 6 1)) s)) (port s)" "\<not> bit d 6"
    "now s \<le> now (reg_and B GPGDAT (NOT (push_bit 6 1)) s)" "now (reg_and B GPGDAT (NOT (push_bit 6 1)) s) \<le> now s + 2 * g"
proof -
  obtain v s1 where r: "rd32 B GPGDAT s = (v, s1)" by fastforce
  have s1: "port s1 = port s" "now s \<le> now s1" "now s1 \<le> now s + g"
    using ow_busD(3-5) [OF B, of GPGDAT s] r by auto
  show thesis
  proof (rule that [of "v AND NOT (push_bit 6 1)"])
    show "port (reg_and B GPGDAT (NOT (push_bit 6 1)) s) =
        ow_set (p_con (port s)) (v AND NOT (push_bit 6 1)) (now (reg_and B GPGDAT (NOT (push_bit 6 1)) s)) (port s)"
      by (simp add: reg_and_def r ow_busD(11) [OF B] s1(1))
    show "\<not> bit (v AND NOT (push_bit 6 1)) 6" by (simp add: bit_simps)
    show "now s \<le> now (reg_and B GPGDAT (NOT (push_bit 6 1)) s)" "now (reg_and B GPGDAT (NOT (push_bit 6 1)) s) \<le> now s + 2 * g"
      using ow_busD(6,7) [OF B, where a = GPGDAT and s = s1 and v = "v AND NOT (push_bit 6 1)"] s1(2,3) by (simp_all add: reg_and_def r)
  qed
qed

text \<open>A low pulse of \<open>us\<close> microseconds on a released wire.\<close>

definition ow_pulse :: "'s bus \<Rightarrow> u32 \<Rightarrow> 's \<Rightarrow> 's option" where
  "ow_pulse B us s = do { s \<leftarrow> ds18b20_data_set_val_for_time B False us s; Some (ds18b20_data_release B s) }"

lemma ow_pulse_made:
  assumes B: "ow_bus B now g port answer" and us: "unat us \<le> 1000" and rel: "p_low (port s) = None"
  shows "\<exists>s' t0 t1. ow_pulse B us s = Some s' \<and> p_low (port s') = None \<and> p_pulses (port s') = (t0, t1) # p_pulses (port s) \<and>
    now s \<le> t0 \<and> t0 + 5 * unat us < t1 \<and> t1 \<le> t0 + 5 * unat us + 10 * g \<and> now s' = t1"
proof -
  let ?s1 = "reg_and B GPGCON (NOT (push_bit 12 3)) s"
  let ?s2 = "reg_or B GPGCON (push_bit 12 1) ?s1"
  let ?s3 = "reg_and B GPGDAT (NOT (push_bit 6 1)) ?s2"
  have in_mode: "\<not> ow_drives (c AND NOT (push_bit 12 3)) d" for c d
    by (simp add: ow_drives_def bit_simps)
  have p1: "p_low (port ?s1) = None" "p_pulses (port ?s1) = p_pulses (port s)" "p_con (port ?s1) = p_con (port s) AND NOT (push_bit 12 3)"
    using rel in_mode by (simp_all add: ow_con_and(1) [OF B] ow_set_def)
  have out: "bit (p_con (port ?s1) OR push_bit 12 1) 12" "\<not> bit (p_con (port ?s1) OR push_bit 12 1) 13"
    unfolding p1(3) by (simp_all add: bit_simps)
  have t2: "now s \<le> now ?s1" "now ?s1 \<le> now ?s2" "now ?s2 \<le> now s + 4 * g"
    using ow_con_and(2,3) [OF B, where s = s and m = "NOT (push_bit 12 3)"] ow_con_or(2,3) [OF B, where s = ?s1 and m = "push_bit 12 1"] by linarith+
  have p2: "p_pulses (port ?s2) = p_pulses (port s)" "p_con (port ?s2) = p_con (port ?s1) OR push_bit 12 1"
    "p_low (port ?s2) = None \<or> p_low (port ?s2) = Some (now ?s2)"
    using p1 by (simp_all add: ow_con_or(1) [OF B] ow_set_def)
  obtain d where d: "port ?s3 = ow_set (p_con (port ?s2)) d (now ?s3) (port ?s2)" "\<not> bit d 6" "now ?s2 \<le> now ?s3" "now ?s3 \<le> now ?s2 + 2 * g"
    by (rule ow_dat_clear [OF B])
  have dr: "ow_drives (p_con (port ?s2)) d" unfolding p2(2) ow_drives_def using out d(2) by simp
  then obtain t0 where p3: "p_low (port ?s3) = Some t0" "p_pulses (port ?s3) = p_pulses (port s)" "now s \<le> t0" "t0 \<le> now ?s3"
    using p2(1,3) d(1,3) t2 by (auto simp: ow_set_def)
  obtain s4 where s4: "udelay B us ?s3 = Some s4" "now ?s3 + 5 * unat us < now s4" "now s4 \<le> now ?s3 + 5 * unat us + 2 * g" "port s4 = port ?s3"
    using ow_delay [OF B us] by blast
  let ?s5 = "reg_and B GPGCON (NOT (push_bit 12 3)) s4"
  have t5: "now s4 \<le> now ?s5" "now ?s5 \<le> now s4 + 2 * g" using ow_con_and(2,3) [OF B] by blast+
  have p5: "p_low (port ?s5) = None" "p_pulses (port ?s5) = (t0, now ?s5) # p_pulses (port s)"
    using s4(4) p3 in_mode by (simp_all add: ow_con_and(1) [OF B] ow_set_def)
  show ?thesis
  proof (intro exI conjI)
    show "ow_pulse B us s = Some ?s5"
      using s4(1) by (simp add: ow_pulse_def ds18b20_data_set_val_for_time_def ds18b20_data_cfg_as_output_def
          ds18b20_data_set_def ds18b20_data_release_def ds18b20_data_cfg_as_input_def)
    show "now ?s5 \<le> t0 + 5 * unat us + 10 * g" "t0 + 5 * unat us < now ?s5" using p3 s4 t5 d t2 by linarith+
  qed (use p5 p3 in auto)
qed

section \<open>The sensor\<close>

text \<open>
  What the sensor makes of the pulses. A pulse of at least 480 microseconds is a reset. A slot is a pulse of 1 to 15
  microseconds (a 1, or a read) or of 60 to 120 (a 0). Slots start at least 61 microseconds apart with a pause of one in
  between. Bits go least significant first.

  In two places the driver relies on more than the data sheet promises of every sensor. It sends the first slot 330
  microseconds after the reset, where the data sheet asks for 480; so the sensor has to be ready when its presence pulse
  is over, after at most 320. And it looks for the presence pulse after 80 microseconds, when a pulse of the least
  length may have ended; so the pulse has to last until 110.
\<close>

definition is_reset :: "nat \<times> nat \<Rightarrow> bool" where
  "is_reset p \<longleftrightarrow> 2400 \<le> snd p - fst p"

definition slot :: "nat \<times> nat \<Rightarrow> bool option" where
  "slot p = (let d = snd p - fst p in if 5 \<le> d \<and> d \<le> 75 then Some True else if 300 \<le> d \<and> d \<le> 600 then Some False else None)"

fun gap :: "(nat \<times> nat) list \<Rightarrow> nat \<Rightarrow> bool" where
  "gap [] t = True"
| "gap ((t0, t1) # ps) t = (if is_reset (t0, t1) then t1 + 1600 \<le> t else t1 + 5 \<le> t \<and> t0 + 305 \<le> t)"

definition bits_lsb :: "u8 \<Rightarrow> bool list" where
  "bits_lsb v = map (bit v) [0..<8]"

datatype ow_state = Lost | Rom "bool list" | Func "bool list" | Send "bool list" | Convert nat

definition rom_cmd :: "u8 list \<Rightarrow> bool list \<Rightarrow> ow_state" where
  "rom_cmd rom bs =
     (if bs = bits_lsb 0x33 then Send (concat (map bits_lsb rom)) else if bs = bits_lsb 0xCC then Func [] else Lost)"

definition func_cmd :: "u8 list \<Rightarrow> nat \<Rightarrow> bool list \<Rightarrow> ow_state" where
  "func_cmd ram t bs =
     (if bs = bits_lsb 0xBE then Send (concat (map bits_lsb ram)) else if bs = bits_lsb 0x44 then Convert t else Lost)"

fun ow_next :: "u8 list \<Rightarrow> u8 list \<Rightarrow> ow_state \<Rightarrow> bool \<Rightarrow> nat \<Rightarrow> ow_state" where
  "ow_next rom ram Lost b t = Lost"
| "ow_next rom ram (Rom bs) b t = (if length bs < 7 then Rom (bs @ [b]) else rom_cmd rom (bs @ [b]))"
| "ow_next rom ram (Func bs) b t = (if length bs < 7 then Func (bs @ [b]) else func_cmd ram t (bs @ [b]))"
| "ow_next rom ram (Send bs) b t = (if b then Send (tl bs) else Lost)"
| "ow_next rom ram (Convert t0) b t = (if b then Convert t0 else Lost)"

fun ow_run :: "u8 list \<Rightarrow> u8 list \<Rightarrow> (nat \<times> nat) list \<Rightarrow> ow_state" where
  "ow_run rom ram [] = Lost"
| "ow_run rom ram (p # ps) =
     (if is_reset p then Rom []
      else if gap ps (fst p)
      then case slot p of None \<Rightarrow> Lost | Some b \<Rightarrow> ow_next rom ram (ow_run rom ram ps) b (snd p)
      else Lost)"

text \<open>
  The level of the wire: low from 60 to 110 microseconds after a reset; after the start of a read slot, for \<open>hold\<close> counts,
  the next bit to send, or during a conversion whether it is over, \<open>T\<close> counts after the command.
\<close>

definition ds_device :: "((nat \<times> nat) list \<Rightarrow> nat \<Rightarrow> bool) \<Rightarrow> u8 list \<Rightarrow> u8 list \<Rightarrow> nat \<Rightarrow> nat \<Rightarrow> bool" where
  "ds_device answer rom ram hold T \<longleftrightarrow>
     (\<forall>t0 t1 ps t. is_reset (t0, t1) \<and> t1 + 300 \<le> t \<and> t \<le> t1 + 550 \<longrightarrow> \<not> answer ((t0, t1) # ps) t) \<and>
     (\<forall>t0 t1 ps t b bs. slot (t0, t1) = Some True \<and> gap ps t0 \<and> ow_run rom ram ps = Send (b # bs) \<and> t1 \<le> t \<and> t \<le> t0 + hold \<longrightarrow>
        answer ((t0, t1) # ps) t = b) \<and>
     (\<forall>t0 t1 ps t tc. slot (t0, t1) = Some True \<and> gap ps t0 \<and> ow_run rom ram ps = Convert tc \<and> t1 \<le> t \<and> t \<le> t0 + hold \<longrightarrow>
        answer ((t0, t1) # ps) t = (tc + T \<le> t0))"

definition ds_wire ::
    "'s bus \<Rightarrow> ('s \<Rightarrow> nat) \<Rightarrow> nat \<Rightarrow> ('s \<Rightarrow> ow_port) \<Rightarrow> ((nat \<times> nat) list \<Rightarrow> nat \<Rightarrow> bool) \<Rightarrow> u8 list \<Rightarrow> u8 list \<Rightarrow> nat \<Rightarrow> nat \<Rightarrow> bool" where
  "ds_wire B now g port answer rom ram hold T \<longleftrightarrow>
     ow_bus B now g port answer \<and> ds_device answer rom ram hold T \<and> g \<le> 6 \<and> 60 + 13 * g \<le> hold"

lemma ds_wireD:
  assumes "ds_wire B now g port answer rom ram hold T"
  shows "ow_bus B now g port answer" "ds_device answer rom ram hold T" "g \<le> 6" "60 + 13 * g \<le> hold"
  using assms by (simp_all add: ds_wire_def)

text \<open>The wire is released, the next slot may start, and the sensor is in the given state.\<close>

definition ow_ready :: "u8 list \<Rightarrow> u8 list \<Rightarrow> ('s \<Rightarrow> nat) \<Rightarrow> ('s \<Rightarrow> ow_port) \<Rightarrow> 's \<Rightarrow> ow_state \<Rightarrow> bool" where
  "ow_ready rom ram now port s st \<longleftrightarrow>
     p_low (port s) = None \<and> gap (p_pulses (port s)) (now s) \<and> ow_run rom ram (p_pulses (port s)) = st"

lemma gap_mono: "gap ps t \<Longrightarrow> t \<le> t' \<Longrightarrow> gap ps t'"
  by (cases ps) (auto split: if_splits)

lemma slot_not_reset: "slot p = Some b \<Longrightarrow> \<not> is_reset p"
  by (auto simp: slot_def is_reset_def Let_def split: if_splits)

lemma ow_run_slot:
  assumes "gap ps t0" "slot (t0, t1) = Some b"
  shows "ow_run rom ram ((t0, t1) # ps) = ow_next rom ram (ow_run rom ram ps) b t1"
  using assms slot_not_reset [OF assms(2)] by simp

section \<open>Slots\<close>

lemma ds_initialization:
  assumes w: "ds_wire B now g port answer rom ram hold T" and rel: "p_low (port s) = None"
  obtains s' where "ds18b20_initialization B s = Some (0, s')" "ow_ready rom ram now port s' (Rom [])"
proof -
  note B = ds_wireD(1) [OF w] and dev = ds_wireD(2) [OF w] and g = ds_wireD(3) [OF w]
  obtain s1 t0 t1 where s1: "ow_pulse B 500 s = Some s1" "p_low (port s1) = None" "p_pulses (port s1) = (t0, t1) # p_pulses (port s)"
    "t0 + 2500 < t1" "now s1 = t1"
    using ow_pulse_made [OF B _ rel, of 500] by auto
  obtain s2 where s2: "udelay B 80 s1 = Some s2" "t1 + 400 < now s2" "now s2 \<le> t1 + 400 + 2 * g" "port s2 = port s1"
    using ow_delay [OF B, of 80 s1] s1(5) by auto
  obtain v s3 where r: "rd32 B GPGDAT s2 = (v, s3)" by fastforce
  have s3: "port s3 = port s1" "now s2 \<le> now s3" "now s3 \<le> now s2 + g" "bit v 6 = answer ((t0, t1) # p_pulses (port s)) (now s3)"
    using ow_busD(3-5) [OF B, of GPGDAT s2] ow_busD(9) [OF B, of s2] r s1(2,3) s2(4) by auto
  have res: "is_reset (t0, t1)" using s1(4) by (simp add: is_reset_def)
  have "\<not> bit v 6" using dev res s2 s3 g unfolding ds_device_def by auto
  then have get: "ds18b20_data_get B s2 = (0, s3)" unfolding ds18b20_data_get_def and_bit_eq_0 r by simp
  obtain s4 where s4: "udelay B 250 s3 = Some s4" "now s3 + 1250 < now s4" "port s4 = port s3"
    using ow_delay [OF B, of 250 s3] by auto
  show thesis
  proof (rule that [of s4])
    show "ds18b20_initialization B s = Some (0, s4)"
      using s1(1) s2(1) get s4(1) by (auto simp: ds18b20_initialization_def ow_pulse_def split: Option.bind_splits)
    show "ow_ready rom ram now port s4 (Rom [])"
      using s1(2,3) s2(2) s3(1,2) s4(2,3) res by (simp add: ow_ready_def)
  qed
qed

lemma ds_write_bit:
  assumes w: "ds_wire B now g port answer rom ram hold T" and r: "ow_ready rom ram now port s st"
  obtains s' t where "ds18b20_write_bit B b s = Some s'" "ow_ready rom ram now port s' (ow_next rom ram st b t)" "t \<le> now s'"
proof -
  note B = ds_wireD(1) [OF w] and g = ds_wireD(3) [OF w]
  let ?us = "if b then 2 else 60 :: u32" and ?rest = "if b then 60 else 2 :: u32"
  have us: "unat ?us \<le> 1000" "unat ?rest \<le> 1000" by simp_all
  have rel: "p_low (port s) = None" using r by (simp add: ow_ready_def)
  obtain s1 t0 t1 where s1: "ow_pulse B ?us s = Some s1" "p_low (port s1) = None" "p_pulses (port s1) = (t0, t1) # p_pulses (port s)"
    "now s \<le> t0" "t0 + 5 * unat ?us < t1" "t1 \<le> t0 + 5 * unat ?us + 10 * g" "now s1 = t1"
    using ow_pulse_made [OF B us(1) rel] by blast
  obtain s2 where s2: "udelay B ?rest s1 = Some s2" "t1 + 5 * unat ?rest < now s2" "port s2 = port s1"
    using ow_delay [OF B us(2), of s1] s1(7) by auto
  have slot: "slot (t0, t1) = Some b" using s1(5,6) g by (auto simp: slot_def Let_def split: if_splits)
  have gap: "gap (p_pulses (port s)) t0" using r s1(4) gap_mono by (auto simp: ow_ready_def)
  show thesis
  proof (rule that [of s2 t1])
    show "ds18b20_write_bit B b s = Some s2"
      using s1(1) s2(1) by (cases b) (auto simp: ds18b20_write_bit_def ow_pulse_def split: Option.bind_splits)
    show "ow_ready rom ram now port s2 (ow_next rom ram st b t1)"
      unfolding ow_ready_def s2(3) s1(3) ow_run_slot [OF gap slot]
      using r s1(2,5) s2(2) slot_not_reset [OF slot] by (auto simp: ow_ready_def split: if_splits)
    show "t1 \<le> now s2" using s2(2) by simp
  qed
qed

text \<open>A read slot: the value is the level that the sensor gives in it.\<close>

lemma ds_read_slot:
  assumes w: "ds_wire B now g port answer rom ram hold T" and r: "ow_ready rom ram now port s st"
  obtains s' t0 t1 t where
    "ds18b20_read_bit B s = Some (if answer ((t0, t1) # p_pulses (port s)) t then 1 else 0, s')"
    "slot (t0, t1) = Some True" "gap (p_pulses (port s)) t0" "t1 \<le> t" "t \<le> t0 + hold" "now s \<le> t0" "now s + 300 \<le> now s'"
    "ow_ready rom ram now port s' (ow_next rom ram st True t1)"
proof -
  note B = ds_wireD(1) [OF w] and g = ds_wireD(3,4) [OF w]
  obtain s1 t0 t1 where s1: "ow_pulse B 2 s = Some s1" "p_low (port s1) = None" "p_pulses (port s1) = (t0, t1) # p_pulses (port s)"
    "now s \<le> t0" "t0 + 10 < t1" "t1 \<le> t0 + 10 + 10 * g" "now s1 = t1"
    using ow_pulse_made [OF B, of 2 s] r by (auto simp: ow_ready_def)
  obtain s2 where s2: "udelay B 10 s1 = Some s2" "t1 + 50 < now s2" "now s2 \<le> t1 + 50 + 2 * g" "port s2 = port s1"
    using ow_delay [OF B, of 10 s1] s1(7) by auto
  obtain v s3 where rd: "rd32 B GPGDAT s2 = (v, s3)" by fastforce
  have s3: "port s3 = port s1" "now s2 \<le> now s3" "now s3 \<le> now s2 + g" "bit v 6 = answer ((t0, t1) # p_pulses (port s)) (now s3)"
    using ow_busD(3-5) [OF B, of GPGDAT s2] ow_busD(9) [OF B, of s2] rd s1(2,3) s2(4) by auto
  have get: "ds18b20_data_get B s2 = (if answer ((t0, t1) # p_pulses (port s)) (now s3) then 1 else 0, s3)"
    unfolding ds18b20_data_get_def and_bit_eq_0 rd using s3(4) by simp
  obtain s4 where s4: "udelay B 50 s3 = Some s4" "now s3 + 250 < now s4" "port s4 = port s3"
    using ow_delay [OF B, of 50 s3] by auto
  have slot: "slot (t0, t1) = Some True" using s1(5,6) g by (auto simp: slot_def Let_def)
  have gap: "gap (p_pulses (port s)) t0" using r s1(4) gap_mono by (auto simp: ow_ready_def)
  show thesis
  proof (rule that [of t0 t1 "now s3" s4])
    show "ds18b20_read_bit B s = Some (if answer ((t0, t1) # p_pulses (port s)) (now s3) then 1 else 0, s4)"
      using s1(1) s2(1) get s4(1) by (auto simp: ds18b20_read_bit_def ow_pulse_def split: Option.bind_splits)
    show "ow_ready rom ram now port s4 (ow_next rom ram st True t1)"
      unfolding ow_ready_def s4(3) s3(1) s1(3) ow_run_slot [OF gap slot]
      using r s1(2,5) s2(2) s3(2) s4(2) slot_not_reset [OF slot] by (auto simp: ow_ready_def)
  qed (use slot gap s1 s2 s3 s4 g in auto)
qed

lemma ds_read_bit:
  assumes w: "ds_wire B now g port answer rom ram hold T" and r: "ow_ready rom ram now port s (Send (b # bs))"
  obtains s' where "ds18b20_read_bit B s = Some (if b then 1 else 0, s')" "ow_ready rom ram now port s' (Send bs)"
proof -
  obtain s' t0 t1 t where s': "ds18b20_read_bit B s = Some (if answer ((t0, t1) # p_pulses (port s)) t then 1 else 0, s')"
    "slot (t0, t1) = Some True" "gap (p_pulses (port s)) t0" "t1 \<le> t" "t \<le> t0 + hold"
    "ow_ready rom ram now port s' (ow_next rom ram (Send (b # bs)) True t1)"
    by (rule ds_read_slot [OF w r])
  have "ow_run rom ram (p_pulses (port s)) = Send (b # bs)" using r by (simp add: ow_ready_def)
  then have "answer ((t0, t1) # p_pulses (port s)) t = b"
    using ds_wireD(2) [OF w] s'(2-5) unfolding ds_device_def by blast
  with s'(1,6) show thesis by (intro that [of s']) simp_all
qed

lemma ds_read_busy:
  assumes w: "ds_wire B now g port answer rom ram hold T" and r: "ow_ready rom ram now port s (Convert tc)"
  obtains v s' where "ds18b20_read_bit B s = Some (v, s')" "ow_ready rom ram now port s' (Convert tc)" "now s + 300 \<le> now s'"
    "tc + T \<le> now s \<longrightarrow> v = 1"
proof -
  obtain s' t0 t1 t where s': "ds18b20_read_bit B s = Some (if answer ((t0, t1) # p_pulses (port s)) t then 1 else 0, s')"
    "slot (t0, t1) = Some True" "gap (p_pulses (port s)) t0" "t1 \<le> t" "t \<le> t0 + hold" "now s \<le> t0" "now s + 300 \<le> now s'"
    "ow_ready rom ram now port s' (ow_next rom ram (Convert tc) True t1)"
    by (rule ds_read_slot [OF w r])
  have "ow_run rom ram (p_pulses (port s)) = Convert tc" using r by (simp add: ow_ready_def)
  then have "answer ((t0, t1) # p_pulses (port s)) t = (tc + T \<le> t0)"
    using ds_wireD(2) [OF w] s'(2-5) unfolding ds_device_def by blast
  with s'(1,6,7,8) show thesis by (intro that [of "if tc + T \<le> t0 then 1 else 0" s']) auto
qed

section \<open>Bytes\<close>

lemma bits_lsb_drop: "i < 8 \<Longrightarrow> drop i (bits_lsb v) = bit v i # drop (Suc i) (bits_lsb v)"
  by (simp add: bits_lsb_def Cons_nth_drop_Suc [symmetric])

lemma length_bits_lsb [simp]: "length (bits_lsb v) = 8"
  by (simp add: bits_lsb_def)

lemma bits_lsb_take: "i < 8 \<Longrightarrow> take i (bits_lsb v) @ [bit v i] = take (Suc i) (bits_lsb v)"
  by (simp add: take_Suc_conv_app_nth) (simp add: bits_lsb_def)

text \<open>\<open>st\<close> is the state while a command comes in, and \<open>cmd\<close> the state after it.\<close>

lemma ds_write_bits:
  assumes w: "ds_wire B now g port answer rom ram hold T"
    and st: "\<And>bs b t. length bs < 7 \<Longrightarrow> ow_next rom ram (st bs) b t = st (bs @ [b])"
    and cmd: "\<And>bs b t. length bs = 7 \<Longrightarrow> ow_next rom ram (st bs) b t = cmd t (bs @ [b])"
  shows "i + Suc n = 8 \<Longrightarrow> ow_ready rom ram now port s (st (take i (bits_lsb v))) \<Longrightarrow>
    \<exists>s' t. ds18b20_write_bits B v i (Suc n) s = Some s' \<and> ow_ready rom ram now port s' (cmd t (bits_lsb v)) \<and> t \<le> now s'"
proof (induction n arbitrary: i s)
  case 0
  obtain s' t where s': "ds18b20_write_bit B (bit v i) s = Some s'"
    "ow_ready rom ram now port s' (ow_next rom ram (st (take i (bits_lsb v))) (bit v i) t)" "t \<le> now s'"
    by (rule ds_write_bit [OF w 0(2)])
  have "ow_next rom ram (st (take i (bits_lsb v))) (bit v i) t = cmd t (bits_lsb v)"
    using 0(1) cmd [of "take i (bits_lsb v)" "bit v i" t] bits_lsb_take [of i v] by simp
  moreover have "ds18b20_write_bits B v i (Suc 0) s = Some s'" using s'(1) by (simp add: and_bit_eq_0 del: push_bit_of_1)
  ultimately show ?case using s'(2,3) by auto
next
  case (Suc n)
  obtain s' t where s': "ds18b20_write_bit B (bit v i) s = Some s'"
    "ow_ready rom ram now port s' (ow_next rom ram (st (take i (bits_lsb v))) (bit v i) t)"
    by (rule ds_write_bit [OF w Suc.prems(2)])
  have "ow_next rom ram (st (take i (bits_lsb v))) (bit v i) t = st (take (Suc i) (bits_lsb v))"
    using Suc.prems(1) st [of "take i (bits_lsb v)" "bit v i" t] bits_lsb_take [of i v] by simp
  moreover have "ds18b20_write_bits B v i (Suc (Suc n)) s = ds18b20_write_bits B v (Suc i) (Suc n) s'"
    using s'(1) by (simp add: and_bit_eq_0 del: push_bit_of_1)
  ultimately show ?case using s'(2) Suc.IH [of "Suc i" s'] Suc.prems(1) by simp
qed

lemma ds_write_rom_cmd:
  assumes "ds_wire B now g port answer rom ram hold T" "ow_ready rom ram now port s (Rom [])"
  shows "\<exists>s' t. ds18b20_write_rom_cmd B v s = Some s' \<and> ow_ready rom ram now port s' (rom_cmd rom (bits_lsb v)) \<and> t \<le> now s'"
  using ds_write_bits [OF assms(1), of Rom "\<lambda>t. rom_cmd rom" 0 7 s v] assms(2)
  by (simp add: ds18b20_write_rom_cmd_def ds18b20_write_byte_def eval_nat_numeral)

lemma ds_write_function_cmd:
  assumes "ds_wire B now g port answer rom ram hold T" "ow_ready rom ram now port s (Func [])"
  shows "\<exists>s' t. ds18b20_write_function_cmd B v s = Some s' \<and> ow_ready rom ram now port s' (func_cmd ram t (bits_lsb v)) \<and> t \<le> now s'"
  using ds_write_bits [OF assms(1), of Func "func_cmd ram" 0 7 s v] assms(2)
  by (simp add: ds18b20_write_function_cmd_def ds18b20_write_byte_def eval_nat_numeral)

lemma take_bit_Suc_or: "take_bit (Suc i) v = (if bit v i then take_bit i v OR push_bit i 1 else take_bit i v)" for v :: u8
  by (rule bit_word_eqI) (auto simp: bit_simps less_Suc_eq)

lemma ds_read_bits:
  assumes w: "ds_wire B now g port answer rom ram hold T"
  shows "i + n = 8 \<Longrightarrow> ow_ready rom ram now port s (Send (drop i (bits_lsb v) @ bs)) \<Longrightarrow>
    \<exists>s'. ds18b20_read_bits B i n (take_bit i v) s = Some (take_bit 8 v, s') \<and> ow_ready rom ram now port s' (Send bs)"
proof (induction n arbitrary: i s)
  case 0
  then show ?case by simp
next
  case (Suc n)
  have d: "drop i (bits_lsb v) = bit v i # drop (Suc i) (bits_lsb v)" using Suc.prems(1) by (intro bits_lsb_drop) simp
  obtain s' where s': "ds18b20_read_bit B s = Some (if bit v i then 1 else 0, s')"
    "ow_ready rom ram now port s' (Send (drop (Suc i) (bits_lsb v) @ bs))"
    using Suc.prems(2) unfolding d append_Cons by (rule ds_read_bit [OF w])
  with Suc.IH [of "Suc i" s'] Suc.prems(1) show ?case by (auto simp: take_bit_Suc_or split: if_splits)
qed

lemma ds_read_byte:
  assumes "ds_wire B now g port answer rom ram hold T" "ow_ready rom ram now port s (Send (bits_lsb v @ bs))"
  shows "\<exists>s'. ds18b20_read_byte B s = Some (v, s') \<and> ow_ready rom ram now port s' (Send bs)"
proof -
  have "take_bit 8 v = v" by (rule bit_word_eqI) (simp add: bit_simps)
  with ds_read_bits [OF assms(1), of 0 8 s v bs] assms(2) show ?thesis by (simp add: ds18b20_read_byte_def)
qed

lemma ds_read_bytes:
  assumes w: "ds_wire B now g port answer rom ram hold T"
  shows "ow_ready rom ram now port s (Send (concat (map bits_lsb vs))) \<Longrightarrow>
    \<exists>s'. ds18b20_read_bytes B (length vs) s = Some (vs, s') \<and> ow_ready rom ram now port s' (Send [])"
proof (induction vs arbitrary: s)
  case (Cons v vs)
  obtain s1 where "ds18b20_read_byte B s = Some (v, s1)" "ow_ready rom ram now port s1 (Send (concat (map bits_lsb vs)))"
    using ds_read_byte [OF w, of s v "concat (map bits_lsb vs)"] Cons.prems by auto
  with Cons.IH [of s1] show ?case by auto
qed simp

section \<open>The operations\<close>

text \<open>The wait ends, because a round takes longer than 300 counts and the conversion is over after \<open>T\<close>.\<close>

lemma ds_wait_converted:
  assumes w: "ds_wire B now g port answer rom ram hold T"
  shows "ow_ready rom ram now port s (Convert tc) \<Longrightarrow> 0 < n \<Longrightarrow> tc + T \<le> now s + 300 * (n - 1) \<Longrightarrow>
    \<exists>s'. ds18b20_wait_when_processing B n s = Some (0, s') \<and> ow_ready rom ram now port s' (Convert tc)"
proof (induction n arbitrary: s)
  case (Suc n)
  obtain v s1 where s1: "ds18b20_read_bit B s = Some (v, s1)" "ow_ready rom ram now port s1 (Convert tc)" "now s + 300 \<le> now s1"
    "tc + T \<le> now s \<longrightarrow> v = 1" by (rule ds_read_busy [OF w Suc.prems(1)])
  show ?case
  proof (cases "v = 1")
    case False
    with s1(4) Suc.prems(3) have n: "0 < n" by (cases n) auto
    obtain s2 where s2: "udelay B 1 s1 = Some s2" "now s1 + 5 < now s2" "port s2 = port s1"
      using ow_delay [OF ds_wireD(1) [OF w], of 1 s1] by auto
    have "ow_ready rom ram now port s2 (Convert tc)" using s1(2) s2(2,3) gap_mono by (auto simp: ow_ready_def)
    moreover have "tc + T \<le> now s2 + 300 * (n - 1)" using Suc.prems(3) s1(3) s2(2) n by (cases n) auto
    ultimately show ?thesis using Suc.IH [of s2] n s1(1) s2(1) False by simp
  qed (use s1 in simp)
qed simp

lemma bits_lsb_inj: "bits_lsb v = bits_lsb w \<longleftrightarrow> v = w"
proof
  assume eq: "bits_lsb v = bits_lsb w"
  show "v = w"
  proof (rule bit_word_eqI)
    fix n assume "n < LENGTH(8)"
    then show "bit v n = bit w n" using arg_cong [OF eq, of "\<lambda>l. l ! n"] by (simp add: bits_lsb_def)
  qed
qed simp

lemma ds_start_convert:
  assumes w: "ds_wire B now g port answer rom ram hold T" and "p_low (port s) = None" "T \<le> 3750000"
  shows "\<exists>s'. ds18b20_start_convert B s = Some (0, s') \<and> p_low (port s') = None"
proof -
  obtain s1 where s1: "ds18b20_initialization B s = Some (0, s1)" "ow_ready rom ram now port s1 (Rom [])"
    by (rule ds_initialization [OF w assms(2)])
  obtain s2 where s2: "ds18b20_write_rom_cmd B SKIP_ROM s1 = Some s2" "ow_ready rom ram now port s2 (Func [])"
    using ds_write_rom_cmd [OF w s1(2), of SKIP_ROM] by (auto simp: rom_cmd_def bits_lsb_inj SKIP_ROM_def)
  obtain s3 t where s3: "ds18b20_write_function_cmd B CONVERT_TEAMPERATURE s2 = Some s3" "ow_ready rom ram now port s3 (Convert t)" "t \<le> now s3"
    using ds_write_function_cmd [OF w s2(2), of CONVERT_TEAMPERATURE] by (auto simp: func_cmd_def bits_lsb_inj CONVERT_TEAMPERATURE_def)
  have "t + T \<le> now s3 + 300 * (1000000 - 1)" using s3(3) assms(3) by simp
  then obtain s4 where "ds18b20_wait_when_processing B 1000000 s3 = Some (0, s4)" "ow_ready rom ram now port s4 (Convert t)"
    using ds_wait_converted [OF w s3(2), of 1000000] by auto
  with s1(1) s2(1) s3(1) show ?thesis by (simp add: ds18b20_start_convert_def ow_ready_def)
qed

lemma ds_read_ram:
  assumes w: "ds_wire B now g port answer rom ram hold T" and "p_low (port s) = None" "length ram = 9"
  shows "\<exists>s'. ds18b20_read_ram B ram0 s = Some (0, ram, s')"
proof -
  obtain s1 where s1: "ds18b20_initialization B s = Some (0, s1)" "ow_ready rom ram now port s1 (Rom [])"
    by (rule ds_initialization [OF w assms(2)])
  obtain s2 where s2: "ds18b20_write_rom_cmd B SKIP_ROM s1 = Some s2" "ow_ready rom ram now port s2 (Func [])"
    using ds_write_rom_cmd [OF w s1(2), of SKIP_ROM] by (auto simp: rom_cmd_def bits_lsb_inj SKIP_ROM_def)
  obtain s3 where s3: "ds18b20_write_function_cmd B READ_SCRATCHPAD s2 = Some s3"
    "ow_ready rom ram now port s3 (Send (concat (map bits_lsb ram)))"
    using ds_write_function_cmd [OF w s2(2), of READ_SCRATCHPAD] by (auto simp: func_cmd_def bits_lsb_inj READ_SCRATCHPAD_def)
  obtain s4 where "ds18b20_read_bytes B 9 s3 = Some (ram, s4)" using ds_read_bytes [OF w s3(2)] assms(3) by auto
  with s1(1) s2(1) s3(1) show ?thesis by (simp add: ds18b20_read_ram_def)
qed

text \<open>The identification of the sensor is read as it is.\<close>

lemma ds_read_rom:
  assumes w: "ds_wire B now g port answer rom ram hold T" and "p_low (port s) = None" "length rom = 8"
  shows "\<exists>s'. ds18b20_read_rom B rom0 s = Some (0, rom, s')"
proof -
  obtain s1 where s1: "ds18b20_initialization B s = Some (0, s1)" "ow_ready rom ram now port s1 (Rom [])"
    by (rule ds_initialization [OF w assms(2)])
  obtain s2 where s2: "ds18b20_write_rom_cmd B READ_ROM s1 = Some s2" "ow_ready rom ram now port s2 (Send (concat (map bits_lsb rom)))"
    using ds_write_rom_cmd [OF w s1(2), of READ_ROM] by (auto simp: rom_cmd_def READ_ROM_def)
  obtain s3 where "ds18b20_read_bytes B 8 s2 = Some (rom, s3)" using ds_read_bytes [OF w s2(2)] assms(3) by auto
  with s1(1) s2(1) show ?thesis by (simp add: ds18b20_read_rom_def)
qed

section \<open>The temperature\<close>

lemma if_add: "(if b then s + c else s) = s + of_bool b * (c :: rat)"
  by simp

lemma ds_sum_bits:
  fixes w :: u16
  assumes "ram ! 0 = ucast w" "ram ! 1 = ucast (drop_bit 8 w)"
  shows "ds18b20_sum ram = (if bit w 11 then - of_nat (unat w mod 2048) / 16 else of_nat (unat w mod 2048) / 16)"
proof -
  have c: "c_bool (push_bit 5 3 = (0 :: u32)) = 0" "c_bool (push_bit 5 3 = (push_bit 5 1 :: u32)) = 0"
    "c_bool (push_bit 5 3 = (push_bit 5 2 :: u32)) = 0" by (simp_all add: c_bool_def)
  have b0: "(ram ! 0 AND push_bit i 1 \<noteq> 0) = bit w i" if "i < 8" for i
    unfolding and_bit_eq_0 assms(1) using that by (simp add: bit_simps)
  have b1: "(ram ! 1 AND push_bit i 1 \<noteq> 0) = bit w (8 + i)" if "i < 8" for i
    unfolding and_bit_eq_0 assms(2) using that by (simp add: bit_simps)
  have "of_nat (unat w mod 2048) = (rat_of_nat (take_bit 11 (unat w)))" by (simp add: take_bit_eq_mod)
  also have "\<dots> = (\<Sum>k = 0..<11. 2 ^ k * of_bool (bit w k))"
    by (simp add: take_bit_sum push_bit_eq_mult bit_unsigned_iff mult.commute)
  finally have v: "rat_of_nat (unat w mod 2048) = (\<Sum>k = 0..<11. 2 ^ k * of_bool (bit w k))" .
  have up: "[0..<8] = [0, 1, 2, 3, 4, 5, 6, 7 :: nat]" "[0..<3] = [0, 1, 2 :: nat]" by (simp_all add: upt_rec)
  have "fold (\<lambda>i sum. if ram ! 1 AND push_bit i 1 \<noteq> 0 then sum + ds18b20_val ! (8 + i) else sum) [0..<3]
      (fold (\<lambda>i sum. if ram ! 0 AND push_bit i 1 \<noteq> 0 then sum + ds18b20_val ! i else sum) [0..<8] 0) =
      fold (\<lambda>i sum. sum + of_bool (bit w (8 + i)) * ds18b20_val ! (8 + i)) [0..<3]
      (fold (\<lambda>i sum. sum + of_bool (bit w i) * ds18b20_val ! i) [0..<8] 0)"
    unfolding if_add using b0 b1 by (intro fold_cong) auto
  also have "\<dots> = rat_of_nat (unat w mod 2048) / 16"
    unfolding up v by (simp add: ds18b20_val_def eval_nat_numeral field_simps)
  finally have sum: "fold (\<lambda>i sum. if ram ! 1 AND push_bit i 1 \<noteq> 0 then sum + ds18b20_val ! (8 + i) else sum) [0..<3]
      (fold (\<lambda>i sum. if ram ! 0 AND push_bit i 1 \<noteq> 0 then sum + ds18b20_val ! i else sum) [0..<8] 0) =
      rat_of_nat (unat w mod 2048) / 16" .
  show ?thesis
    unfolding ds18b20_sum_def Let_def c and_zero_eq simp_thms if_False sum using b1 [of 3] by simp
qed

lemma sint16_cases:
  fixes w :: u16
  assumes "- 2048 \<le> sint w" "sint w < 2048"
  shows "0 \<le> sint w \<Longrightarrow> \<not> bit w 11 \<and> int (unat w mod 2048) = sint w"
    and "sint w < 0 \<Longrightarrow> bit w 11 \<and> int (unat w mod 2048) = sint w + 2048"
proof -
  have u: "int (unat w) = sint w mod 65536" by (simp flip: uint_nat add: uint_sint take_bit_eq_mod)
  have b: "bit w 11 = odd (unat w div 2048)" by (simp add: bit_unsigned_iff flip: bit_iff_odd [of "unat w" 11, simplified])
  show "\<not> bit w 11 \<and> int (unat w mod 2048) = sint w" if "0 \<le> sint w"
  proof -
    have "int (unat w) = sint w" using u that assms(2) by simp
    moreover from this have "unat w < 2048" using assms(2) by linarith
    ultimately show ?thesis unfolding b by simp
  qed
  show "bit w 11 \<and> int (unat w mod 2048) = sint w + 2048" if "sint w < 0"
  proof -
    have "int (unat w) = sint w + 65536"
      using mod_pos_pos_trivial [of "sint w + 65536" 65536] u that assms(1) by simp
    then have v: "int (unat w) = sint w + 2048 + 31 * 2048" by simp
    define k where "k = nat (sint w + 2048)"
    have k: "unat w = k + 31 * 2048" "k < 2048" "int k = sint w + 2048" using v that assms(1) unfolding k_def by linarith+
    have "unat w mod 2048 = k mod 2048" unfolding k(1) by (rule mod_mult_self1)
    moreover have "unat w div 2048 = 31" unfolding k(1) using k(2) by simp
    ultimately show ?thesis unfolding b using k(2,3) by simp
  qed
qed


text \<open>
  A sensor that answers at once, converts for 750 ms and measures -10.125 degrees, on a bus whose loads of the timer take
  one count and whose other accesses take no time.
\<close>

definition demo_ram :: "u8 list" where
  "demo_ram = [0x5e, 0xff, 0x4b, 0x46, 0x7f, 0xff, 0x02, 0x10, 0x71]"

definition demo_answer :: "(nat \<times> nat) list \<Rightarrow> nat \<Rightarrow> bool" where
  "demo_answer ps t =
     (case ps of [] \<Rightarrow> True
      | p # qs \<Rightarrow> if is_reset p then \<not> (snd p + 300 \<le> t \<and> t \<le> snd p + 550)
          else case ow_run [] demo_ram qs of Send (b # bs) \<Rightarrow> b | Convert tc \<Rightarrow> tc + 3750000 \<le> fst p | _ \<Rightarrow> True)"

definition demo_ow_bus :: "(nat \<times> ow_port) bus" where
  "demo_ow_bus = \<lparr>rd8 = (\<lambda>a s. (0, s)), rd16 = (\<lambda>a s. (0, s)),
     rd32 = (\<lambda>a (t, p). if a = TCNTO0 then (of_nat (50000 - Suc t mod 50000), Suc t, p)
        else if a = GPGCON then (p_con p, t, p) else (if demo_answer (p_pulses p) t then 0x40 else 0, t, p)),
     wr8 = (\<lambda>a v s. s), wr16 = (\<lambda>a v s. s),
     wr32 = (\<lambda>a v (t, p). (t, if a = GPGCON then ow_set v (p_dat p) t p else ow_set (p_con p) v t p))\<rparr>"

lemma demo_ds_wire: "ds_wire demo_ow_bus fst 1 snd demo_answer [] demo_ram 75 3750000"
proof -
  have "ow_bus demo_ow_bus fst 1 snd demo_answer"
    unfolding ow_bus_def by (auto simp: timer0_def demo_ow_bus_def sfr bit_simps split: prod.splits)
  moreover have "ds_device demo_answer [] demo_ram 75 3750000"
    unfolding ds_device_def using slot_not_reset by (auto simp: demo_answer_def)
  ultimately show ?thesis by (simp add: ds_wire_def)
qed


end
