(* ===== verification/Font.thy ===== *)
theory Font
  imports Framebuffer
begin

text \<open>
  \<^verbatim>\<open>lcd/font.c\<close>: characters and strings on the screen. The glyphs, \<^verbatim>\<open>fontdata_8x16\<close> (16 bytes per
  character, one per row, the most significant bit on the left), are the argument \<open>font\<close>; pixels are
  drawn with \<open>put\<close>, which is \<^verbatim>\<open>fb_put_pixel\<close>.
\<close>

section \<open>Operations\<close>

text \<open>The inner loop, with \<open>n\<close> pixels left: \<^verbatim>\<open>bit\<close> is \<open>n - 1\<close>.\<close>

fun char_row :: "(int \<Rightarrow> int \<Rightarrow> u32 \<Rightarrow> 's \<Rightarrow> 's) \<Rightarrow> u32 \<Rightarrow> u8 \<Rightarrow> nat \<Rightarrow> int \<Rightarrow> int \<Rightarrow> 's \<Rightarrow> 's" where
  "char_row put color data 0 i j s = s"
| "char_row put color data (Suc n) i j s =
     char_row put color data n (i + 1) j (if data AND push_bit n 1 \<noteq> 0 then put i j color s else s)"

fun char_rows :: "(int \<Rightarrow> int \<Rightarrow> u32 \<Rightarrow> 's \<Rightarrow> 's) \<Rightarrow> u32 \<Rightarrow> u8 list \<Rightarrow> int \<Rightarrow> int \<Rightarrow> 's \<Rightarrow> 's" where
  "char_rows put color [] x j s = s"
| "char_rows put color (data # dots) x j s = char_rows put color dots x (j + 1) (char_row put color data 8 x j s)"

definition fb_print_char :: "(int \<Rightarrow> int \<Rightarrow> u32 \<Rightarrow> 's \<Rightarrow> 's) \<Rightarrow> u8 list \<Rightarrow> int \<Rightarrow> int \<Rightarrow> u8 \<Rightarrow> u32 \<Rightarrow> 's \<Rightarrow> 's" where
  "fb_print_char put font x y c color s = char_rows put color (take 16 (drop (unat c * 16) font)) x y s"

fun fb_print_string :: "(int \<Rightarrow> int \<Rightarrow> u32 \<Rightarrow> 's \<Rightarrow> 's) \<Rightarrow> u8 list \<Rightarrow> int \<Rightarrow> int \<Rightarrow> int \<Rightarrow> cstring \<Rightarrow> u32 \<Rightarrow> 's \<Rightarrow> 's" where
  "fb_print_string put font xr x y [] color s = s"
| "fb_print_string put font xr x y (c # cs) color s =
     (if c = 10 then fb_print_string put font xr x (y + 16) cs color s
      else if c = 13 then fb_print_string put font xr 0 y cs color s
      else
        let s = fb_print_char put font x y c color s;
            x = x + 8
        in if x \<ge> xr then fb_print_string put font xr 0 (y + 16) cs color s
           else fb_print_string put font xr x y cs color s)"

section \<open>Characters\<close>

definition row_points :: "u8 \<Rightarrow> nat \<Rightarrow> int \<Rightarrow> int \<Rightarrow> (int \<times> int) list" where
  "row_points data n i j = map (\<lambda>k. (i + int k, j)) (filter (\<lambda>k. bit data (n - 1 - k)) [0..<n])"

lemma row_points_Suc:
  "row_points data (Suc n) i j = (if bit data n then [(i, j)] else []) @ row_points data n (i + 1) j"
proof -
  have "[0..<Suc n] = 0 # map Suc [0..<n]" by (simp add: map_Suc_upt upt_conv_Cons del: upt_Suc)
  then show ?thesis by (auto simp: row_points_def filter_map o_def simp del: upt_Suc)
qed

lemma char_row_points: "char_row put c data n i j s = fold (\<lambda>(x, y). put x y c) (row_points data n i j) s"
proof (induction n arbitrary: i s)
  case 0
  then show ?case by (simp add: row_points_def)
next
  case (Suc n)
  then show ?case
    unfolding char_row.simps and_bit_eq_0 row_points_Suc by simp
qed

definition glyph_points :: "u8 list \<Rightarrow> int \<Rightarrow> int \<Rightarrow> (int \<times> int) list" where
  "glyph_points dots x y = concat (map (\<lambda>j. row_points (dots ! j) 8 x (y + int j)) [0..<length dots])"

lemma char_rows_points: "char_rows put c dots x y s = fold (\<lambda>(x, y). put x y c) (glyph_points dots x y) s"
proof (induction dots arbitrary: y s)
  case Nil
  then show ?case by (simp add: glyph_points_def)
next
  case (Cons data dots)
  have "[0..<length (data # dots)] = 0 # map Suc [0..<length dots]"
    by (simp add: map_Suc_upt upt_conv_Cons del: upt_Suc)
  then have "glyph_points (data # dots) x y = row_points data 8 x y @ glyph_points dots x (y + 1)"
    by (simp add: glyph_points_def o_def add.assoc del: upt_Suc)
  with Cons show ?case by (simp add: char_row_points)
qed

lemma set_glyph_points:
  "(px, py) \<in> set (glyph_points dots x y) \<longleftrightarrow>
    0 \<le> px - x \<and> px - x < 8 \<and> 0 \<le> py - y \<and> py - y < int (length dots) \<and>
    bit (dots ! nat (py - y)) (7 - nat (px - x))"
proof -
  have "(px, py) \<in> set (glyph_points dots x y) \<longleftrightarrow>
      (\<exists>j < length dots. \<exists>k < 8. bit (dots ! j) (7 - k) \<and> px = x + int k \<and> py = y + int j)"
    by (auto simp: glyph_points_def row_points_def simp del: upt_rec_numeral)
  also have "\<dots> \<longleftrightarrow> 0 \<le> px - x \<and> px - x < 8 \<and> 0 \<le> py - y \<and> py - y < int (length dots) \<and>
      bit (dots ! nat (py - y)) (7 - nat (px - x))"
  proof (intro iffI)
    assume "0 \<le> px - x \<and> px - x < 8 \<and> 0 \<le> py - y \<and> py - y < int (length dots) \<and>
      bit (dots ! nat (py - y)) (7 - nat (px - x))"
    then show "\<exists>j < length dots. \<exists>k < 8. bit (dots ! j) (7 - k) \<and> px = x + int k \<and> py = y + int j"
      by (intro exI [of _ "nat (py - y)"] exI [of _ "nat (px - x)"] conjI) (auto simp: nat_less_iff)
  qed auto
  finally show ?thesis .
qed

text \<open>
  A character drawn inside the screen colours, in its cell of 8 by 16 pixels, exactly the pixels
  whose bit of the glyph is set, and no pixel outside the cell.
\<close>

theorem fb_print_char_exact:
  assumes "mem_bus B g" and "fb_ok f" and "in_screen f x y" and "in_screen f (x + 7) (y + 15)"
    and "length font = 4096" and "in_screen f px py"
  shows "g (fb_print_char (fb_put_pixel B f) font x y c color s) (pix_addr f px py) =
    (if 0 \<le> px - x \<and> px - x < 8 \<and> 0 \<le> py - y \<and> py - y < 16 \<and>
        bit (font ! (16 * unat c + nat (py - y))) (7 - nat (px - x))
     then color else g s (pix_addr f px py))"
proof -
  let ?dots = "take 16 (drop (unat c * 16) font)"
  have "unat c < 256" using unat_less [of c] by simp
  then have len: "length ?dots = 16" using assms(5) by simp
  have nth: "?dots ! nat (py - y) = font ! (16 * unat c + nat (py - y))" if "py - y < 16" "0 \<le> py - y"
    using that \<open>unat c < 256\<close> assms(5) by (simp add: mult.commute nat_less_iff)
  have vis: "\<forall>(a, b) \<in> set (glyph_points ?dots x y). fb_visible B g f a b"
    using assms(1-4) len by (auto simp: set_glyph_points fb_visible_def in_screen_def)
  have "g (fb_print_char (fb_put_pixel B f) font x y c color s) (pix_addr f px py) =
      (if (px, py) \<in> set (glyph_points ?dots x y) then color else g s (pix_addr f px py))"
    using fb32.put_list [OF vis, of px py color s] assms
    by (simp add: fb_print_char_def char_rows_points fb_visible_def fb_pix_def)
  with nth len show ?thesis by (auto simp: set_glyph_points)
qed

theorem fb_print_char_exact_witness:
  "fb_print_char (fb_put_pixel ram_bus demo_fb) (replicate 4096 0x80) 8 16 65 0xff (\<lambda>a. 0) (pix_addr demo_fb 8 20) = 0xff \<and>
   fb_print_char (fb_put_pixel ram_bus demo_fb) (replicate 4096 0x80) 8 16 65 0xff (\<lambda>a. 0) (pix_addr demo_fb 9 20) = 0"
proof -
  have "in_screen demo_fb 8 16" "in_screen demo_fb (8 + 7) (16 + 15)" "in_screen demo_fb 8 20" "in_screen demo_fb 9 20"
    by (simp_all add: in_screen_def demo_fb_def)
  moreover have "length (replicate 4096 (0x80 :: u8)) = 4096" by simp
  ultimately show ?thesis
    using fb_print_char_exact [OF ram_bus_mem demo_fb_ok, of 8 16 "replicate 4096 0x80" _ 20 65 "0xff" "\<lambda>a. 0"]
    by (simp add: bit_numeral_rec)
qed

section \<open>Strings\<close>

lemma print_string_from:
  assumes "0 < w" and "10 \<notin> set cs" and "13 \<notin> set cs"
  shows "fb_print_string put font (8 * int w) (8 * int (k mod w)) (y + 16 * int (k div w)) cs color s =
    fold (\<lambda>(i, c). fb_print_char put font (8 * int (i mod w)) (y + 16 * int (i div w)) c color) (enumerate k cs) s"
  using assms(2,3)
proof (induction cs arbitrary: k s)
  case Nil
  then show ?case by simp
next
  case (Cons c cs)
  let ?s = "fb_print_char put font (8 * int (k mod w)) (y + 16 * int (k div w)) c color s"
  have "(if 8 * int (k mod w) + 8 \<ge> 8 * int w
      then fb_print_string put font (8 * int w) 0 (y + 16 * int (k div w) + 16) cs color ?s
      else fb_print_string put font (8 * int w) (8 * int (k mod w) + 8) (y + 16 * int (k div w)) cs color ?s) =
    fb_print_string put font (8 * int w) (8 * int (Suc k mod w)) (y + 16 * int (Suc k div w)) cs color ?s"
  proof (cases "Suc (k mod w) = w")
    case True
    then have "Suc k mod w = 0" "Suc k div w = Suc (k div w)" by (simp_all add: mod_Suc div_Suc)
    with True show ?thesis by (simp add: ac_simps)
  next
    case False
    then have "Suc k mod w = Suc (k mod w)" "Suc k div w = k div w" by (simp_all add: mod_Suc div_Suc)
    moreover have "Suc (k mod w) < w" using False mod_less_divisor [OF assms(1), of k] by linarith
    ultimately show ?thesis by (simp add: add.commute)
  qed
  with Cons show ?case by (simp add: Let_def)
qed

text \<open>
  A text without line breaks that starts in the left column of a screen of \<open>w\<close> characters per
  row is laid out row by row: character \<open>i\<close> goes to column \<open>i mod w\<close> of row \<open>i div w\<close>.
\<close>

theorem fb_print_string_layout:
  assumes "0 < w" and "10 \<notin> set cs" and "13 \<notin> set cs"
  shows "fb_print_string put font (8 * int w) 0 y cs color s =
    fold (\<lambda>(i, c). fb_print_char put font (8 * int (i mod w)) (y + 16 * int (i div w)) c color) (enumerate 0 cs) s"
  using print_string_from [OF assms, of put font 0] by simp

theorem fb_print_string_layout_witness:
  "fb_print_string (\<lambda>x y c s. s @ [(x, y)]) (replicate 4096 0x80) (8 * int 2) 0 0 [65, 66, 67] 0 [] =
    fold (\<lambda>(i, c). fb_print_char (\<lambda>x y c s. s @ [(x, y)]) (replicate 4096 0x80) (8 * int (i mod 2)) (0 + 16 * int (i div 2)) c 0)
      (enumerate 0 [65, 66, 67]) []"
  by (rule fb_print_string_layout) simp_all

end
