(* ===== verification/Nand_Flash.thy ===== *)
theory Nand_Flash
  imports Soc_Regs
begin

text \<open>
  The NAND flash driver of \<^verbatim>\<open>nand_flash.c\<close>: the controller commands, the bad-block test and
  \<^verbatim>\<open>nand_read\<close>. The chip behind the controller is a parameter; \<open>nand_dev\<close> states what its data
  sheet promises of the read cycle (command 00h, five address bytes, command 30h, ready, data), and
  \<open>nand_read\<close> is shown to return the bytes of the good blocks in order.
\<close>

section \<open>The driver\<close>

text \<open>
  The \<^verbatim>\<open>for (i = 0; i < 10; i++);\<close> loops between the register accesses count a local variable and
  have no other effect.
\<close>

definition nand_init :: "'s bus \<Rightarrow> 's \<Rightarrow> 's" where
  "nand_init B s =
     (let TACLS = 0; TWRPH0 = 1; TWRPH1 = 0;
          s1 = wr32 B NFCONF (push_bit 12 TACLS OR push_bit 8 TWRPH0 OR push_bit 4 TWRPH1) s
      in wr32 B NFCONT (push_bit 4 1 OR push_bit 1 1 OR push_bit 0 1) s1)"

definition nand_select :: "'s bus \<Rightarrow> 's \<Rightarrow> 's" where
  "nand_select B s = reg_and B NFCONT (NOT (push_bit 1 1)) s"

definition nand_deselect :: "'s bus \<Rightarrow> 's \<Rightarrow> 's" where
  "nand_deselect B s = reg_or B NFCONT (push_bit 1 1) s"

definition nand_cmd :: "'s bus \<Rightarrow> u8 \<Rightarrow> 's \<Rightarrow> 's" where
  "nand_cmd B c s = wr8 B NFCMD c s"

definition nand_addr :: "'s bus \<Rightarrow> u32 \<Rightarrow> 's \<Rightarrow> 's" where
  "nand_addr B addr s =
     (let col = addr mod 2048; page = addr div 2048;
          s1 = wr8 B NFADDR (ucast (col AND 0xff)) s;
          s2 = wr8 B NFADDR (ucast (drop_bit 8 col AND 0xff)) s1;
          s3 = wr8 B NFADDR (ucast (page AND 0xff)) s2;
          s4 = wr8 B NFADDR (ucast (drop_bit 8 page AND 0xff)) s3
      in wr8 B NFADDR (ucast (drop_bit 16 page AND 0xff)) s4)"

definition nand_page :: "'s bus \<Rightarrow> u32 \<Rightarrow> 's \<Rightarrow> 's" where
  "nand_page B page s =
     (let s1 = wr8 B NFADDR (ucast (page AND 0xff)) s;
          s2 = wr8 B NFADDR (ucast (drop_bit 8 page AND 0xff)) s1
      in wr8 B NFADDR (ucast (drop_bit 16 page AND 0xff)) s2)"

definition nand_col :: "'s bus \<Rightarrow> u32 \<Rightarrow> 's \<Rightarrow> 's" where
  "nand_col B col s =
     (let s1 = wr8 B NFADDR (ucast (col AND 0xff)) s
      in wr8 B NFADDR (ucast (drop_bit 8 col AND 0xff)) s1)"

definition nand_wait_ready :: "'s bus \<Rightarrow> 's \<Rightarrow> 's option" where
  "nand_wait_ready B s = map_option snd (poll (rd8 B NFSTAT) (\<lambda>v. v AND 1 \<noteq> 0) s)"

definition nand_data :: "'s bus \<Rightarrow> 's \<Rightarrow> u8 \<times> 's" where
  "nand_data B s = rd8 B NFDATA s"

definition nand_bad :: "'s bus \<Rightarrow> u32 \<Rightarrow> 's \<Rightarrow> (bool \<times> 's) option" where
  "nand_bad B addr s =
     (let col = 2048; page = addr div 2048;
          s1 = nand_select B s;
          s2 = nand_cmd B 0x00 s1;
          s3 = nand_col B col s2;
          s4 = nand_page B page s3;
          s5 = nand_cmd B 0x30 s4
      in do {
           s6 \<leftarrow> nand_wait_ready B s5;
           let (val, s7) = nand_data B s6;
           Some (val \<noteq> 0xff, nand_deselect B s7)
         })"

text \<open>
  The inner loop of \<^verbatim>\<open>nand_read\<close>: one page, from column \<open>col\<close> on. \<open>i\<close> counts the bytes stored in
  \<^verbatim>\<open>buf\<close>; it is compared as an \<^verbatim>\<open>unsigned int\<close> because \<^verbatim>\<open>len\<close> is one.
\<close>

function nand_read_page :: "'s bus \<Rightarrow> u32 \<Rightarrow> u32 \<Rightarrow> int \<Rightarrow> u32 \<Rightarrow> u32 \<Rightarrow> 's \<Rightarrow> u32 \<times> u32 \<times> 's" where
  "nand_read_page B buf len col i addr s =
     (if col < 2048 \<and> i < len
      then let (v, s1) = nand_data B s; s2 = wr8 B (buf + i) v s1
           in nand_read_page B buf len (col + 1) (i + 1) (addr + 1) s2
      else (i, addr, s))"
  by pat_completeness auto
termination by (relation "measure (\<lambda>(B, buf, len, col, i, addr, s). nat (2048 - col))") auto

declare nand_read_page.simps [simp del]

partial_function (option) nand_read_from :: "'s bus \<Rightarrow> u32 \<Rightarrow> u32 \<Rightarrow> int \<Rightarrow> u32 \<Rightarrow> u32 \<Rightarrow> 's \<Rightarrow> 's option" where
  [code]: "nand_read_from B buf len col i addr s =
     (if i < len
      then do {
        (bad, s1) \<leftarrow> (if addr AND 0x1FFFF = 0 then nand_bad B addr s else Some (False, s));
        (if bad then nand_read_from B buf len col i (addr + 128 * 1024) s1
         else let s2 = nand_select B s1; s3 = nand_cmd B 0x00 s2; s4 = nand_addr B addr s3; s5 = nand_cmd B 0x30 s4
              in do {
                s6 \<leftarrow> nand_wait_ready B s5;
                let (i', addr', s7) = nand_read_page B buf len col i addr s6;
                nand_read_from B buf len 0 i' addr' (nand_deselect B s7)
              })
      }
      else Some s)"

definition nand_read :: "'s bus \<Rightarrow> u32 \<Rightarrow> u32 \<Rightarrow> u32 \<Rightarrow> 's \<Rightarrow> 's option" where
  "nand_read B addr buf len s = nand_read_from B buf len (int (unat (addr mod 2048))) 0 addr s"

section \<open>The chip\<close>

text \<open>
  The read cycle of a large-page chip: command 00h opens the address phase, five address bytes give
  the column and the page, command 30h loads the page, and every data access returns the next byte
  of it. A page has 2048 bytes and 64 spare bytes after them.
\<close>

datatype nand_phase = Idle | Addressing "u8 list" | Output nat nat

fun chip_cmd :: "u8 \<Rightarrow> nand_phase \<Rightarrow> nand_phase" where
  "chip_cmd c ph =
     (if c = 0x00 then Addressing []
      else if c = 0x30 then
        (case ph of
           Addressing [c0, c1, p0, p1, p2] \<Rightarrow>
             Output (unat p0 + 256 * unat p1 + 65536 * unat p2) (unat c0 + 256 * unat c1)
         | _ \<Rightarrow> Idle)
      else Idle)"

declare chip_cmd.simps [simp del]

fun chip_addr :: "u8 \<Rightarrow> nand_phase \<Rightarrow> nand_phase" where
  "chip_addr b (Addressing bs) = Addressing (bs @ [b])"
| "chip_addr b ph = ph"

text \<open>
  What the driver relies on: \<open>ph\<close> observes the phase of the chip, \<open>mem\<close> the bytes of
  the memory at the addresses \<open>ram\<close>, and \<open>img page col\<close> is the content of the chip. A status load does not disturb the cycle, and the
  ready bit comes up after finitely many of them.
\<close>

definition nand_dev ::
    "'s bus \<Rightarrow> ('s \<Rightarrow> nand_phase) \<Rightarrow> ('s \<Rightarrow> u32 \<Rightarrow> u8) \<Rightarrow> (nat \<Rightarrow> nat \<Rightarrow> u8) \<Rightarrow> (u32 \<Rightarrow> bool) \<Rightarrow> bool" where
  "nand_dev B ph mem img ram \<longleftrightarrow>
     (\<forall>c s. ph (wr8 B NFCMD c s) = chip_cmd c (ph s) \<and> mem (wr8 B NFCMD c s) = mem s) \<and>
     (\<forall>b s. ph (wr8 B NFADDR b s) = chip_addr b (ph s) \<and> mem (wr8 B NFADDR b s) = mem s) \<and>
     (\<forall>s. ph (snd (rd32 B NFCONT s)) = ph s \<and> mem (snd (rd32 B NFCONT s)) = mem s) \<and>
     (\<forall>v s. ph (wr32 B NFCONT v s) = ph s \<and> mem (wr32 B NFCONT v s) = mem s) \<and>
     (\<forall>s. ph (snd (rd8 B NFSTAT s)) = ph s \<and> mem (snd (rd8 B NFSTAT s)) = mem s) \<and>
     (\<forall>s. \<exists>n. fst (rd8 B NFSTAT (((\<lambda>s. snd (rd8 B NFSTAT s)) ^^ n) s)) AND 1 \<noteq> 0) \<and>
     (\<forall>s p c. ph s = Output p c \<longrightarrow>
        fst (rd8 B NFDATA s) = img p c \<and> ph (snd (rd8 B NFDATA s)) = Output p (Suc c) \<and>
        mem (snd (rd8 B NFDATA s)) = mem s) \<and>
     (\<forall>a v s. ram a \<longrightarrow> ph (wr8 B a v s) = ph s \<and> mem (wr8 B a v s) = (mem s)(a := v))"

text \<open>The bytes of the chip in the order of their addresses, and the good blocks.\<close>

definition nand_byte :: "(nat \<Rightarrow> nat \<Rightarrow> u8) \<Rightarrow> nat \<Rightarrow> u8" where
  "nand_byte img q = img (q div 2048) (q mod 2048)"

definition good_block :: "(nat \<Rightarrow> nat \<Rightarrow> u8) \<Rightarrow> nat \<Rightarrow> bool" where
  "good_block img b \<longleftrightarrow> img (b * 64) 2048 = 0xff"

text \<open>
  The addresses that a read from \<open>p\<close> visits: those from \<open>p\<close> on whose block is good. A block that
  the read enters in its middle is not tested, so its remaining bytes are visited in any case.
\<close>

definition visited :: "(nat \<Rightarrow> nat \<Rightarrow> u8) \<Rightarrow> nat \<Rightarrow> nat \<Rightarrow> bool" where
  "visited img p q \<longleftrightarrow>
     good_block img (q div 131072) \<or> (q div 131072 = p div 131072 \<and> p mod 131072 \<noteq> 0)"

section \<open>The read cycle\<close>

lemma nand_dev_simps:
  assumes "nand_dev B ph mem img ram"
  shows "ph (nand_cmd B c s) = chip_cmd c (ph s)" "mem (nand_cmd B c s) = mem s"
    and "ph (wr8 B NFADDR b s) = chip_addr b (ph s)" "mem (wr8 B NFADDR b s) = mem s"
    and "ph (nand_select B s) = ph s" "mem (nand_select B s) = mem s"
    and "ph (nand_deselect B s) = ph s" "mem (nand_deselect B s) = mem s"
    and "ram a \<Longrightarrow> ph (wr8 B a v s) = ph s" "ram a \<Longrightarrow> mem (wr8 B a v s) = (mem s)(a := v)"
  using assms
  by (simp_all add: nand_dev_def nand_cmd_def nand_select_def nand_deselect_def reg_and_def reg_or_def
      case_prod_unfold Let_def)

lemma nand_wait_ready_returns:
  assumes "nand_dev B ph mem img ram"
  shows "\<exists>s'. nand_wait_ready B s = Some s' \<and> ph s' = ph s \<and> mem s' = mem s"
proof -
  from assms obtain n where "fst (rd8 B NFSTAT (((\<lambda>s. snd (rd8 B NFSTAT s)) ^^ n) s)) AND 1 \<noteq> 0"
    unfolding nand_dev_def by blast
  from poll_returns [of "\<lambda>v. v AND 1 \<noteq> 0" "rd8 B NFSTAT", OF this]
  obtain v s' where p: "poll (rd8 B NFSTAT) (\<lambda>v. v AND 1 \<noteq> 0) s = Some (v, s')" by blast
  have fr: "\<And>s. ph (snd (rd8 B NFSTAT s)) = ph s" "\<And>s. mem (snd (rd8 B NFSTAT s)) = mem s"
    using assms unfolding nand_dev_def by blast+
  have "ph s' = ph s" by (rule poll_frame [OF p, where f = ph]) (rule fr)
  moreover have "mem s' = mem s" by (rule poll_frame [OF p, where f = mem]) (rule fr)
  ultimately show ?thesis using p by (simp add: nand_wait_ready_def)
qed

lemma nand_data_output:
  assumes "nand_dev B ph mem img ram" "ph s = Output p c"
  shows "\<exists>s'. nand_data B s = (img p c, s') \<and> ph s' = Output p (Suc c) \<and> mem s' = mem s"
proof -
  have "fst (rd8 B NFDATA s) = img p c \<and> ph (snd (rd8 B NFDATA s)) = Output p (Suc c) \<and>
      mem (snd (rd8 B NFDATA s)) = mem s"
    using assms unfolding nand_dev_def by blast
  then show ?thesis by (cases "rd8 B NFDATA s") (simp add: nand_data_def)
qed

lemma unat_low_byte: "unat (ucast (w AND 0xff :: u32) :: u8) = unat w mod 256"
proof -
  have "ucast (w AND 0xff) = (ucast w :: u8)"
  proof -
    have m: "(0xff :: u32) = mask 8" by (simp add: mask_eq_exp_minus_1)
    show ?thesis unfolding m by (intro bit_word_eqI) (auto simp: bit_simps)
  qed
  then show ?thesis by (simp add: unsigned_ucast_eq take_bit_eq_mod)
qed

lemma three_bytes:
  assumes "(n :: nat) < 2 ^ 24"
  shows "n mod 256 + 256 * (n div 256 mod 256) + 65536 * (n div 65536 mod 256) = n"
proof -
  have "n div 65536 < 256" using assms by (intro less_mult_imp_div_less) simp
  then have "n div 65536 mod 256 = n div 65536" by simp
  moreover have "n div 256 div 256 = n div 65536" by (simp add: div_mult2_eq)
  moreover have "n div 256 mod 256 + 256 * (n div 256 div 256) = n div 256"
    by (rule mod_mult_div_eq)
  moreover have "n mod 256 + 256 * (n div 256) = n" by (rule mod_mult_div_eq)
  ultimately show ?thesis by linarith
qed

lemma chip_addressed:
  fixes c p :: u32
  assumes "col < 65536" "page < 2 ^ 24" "unat c = col" "unat p = page"
  shows "chip_cmd 0x30 (Addressing
      [ucast (c AND 0xff), ucast (drop_bit 8 c AND 0xff), ucast (p AND 0xff),
       ucast (drop_bit 8 p AND 0xff), ucast (drop_bit 16 p AND 0xff)]) = Output page col"
proof -
  have "col mod 256 + 256 * (col div 256 mod 256) = col"
    using assms(1) three_bytes [of col] by simp
  moreover note three_bytes [OF assms(2)]
  moreover have "chip_cmd 0x30 (Addressing [c0, c1, p0, p1, p2]) =
      Output (unat p0 + 256 * unat p1 + 65536 * unat p2) (unat c0 + 256 * unat c1)" for c0 c1 p0 p1 p2
    by (simp add: chip_cmd.simps)
  moreover have "unat c div 2 ^ 8 = col div 256" "unat p div 2 ^ 8 = page div 256" "unat p div 2 ^ 16 = page div 65536"
    using assms(3,4) by simp_all
  ultimately show ?thesis using assms(3,4) by (simp only: unat_low_byte unat_shift_right)
qed

text \<open>Selecting the chip, sending an address and waiting leads to the output phase at that address.\<close>

lemma page_less: "unat (addr div 2048 :: u32) < 2 ^ 24"
proof -
  have "unat addr div 2048 < 2 ^ 24" using unat_less [of addr] by (intro less_mult_imp_div_less) simp
  then show ?thesis by (simp add: unat_div)
qed

lemma nand_addr_phase:
  assumes "nand_dev B ph mem img ram"
  shows "ph (nand_cmd B 0x30 (nand_addr B addr (nand_cmd B 0x00 (nand_select B s))))
           = Output (unat addr div 2048) (unat addr mod 2048)"
    and "mem (nand_cmd B 0x30 (nand_addr B addr (nand_cmd B 0x00 (nand_select B s)))) = mem s"
proof -
  let ?c = "addr mod 2048" and ?p = "addr div 2048"
  have lt: "unat ?c < 65536" by (simp add: unat_mod order_less_trans [of _ 2048])
  have "ph (nand_addr B addr (nand_cmd B 0x00 (nand_select B s))) = Addressing
      [ucast (?c AND 0xff), ucast (drop_bit 8 ?c AND 0xff), ucast (?p AND 0xff),
       ucast (drop_bit 8 ?p AND 0xff), ucast (drop_bit 16 ?p AND 0xff)]"
    by (simp only: nand_addr_def Let_def nand_dev_simps [OF assms] chip_cmd.simps chip_addr.simps
        simp_thms if_True append.simps)
  then have "ph (nand_cmd B 0x30 (nand_addr B addr (nand_cmd B 0x00 (nand_select B s)))) = Output (unat ?p) (unat ?c)"
    by (simp only: nand_dev_simps [OF assms] chip_addressed [OF lt page_less refl refl])
  then show "ph (nand_cmd B 0x30 (nand_addr B addr (nand_cmd B 0x00 (nand_select B s))))
      = Output (unat addr div 2048) (unat addr mod 2048)"
    by (simp only: unat_div unat_mod) simp
  show "mem (nand_cmd B 0x30 (nand_addr B addr (nand_cmd B 0x00 (nand_select B s)))) = mem s"
    by (simp only: nand_addr_def Let_def nand_dev_simps [OF assms])
qed

lemma nand_bad_exact:
  assumes dev: "nand_dev B ph mem img ram" and al: "unat addr mod 131072 = 0"
  shows "\<exists>s'. nand_bad B addr s = Some (\<not> good_block img (unat addr div 131072), s') \<and> mem s' = mem s"
proof -
  let ?s5 = "nand_cmd B 0x30 (nand_page B (addr div 2048) (nand_col B 2048 (nand_cmd B 0x00 (nand_select B s))))"
  have "ph (nand_page B (addr div 2048) (nand_col B 2048 (nand_cmd B 0x00 (nand_select B s)))) = Addressing
      [ucast (2048 AND 0xff :: u32), ucast (drop_bit 8 2048 AND 0xff :: u32), ucast (addr div 2048 AND 0xff),
       ucast (drop_bit 8 (addr div 2048) AND 0xff), ucast (drop_bit 16 (addr div 2048) AND 0xff)]"
    by (simp only: nand_page_def nand_col_def Let_def nand_dev_simps [OF dev] chip_cmd.simps chip_addr.simps
        simp_thms if_True append.simps)
  then have ph5: "ph ?s5 = Output (unat (addr div 2048)) 2048"
    by (simp only: nand_dev_simps [OF dev]) (rule chip_addressed, simp_all only: page_less, simp_all)
  have mem5: "mem ?s5 = mem s"
    by (simp only: nand_page_def nand_col_def Let_def nand_dev_simps [OF dev])
  obtain s6 where s6: "nand_wait_ready B ?s5 = Some s6" "ph s6 = ph ?s5" "mem s6 = mem ?s5"
    using nand_wait_ready_returns [OF dev, of ?s5] by blast
  obtain s7 where s7: "nand_data B s6 = (img (unat (addr div 2048)) 2048, s7)" "mem s7 = mem s6"
    using nand_data_output [OF dev, of s6] s6(2) ph5 by metis
  have "unat addr div 131072 * 64 = unat addr div 2048"
    using al by auto
  then have page: "unat (addr div 2048) = unat addr div 131072 * 64" by (simp add: unat_div)
  show ?thesis
    unfolding nand_bad_def Let_def good_block_def
    using s6 s7 mem5 by (simp add: nand_dev_simps [OF dev] page)
qed

text \<open>The inner loop stores the rest of the page, or what is still wanted of it.\<close>

lemma nand_read_page_exact:
  assumes dev: "nand_dev B ph mem img ram" and "ph s = Output p c" and "c \<le> 2048" and "i \<le> len"
    and buf: "\<And>k. k < unat len \<Longrightarrow> ram (buf + of_nat k)"
    and n: "n = min (2048 - c) (unat len - unat i)"
  shows "\<exists>s'. nand_read_page B buf len (int c) i addr s = (i + of_nat n, addr + of_nat n, s') \<and>
     mem s' = put_bytes (mem s) (buf + i) (map (img p) [c..<c + n])"
  using assms(2,3,4) n
proof (induction "2048 - c" arbitrary: c i addr s n)
  case 0
  then show ?case by (subst nand_read_page.simps) simp
next
  case (Suc d)
  show ?case
  proof (cases "i < len")
    case False
    with Suc.prems(3) have "i = len" by simp
    with Suc.prems(4) show ?thesis by (subst nand_read_page.simps) simp
  next
    case True
    then have lt: "unat i < unat len" by (simp add: word_less_nat_alt)
    then have i1: "unat (i + 1) = Suc (unat i)"
      using unat_less [of len] by (simp add: unat_plus_one)
    obtain s1 where s1: "nand_data B s = (img p c, s1)" "ph s1 = Output p (Suc c)" "mem s1 = mem s"
      using nand_data_output [OF dev Suc.prems(1)] by blast
    have "ram (buf + i)" using buf [of "unat i"] lt by simp
    note wr = nand_dev_simps(9,10) [OF dev this]
    define m where "m = n - 1"
    with Suc.hyps(2) lt Suc.prems(4) have nm: "n = Suc m" by simp
    have "m = min (2048 - Suc c) (unat len - unat (i + 1))"
      using Suc.prems(4) nm i1 by simp
    moreover have "d = 2048 - Suc c" "Suc c \<le> 2048" "i + 1 \<le> len"
      using Suc.hyps(2) i1 lt by (simp_all add: word_le_nat_alt)
    moreover have "ph (wr8 B (buf + i) (img p c) s1) = Output p (Suc c)" using s1(2) wr(1) by simp
    ultimately have "\<exists>s'. nand_read_page B buf len (int (Suc c)) (i + 1) (addr + 1) (wr8 B (buf + i) (img p c) s1) =
        (i + 1 + of_nat m, addr + 1 + of_nat m, s') \<and>
        mem s' = put_bytes (mem (wr8 B (buf + i) (img p c) s1)) (buf + (i + 1)) (map (img p) [Suc c..<Suc c + m])"
      by (intro Suc.hyps(1))
    then obtain s' where s': "nand_read_page B buf len (int (Suc c)) (i + 1) (addr + 1) (wr8 B (buf + i) (img p c) s1) =
        (i + 1 + of_nat m, addr + 1 + of_nat m, s')"
      "mem s' = put_bytes (mem (wr8 B (buf + i) (img p c) s1)) (buf + (i + 1)) (map (img p) [Suc c..<Suc c + m])"
      by (elim exE conjE)
    have "[c..<c + n] = c # [Suc c..<Suc c + m]" by (simp add: nm upt_conv_Cons)
    moreover have "int c < 2048" using Suc.hyps(2) by simp
    ultimately show ?thesis using s' s1 wr True
      by (subst nand_read_page.simps) (simp add: nm ac_simps del: upt_Suc)
  qed
qed

section \<open>Reading with bad blocks\<close>

lemma filter_upt_split: "p \<le> q \<Longrightarrow> q \<le> e \<Longrightarrow> filter P [p..<e] = filter P [p..<q] @ filter P [q..<e]"
  by (metis filter_append le_Suc_ex upt_add_eq_append)

lemma same_block:
  assumes "(p :: nat) mod 131072 = 0" "p \<le> q" "q < p + 131072"
  shows "q div 131072 = p div 131072"
proof -
  from assms(1) obtain k where k: "p = 131072 * k" by auto
  with assms obtain j where "q = 131072 * k + j" "j < 131072"
    by (metis add_less_cancel_left le_Suc_ex)
  with k show ?thesis by simp
qed

text \<open>A block that is tested and found bad holds no visited address.\<close>

lemma bad_block_skipped:
  assumes al: "p mod 131072 = 0" and bad: "\<not> good_block img (p div 131072)" and le: "p0 \<le> p"
  shows "filter (visited img p0) [p..<min e (p + 131072)] = []"
proof -
  have "\<not> visited img p0 q" if q: "q \<in> set [p..<min e (p + 131072)]" for q
  proof
    assume v: "visited img p0 q"
    have qp: "q div 131072 = p div 131072" using q by (intro same_block [OF al]) auto
    with v bad have p0: "p div 131072 = p0 div 131072" "p0 mod 131072 \<noteq> 0"
      unfolding visited_def by auto
    have "p = p div 131072 * 131072" using al by auto
    also have "\<dots> \<le> p0 div 131072 * 131072" using p0(1) by simp
    also have "\<dots> < p0" using p0(2) by (metis div_times_less_eq_dividend dvd_imp_mod_0 dvd_triv_right le_neq_implies_less)
    finally show False using le by simp
  qed
  then show ?thesis unfolding filter_empty_conv by blast
qed

lemma page_in_block:
  assumes "(q :: nat) div 2048 = p div 2048"
  shows "q div 131072 = p div 131072"
proof -
  have "q div (2048 * 64) = p div (2048 * 64)" using assms by (simp only: div_mult2_eq)
  then show ?thesis by simp
qed

lemma page_bytes:
  assumes "(p :: nat) \<le> q" "q < p + (2048 - p mod 2048)"
  shows "q div 2048 = p div 2048" "q mod 2048 = p mod 2048 + (q - p)"
proof -
  define r where "r = p mod 2048 + (q - p)"
  have lt: "r < 2048" unfolding r_def using assms by linarith
  have "p div 2048 * 2048 + p mod 2048 = p" by (rule div_mult_mod_eq)
  then have q: "q = r + p div 2048 * 2048" unfolding r_def using assms(1) by linarith
  from lt have "(r + k * 2048) div 2048 = k" "(r + k * 2048) mod 2048 = r" for k by simp_all
  with q show "q div 2048 = p div 2048" "q mod 2048 = p mod 2048 + (q - p)" unfolding r_def by metis+
qed

lemma aligned_mask: "((addr :: u32) AND 0x1FFFF = 0) \<longleftrightarrow> unat addr mod 131072 = 0"
proof -
  have m: "(0x1FFFF :: u32) = mask 17" by (simp add: mask_eq_exp_minus_1)
  have "(addr AND 0x1FFFF = 0) \<longleftrightarrow> unat (addr AND mask 17) = 0" unfolding m by (simp add: unat_eq_0)
  then show ?thesis by (simp add: and_mask_unat)
qed

text \<open>
  One round of the outer loop that reads: the rest of the page of \<open>p\<close>, but not more than is
  wanted.
\<close>

lemma nand_read_round:
  assumes dev: "nand_dev B ph mem img ram" and addr: "unat addr = p" and i: "i < len"
    and buf: "\<And>k. k < unat len \<Longrightarrow> ram (buf + of_nat k)"
    and n: "n = min (2048 - p mod 2048) (unat len - unat i)"
    and col: "col = int (p mod 2048)" and good: "p mod 131072 = 0 \<Longrightarrow> good_block img (p div 131072)"
  shows "\<exists>s'. nand_read_from B buf len col i addr s = nand_read_from B buf len 0 (i + of_nat n) (addr + of_nat n) s' \<and>
     mem s' = put_bytes (mem s) (buf + i) (map (nand_byte img) [p..<p + n])"
proof -
  obtain s1 where s1: "(if addr AND 0x1FFFF = 0 then nand_bad B addr s else Some (False, s)) = Some (False, s1)"
    "mem s1 = mem s"
    using nand_bad_exact [OF dev, of addr s] good addr
    by (cases "unat addr mod 131072 = 0") (auto simp: aligned_mask)
  let ?s5 = "nand_cmd B 0x30 (nand_addr B addr (nand_cmd B 0x00 (nand_select B s1)))"
  obtain s6 where s6: "nand_wait_ready B ?s5 = Some s6" "ph s6 = ph ?s5" "mem s6 = mem ?s5"
    using nand_wait_ready_returns [OF dev, of ?s5] by blast
  have ph6: "ph s6 = Output (p div 2048) (p mod 2048)" and mem6: "mem s6 = mem s"
    using s6 s1 addr by (simp_all add: nand_addr_phase [OF dev])
  obtain s7 where s7: "nand_read_page B buf len (int (p mod 2048)) i addr s6 = (i + of_nat n, addr + of_nat n, s7)"
    "mem s7 = put_bytes (mem s6) (buf + i) (map (img (p div 2048)) [p mod 2048..<p mod 2048 + n])"
    using nand_read_page_exact [OF dev ph6 _ order_less_imp_le [OF i] buf n, where addr = addr] by auto
  have "map (img (p div 2048)) [p mod 2048..<p mod 2048 + n] = map (nand_byte img) [p..<p + n]"
  proof (rule nth_equalityI)
    fix k assume "k < length (map (img (p div 2048)) [p mod 2048..<p mod 2048 + n])"
    then have k: "k < n" by simp
    with n have "k < 2048 - p mod 2048" by simp
    then have "p + k < p + (2048 - p mod 2048)" by (rule add_strict_left_mono)
    then have "(p + k) div 2048 = p div 2048" "(p + k) mod 2048 = p mod 2048 + k"
      using page_bytes [OF le_add1] by simp_all
    with k show "map (img (p div 2048)) [p mod 2048..<p mod 2048 + n] ! k = map (nand_byte img) [p..<p + n] ! k"
      by (simp add: nand_byte_def)
  qed simp
  moreover have "nand_read_from B buf len col i addr s =
      nand_read_from B buf len 0 (i + of_nat n) (addr + of_nat n) (nand_deselect B s7)"
    by (subst nand_read_from.simps) (simp add: i s1 s6 s7 col Let_def)
  ultimately show ?thesis using s7 mem6
    by (intro exI [of _ "nand_deselect B s7"]) (simp add: nand_dev_simps [OF dev])
qed

text \<open>A round that meets a bad block only moves on to the next one.\<close>

lemma nand_read_skip:
  assumes dev: "nand_dev B ph mem img ram" and i: "i < len"
    and bad: "unat addr mod 131072 = 0" "\<not> good_block img (unat addr div 131072)"
  shows "\<exists>s'. nand_read_from B buf len col i addr s = nand_read_from B buf len col i (addr + 131072) s' \<and>
     mem s' = mem s"
proof -
  obtain s1 where "nand_bad B addr s = Some (True, s1)" "mem s1 = mem s"
    using nand_bad_exact [OF dev bad(1), of s] bad(2) by auto
  then show ?thesis
    by (intro exI [of _ s1]) (subst nand_read_from.simps, simp add: i aligned_mask bad(1))
qed

lemma nand_read_done: "\<not> i < len \<Longrightarrow> nand_read_from B buf len col i addr s = Some s"
  by (subst nand_read_from.simps) simp

lemma rest_of_block:
  assumes V: "\<And>q. p \<le> q \<Longrightarrow> q div 131072 = p div 131072 \<Longrightarrow> visited img p0 q"
    and n: "0 < n" "n \<le> 2048 - p mod 2048" and na: "(p + n) mod 131072 \<noteq> 0"
    and q: "p + n \<le> q" "q div 131072 = (p + n) div 131072"
  shows "visited img p0 q"
proof (rule V)
  have Suc: "p + n = Suc (p + n - 1)" using n(1) by simp
  have "(p + n) div 131072 = (p + n - 1) div 131072"
    using na div_Suc [of "p + n - 1" 131072] Suc by simp
  also have "\<dots> = p div 131072"
  proof (rule page_in_block, rule page_bytes(1))
    show "p + n - 1 < p + (2048 - p mod 2048)" "p \<le> p + n - 1" using n by linarith+
  qed
  finally show "q div 131072 = p div 131072" using q(2) by simp
qed (use q in simp)

lemma nand_read_from_exact:
  assumes dev: "nand_dev B ph mem img ram"
    and buf: "\<And>k. k < unat len \<Longrightarrow> ram (buf + of_nat k)" and e: "e < 2 ^ 32"
    and "unat addr = p" "p0 \<le> p" "p \<le> e" "i < len \<Longrightarrow> col = int (p mod 2048)"
    and "unat i + length (filter (visited img p0) [p..<e]) = unat len"
    and "\<And>q. p mod 131072 \<noteq> 0 \<Longrightarrow> p \<le> q \<Longrightarrow> q div 131072 = p div 131072 \<Longrightarrow> visited img p0 q"
  shows "\<exists>s'. nand_read_from B buf len col i addr s = Some s' \<and>
     mem s' = put_bytes (mem s) (buf + i) (map (nand_byte img) (filter (visited img p0) [p..<e]))"
  using assms(4-)
proof (induction "e - p" arbitrary: p addr i col s rule: less_induct)
  case less
  let ?F = "filter (visited img p0) [p..<e]"
  show ?case
  proof (cases "i < len")
    case False
    with less.prems(5) have "length ?F = 0" by (simp only: word_less_nat_alt)
    then have "?F = []" by (simp only: length_0_conv)
    with False show ?thesis by (simp add: nand_read_done)
  next
    case i: True
    then have il: "unat i < unat len" by (simp add: word_less_nat_alt)
    with less.prems(5) have F: "length ?F = unat len - unat i" "0 < length ?F" by linarith+
    then have pe: "p < e" using less.prems(3) by (cases "p = e") auto
    note col = less.prems(4) [OF i]
    show ?thesis
    proof (cases "p mod 131072 = 0 \<and> \<not> good_block img (p div 131072)")
      case True
      note skip = bad_block_skipped [of p img p0 e, OF _ _ less.prems(2)]
      have lt: "p + 131072 \<le> e"
      proof (rule ccontr)
        assume "\<not> p + 131072 \<le> e"
        then have "min e (p + 131072) = e" by simp
        with skip True have "?F = []" by simp
        with F(2) show False by simp
      qed
      have eq: "?F = filter (visited img p0) [p + 131072..<e]"
        using filter_upt_split [of p "p + 131072" e "visited img p0"] skip True lt by simp
      obtain s1 where s1: "nand_read_from B buf len col i addr s = nand_read_from B buf len col i (addr + 131072) s1"
        "mem s1 = mem s"
        using nand_read_skip [OF dev i, of addr buf col s] True less.prems(1) by auto
      have a: "unat (addr + 131072) = p + 131072"
        using less.prems(1) lt e by (simp add: unat_word_ariths)
      have col': "col = int ((p + 131072) mod 2048)"
        using True col by (auto simp: mod_simps)
      have "\<exists>s'. nand_read_from B buf len col i (addr + 131072) s1 = Some s' \<and>
          mem s' = put_bytes (mem s1) (buf + i) (map (nand_byte img) (filter (visited img p0) [p + 131072..<e]))"
        using True less.prems(2,5) lt pe eq by (intro less.hyps a) (simp_all add: col')
      with s1 eq show ?thesis by simp
    next
      case False
      have V: "visited img p0 q" if "p \<le> q" "q div 131072 = p div 131072" for q
        using False less.prems(6) [OF _ that] that(2) by (auto simp: visited_def)
      define n where "n = min (2048 - p mod 2048) (unat len - unat i)"
      have n: "0 < n" "n \<le> 2048 - p mod 2048" "n \<le> unat len - unat i"
        using F by (simp_all add: n_def)
      have page: "filter (visited img p0) [p..<t] = [p..<t]" if "t \<le> p + n" for t
      proof (rule filter_True, rule ballI, rule V)
        fix q assume "q \<in> set [p..<t]"
        then have q: "p \<le> q" "q < p + n" using that by simp_all
        then have "q < p + (2048 - p mod 2048)" using n(2) by linarith
        with q(1) show "q div 131072 = p div 131072" by (intro page_in_block page_bytes(1))
        show "p \<le> q" by (rule q)
      qed
      have le: "p + n \<le> e"
      proof (rule ccontr)
        assume "\<not> p + n \<le> e"
        with page [of e] F n(3) show False by simp
      qed
      have eq: "?F = [p..<p + n] @ filter (visited img p0) [p + n..<e]"
        using filter_upt_split [OF _ le, of p "visited img p0"] page [of "p + n"] by simp
      obtain s1 where s1: "nand_read_from B buf len col i addr s =
          nand_read_from B buf len 0 (i + of_nat n) (addr + of_nat n) s1"
        "mem s1 = put_bytes (mem s) (buf + i) (map (nand_byte img) [p..<p + n])"
        using nand_read_round [OF dev less.prems(1) i buf n_def col] False by blast
      have a: "unat (addr + of_nat n) = p + n" and j: "unat (i + of_nat n) = unat i + n"
        using less.prems(1) le e n(3) il unat_less [of len] by (simp_all add: unat_word_ariths unat_of_nat)
      have col': "0 = int ((p + n) mod 2048)" if "i + of_nat n < len"
      proof -
        have "unat i + n < unat len" using that j by (simp only: word_less_nat_alt)
        then have "n = 2048 - p mod 2048" unfolding n_def by linarith
        then have "p + n = 2048 * (p div 2048) + 2048"
          using mult_div_mod_eq [of 2048 p] mod_less_divisor [of 2048 p] by linarith
        then show ?thesis by simp
      qed
      have "\<exists>s'. nand_read_from B buf len 0 (i + of_nat n) (addr + of_nat n) s1 = Some s' \<and>
          mem s' = put_bytes (mem s1) (buf + (i + of_nat n)) (map (nand_byte img) (filter (visited img p0) [p + n..<e]))"
      proof (rule less.hyps [OF _ a])
        show "unat (i + of_nat n) + length (filter (visited img p0) [p + n..<e]) = unat len"
          using less.prems(5) j eq by simp
        show "visited img p0 q" if "(p + n) mod 131072 \<noteq> 0" "p + n \<le> q" "q div 131072 = (p + n) div 131072" for q
          using rest_of_block [OF V n(1,2) that] .
      qed (use n(1) le pe less.prems(2) col' in auto)
      then show ?thesis using s1 eq by (simp add: put_step_append add.assoc)
    qed
  qed
qed

lemma nand_read_exact:
  assumes "nand_dev B ph mem img ram" and "unat addr \<le> e" and "e < 2 ^ 32"
    and "unat len = length (filter (visited img (unat addr)) [unat addr..<e])"
    and "\<And>k. k < unat len \<Longrightarrow> ram (buf + of_nat k)"
  shows "\<exists>s'. nand_read B addr buf len s = Some s' \<and>
     mem s' = put_bytes (mem s) buf (map (nand_byte img) (filter (visited img (unat addr)) [unat addr..<e]))"
proof -
  have col: "int (unat (addr mod 2048)) = int (unat addr mod 2048)" by (simp add: unat_mod)
  show ?thesis
    using nand_read_from_exact [OF assms(1,5) assms(3) refl order_refl assms(2), where i = 0 and s = s] assms(4) col
    by (simp add: nand_read_def visited_def)
qed

text \<open>The addresses of the SDRAM.\<close>

definition in_sdram :: "u32 \<Rightarrow> bool" where
  "in_sdram a \<longleftrightarrow> 0x30000000 \<le> a \<and> a < 0x34000000"


text \<open>A chip with a bad first block behind a controller that is busy for one status load.\<close>

record nand_bus_state =
  nb_phase :: nand_phase
  nb_mem :: "u32 \<Rightarrow> u8"
  nb_cont :: u32
  nb_busy :: bool

definition demo_img :: "nat \<Rightarrow> nat \<Rightarrow> u8" where
  "demo_img p c = (if p = 0 \<and> c = 2048 then 0 else if c = 2048 then 0xff else of_nat (p + 3 * c))"

definition demo_nand_bus :: "nand_bus_state bus" where
  "demo_nand_bus = \<lparr>
     rd8 = (\<lambda>a s. if a = NFSTAT then (if nb_busy s then 0 else 1, s\<lparr>nb_busy := False\<rparr>)
                  else if a = NFDATA then
                    (case nb_phase s of Output p c \<Rightarrow> (demo_img p c, s\<lparr>nb_phase := Output p (Suc c)\<rparr>) | _ \<Rightarrow> (0, s))
                  else (nb_mem s a, s)),
     rd16 = (\<lambda>a s. (0, s)), rd32 = (\<lambda>a s. (nb_cont s, s)),
     wr8 = (\<lambda>a v s. if a = NFCMD then s\<lparr>nb_phase := chip_cmd v (nb_phase s), nb_busy := True\<rparr>
                    else if a = NFADDR then s\<lparr>nb_phase := chip_addr v (nb_phase s)\<rparr>
                    else s\<lparr>nb_mem := (nb_mem s)(a := v)\<rparr>),
     wr16 = (\<lambda>a v s. s), wr32 = (\<lambda>a v s. s\<lparr>nb_cont := v\<rparr>)\<rparr>"

lemma demo_nand_dev: "nand_dev demo_nand_bus nb_phase nb_mem demo_img in_sdram"
proof -
  have "\<exists>n. fst (rd8 demo_nand_bus NFSTAT (((\<lambda>s. snd (rd8 demo_nand_bus NFSTAT s)) ^^ n) s)) AND 1 \<noteq> 0" for s
    by (rule exI [of _ 1]) (simp add: demo_nand_bus_def)
  moreover have "\<not> in_sdram NFCMD" "\<not> in_sdram NFADDR" by (simp_all add: in_sdram_def sfr)
  then have "in_sdram a \<Longrightarrow> a \<noteq> NFCMD \<and> a \<noteq> NFADDR" for a by auto
  ultimately show ?thesis
    unfolding nand_dev_def by (simp add: demo_nand_bus_def) (simp add: sfr)
qed

lemma demo_visited: "filter (visited demo_img 0) [0..<131075] = [131072, 131073, 131074]"
proof -
  have "filter (visited demo_img 0) [0..<131072] = []"
    using bad_block_skipped [of 0 demo_img 0 131072] by (simp add: good_block_def demo_img_def)
  moreover have "[131072..<131075] = [131072, 131073, 131074 :: nat]" by simp
  moreover have "visited demo_img 0 q" if "q \<in> {131072, 131073, 131074}" for q
    using that by (auto simp: visited_def good_block_def demo_img_def)
  ultimately show ?thesis
    using filter_upt_split [of 0 131072 131075 "visited demo_img 0"] by simp
qed

lemma demo_ram: "k < 3 \<Longrightarrow> in_sdram (0x30000000 + of_nat k)"
proof -
  assume "k < 3"
  then have "k = 0 \<or> k = 1 \<or> k = 2" by auto
  then show ?thesis by (auto simp: in_sdram_def)
qed


end
