(* ===== verification/Atags.thy ===== *)
theory Atags
  imports Nand_Flash
begin

text \<open>
  The list of tags that a boot loader leaves in memory for Linux: the byte layout of words in the SDRAM, and the
  parser of the kernel, \<^verbatim>\<open>parse_tags\<close> of \<^verbatim>\<open>arch/arm/kernel/setup.c\<close>, in the configuration of
  \<^verbatim>\<open>s3c2410_defconfig\<close>. The parser only loads, so it is a function of the bytes of the memory. The warnings
  that it prints are left out.
\<close>

section \<open>Words in a memory of bytes\<close>

definition put32 :: "(u32 \<Rightarrow> u8) \<Rightarrow> u32 \<Rightarrow> u32 \<Rightarrow> u32 \<Rightarrow> u8" where
  "put32 m a v = put_bytes m a [ucast v, ucast (drop_bit 8 v), ucast (drop_bit 16 v), ucast (drop_bit 24 v)]"

definition get16 :: "(u32 \<Rightarrow> u8) \<Rightarrow> u32 \<Rightarrow> u16" where
  "get16 m a = ucast (m a) OR push_bit 8 (ucast (m (a + 1)))"

definition get32 :: "(u32 \<Rightarrow> u8) \<Rightarrow> u32 \<Rightarrow> u32" where
  "get32 m a = ucast (m a) OR push_bit 8 (ucast (m (a + 1))) OR push_bit 16 (ucast (m (a + 2))) OR push_bit 24 (ucast (m (a + 3)))"

lemma get32_put32 [simp]: "get32 (put32 m a v) a = v"
proof -
  have "ucast (ucast v :: u8) OR push_bit 8 (ucast (ucast (drop_bit 8 v) :: u8)) OR
      push_bit 16 (ucast (ucast (drop_bit 16 v) :: u8)) OR push_bit 24 (ucast (ucast (drop_bit 24 v) :: u8)) = v"
  proof (rule bit_word_eqI)
    fix n assume "n < LENGTH(32)"
    then consider "n < 8" | "8 \<le> n" "n < 16" | "16 \<le> n" "n < 24" | "24 \<le> n" "n < 32" by (simp, linarith)
    then show "bit (ucast (ucast v :: u8) OR push_bit 8 (ucast (ucast (drop_bit 8 v) :: u8)) OR
        push_bit 16 (ucast (ucast (drop_bit 16 v) :: u8)) OR push_bit 24 (ucast (ucast (drop_bit 24 v) :: u8)) :: u32) n = bit v n"
      by cases (auto simp: bit_simps)
  qed
  then show ?thesis by (simp add: get32_def put32_def)
qed

lemma put32_other:
  assumes "unat a + 4 \<le> 2 ^ 32" "unat x < unat a \<or> unat a + 4 \<le> unat x"
  shows "put32 m a v x = m x"
  unfolding put32_def
proof (rule put_step_other)
  fix k assume k: "k < length [ucast v :: u8, ucast (drop_bit 8 v), ucast (drop_bit 16 v), ucast (drop_bit 24 v)]"
  then have "unat (a + 1 * of_nat k) = unat a + k" using assms(1) by (simp add: unat_word_ariths unat_of_nat)
  then show "x \<noteq> a + 1 * of_nat k" using assms(2) k by auto
qed

lemma put_bytes_other:
  assumes "unat a + length bs \<le> 2 ^ 32" "unat x < unat a \<or> unat a + length bs \<le> unat x"
  shows "put_bytes m a bs x = m x"
proof (rule put_step_other)
  fix k assume k: "k < length bs"
  then have "unat (a + 1 * of_nat k) = unat a + k" using assms(1) by (simp add: unat_word_ariths unat_of_nat)
  then show "x \<noteq> a + 1 * of_nat k" using assms(2) k by auto
qed

lemma get32_outside:
  assumes "unat b + 4 \<le> 2 ^ 32" "\<And>x. unat b \<le> unat x \<Longrightarrow> unat x < unat b + 4 \<Longrightarrow> m x = m' x"
  shows "get32 m b = get32 m' b"
proof -
  have "m (b + of_nat k) = m' (b + of_nat k)" if "k < 4" for k
  proof (rule assms(2))
    have "unat (b + of_nat k) = unat b + k" using that assms(1) by (simp add: unat_word_ariths unat_of_nat)
    then show "unat b \<le> unat (b + of_nat k)" "unat (b + of_nat k) < unat b + 4" using that by simp_all
  qed
  from this [of 0] this [of 1] this [of 2] this [of 3] show ?thesis by (simp add: get32_def)
qed

lemma get32_put32_other:
  assumes "unat a + 4 \<le> 2 ^ 32" "unat b + 4 \<le> 2 ^ 32" "unat b + 4 \<le> unat a \<or> unat a + 4 \<le> unat b"
  shows "get32 (put32 m a v) b = get32 m b"
proof (rule get32_outside [OF assms(2)])
  fix x :: u32 assume "unat b \<le> unat x" "unat x < unat b + 4"
  then show "put32 m a v x = m x" using assms(3) by (intro put32_other [OF assms(1)]) linarith
qed

section \<open>What the kernel records\<close>

record screen_info =
  orig_x :: u8
  orig_y :: u8
  orig_video_page :: u16
  orig_video_mode :: u8
  orig_video_cols :: u8
  orig_video_ega_bx :: u16
  orig_video_lines :: u8
  orig_video_isVGA :: u8
  orig_video_points :: u16

text \<open>The variables that the tags set. A bank of memory is its start, its size and its node.\<close>

record kernel_info =
  root_mountflags :: u32
  ROOT_DEV :: u32
  meminfo :: "(u32 \<times> u32 \<times> int) list"
  default_command_line :: "u8 list"
  screen :: screen_info
  rd_image_start :: u32
  rd_prompt :: bool
  rd_doload :: bool
  rd_size :: u32
  phys_initrd_start :: u32
  phys_initrd_size :: u32
  system_serial_low :: u32
  system_serial_high :: u32
  system_rev :: u32

definition ATAG_NONE :: u32 where "ATAG_NONE = 0x00000000"
definition ATAG_CORE :: u32 where "ATAG_CORE = 0x54410001"
definition ATAG_MEM :: u32 where "ATAG_MEM = 0x54410002"
definition ATAG_VIDEOTEXT :: u32 where "ATAG_VIDEOTEXT = 0x54410003"
definition ATAG_RAMDISK :: u32 where "ATAG_RAMDISK = 0x54410004"
definition ATAG_INITRD :: u32 where "ATAG_INITRD = 0x54410005"
definition ATAG_INITRD2 :: u32 where "ATAG_INITRD2 = 0x54420005"
definition ATAG_SERIAL :: u32 where "ATAG_SERIAL = 0x54410006"
definition ATAG_REVISION :: u32 where "ATAG_REVISION = 0x54410007"
definition ATAG_CMDLINE :: u32 where "ATAG_CMDLINE = 0x54410009"

lemmas atag_ids = ATAG_NONE_def ATAG_CORE_def ATAG_MEM_def ATAG_VIDEOTEXT_def ATAG_RAMDISK_def ATAG_INITRD_def
  ATAG_INITRD2_def ATAG_SERIAL_def ATAG_REVISION_def ATAG_CMDLINE_def

definition NR_BANKS :: nat where "NR_BANKS = 8"
definition COMMAND_LINE_SIZE :: nat where "COMMAND_LINE_SIZE = 1024"
definition PAGE_SIZE :: u32 where "PAGE_SIZE = 0x1000"
definition PAGE_MASK :: u32 where "PAGE_MASK = NOT (PAGE_SIZE - 1)"

definition PAGE_ALIGN :: "u32 \<Rightarrow> u32" where
  "PAGE_ALIGN addr = (addr + PAGE_SIZE - 1) AND PAGE_MASK"

definition old_decode_dev :: "u16 \<Rightarrow> u32" where
  "old_decode_dev val = push_bit 20 (ucast (drop_bit 8 val AND 255)) OR ucast (val AND 255)"

definition virt_to_phys :: "u32 \<Rightarrow> u32" where
  "virt_to_phys x = x - 0xc0000000 + 0x30000000"

section \<open>The parser\<close>

text \<open>
  The fields of a tag: the header holds the size in words and the kind, and the fields of the kinds follow from
  the eighth byte on.
\<close>

definition tag_hdr_size :: "(u32 \<Rightarrow> u8) \<Rightarrow> u32 \<Rightarrow> u32" where "tag_hdr_size m t = get32 m t"
definition tag_hdr_tag :: "(u32 \<Rightarrow> u8) \<Rightarrow> u32 \<Rightarrow> u32" where "tag_hdr_tag m t = get32 m (t + 4)"
definition tag_next :: "(u32 \<Rightarrow> u8) \<Rightarrow> u32 \<Rightarrow> u32" where "tag_next m t = t + 4 * tag_hdr_size m t"

text \<open>\<open>None\<close>: the store leaves the array of banks.\<close>

definition arm_add_memory :: "u32 \<Rightarrow> u32 \<Rightarrow> kernel_info \<Rightarrow> kernel_info option" where
  "arm_add_memory start sz k =
     (let sz = sz - (start AND NOT PAGE_MASK)
      in if length (meminfo k) < NR_BANKS
         then Some (k\<lparr>meminfo := meminfo k @ [(PAGE_ALIGN start, sz AND PAGE_MASK, 0)]\<rparr>) else None)"

definition parse_tag_core :: "(u32 \<Rightarrow> u8) \<Rightarrow> u32 \<Rightarrow> kernel_info \<Rightarrow> (int \<times> kernel_info) option" where
  "parse_tag_core m tag k =
     (if tag_hdr_size m tag > 2
      then let k = (if get32 m (tag + 8) AND 1 = 0 then k\<lparr>root_mountflags := root_mountflags k AND NOT 1\<rparr> else k)
           in Some (0, k\<lparr>ROOT_DEV := old_decode_dev (ucast (get32 m (tag + 16)))\<rparr>)
      else Some (0, k))"

definition parse_tag_mem32 :: "(u32 \<Rightarrow> u8) \<Rightarrow> u32 \<Rightarrow> kernel_info \<Rightarrow> (int \<times> kernel_info) option" where
  "parse_tag_mem32 m tag k =
     (if length (meminfo k) \<ge> NR_BANKS then Some (- 22, k)
      else do { k \<leftarrow> arm_add_memory (get32 m (tag + 12)) (get32 m (tag + 8)) k; Some (0, k) })"

definition parse_tag_videotext :: "(u32 \<Rightarrow> u8) \<Rightarrow> u32 \<Rightarrow> kernel_info \<Rightarrow> (int \<times> kernel_info) option" where
  "parse_tag_videotext m tag k =
     Some (0, k\<lparr>screen := \<lparr>orig_x = m (tag + 8), orig_y = m (tag + 9), orig_video_page = get16 m (tag + 10),
       orig_video_mode = m (tag + 12), orig_video_cols = m (tag + 13), orig_video_ega_bx = get16 m (tag + 14),
       orig_video_lines = m (tag + 16), orig_video_isVGA = m (tag + 17), orig_video_points = get16 m (tag + 18)\<rparr>\<rparr>)"

definition setup_ramdisk :: "bool \<Rightarrow> bool \<Rightarrow> u32 \<Rightarrow> u32 \<Rightarrow> kernel_info \<Rightarrow> kernel_info" where
  "setup_ramdisk doload prompt image_start rd_sz k =
     (let k = k\<lparr>rd_image_start := image_start, rd_prompt := prompt, rd_doload := doload\<rparr>
      in if rd_sz \<noteq> 0 then k\<lparr>rd_size := rd_sz\<rparr> else k)"

definition parse_tag_ramdisk :: "(u32 \<Rightarrow> u8) \<Rightarrow> u32 \<Rightarrow> kernel_info \<Rightarrow> (int \<times> kernel_info) option" where
  "parse_tag_ramdisk m tag k =
     Some (0, setup_ramdisk (get32 m (tag + 8) AND 1 = 0) (get32 m (tag + 8) AND 2 = 0) (get32 m (tag + 16)) (get32 m (tag + 12)) k)"

definition parse_tag_initrd :: "(u32 \<Rightarrow> u8) \<Rightarrow> u32 \<Rightarrow> kernel_info \<Rightarrow> (int \<times> kernel_info) option" where
  "parse_tag_initrd m tag k =
     Some (0, k\<lparr>phys_initrd_start := virt_to_phys (get32 m (tag + 8)), phys_initrd_size := get32 m (tag + 12)\<rparr>)"

definition parse_tag_initrd2 :: "(u32 \<Rightarrow> u8) \<Rightarrow> u32 \<Rightarrow> kernel_info \<Rightarrow> (int \<times> kernel_info) option" where
  "parse_tag_initrd2 m tag k =
     Some (0, k\<lparr>phys_initrd_start := get32 m (tag + 8), phys_initrd_size := get32 m (tag + 12)\<rparr>)"

definition parse_tag_serialnr :: "(u32 \<Rightarrow> u8) \<Rightarrow> u32 \<Rightarrow> kernel_info \<Rightarrow> (int \<times> kernel_info) option" where
  "parse_tag_serialnr m tag k =
     Some (0, k\<lparr>system_serial_low := get32 m (tag + 8), system_serial_high := get32 m (tag + 12)\<rparr>)"

definition parse_tag_revision :: "(u32 \<Rightarrow> u8) \<Rightarrow> u32 \<Rightarrow> kernel_info \<Rightarrow> (int \<times> kernel_info) option" where
  "parse_tag_revision m tag k = Some (0, k\<lparr>system_rev := get32 m (tag + 8)\<rparr>)"

text \<open>The length of a string in memory. \<open>None\<close>: no byte from there on is 0.\<close>

partial_function (option) kstrlen :: "(u32 \<Rightarrow> u8) \<Rightarrow> u32 \<Rightarrow> nat option" where
  [code]: "kstrlen m s = (if m s \<noteq> 0 then do { n \<leftarrow> kstrlen m (s + 1); Some (Suc n) } else Some 0)"

text \<open>The array after the copy, and the result.\<close>

definition strlcpy :: "(u32 \<Rightarrow> u8) \<Rightarrow> u8 list \<Rightarrow> u32 \<Rightarrow> nat \<Rightarrow> (nat \<times> u8 list) option" where
  "strlcpy m dest src sz = do {
     ret \<leftarrow> kstrlen m src;
     (if sz \<noteq> 0
      then let len = (if ret \<ge> sz then sz - 1 else ret);
               dest = map (\<lambda>i. m (src + of_nat i)) [0..<len] @ drop len dest
           in Some (ret, dest[len := 0])
      else Some (ret, dest)) }"

definition parse_tag_cmdline :: "(u32 \<Rightarrow> u8) \<Rightarrow> u32 \<Rightarrow> kernel_info \<Rightarrow> (int \<times> kernel_info) option" where
  "parse_tag_cmdline m tag k = do {
     (_, line) \<leftarrow> strlcpy m (default_command_line k) (tag + 8) COMMAND_LINE_SIZE;
     Some (0, k\<lparr>default_command_line := line\<rparr>) }"

definition tagtable :: "(u32 \<times> ((u32 \<Rightarrow> u8) \<Rightarrow> u32 \<Rightarrow> kernel_info \<Rightarrow> (int \<times> kernel_info) option)) list" where
  "tagtable = [(ATAG_CORE, parse_tag_core), (ATAG_MEM, parse_tag_mem32), (ATAG_VIDEOTEXT, parse_tag_videotext),
     (ATAG_RAMDISK, parse_tag_ramdisk), (ATAG_INITRD, parse_tag_initrd), (ATAG_INITRD2, parse_tag_initrd2),
     (ATAG_SERIAL, parse_tag_serialnr), (ATAG_REVISION, parse_tag_revision), (ATAG_CMDLINE, parse_tag_cmdline)]"

text \<open>The first entry for the tag is called, and its result is dropped.\<close>

definition parse_tag :: "(u32 \<Rightarrow> u8) \<Rightarrow> u32 \<Rightarrow> kernel_info \<Rightarrow> (bool \<times> kernel_info) option" where
  "parse_tag m tag k =
     (case map_of tagtable (tag_hdr_tag m tag) of
        None \<Rightarrow> Some (False, k)
      | Some parse \<Rightarrow> do { (_, k) \<leftarrow> parse m tag k; Some (True, k) })"

text \<open>\<open>None\<close>: the list does not end.\<close>

partial_function (option) parse_tags :: "(u32 \<Rightarrow> u8) \<Rightarrow> u32 \<Rightarrow> kernel_info \<Rightarrow> kernel_info option" where
  [code]: "parse_tags m t k =
     (if tag_hdr_size m t \<noteq> 0 then do { (_, k) \<leftarrow> parse_tag m t k; parse_tags m (tag_next m t) k } else Some k)"

section \<open>Steps of the parser\<close>

lemma parse_tags_end: "get32 m t = 0 \<Longrightarrow> parse_tags m t k = Some k"
  by (subst parse_tags.simps) (simp add: tag_hdr_size_def)

lemma parse_tags_core:
  assumes "get32 m t = n" "2 < n" "get32 m (t + 4) = ATAG_CORE"
  shows "parse_tags m t k = parse_tags m (t + 4 * n)
    ((if get32 m (t + 8) AND 1 = 0 then k\<lparr>root_mountflags := root_mountflags k AND NOT 1\<rparr> else k)
      \<lparr>ROOT_DEV := old_decode_dev (ucast (get32 m (t + 16)))\<rparr>)"
  using assms
  by (subst parse_tags.simps) (auto simp: tag_hdr_size_def tag_next_def tag_hdr_tag_def parse_tag_def tagtable_def parse_tag_core_def Let_def)

lemma parse_tags_mem:
  assumes "get32 m t = n" "n \<noteq> 0" "get32 m (t + 4) = ATAG_MEM" "length (meminfo k) < NR_BANKS"
  shows "parse_tags m t k = parse_tags m (t + 4 * n) (k\<lparr>meminfo := meminfo k @
    [(PAGE_ALIGN (get32 m (t + 12)), (get32 m (t + 8) - (get32 m (t + 12) AND NOT PAGE_MASK)) AND PAGE_MASK, 0)]\<rparr>)"
  using assms
  by (subst parse_tags.simps)
    (simp add: tag_hdr_size_def tag_next_def tag_hdr_tag_def parse_tag_def tagtable_def parse_tag_mem32_def arm_add_memory_def
      Let_def ATAG_CORE_def ATAG_MEM_def)

lemma kstrlen_string:
  assumes "\<And>i. i < length cs \<Longrightarrow> m (a + of_nat i) = cs ! i" "m (a + of_nat (length cs)) = 0" "0 \<notin> set cs"
  shows "kstrlen m a = Some (length cs)"
  using assms
proof (induction cs arbitrary: a)
  case Nil
  then show ?case by (subst kstrlen.simps) simp
next
  case (Cons c cs)
  have "kstrlen m (a + 1) = Some (length cs)"
  proof (rule Cons.IH)
    show "m (a + 1 + of_nat i) = cs ! i" if "i < length cs" for i
      using Cons.prems(1) [of "Suc i"] that by (simp add: add.assoc)
  qed (use Cons.prems(2,3) in \<open>simp_all add: add.assoc\<close>)
  moreover have "m a \<noteq> 0" using Cons.prems(1) [of 0] Cons.prems(3) by auto
  ultimately show ?case by (subst kstrlen.simps) simp
qed

lemma parse_tags_cmdline:
  assumes "get32 m t = n" "n \<noteq> 0" "get32 m (t + 4) = ATAG_CMDLINE" "length (default_command_line k) = COMMAND_LINE_SIZE"
    and cs: "\<And>i. i < length cs \<Longrightarrow> m (t + 8 + of_nat i) = cs ! i" "m (t + 8 + of_nat (length cs)) = 0" "0 \<notin> set cs"
  shows "parse_tags m t k = parse_tags m (t + 4 * n)
    (k\<lparr>default_command_line := take 1023 cs @ 0 # drop (Suc (min 1023 (length cs))) (default_command_line k)\<rparr>)"
proof -
  let ?l = "min 1023 (length cs)"
  have l: "(if length cs \<ge> COMMAND_LINE_SIZE then COMMAND_LINE_SIZE - 1 else length cs) = ?l"
    by (simp add: COMMAND_LINE_SIZE_def)
  have kl: "kstrlen m (t + 8) = Some (length cs)" by (rule kstrlen_string) (fact cs)+
  have "map (\<lambda>i. m (t + 8 + of_nat i)) [0..<?l] = take 1023 cs"
    by (rule nth_equalityI) (simp_all add: cs(1))
  moreover have "(take 1023 cs @ drop ?l (default_command_line k))[?l := 0] =
      take 1023 cs @ 0 # drop (Suc ?l) (default_command_line k)"
  proof -
    have "drop ?l (default_command_line k) = default_command_line k ! ?l # drop (Suc ?l) (default_command_line k)"
      using assms(4) by (simp add: Cons_nth_drop_Suc COMMAND_LINE_SIZE_def)
    moreover have "length (take 1023 cs) = ?l" by simp
    ultimately show ?thesis using list_update_length [of "take 1023 cs"] by (simp only:)
  qed
  ultimately have "strlcpy m (default_command_line k) (t + 8) COMMAND_LINE_SIZE =
      Some (length cs, take 1023 cs @ 0 # drop (Suc ?l) (default_command_line k))"
    unfolding strlcpy_def kl Let_def bind.bind_lunit l by (simp add: COMMAND_LINE_SIZE_def)
  then show ?thesis
    using assms(1-3)
    by (subst parse_tags.simps)
      (simp add: tag_hdr_size_def tag_next_def tag_hdr_tag_def parse_tag_def tagtable_def parse_tag_cmdline_def atag_ids)
qed

end
