(* ===== verification/Boot_Init.thy ===== *)
theory Boot_Init
  imports Nand_Flash
begin

text \<open>
  The start-up code of \<^verbatim>\<open>init.c\<close>: the SDRAM controller, the memory test, the choice between NOR
  and NAND boot, the relocation of the image to its link address and the clearing of the bss
  section. The addresses \<^verbatim>\<open>__code_start\<close>, \<^verbatim>\<open>__bss_start\<close> and \<^verbatim>\<open>_end\<close> come from the linker script and
  are arguments.
\<close>

section \<open>The SDRAM controller\<close>

definition sdram_init :: "'s bus \<Rightarrow> 's \<Rightarrow> 's" where
  "sdram_init B s =
     (let s1 = wr32 B BWSCON 0x22000000 s;
          s2 = wr32 B BANKCON6 0x18001 s1;
          s3 = wr32 B BANKCON7 0x18001 s2;
          s4 = wr32 B REFRESH 0x8404f5 s3;
          s5 = wr32 B BANKSIZE 0xb1 s4;
          s6 = wr32 B MRSRB6 0x20 s5
      in wr32 B MRSRB7 0x20 s6)"

definition sdram_arr :: "u32 list" where
  "sdram_arr = [0x22000000, 0x00000700, 0x00000700, 0x00000700, 0x00000700, 0x00000700, 0x00000700,
     0x18001, 0x18001, 0x8404f5, 0xb1, 0x20, 0x20]"

text \<open>The loop \<^verbatim>\<open>*p = arr[i]; p++\<close> over the rest of the array.\<close>

primrec store_words :: "'s bus \<Rightarrow> u32 \<Rightarrow> u32 list \<Rightarrow> 's \<Rightarrow> 's" where
  "store_words B p [] s = s"
| "store_words B p (v # vs) s = store_words B (p + 4) vs (wr32 B p v s)"

definition sdram_init2 :: "'s bus \<Rightarrow> 's \<Rightarrow> 's" where
  "sdram_init2 B s = store_words B 0x48000000 (take 13 sdram_arr) s"

text \<open>The two loops of \<^verbatim>\<open>sdram_test\<close>, from index \<open>i\<close> on, \<open>n\<close> rounds.\<close>

primrec sdram_fill :: "'s bus \<Rightarrow> u32 \<Rightarrow> nat \<Rightarrow> 's \<Rightarrow> 's" where
  "sdram_fill B p 0 s = s"
| "sdram_fill B p (Suc n) s = sdram_fill B (p + 1) n (wr8 B p 0x55 s)"

primrec sdram_check :: "'s bus \<Rightarrow> u32 \<Rightarrow> nat \<Rightarrow> 's \<Rightarrow> int \<times> 's" where
  "sdram_check B p 0 s = (0, s)"
| "sdram_check B p (Suc n) s =
     (let (v, s1) = rd8 B p s in if v \<noteq> 0x55 then (- 1, s1) else sdram_check B (p + 1) n s1)"

definition sdram_test :: "'s bus \<Rightarrow> 's \<Rightarrow> int \<times> 's" where
  "sdram_test B s = sdram_check B 0x30000000 1000 (sdram_fill B 0x30000000 1000 s)"

section \<open>Relocation\<close>

definition isBootFromNorFlash :: "'s bus \<Rightarrow> 's \<Rightarrow> bool \<times> 's" where
  "isBootFromNorFlash B s =
     (let (val, s1) = rd32 B 0 s;
          s2 = wr32 B 0 0x12345678 s1;
          (v, s3) = rd32 B 0 s2
      in if v = 0x12345678 then (False, wr32 B 0 val s3) else (True, s3))"

partial_function (option) copy_words :: "'s bus \<Rightarrow> u32 \<Rightarrow> u32 \<Rightarrow> u32 \<Rightarrow> 's \<Rightarrow> 's option" where
  [code]: "copy_words B dest en src s =
     (if dest < en
      then let (v, s1) = rd32 B src s in copy_words B (dest + 4) en (src + 4) (wr32 B dest v s1)
      else Some s)"

definition copy2sdram :: "'s bus \<Rightarrow> u32 \<Rightarrow> u32 \<Rightarrow> 's \<Rightarrow> 's option" where
  "copy2sdram B code_start bss_start s =
     (let dest = code_start; en = bss_start; src = 0; len = bss_start - code_start;
          (nor, s1) = isBootFromNorFlash B s
      in if nor then copy_words B dest en src s1
         else let s2 = nand_init B s1 in nand_read B src dest len s2)"

partial_function (option) clean_words :: "'s bus \<Rightarrow> u32 \<Rightarrow> u32 \<Rightarrow> 's \<Rightarrow> 's option" where
  [code]: "clean_words B start en s =
     (if start \<le> en then clean_words B (start + 4) en (wr32 B start 0 s) else Some s)"

definition clean_bss :: "'s bus \<Rightarrow> u32 \<Rightarrow> u32 \<Rightarrow> 's \<Rightarrow> 's option" where
  "clean_bss B bss_start end_addr s = clean_words B bss_start end_addr s"

section \<open>Correctness\<close>

text \<open>The loop of stores, and the two ways to set up the controller.\<close>

lemma store_words_mem: "mem_bus B g \<Longrightarrow> g (store_words B p vs s) = put_words (g s) p vs"
  by (induction vs arbitrary: p s) (simp_all add: mem_bus_wr del: fun_upd_apply)

text \<open>
  The two versions of the SDRAM set-up agree on every register that \<^verbatim>\<open>sdram_init\<close> writes; the
  table-driven one also gives the banks 0 to 5 their reset value, and neither writes anything else.
\<close>

theorem sdram_init_versions_agree:
  assumes "mem_bus B g"
  shows "g (sdram_init2 B s) =
    (g (sdram_init B s))(BANKCON0 := 0x700, BANKCON1 := 0x700, BANKCON2 := 0x700, BANKCON3 := 0x700,
       BANKCON4 := 0x700, BANKCON5 := 0x700)"
  by (simp add: sdram_init_def sdram_init2_def sdram_arr_def store_words_mem [OF assms] mem_bus_wr [OF assms] sfr)
    (auto simp: fun_eq_iff)

theorem sdram_init_versions_agree_witness:
  "sdram_init2 ram_bus (\<lambda>_. 0) BANKCON6 = sdram_init ram_bus (\<lambda>_. 0) BANKCON6 \<and>
   sdram_init2 ram_bus (\<lambda>_. 0) BANKCON0 = 0x700"
  using fun_cong [OF sdram_init_versions_agree [OF ram_bus_mem, of "\<lambda>_. 0"]] by (simp add: sfr)

text \<open>The memory test reports exactly the memories that do not return what was stored.\<close>

lemma sdram_check_exact:
  assumes "\<And>a s. rd8 B a s = (g s a, s)"
  shows "sdram_check B p n s = (if \<forall>k<n. g s (p + of_nat k) = 0x55 then 0 else - 1, s)"
proof (induction n arbitrary: p)
  case (Suc n)
  have "(\<forall>k<Suc n. g s (p + of_nat k) = 0x55) \<longleftrightarrow> g s p = 0x55 \<and> (\<forall>k<n. g s (p + 1 + of_nat k) = 0x55)"
    by (simp only: All_less_Suc2) (simp add: add.assoc)
  then show ?case using Suc.IH [of "p + 1"] by (simp add: assms)
qed simp

lemma sdram_fill_exact:
  assumes "\<And>a v s. g (wr8 B a v s) = (g s)(a := v)"
  shows "g (sdram_fill B p n s) = put_bytes (g s) p (replicate n 0x55)"
  by (induction n arbitrary: p s) (simp_all add: assms del: fun_upd_apply)

lemma sdram_test_passes:
  assumes "\<And>a s. rd8 B a s = (g s a, s)" "\<And>a v s. g (wr8 B a v s) = (g s)(a := v)"
  shows "fst (sdram_test B s) = 0"
proof -
  have "put_bytes (g s) 0x30000000 (replicate 1000 0x55) (0x30000000 + of_nat k) = 0x55" if "k < 1000" for k
    using put_step_nth [of 1 "replicate 1000 0x55" k "g s" "0x30000000"] that by simp
  then show ?thesis
    by (simp add: sdram_test_def sdram_check_exact [where g = g, OF assms(1)] sdram_fill_exact [where g = g, OF assms(2)])
qed

text \<open>
  Booting from NOR flash: the flash is mapped from address 0 on and ignores single stores; from
  0x08000000 on there is memory.
\<close>

definition nor_boot :: "'s bus \<Rightarrow> ('s \<Rightarrow> u32 \<Rightarrow> u32) \<Rightarrow> bool" where
  "nor_boot B g \<longleftrightarrow>
     (\<forall>a s. rd32 B a s = (g s a, s)) \<and>
     (\<forall>a v s. g (wr32 B a v s) = (if a < 0x08000000 then g s else (g s)(a := v)))"

lemma nor_boot_rd: "nor_boot B g \<Longrightarrow> rd32 B a s = (g s a, s)"
  by (simp add: nor_boot_def)

lemma nor_boot_wr: "nor_boot B g \<Longrightarrow> 0x08000000 \<le> a \<Longrightarrow> g (wr32 B a v s) = (g s)(a := v)"
  by (auto simp: nor_boot_def)

lemma isBootFromNorFlash_nor:
  assumes "nor_boot B g" "g s 0 \<noteq> 0x12345678"
  shows "\<exists>s'. isBootFromNorFlash B s = (True, s') \<and> g s' = g s"
  using assms by (auto simp: isBootFromNorFlash_def nor_boot_def)

lemma isBootFromNorFlash_ram:
  assumes "mem_bus B g"
  shows "\<exists>s'. isBootFromNorFlash B s = (False, s') \<and> g s' = g s"
  by (simp add: isBootFromNorFlash_def mem_bus_rd [OF assms] mem_bus_wr [OF assms])

lemma next_word:
  assumes "unat (a :: u32) + 4 < 2 ^ 32"
  shows "unat (a + 4) = unat a + 4"
  using assms by (simp add: unat_word_ariths)

lemma copy_words_nor:
  assumes B: "nor_boot B g" and en: "unat en + 4 < 2 ^ 32"
    and "unat dest + 4 * n = unat en" "0x08000000 \<le> dest" "unat src + 4 * n \<le> 0x08000000"
  shows "\<exists>s'. copy_words B dest en src s = Some s' \<and>
     g s' = put_words (g s) dest (map (\<lambda>k. g s (src + 4 * of_nat k)) [0..<n])"
  using assms(3-)
proof (induction n arbitrary: dest src s)
  case 0
  then show ?case by (subst copy_words.simps) (simp add: word_less_nat_alt)
next
  case (Suc n)
  let ?s = "wr32 B dest (g s src) s"
  have d: "unat (dest + 4) = unat dest + 4" "unat (src + 4) = unat src + 4"
    using Suc.prems(1,3) en by (auto intro!: next_word)
  have "\<exists>s'. copy_words B (dest + 4) en (src + 4) ?s = Some s' \<and>
      g s' = put_words (g ?s) (dest + 4) (map (\<lambda>k. g ?s (src + 4 + 4 * of_nat k)) [0..<n])"
  proof (rule Suc.IH)
    show "unat (dest + 4) + 4 * n = unat en" unfolding d using Suc.prems(1) by simp
    show "unat (src + 4) + 4 * n \<le> 0x08000000" unfolding d using Suc.prems(3) by simp
    have "0x08000000 \<le> unat dest" using Suc.prems(2) by (simp add: word_le_nat_alt)
    then have "0x08000000 \<le> unat (dest + 4)" unfolding d by (rule trans_le_add1)
    then show "0x08000000 \<le> dest + 4" by (simp add: word_le_nat_alt)
  qed
  then obtain s' where s': "copy_words B (dest + 4) en (src + 4) ?s = Some s'"
    "g s' = put_words (g ?s) (dest + 4) (map (\<lambda>k. g ?s (src + 4 + 4 * of_nat k)) [0..<n])" by blast
  have gs: "g ?s = (g s)(dest := g s src)" by (rule nor_boot_wr [OF B Suc.prems(2)])
  have "src + 4 + 4 * of_nat k \<noteq> dest" if "k < n" for k
  proof
    assume eq: "src + 4 + 4 * of_nat k = dest"
    have lt: "unat src + 4 + 4 * k < 0x08000000" using Suc.prems(3) that by simp
    have "src + 4 + 4 * of_nat k = of_nat (unat src + 4 + 4 * k)" by simp
    then have "unat dest = unat src + 4 + 4 * k"
      using eq lt unat_of_nat32 [of "unat src + 4 + 4 * k"] by (simp del: of_nat_add)
    then show False using lt Suc.prems(2) by (simp add: word_le_nat_alt)
  qed
  then have m: "map (\<lambda>k. g ?s (src + 4 + 4 * of_nat k)) [0..<n] = map (\<lambda>k. g s (src + 4 * of_nat (Suc k))) [0..<n]"
    by (simp add: gs add.assoc)
  have "g s' = put_words ((g s)(dest := g s src)) (dest + 4) (map (\<lambda>k. g s (src + 4 * of_nat (Suc k))) [0..<n])"
    using s'(2) unfolding m unfolding gs .
  moreover have "map (\<lambda>k. g s (src + 4 * of_nat k)) [0..<Suc n] = g s src # map (\<lambda>k. g s (src + 4 * of_nat (Suc k))) [0..<n]"
    by (simp only: upt_conv_Cons zero_less_Suc list.map map_Suc_upt [symmetric] map_map comp_def) simp
  moreover have "dest < en" using Suc.prems(1) by (simp add: word_less_nat_alt)
  ultimately show ?case using s'(1)
    by (subst copy_words.simps) (simp add: nor_boot_rd [OF B] del: fun_upd_apply upt_Suc)
qed

text \<open>
  The loop condition of \<^verbatim>\<open>clean_bss\<close> is \<^verbatim>\<open>start <= end\<close>: it also clears the word that starts at
  \<^verbatim>\<open>_end\<close>, which is not part of the section.
\<close>

lemma clean_words_nor:
  assumes B: "nor_boot B g" and en: "unat en + 4 < 2 ^ 32"
    and "n = (if start \<le> en then Suc ((unat en - unat start) div 4) else 0)" "0x08000000 \<le> start"
  shows "\<exists>s'. clean_words B start en s = Some s' \<and> g s' = put_words (g s) start (replicate n 0)"
  using assms(3-)
proof (induction n arbitrary: start s)
  case 0
  then show ?case by (subst clean_words.simps) (simp split: if_splits)
next
  case (Suc n)
  then have le: "start \<le> en" and n: "n = (unat en - unat start) div 4" by (simp_all split: if_splits)
  from le have ule: "unat start \<le> unat en" by (simp only: word_le_nat_alt)
  then have d: "unat (start + 4) = unat start + 4" using en by (intro next_word) linarith
  have ge: "0x08000000 \<le> start + 4"
  proof -
    have "0x08000000 \<le> unat start" using Suc.prems(2) by (simp add: word_le_nat_alt)
    then have "0x08000000 \<le> unat (start + 4)" unfolding d by (rule trans_le_add1)
    then show ?thesis by (simp add: word_le_nat_alt)
  qed
  have "n = (if start + 4 \<le> en then Suc ((unat en - unat (start + 4)) div 4) else 0)"
  proof (cases "start + 4 \<le> en")
    case True
    then have "unat start + 4 \<le> unat en" by (simp only: word_le_nat_alt d)
    then have eq: "unat en - unat start = unat en - (unat start + 4) + 4" by linarith
    have "(x + 4) div 4 = Suc (x div 4)" for x :: nat by simp
    then have "n = Suc ((unat en - (unat start + 4)) div 4)" unfolding n by (subst eq)
    with True show ?thesis by (simp only: d if_True)
  next
    case False
    then have "unat en - unat start < 4" using ule by (simp only: word_le_nat_alt d)
    with False show ?thesis by (simp add: n)
  qed
  from Suc.IH [OF this ge, of "wr32 B start 0 s"] obtain s' where
    "clean_words B (start + 4) en (wr32 B start 0 s) = Some s'"
    "g s' = put_words (g (wr32 B start 0 s)) (start + 4) (replicate n 0)" by blast
  with le nor_boot_wr [OF B Suc.prems(2), of 0 s] show ?case
    by (subst clean_words.simps) (simp del: fun_upd_apply)
qed

text \<open>
  C14. Booting from NOR flash, \<^verbatim>\<open>copy2sdram\<close> and \<^verbatim>\<open>clean_bss\<close> both return. Afterwards the image of
  \<open>n\<close> words stands at its link address, the words from \<^verbatim>\<open>__bss_start\<close> up to and including the one at
  \<^verbatim>\<open>_end\<close> are zero, and the rest of the memory is as before.
\<close>

theorem startup_relocates:
  assumes "nor_boot B g" and "g s 0 \<noteq> 0x12345678"
    and "unat bss_start = unat code_start + 4 * n" "4 * n \<le> 0x08000000" "0x08000000 \<le> code_start"
    and "bss_start \<le> end_addr" "unat end_addr + 4 < 2 ^ 32"
  shows "\<exists>s1 s2. copy2sdram B code_start bss_start s = Some s1 \<and> clean_bss B bss_start end_addr s1 = Some s2 \<and>
    g s2 = put_words (put_words (g s) code_start (map (\<lambda>k. g s (4 * of_nat k)) [0..<n])) bss_start
             (replicate (Suc ((unat end_addr - unat bss_start) div 4)) 0)"
proof -
  have le: "unat bss_start \<le> unat end_addr" using assms(6) by (simp only: word_le_nat_alt)
  have code: "0x08000000 \<le> unat code_start" using assms(5) by (simp add: word_le_nat_alt)
  obtain s0 where s0: "isBootFromNorFlash B s = (True, s0)" "g s0 = g s"
    using isBootFromNorFlash_nor [of B g s, OF assms(1,2)] by blast
  have "\<exists>s1. copy_words B code_start bss_start 0 s0 = Some s1 \<and>
      g s1 = put_words (g s0) code_start (map (\<lambda>k. g s0 (0 + 4 * of_nat k)) [0..<n])"
    using assms(3,4,5,7) le by (intro copy_words_nor [OF assms(1)]) simp_all
  then obtain s1 where s1: "copy_words B code_start bss_start 0 s0 = Some s1"
    "g s1 = put_words (g s) code_start (map (\<lambda>k. g s (4 * of_nat k)) [0..<n])"
    unfolding s0(2) by auto
  have "0x08000000 \<le> unat bss_start" unfolding assms(3) using code by (rule trans_le_add1)
  then have bss: "0x08000000 \<le> bss_start" by (simp add: word_le_nat_alt)
  define m where "m = Suc ((unat end_addr - unat bss_start) div 4)"
  have "m = (if bss_start \<le> end_addr then Suc ((unat end_addr - unat bss_start) div 4) else 0)"
    unfolding m_def using assms(6) by (simp only: if_True)
  from clean_words_nor [OF assms(1,7) this bss, of s1]
  obtain s2 where "clean_words B bss_start end_addr s1 = Some s2"
    "g s2 = put_words (g s1) bss_start (replicate m 0)" by (elim exE conjE)
  with s0 s1 show ?thesis unfolding copy2sdram_def clean_bss_def m_def [symmetric] by simp
qed

text \<open>A board with the flash below 0x08000000, starting an image of three words.\<close>

definition demo_nor_boot :: "(u32 \<Rightarrow> u32) bus" where
  "demo_nor_boot = \<lparr>rd8 = (\<lambda>a s. (ucast (s a), s)), rd16 = (\<lambda>a s. (ucast (s a), s)), rd32 = (\<lambda>a s. (s a, s)),
     wr8 = (\<lambda>a v s. s), wr16 = (\<lambda>a v s. s), wr32 = (\<lambda>a v s. if a < 0x08000000 then s else s(a := v))\<rparr>"

lemma demo_nor_boot_contract: "nor_boot demo_nor_boot (\<lambda>s. s)"
  by (simp add: nor_boot_def demo_nor_boot_def)

theorem startup_relocates_witness:
  "\<exists>s1 s2. copy2sdram demo_nor_boot 0xB0000000 0xB000000C (\<lambda>a. a + 7) = Some s1 \<and>
     clean_bss demo_nor_boot 0xB000000C 0xB0000010 s1 = Some s2 \<and>
     s2 0xB0000008 = 15 \<and> s2 0xB000000C = 0 \<and> s2 0xB0000010 = 0 \<and> s2 0xB0000014 = 0xB000001B"
proof -
  have u: "[0..<3] = [0, 1, 2 :: nat]" by code_simp
  have "\<exists>s1 s2. copy2sdram demo_nor_boot 0xB0000000 0xB000000C (\<lambda>a. a + 7) = Some s1 \<and>
     clean_bss demo_nor_boot 0xB000000C 0xB0000010 s1 = Some s2 \<and>
     s2 = put_words (put_words (\<lambda>a. a + 7) 0xB0000000 (map (\<lambda>k. 4 * of_nat k + 7) [0..<3])) 0xB000000C
       (replicate (Suc ((unat (0xB0000010 :: u32) - unat (0xB000000C :: u32)) div 4)) 0)"
    by (rule startup_relocates [OF demo_nor_boot_contract]) simp_all
  then obtain s1 s2 where s: "copy2sdram demo_nor_boot 0xB0000000 0xB000000C (\<lambda>a. a + 7) = Some s1"
     "clean_bss demo_nor_boot 0xB000000C 0xB0000010 s1 = Some s2"
     and s2: "s2 = put_words (put_words (\<lambda>a. a + 7) 0xB0000000 (map (\<lambda>k. 4 * of_nat k + 7) [0, 1, 2])) 0xB000000C
       (replicate (Suc ((unat (0xB0000010 :: u32) - unat (0xB000000C :: u32)) div 4)) 0)"
    unfolding u by (elim exE conjE)
  have "s2 0xB0000008 = 15 \<and> s2 0xB000000C = 0 \<and> s2 0xB0000010 = 0 \<and> s2 0xB0000014 = 0xB000001B"
    by (simp add: s2)
  with s show ?thesis by blast
qed

text \<open>
  Booting from NAND flash: the SRAM is at address 0, and neither a store there nor one to NFCONF
  disturbs the memory that the image is copied to.
\<close>

definition nand_boot :: "'s bus \<Rightarrow> ('s \<Rightarrow> u32 \<Rightarrow> u8) \<Rightarrow> ('s \<Rightarrow> u32) \<Rightarrow> bool" where
  "nand_boot B mem w0 \<longleftrightarrow> plain_reg B 0 w0 \<and>
     (\<forall>v s. mem (wr32 B 0 v s) = mem s) \<and> (\<forall>v s. mem (wr32 B NFCONF v s) = mem s)"

lemma isBootFromNorFlash_sram:
  assumes "nand_boot B mem w0"
  shows "\<exists>s'. isBootFromNorFlash B s = (False, s') \<and> mem s' = mem s"
  using assms by (simp add: nand_boot_def isBootFromNorFlash_def plain_reg_def)

lemma nand_init_mem:
  assumes "nand_dev B ph mem img ram" "nand_boot B mem w0"
  shows "mem (nand_init B s) = mem s"
  using assms by (simp add: nand_init_def nand_dev_def nand_boot_def)

text \<open>
  C15. Booting from NAND flash, \<^verbatim>\<open>copy2sdram\<close> returns with the image at its link address: the bytes of
  the good blocks of the chip from address 0 on. \<open>e\<close> is the address behind the last byte.
\<close>

theorem copy2sdram_from_nand:
  assumes "nand_dev B ph mem img ram" "nand_boot B mem w0" and "e < 2 ^ 32"
    and "unat (bss_start - code_start) = length (filter (\<lambda>q. good_block img (q div 131072)) [0..<e])"
    and "\<And>k. k < unat (bss_start - code_start) \<Longrightarrow> ram (code_start + of_nat k)"
  shows "\<exists>s'. copy2sdram B code_start bss_start s = Some s' \<and>
     mem s' = put_bytes (mem s) code_start
       (map (nand_byte img) (filter (\<lambda>q. good_block img (q div 131072)) [0..<e]))"
proof -
  have vis: "visited img 0 = (\<lambda>q. good_block img (q div 131072))" by (simp add: visited_def fun_eq_iff)
  obtain s1 where s1: "isBootFromNorFlash B s = (False, s1)" "mem s1 = mem s"
    using isBootFromNorFlash_sram [OF assms(2), of s] by blast
  have "\<exists>s'. nand_read B 0 code_start (bss_start - code_start) (nand_init B s1) = Some s' \<and>
      mem s' = put_bytes (mem (nand_init B s1)) code_start (map (nand_byte img) (filter (visited img (unat (0 :: u32))) [unat (0 :: u32)..<e]))"
    using assms by (intro nand_read_exact [OF assms(1)]) (simp_all add: vis unsigned_0)
  then show ?thesis
    using s1 nand_init_mem [OF assms(1,2)] by (simp add: copy2sdram_def vis unsigned_0)
qed

lemma demo_nand_boot: "nand_boot demo_nand_bus nb_mem nb_cont"
  by (simp add: nand_boot_def plain_reg_def demo_nand_bus_def)

theorem copy2sdram_from_nand_witness:
  "\<exists>s'. copy2sdram demo_nand_bus 0x30000000 0x30000003
       \<lparr>nb_phase = Idle, nb_mem = (\<lambda>_. 0), nb_cont = 0, nb_busy = False\<rparr> = Some s' \<and>
     nb_mem s' = (\<lambda>_. 0)(0x30000000 := 64, 0x30000001 := 67, 0x30000002 := 70)"
proof -
  let ?s = "\<lparr>nb_phase = Idle, nb_mem = (\<lambda>_. 0 :: u8), nb_cont = 0, nb_busy = False\<rparr>"
  have F: "filter (\<lambda>q. good_block demo_img (q div 131072)) [0..<131075] = [131072, 131073, 131074]"
    using demo_visited by (simp add: visited_def [abs_def])
  have ram: "in_sdram (0x30000000 + of_nat k)" if "k < unat (0x30000003 - 0x30000000 :: u32)" for k
    using demo_ram that by simp
  have "\<exists>s'. copy2sdram demo_nand_bus 0x30000000 0x30000003 ?s = Some s' \<and>
      nb_mem s' = put_bytes (nb_mem ?s) 0x30000000
        (map (nand_byte demo_img) (filter (\<lambda>q. good_block demo_img (q div 131072)) [0..<131075]))"
    by (rule copy2sdram_from_nand [OF demo_nand_dev demo_nand_boot _ _ ram]) (simp_all only: F, simp_all)
  then show ?thesis unfolding F by (simp add: nand_byte_def demo_img_def)
qed

end
