(* ===== verification/Bootloader.thy ===== *)
theory Bootloader
  imports Atags Boot_Init Console
begin

text \<open>
  The boot loader of \<^verbatim>\<open>32th_my_bootloader\<close>: \<^verbatim>\<open>init.c\<close> with the relocation and the console, and \<^verbatim>\<open>boot.c\<close>, which
  copies Linux from the NAND flash, writes the list of tags and jumps to the kernel. The functions \<^verbatim>\<open>nand_*\<close> and
  \<^verbatim>\<open>isBootFromNorFlash\<close> of its \<^verbatim>\<open>init.c\<close> have the bodies of \<open>Nand_Flash\<close> and \<open>Boot_Init\<close>, which are used here.

  The end of the development of this program is the hand-over: the parser of \<open>Atags\<close> gets from the list what the
  loader put there.
\<close>

section \<open>Relocation\<close>

text \<open>The loop \<^verbatim>\<open>while (i < len)\<close>; the comparison is unsigned.\<close>

function copy_bytes :: "'s bus \<Rightarrow> u32 \<Rightarrow> u32 \<Rightarrow> u32 \<Rightarrow> u32 \<Rightarrow> 's \<Rightarrow> 's" where
  "copy_bytes B src dest len i s =
     (if i < len then let (v, s) = rd8 B (src + i) s in copy_bytes B src dest len (i + 1) (wr8 B (dest + i) v s) else s)"
  by pat_completeness auto
termination
proof (relation "measure (\<lambda>(B, src, dest, len, i, s). unat len - unat i)")
  fix i len :: u32
  assume "i < len"
  then have "unat (i + 1) = Suc (unat i)" "unat i < unat len"
    using unat_less [of len] by (simp_all add: word_less_nat_alt unat_plus_one)
  then show "((B, src, dest, len, i + 1, s'), (B, src, dest, len, i, s)) \<in> measure (\<lambda>(B, src, dest, len, i, s). unat len - unat i)"
    for B src dest s s' by simp
qed simp

declare copy_bytes.simps [simp del]

definition copy_code_to_sdram :: "'s bus \<Rightarrow> u32 \<Rightarrow> u32 \<Rightarrow> u32 \<Rightarrow> 's \<Rightarrow> 's option" where
  "copy_code_to_sdram B src dest len s =
     (let (nor, s) = isBootFromNorFlash B s
      in if nor then Some (copy_bytes B src dest len 0 s) else nand_read B src dest len s)"

partial_function (option) clear_bss :: "'s bus \<Rightarrow> u32 \<Rightarrow> u32 \<Rightarrow> 's \<Rightarrow> 's option" where
  [code]: "clear_bss B p bss_end s = (if p < bss_end then clear_bss B (p + 4) bss_end (wr32 B p 0 s) else Some s)"

section \<open>Console\<close>

definition UFCON0 :: u32 where [sfr]: "UFCON0 = 0x50000008"
definition UMCON0 :: u32 where [sfr]: "UMCON0 = 0x5000000c"
definition UART_BRD :: nat where "UART_BRD = 50000000 div (115200 * 16) - 1"

definition boot_uart0_init :: "'s bus \<Rightarrow> 's \<Rightarrow> 's" where
  "boot_uart0_init B s =
     (let s = reg_or B GPHCON 0xa0 s;
          s = wr32 B GPHUP 0x0c s;
          s = wr32 B ULCON0 0x03 s;
          s = wr32 B UCON0 0x05 s;
          s = wr32 B UFCON0 0x00 s;
          s = wr32 B UMCON0 0x00 s
      in wr32 B UBRDIV0 (of_nat UART_BRD) s)"

definition putc :: "'s bus \<Rightarrow> u8 \<Rightarrow> 's \<Rightarrow> 's option" where
  "putc B c s = do {
     (_, s) \<leftarrow> poll (rd32 B UTRSTAT0) (\<lambda>v. v AND push_bit 2 1 \<noteq> 0) s;
     Some (wr8 B UTXH0 c s) }"

fun boot_puts :: "'s bus \<Rightarrow> cstring \<Rightarrow> 's \<Rightarrow> 's option" where
  "boot_puts B [] s = Some s"
| "boot_puts B (c # cs) s = do { s \<leftarrow> putc B c s; boot_puts B cs s }"

text \<open>The digits from number \<open>i\<close> on.\<close>

function puthex_from :: "'s bus \<Rightarrow> u32 \<Rightarrow> nat \<Rightarrow> 's \<Rightarrow> 's option" where
  "puthex_from B val i s =
     (if i < 8
      then let j = drop_bit ((7 - i) * 4) val AND 0xf
           in do {
                s \<leftarrow> (if j \<ge> 0 \<and> j \<le> 9 then putc B (0x30 + ucast j) s else putc B (0x41 + ucast j - 0xa) s);
                puthex_from B val (i + 1) s }
      else Some s)"
  by pat_completeness auto
termination by (relation "measure (\<lambda>(B, val, i, s). 8 - i)") auto

declare puthex_from.simps [simp del]

definition puthex :: "'s bus \<Rightarrow> u32 \<Rightarrow> 's \<Rightarrow> 's option" where
  "puthex B val s = do { s \<leftarrow> boot_puts B (str ''0x'') s; puthex_from B val 0 s }"

section \<open>The list of tags\<close>

text \<open>\<^verbatim>\<open>tag_size\<close> of a structure of \<open>n\<close> bytes, and \<^verbatim>\<open>tag_next\<close>, which loads the size from the tag.\<close>

definition boot_tag_size :: "u32 \<Rightarrow> u32" where
  "boot_tag_size n = drop_bit 2 (8 + n)"

definition boot_tag_next :: "'s bus \<Rightarrow> u32 \<Rightarrow> 's \<Rightarrow> u32 \<times> 's" where
  "boot_tag_next B t s = (let (n, s) = rd32 B t s in (t + 4 * n, s))"

text \<open>Every function gets the variable \<^verbatim>\<open>params\<close> and returns its new value.\<close>

definition setup_start_tag :: "'s bus \<Rightarrow> 's \<Rightarrow> u32 \<times> 's" where
  "setup_start_tag B s =
     (let params = 0x30000100;
          s = wr32 B (params + 4) ATAG_CORE s;
          s = wr32 B params (boot_tag_size 12) s;
          s = wr32 B (params + 8) 0 s;
          s = wr32 B (params + 12) 0 s;
          s = wr32 B (params + 16) 0 s
      in boot_tag_next B params s)"

definition setup_memory_tags :: "'s bus \<Rightarrow> u32 \<Rightarrow> 's \<Rightarrow> u32 \<times> 's" where
  "setup_memory_tags B params s =
     (let s = wr32 B (params + 4) ATAG_MEM s;
          s = wr32 B params (boot_tag_size 8) s;
          s = wr32 B (params + 12) 0x30000000 s;
          s = wr32 B (params + 8) (64 * 1024 * 1024) s
      in boot_tag_next B params s)"

fun boot_strlen :: "cstring \<Rightarrow> nat" where
  "boot_strlen [] = 0"
| "boot_strlen (c # cs) = (if c \<noteq> 0 then Suc (boot_strlen cs) else 0)"

fun boot_strcpy :: "'s bus \<Rightarrow> u32 \<Rightarrow> cstring \<Rightarrow> 's \<Rightarrow> 's" where
  "boot_strcpy B dest [] s = wr8 B dest 0 s"
| "boot_strcpy B dest (c # cs) s = (let s = wr8 B dest c s in if c \<noteq> 0 then boot_strcpy B (dest + 1) cs s else s)"

definition setup_commandline_tag :: "'s bus \<Rightarrow> cstring \<Rightarrow> u32 \<Rightarrow> 's \<Rightarrow> u32 \<times> 's" where
  "setup_commandline_tag B cmdline params s =
     (let len = boot_strlen cmdline + 1;
          s = wr32 B (params + 4) ATAG_CMDLINE s;
          s = wr32 B params (drop_bit 2 (8 + of_nat len + 3)) s;
          s = boot_strcpy B (params + 8) cmdline s
      in boot_tag_next B params s)"

definition setup_end_tag :: "'s bus \<Rightarrow> u32 \<Rightarrow> 's \<Rightarrow> 's" where
  "setup_end_tag B params s =
     (let s = wr32 B (params + 4) ATAG_NONE s
      in wr32 B params 0 s)"

definition set_boot_params :: "'s bus \<Rightarrow> cstring \<Rightarrow> 's \<Rightarrow> 's" where
  "set_boot_params B cmdline s =
     (let (params, s) = setup_start_tag B s;
          (params, s) = setup_memory_tags B params s;
          (params, s) = setup_commandline_tag B cmdline params s
      in setup_end_tag B params s)"

section \<open>The program\<close>

definition boot_cmdline :: cstring where
  "boot_cmdline = str ''noinitrd root=/dev/mtdblock3 init=/linuxrc console=ttySAC0,115200''"

text \<open>
  The kernel is code at an address, called with three arguments. It is an argument here; \<open>None\<close> as its result says that
  it does not return.
\<close>

definition boot_main :: "'s bus \<Rightarrow> (u32 \<Rightarrow> int \<Rightarrow> int \<Rightarrow> u32 \<Rightarrow> 's \<Rightarrow> 's option) \<Rightarrow> 's \<Rightarrow> (int \<times> 's) option" where
  "boot_main B theKernel s =
     (let s = boot_uart0_init B s
      in do {
           s \<leftarrow> boot_puts B (str ''Copy kernel from nand'' @ [10, 13]) s;
           s \<leftarrow> nand_read B (0x60000 + 64) 0x30008000 0x200000 s;
           s \<leftarrow> puthex B 0x1234ABCD s;
           s \<leftarrow> boot_puts B [10, 13] s;
           let (v, s) = rd32 B 0x30008000 s;
           s \<leftarrow> puthex B v s;
           s \<leftarrow> boot_puts B [10, 13] s;
           s \<leftarrow> boot_puts B (str ''Set boot params'' @ [10, 13]) s;
           let s = set_boot_params B boot_cmdline s;
           s \<leftarrow> boot_puts B (str ''Boot kernel'' @ [10, 13]) s;
           s \<leftarrow> theKernel 0x30008000 0 362 0x30000100 s;
           s \<leftarrow> boot_puts B (str ''Error!'' @ [10, 13]) s;
           Some (- 1, s) })"

section \<open>The relocation copies\<close>

text \<open>
  Booting from NOR flash, seen as bytes: the flash is mapped from address 0 on and ignores single stores, and its first
  word is not the probe value. From 0x08000000 on there is memory.
\<close>

definition nor_bytes :: "'s bus \<Rightarrow> ('s \<Rightarrow> u32 \<Rightarrow> u8) \<Rightarrow> bool" where
  "nor_bytes B g \<longleftrightarrow>
     (\<forall>a s. rd8 B a s = (g s a, s)) \<and>
     (\<forall>a v s. 0x08000000 \<le> a \<longrightarrow> g (wr8 B a v s) = (g s)(a := v)) \<and>
     (\<forall>s. fst (rd32 B 0 s) \<noteq> 0x12345678 \<and> g (snd (rd32 B 0 s)) = g s) \<and>
     (\<forall>v s. g (wr32 B 0 v s) = g s)"

lemma copy_bytes_nor:
  assumes B: "nor_bytes B g" and src: "unat src + unat len \<le> 0x08000000"
    and dest: "0x08000000 \<le> unat dest" "unat dest + unat len \<le> 2 ^ 32"
  shows "unat i + n = unat len \<Longrightarrow>
    g (copy_bytes B src dest len i s) = put_bytes (g s) (dest + i) (map (\<lambda>k. g s (src + i + of_nat k)) [0..<n])"
proof (induction n arbitrary: i s)
  case 0
  then show ?case by (subst copy_bytes.simps) (simp add: word_less_nat_alt)
next
  case (Suc n)
  have lt: "i < len" using Suc.prems by (simp add: word_less_nat_alt)
  have i1: "unat (i + 1) = Suc (unat i)" using Suc.prems unat_less [of len] by (simp add: unat_plus_one)
  have d: "unat (dest + i) = unat dest + unat i" using Suc.prems dest(2) by (simp add: unat_word_ariths)
  let ?s = "wr8 B (dest + i) (g s (src + i)) s"
  have "0x08000000 \<le> dest + i" using d dest(1) by (simp add: word_le_nat_alt)
  then have gs: "g ?s = (g s)(dest + i := g s (src + i))" using B by (simp add: nor_bytes_def)
  have same: "g ?s (src + i + 1 + of_nat k) = g s (src + i + 1 + of_nat k)" if "k < n" for k
  proof -
    have "src + i + 1 + of_nat k = of_nat (unat src + unat i + 1 + k)" by simp
    then have "unat (src + i + 1 + of_nat k) = unat src + unat i + 1 + k"
      using that Suc.prems src by (simp only: unat_of_nat) (simp add: unat_of_nat)
    then have "unat (src + i + 1 + of_nat k) < unat (dest + i)" using d that Suc.prems src dest(1) by linarith
    then have "src + i + 1 + of_nat k \<noteq> dest + i" by (metis less_irrefl)
    then show ?thesis by (simp add: gs)
  qed
  have "g (copy_bytes B src dest len (i + 1) ?s) = put_bytes (g ?s) (dest + (i + 1)) (map (\<lambda>k. g ?s (src + (i + 1) + of_nat k)) [0..<n])"
    using Suc.prems i1 by (intro Suc.IH) simp
  also have "map (\<lambda>k. g ?s (src + (i + 1) + of_nat k)) [0..<n] = map (\<lambda>k. g s (src + i + 1 + of_nat k)) [0..<n]"
    using same by (simp add: add.assoc)
  finally have "g (copy_bytes B src dest len i s) =
      put_bytes ((g s)(dest + i := g s (src + i))) (dest + i + 1) (map (\<lambda>k. g s (src + i + 1 + of_nat k)) [0..<n])"
    using lt B gs by (subst copy_bytes.simps) (simp add: nor_bytes_def add.assoc del: fun_upd_apply)
  moreover have "map (\<lambda>k. g s (src + i + of_nat k)) [0..<Suc n] = g s (src + i) # map (\<lambda>k. g s (src + i + 1 + of_nat k)) [0..<n]"
    by (simp only: upt_conv_Cons zero_less_Suc list.map map_Suc_upt [symmetric] map_map comp_def) (simp add: add.assoc)
  ultimately show ?case by (simp only: put_step.simps)
qed

lemma copy_code_to_sdram_nor:
  assumes B: "nor_bytes B g" and "unat src + unat len \<le> 0x08000000" "0x08000000 \<le> unat dest" "unat dest + unat len \<le> 2 ^ 32"
    and "fst (rd32 B 0 (wr32 B 0 0x12345678 (snd (rd32 B 0 s)))) = fst (rd32 B 0 s)"
  shows "\<exists>s'. copy_code_to_sdram B src dest len s = Some s' \<and>
    g s' = put_bytes (g s) dest (map (\<lambda>k. g s (src + of_nat k)) [0..<unat len])"
proof -
  obtain s1 where s1: "isBootFromNorFlash B s = (True, s1)" "g s1 = g s"
    using B assms(5) by (auto simp: isBootFromNorFlash_def nor_bytes_def case_prod_unfold Let_def)
  have "g (copy_bytes B src dest len 0 s1) = put_bytes (g s) dest (map (\<lambda>k. g s (src + of_nat k)) [0..<unat len])"
    using copy_bytes_nor [OF B assms(2-4), of 0 "unat len" s1] s1(2) by simp
  with s1(1) show ?thesis by (simp add: copy_code_to_sdram_def)
qed

text \<open>The loop of \<^verbatim>\<open>clear_bss\<close> clears the words of the section and no other.\<close>

lemma clear_bss_nor:
  assumes B: "nor_boot B g" and en: "unat en + 4 < 2 ^ 32" and "0x08000000 \<le> start" "unat en - unat start = 4 * n"
    "unat start \<le> unat en"
  shows "\<exists>s'. clear_bss B start en s = Some s' \<and> g s' = put_words (g s) start (replicate n 0)"
  using assms(3-)
proof (induction n arbitrary: start s)
  case 0
  then show ?case by (subst clear_bss.simps) (simp add: word_less_nat_alt)
next
  case (Suc n)
  have d: "unat (start + 4) = unat start + 4" using Suc.prems en by (intro next_word) linarith
  have "0x08000000 \<le> start + 4" using Suc.prems(1) d by (simp add: word_le_nat_alt)
  moreover have en': "unat en = unat start + 4 * n + 4" using Suc.prems(2,3) by simp
  then have "unat en - unat (start + 4) = 4 * n" "unat (start + 4) \<le> unat en"
    using en' d by simp_all
  ultimately obtain s' where
    "clear_bss B (start + 4) en (wr32 B start 0 s) = Some s'"
    "g s' = put_words (g (wr32 B start 0 s)) (start + 4) (replicate n 0)"
    using Suc.IH [of "start + 4" "wr32 B start 0 s"] by blast
  moreover have "start < en" using Suc.prems by (simp add: word_less_nat_alt)
  ultimately show ?case using nor_boot_wr [OF B Suc.prems(1), of 0 s]
    by (subst clear_bss.simps) (simp del: fun_upd_apply)
qed

section \<open>The console sends what the other console sends\<close>

lemma putc_putchar: "putc = putchar"
  by (intro ext) (simp add: putc_def putchar_def)

lemma boot_puts_puts: "boot_puts B cs s = puts B cs s"
  by (induction cs arbitrary: s) (simp_all add: putc_putchar cong: Option.bind_cong)

lemma puts_single: "puts B [c] s = putchar B c s"
  by (cases "putchar B c s") simp_all

lemma hex_digit_putc:
  "(if j \<ge> 0 \<and> j \<le> 9 then putc B (0x30 + ucast j) s else putc B (0x41 + ucast j - 0xa) s) = puts B (hex_digit j) s"
  if "unat (j :: u32) < 16"
proof -
  have "j = of_nat (unat j)" by simp
  moreover have "unat j \<in> {0, 1, 2, 3, 4, 5, 6, 7, 8, 9, 10, 11, 12, 13, 14, 15}"
    using that by (simp only: insert_iff empty_iff) presburger
  ultimately show ?thesis
    by (elim insertE emptyE) (simp_all add: hex_digit_def putc_putchar puts_single del: puts.simps)
qed

lemma puts_append: "puts B (xs @ ys) s = Option.bind (puts B xs s) (puts B ys)"
  by (induction xs arbitrary: s) (simp_all add: Option.bind_assoc cong: Option.bind_cong)


lemma hex_nibbles_map: "hex_nibbles n val = map (\<lambda>i. drop_bit (4 * i) val AND 0xf) [0..<n]"
proof (induction n arbitrary: val)
  case (Suc n)
  have "map (\<lambda>i. drop_bit (4 * i) val AND 0xf) [0..<Suc n] =
      (val AND 0xf) # map (\<lambda>i. drop_bit (4 * i) (drop_bit 4 val) AND 0xf) [0..<n]"
    by (simp only: upt_conv_Cons zero_less_Suc list.map map_Suc_upt [symmetric] map_map comp_def) (simp add: add.commute)
  with Suc show ?case by simp
qed simp

lemma puthex_from_puts: "puthex_from B val i s = puts B (concat (map (\<lambda>i. hex_digit (drop_bit ((7 - i) * 4) val AND 0xf)) [i..<8])) s"
proof (induction "8 - i" arbitrary: i s)
  case 0
  then show ?case by (subst puthex_from.simps) simp
next
  case (Suc n)
  have "unat (drop_bit ((7 - i) * 4) val AND 0xf) < 16" using word_and_le1 [of "drop_bit ((7 - i) * 4) val" "0xf"]
    by (simp add: word_le_nat_alt)
  note d = hex_digit_putc [OF this, of B]
  have "i < 8" using Suc.hyps(2) by simp
  moreover have "puthex_from B val (i + 1) = puts B (concat (map (\<lambda>i. hex_digit (drop_bit ((7 - i) * 4) val AND 0xf)) [i + 1..<8]))"
    using Suc.hyps by (intro ext) simp
  ultimately show ?case
    by (subst puthex_from.simps) (simp only: if_True Let_def d upt_conv_Cons list.map concat.simps puts_append Suc_eq_plus1)
qed

lemma puthex_printHex: "puthex B val s = printHex B val s"
proof -
  have "rev (hex_nibbles 8 val) = map (\<lambda>i. drop_bit ((7 - i) * 4) val AND 0xf) [0..<8]"
    by (simp add: hex_nibbles_map upt_rec)
  then have "puthex_from B val 0 = puts B (concat (map hex_digit (rev (hex_nibbles 8 val))))"
    by (intro ext) (simp only: puthex_from_puts map_map comp_def)
  then show ?thesis by (simp add: puthex_def printHex_def boot_puts_puts)
qed

section \<open>The SDRAM\<close>

text \<open>
  \<open>mem\<close> observes the bytes of the SDRAM: byte stores and aligned word stores and loads are those of a little-endian
  memory, and no access to another address changes it.
\<close>

definition sdram_bus :: "'s bus \<Rightarrow> ('s \<Rightarrow> u32 \<Rightarrow> u8) \<Rightarrow> bool" where
  "sdram_bus B mem \<longleftrightarrow>
     (\<forall>a v s. in_sdram a \<longrightarrow> mem (wr8 B a v s) = (mem s)(a := v)) \<and>
     (\<forall>a v s. in_sdram a \<and> unat a mod 4 = 0 \<longrightarrow> mem (wr32 B a v s) = put32 (mem s) a v) \<and>
     (\<forall>a s. in_sdram a \<and> unat a mod 4 = 0 \<longrightarrow> fst (rd32 B a s) = get32 (mem s) a \<and> mem (snd (rd32 B a s)) = mem s) \<and>
     (\<forall>a v w s. \<not> in_sdram a \<longrightarrow> mem (wr8 B a v s) = mem s \<and> mem (wr32 B a w s) = mem s \<and>
        mem (snd (rd32 B a s)) = mem s)"

lemma sdram_wr:
  assumes "sdram_bus B mem" "in_sdram a"
  shows "mem (wr8 B a b s) = (mem s)(a := b)" "unat a mod 4 = 0 \<Longrightarrow> mem (wr32 B a v s) = put32 (mem s) a v"
  using assms unfolding sdram_bus_def by simp_all

lemma sdram_rd:
  assumes "sdram_bus B mem" "in_sdram a" "unat a mod 4 = 0"
  obtains s' where "rd32 B a s = (get32 (mem s) a, s')" "mem s' = mem s"
proof -
  have "\<forall>a s. in_sdram a \<and> unat a mod 4 = 0 \<longrightarrow> fst (rd32 B a s) = get32 (mem s) a \<and> mem (snd (rd32 B a s)) = mem s"
    using assms(1) unfolding sdram_bus_def by (elim conjE)
  with assms(2,3) have "fst (rd32 B a s) = get32 (mem s) a" "mem (snd (rd32 B a s)) = mem s" by simp_all
  then show thesis by (intro that [of "snd (rd32 B a s)"]) (simp_all add: prod_eq_iff)
qed

lemma sdram_reg:
  assumes "sdram_bus B mem" "\<not> in_sdram a"
  shows "mem (wr32 B a v s) = mem s" "mem (reg_or B a v s) = mem s"
  using assms unfolding sdram_bus_def reg_or_def by (simp_all add: case_prod_unfold Let_def)

lemma sdram_uart: "sdram_bus B mem \<Longrightarrow> uart_frame B mem"
  by (simp add: sdram_bus_def uart_frame_def in_sdram_def sfr)

lemma boot_puts_quiet:
  assumes "uart_tx B tx" "sdram_bus B mem"
  obtains s' where "boot_puts B cs s = Some s'" "mem s' = mem s"
  using puts_sends [OF assms(1), of cs s] puts_frame [OF sdram_uart [OF assms(2)], of cs s] unfolding boot_puts_puts by blast

lemma puthex_quiet:
  assumes "uart_tx B tx" "sdram_bus B mem"
  obtains s' where "puthex B v s = Some s'" "mem s' = mem s"
proof -
  obtain s1 where s1: "puts B (str ''0x'') s = Some s1" "mem s1 = mem s"
    using boot_puts_quiet [OF assms] unfolding boot_puts_puts by metis
  obtain s2 where "puts B (concat (map hex_digit (rev (hex_nibbles 8 v)))) s1 = Some s2" "mem s2 = mem s1"
    using boot_puts_quiet [OF assms] unfolding boot_puts_puts by metis
  with s1 that show thesis by (simp add: puthex_printHex printHex_def)
qed

section \<open>The tags in memory\<close>

lemma boot_strlen_length: "0 \<notin> set cs \<Longrightarrow> boot_strlen cs = length cs"
  by (induction cs) auto

lemma boot_strcpy_mem:
  assumes "sdram_bus B mem"
  shows "0 \<notin> set cs \<Longrightarrow> (\<And>k. k \<le> length cs \<Longrightarrow> in_sdram (a + of_nat k)) \<Longrightarrow>
    mem (boot_strcpy B a cs s) = put_bytes (mem s) a (cs @ [0])"
proof (induction cs arbitrary: a s)
  case Nil
  then show ?case using Nil(2) [of 0] by (simp add: sdram_wr [OF assms] del: fun_upd_apply)
next
  case (Cons c cs)
  have "in_sdram (a + 1 + of_nat k)" if "k \<le> length cs" for k
    using Cons.prems(2) [of "Suc k"] that by (simp add: add.assoc)
  moreover have "in_sdram a" using Cons.prems(2) [of 0] by simp
  ultimately show ?case
    using Cons.IH [of "a + 1" "wr8 B a c s"] Cons.prems(1) by (simp add: sdram_wr [OF assms] del: fun_upd_apply)
qed

lemma boot_tag_next_mem:
  assumes "sdram_bus B mem" "in_sdram t" "unat t mod 4 = 0" "get32 (mem s) t = n"
  obtains s' where "boot_tag_next B t s = (t + 4 * n, s')" "mem s' = mem s"
proof -
  obtain s' where "rd32 B t s = (get32 (mem s) t, s')" "mem s' = mem s" by (rule sdram_rd [OF assms(1-3)])
  with assms(4) show thesis by (intro that [of s']) (simp_all add: boot_tag_next_def)
qed

lemma setup_start_tag_mem:
  assumes B: "sdram_bus B mem"
  obtains s' where "setup_start_tag B s = (0x30000114, s')"
    "mem s' = put32 (put32 (put32 (put32 (put32 (mem s) 0x30000104 ATAG_CORE) 0x30000100 5) 0x30000108 0) 0x3000010C 0) 0x30000110 0"
proof -
  let ?s = "wr32 B 0x30000110 0 (wr32 B 0x3000010C 0 (wr32 B 0x30000108 0 (wr32 B 0x30000100 5 (wr32 B 0x30000104 ATAG_CORE s))))"
  have m: "mem ?s = put32 (put32 (put32 (put32 (put32 (mem s) 0x30000104 ATAG_CORE) 0x30000100 5) 0x30000108 0) 0x3000010C 0) 0x30000110 0"
    by (simp add: sdram_wr [OF B] in_sdram_def)
  obtain s' where "boot_tag_next B 0x30000100 ?s = (0x30000100 + 4 * 5, s')" "mem s' = mem ?s"
    by (rule boot_tag_next_mem [OF B, of "0x30000100" ?s 5]) (simp_all add: m in_sdram_def get32_put32_other)
  with m that show thesis by (simp add: setup_start_tag_def Let_def boot_tag_size_def)
qed

lemma setup_memory_tags_mem:
  assumes B: "sdram_bus B mem"
  obtains s' where "setup_memory_tags B 0x30000114 s = (0x30000124, s')"
    "mem s' = put32 (put32 (put32 (put32 (mem s) 0x30000118 ATAG_MEM) 0x30000114 4) 0x30000120 0x30000000) 0x3000011C 0x4000000"
proof -
  let ?s = "wr32 B 0x3000011C 0x4000000 (wr32 B 0x30000120 0x30000000 (wr32 B 0x30000114 4 (wr32 B 0x30000118 ATAG_MEM s)))"
  have m: "mem ?s = put32 (put32 (put32 (put32 (mem s) 0x30000118 ATAG_MEM) 0x30000114 4) 0x30000120 0x30000000) 0x3000011C 0x4000000"
    by (simp add: sdram_wr [OF B] in_sdram_def)
  obtain s' where "boot_tag_next B 0x30000114 ?s = (0x30000114 + 4 * 4, s')" "mem s' = mem ?s"
    by (rule boot_tag_next_mem [OF B, of "0x30000114" ?s 4]) (simp_all add: m in_sdram_def get32_put32_other)
  with m that show thesis by (simp add: setup_memory_tags_def Let_def boot_tag_size_def)
qed

text \<open>The number of words of the tag of a command line of \<open>n\<close> characters.\<close>

definition cmd_words :: "nat \<Rightarrow> nat" where
  "cmd_words n = (n + 12) div 4"

lemma cmd_words_room: "n + 9 \<le> 4 * cmd_words n" "4 * cmd_words n \<le> n + 12"
  by (simp_all add: cmd_words_def)

lemma sdram_range: "unat a \<in> {0x30000000..<0x34000000} \<longleftrightarrow> in_sdram a"
  by (simp add: in_sdram_def word_le_nat_alt word_less_nat_alt)

lemma setup_commandline_tag_mem:
  assumes B: "sdram_bus B mem" and cmd: "0 \<notin> set cmd" "length cmd \<le> 0x7000"
  obtains s' where "setup_commandline_tag B cmd 0x30000124 s = (0x30000124 + of_nat (4 * cmd_words (length cmd)), s')"
    "mem s' = put_bytes (put32 (put32 (mem s) 0x30000128 ATAG_CMDLINE) 0x30000124 (of_nat (cmd_words (length cmd)))) 0x3000012C (cmd @ [0])"
proof -
  let ?n = "cmd_words (length cmd)"
  have "drop_bit 2 (8 + of_nat (boot_strlen cmd + 1) + 3 :: u32) = drop_bit 2 (of_nat (length cmd + 12))"
    by (simp add: boot_strlen_length [OF cmd(1)] add.commute)
  also have "\<dots> = of_nat ?n"
  proof -
    have "unat (drop_bit 2 (of_nat (length cmd + 12) :: u32)) = ?n"
      unfolding unat_shift_right using cmd(2) by (simp add: unat_of_nat cmd_words_def del: of_nat_add)
    moreover have "w = of_nat (unat w)" for w :: u32 by simp
    ultimately show ?thesis by metis
  qed
  finally have n: "drop_bit 2 (8 + of_nat (boot_strlen cmd + 1) + 3 :: u32) = of_nat ?n" .
  have ram: "in_sdram (0x3000012C + of_nat k)" if "k \<le> length cmd" for k
  proof -
    have "unat (0x3000012C + of_nat k :: u32) = 0x3000012C + k" using that cmd(2) by (simp add: unat_word_ariths unat_of_nat)
    then show ?thesis using that cmd(2) unfolding sdram_range [symmetric] by simp
  qed
  let ?s1 = "wr32 B 0x30000124 (of_nat ?n) (wr32 B 0x30000128 ATAG_CMDLINE s)"
  let ?s = "boot_strcpy B 0x3000012C cmd ?s1"
  have m: "mem ?s = put_bytes (put32 (put32 (mem s) 0x30000128 ATAG_CMDLINE) 0x30000124 (of_nat ?n)) 0x3000012C (cmd @ [0])"
    using boot_strcpy_mem [OF B cmd(1) ram, of ?s1] by (simp add: sdram_wr [OF B] in_sdram_def)
  have "get32 (mem ?s) 0x30000124 = get32 (put32 (put32 (mem s) 0x30000128 ATAG_CMDLINE) 0x30000124 (of_nat ?n)) 0x30000124"
    unfolding m
  proof (rule get32_outside)
    fix x :: u32 assume "unat x < unat (0x30000124 :: u32) + 4"
    then show "put_bytes (put32 (put32 (mem s) 0x30000128 ATAG_CMDLINE) 0x30000124 (of_nat ?n)) 0x3000012C (cmd @ [0]) x =
        put32 (put32 (mem s) 0x30000128 ATAG_CMDLINE) 0x30000124 (of_nat ?n) x"
      using cmd(2) by (intro put_bytes_other) simp_all
  qed simp
  then have g: "get32 (mem ?s) 0x30000124 = of_nat ?n" by simp
  obtain s' where "boot_tag_next B 0x30000124 ?s = (0x30000124 + 4 * of_nat ?n, s')" "mem s' = mem ?s"
    by (rule boot_tag_next_mem [OF B _ _ g]) (simp_all add: in_sdram_def)
  with m that show thesis unfolding setup_commandline_tag_def Let_def n by simp
qed

text \<open>The memory after the end tag: two stores that depend on the length of the command line, one string, and words.\<close>

definition tag_words :: "(u32 \<Rightarrow> u8) \<Rightarrow> nat \<Rightarrow> u32 \<Rightarrow> u8" where
  "tag_words m n =
     put32 (put32
       (put32 (put32 (put32 (put32
         (put32 (put32 (put32 (put32 (put32 m 0x30000104 ATAG_CORE) 0x30000100 5) 0x30000108 0) 0x3000010C 0) 0x30000110 0)
         0x30000118 ATAG_MEM) 0x30000114 4) 0x30000120 0x30000000) 0x3000011C 0x4000000)
       0x30000128 ATAG_CMDLINE) 0x30000124 (of_nat (cmd_words n))"

definition tag_list :: "(u32 \<Rightarrow> u8) \<Rightarrow> cstring \<Rightarrow> u32 \<Rightarrow> u8" where
  "tag_list m cmd =
     put32 (put32 (put_bytes (tag_words m (length cmd)) 0x3000012C (cmd @ [0]))
       (0x30000124 + of_nat (4 * cmd_words (length cmd)) + 4) ATAG_NONE) (0x30000124 + of_nat (4 * cmd_words (length cmd))) 0"

lemma end_addr:
  assumes "length cmd \<le> 0x7000"
  shows "unat (0x30000124 + of_nat (4 * cmd_words (length cmd)) :: u32) = 0x30000124 + 4 * cmd_words (length cmd)"
    and "unat (0x30000124 + of_nat (4 * cmd_words (length cmd)) + 4 :: u32) = 0x30000128 + 4 * cmd_words (length cmd)"
proof -
  have le: "4 * cmd_words (length cmd) \<le> 0x700C" using assms cmd_words_room(2) [of "length cmd"] by linarith
  show 1: "unat (0x30000124 + of_nat (4 * cmd_words (length cmd)) :: u32) = 0x30000124 + 4 * cmd_words (length cmd)"
    using le by (simp add: unat_word_ariths unat_of_nat del: of_nat_mult)
  show "unat (0x30000124 + of_nat (4 * cmd_words (length cmd)) + 4 :: u32) = 0x30000128 + 4 * cmd_words (length cmd)"
    using le 1 by (subst next_word) (simp_all del: of_nat_mult)
qed

lemma set_boot_params_mem:
  assumes B: "sdram_bus B mem" and cmd: "0 \<notin> set cmd" "length cmd \<le> 0x7000"
  shows "mem (set_boot_params B cmd s) = tag_list (mem s) cmd"
proof -
  obtain s1 where s1: "setup_start_tag B s = (0x30000114, s1)"
    "mem s1 = put32 (put32 (put32 (put32 (put32 (mem s) 0x30000104 ATAG_CORE) 0x30000100 5) 0x30000108 0) 0x3000010C 0) 0x30000110 0"
    by (rule setup_start_tag_mem [OF B])
  obtain s2 where s2: "setup_memory_tags B 0x30000114 s1 = (0x30000124, s2)"
    "mem s2 = put32 (put32 (put32 (put32 (mem s1) 0x30000118 ATAG_MEM) 0x30000114 4) 0x30000120 0x30000000) 0x3000011C 0x4000000"
    by (rule setup_memory_tags_mem [OF B])
  let ?T = "0x30000124 + of_nat (4 * cmd_words (length cmd)) :: u32"
  obtain s3 where s3: "setup_commandline_tag B cmd 0x30000124 s2 = (?T, s3)"
    "mem s3 = put_bytes (put32 (put32 (mem s2) 0x30000128 ATAG_CMDLINE) 0x30000124 (of_nat (cmd_words (length cmd)))) 0x3000012C (cmd @ [0])"
    by (rule setup_commandline_tag_mem [OF B cmd])
  have "4 * cmd_words (length cmd) \<le> 0x700C" using cmd(2) cmd_words_room(2) [of "length cmd"] by linarith
  then have T: "in_sdram ?T" "in_sdram (?T + 4)" unfolding sdram_range [symmetric] end_addr [OF cmd(2)] by simp_all
  have al: "unat ?T mod 4 = 0" "unat (?T + 4) mod 4 = 0" unfolding end_addr [OF cmd(2)] by (simp_all add: mod_simps)
  have "mem (setup_end_tag B ?T s3) = put32 (put32 (mem s3) (?T + 4) ATAG_NONE) ?T 0"
    unfolding setup_end_tag_def Let_def sdram_wr(2) [OF B T(1) al(1)] sdram_wr(2) [OF B T(2) al(2)] ..
  then show ?thesis
    unfolding set_boot_params_def s1(1) Let_def prod.case s2(1) s3(1) tag_list_def tag_words_def
    by (simp only: s1(2) s2(2) s3(2))
qed

text \<open>What the list of tags does not change, and what it holds.\<close>

lemma end_tag_outside:
  assumes "length cmd \<le> 0x7000"
    and "unat x < 0x30000124 + 4 * cmd_words (length cmd) \<or> 0x3000012C + 4 * cmd_words (length cmd) \<le> unat x"
  shows "tag_list m cmd x = put_bytes (tag_words m (length cmd)) 0x3000012C (cmd @ [0]) x"
proof -
  have le: "4 * cmd_words (length cmd) \<le> 0x700C" using assms(1) cmd_words_room(2) [of "length cmd"] by linarith
  let ?T = "0x30000124 + of_nat (4 * cmd_words (length cmd)) :: u32"
  have "put32 f ?T v x = f x" for f v
    by (rule put32_other) (unfold end_addr [OF assms(1)], use le assms(2) in auto)
  moreover have "put32 f (?T + 4) v x = f x" for f v
    by (rule put32_other) (unfold end_addr [OF assms(1)], use le assms(2) in auto)
  ultimately show ?thesis unfolding tag_list_def by (simp only:)
qed

lemma tag_list_outside:
  assumes "length cmd \<le> 0x7000" "unat x < 0x30000100 \<or> 0x30008000 \<le> unat x"
  shows "tag_list m cmd x = m x"
proof -
  have le: "4 * cmd_words (length cmd) \<le> 0x700C" using assms(1) cmd_words_room(2) [of "length cmd"] by linarith
  have "tag_list m cmd x = put_bytes (tag_words m (length cmd)) 0x3000012C (cmd @ [0]) x"
    using assms(2) le by (intro end_tag_outside [OF assms(1)]) linarith
  also have "\<dots> = tag_words m (length cmd) x" using assms by (intro put_bytes_other) auto
  also have "\<dots> = m x" using assms(2) by (auto simp: tag_words_def put32_other)
  finally show ?thesis .
qed

lemma tag_list_words:
  assumes "length cmd \<le> 0x7000" "unat a + 4 \<le> 0x3000012C"
  shows "get32 (tag_list m cmd) a = get32 (tag_words m (length cmd)) a"
proof (rule get32_outside)
  have le: "4 * cmd_words (length cmd) \<le> 0x700C" "9 \<le> 4 * cmd_words (length cmd)"
    using assms(1) cmd_words_room [of "length cmd"] by linarith+
  fix x :: u32 assume "unat x < unat a + 4"
  with assms(2) have x: "unat x < 0x3000012C" by linarith
  with le have "tag_list m cmd x = put_bytes (tag_words m (length cmd)) 0x3000012C (cmd @ [0]) x"
    by (intro end_tag_outside [OF assms(1)]) linarith
  also have "\<dots> = tag_words m (length cmd) x" using assms(1) x by (intro put_bytes_other) auto
  finally show "tag_list m cmd x = tag_words m (length cmd) x" .
qed (use assms(2) in simp)

lemma tag_list_chars:
  assumes "length cmd \<le> 0x7000" "i \<le> length cmd"
  shows "tag_list m cmd (0x3000012C + of_nat i) = (cmd @ [0]) ! i"
proof -
  have le: "4 * cmd_words (length cmd) \<le> 0x700C" "length cmd + 9 \<le> 4 * cmd_words (length cmd)"
    using assms(1) cmd_words_room [of "length cmd"] by linarith+
  have u: "unat (0x3000012C + of_nat i :: u32) = 0x3000012C + i" using assms by (simp add: unat_word_ariths unat_of_nat)
  have "tag_list m cmd (0x3000012C + of_nat i) = put_bytes (tag_words m (length cmd)) 0x3000012C (cmd @ [0]) (0x3000012C + of_nat i)"
    using le assms(2) u by (intro end_tag_outside [OF assms(1)]) linarith
  also have "\<dots> = (cmd @ [0]) ! i"
    using put_step_nth [of 1 "cmd @ [0]" i "tag_words m (length cmd)" "0x3000012C"] assms by simp
  finally show ?thesis .
qed

section \<open>The hand-over\<close>

text \<open>What the kernel should know: the memory of the board, a writable root, and the command line, cut at 1023 characters.\<close>

definition told :: "cstring \<Rightarrow> kernel_info \<Rightarrow> kernel_info" where
  "told cmd k = k\<lparr>root_mountflags := root_mountflags k AND NOT 1, ROOT_DEV := 0,
     meminfo := meminfo k @ [(0x30000000, 0x4000000, 0)],
     default_command_line := take 1023 cmd @ 0 # drop (Suc (min 1023 (length cmd))) (default_command_line k)\<rparr>"

lemma parse_tag_list:
  assumes cmd: "0 \<notin> set cmd" "length cmd \<le> 0x7000"
    and k: "length (meminfo k) < NR_BANKS" "length (default_command_line k) = COMMAND_LINE_SIZE"
  shows "parse_tags (tag_list m cmd) 0x30000100 k = Some (told cmd k)"
proof -
  let ?m = "tag_list m cmd" and ?n = "cmd_words (length cmd)"
  let ?k1 = "k\<lparr>root_mountflags := root_mountflags k AND NOT 1, ROOT_DEV := 0\<rparr>"
  let ?k2 = "?k1\<lparr>meminfo := meminfo k @ [(0x30000000, 0x4000000, 0)]\<rparr>"
  have w: "get32 ?m 0x30000100 = 5" "get32 ?m 0x30000104 = ATAG_CORE" "get32 ?m 0x30000108 = 0" "get32 ?m 0x30000110 = 0"
    "get32 ?m 0x30000114 = 4" "get32 ?m 0x30000118 = ATAG_MEM" "get32 ?m 0x3000011C = 0x4000000" "get32 ?m 0x30000120 = 0x30000000"
    "get32 ?m 0x30000124 = of_nat ?n" "get32 ?m 0x30000128 = ATAG_CMDLINE"
    by (simp_all add: tag_list_words [OF cmd(2)] tag_words_def get32_put32_other)
  have "parse_tags ?m 0x30000100 k = parse_tags ?m 0x30000114 ?k1"
    using parse_tags_core [of ?m "0x30000100" 5 k] w(1-4) by (simp add: old_decode_dev_def)
  also have "\<dots> = parse_tags ?m 0x30000124 ?k2"
    using parse_tags_mem [of ?m "0x30000114" 4 ?k1] w(5-8) k(1)
    by (simp add: PAGE_ALIGN_def PAGE_MASK_def PAGE_SIZE_def)
  also have "\<dots> = parse_tags ?m (0x30000124 + 4 * of_nat ?n) (told cmd k)"
  proof -
    have "unat (of_nat ?n :: u32) = ?n" "0 < ?n"
      using cmd(2) cmd_words_room [of "length cmd"] by (simp_all add: unat_of_nat)
    then have "(of_nat ?n :: u32) \<noteq> 0" by (metis less_irrefl unat_0)
    moreover have "?m (0x30000124 + 8 + of_nat i) = cmd ! i" if "i < length cmd" for i
      using tag_list_chars [OF cmd(2), of i] that by (simp add: nth_append)
    moreover have "?m (0x30000124 + 8 + of_nat (length cmd)) = 0"
      using tag_list_chars [OF cmd(2), of "length cmd"] by simp
    ultimately have "parse_tags ?m 0x30000124 ?k2 = parse_tags ?m (0x30000124 + 4 * of_nat ?n)
        (?k2\<lparr>default_command_line := take 1023 cmd @ 0 # drop (Suc (min 1023 (length cmd))) (default_command_line ?k2)\<rparr>)"
      using w(9,10) k(2) cmd(1) by (intro parse_tags_cmdline) simp_all
    then show ?thesis by (simp add: told_def)
  qed
  also have "\<dots> = Some (told cmd k)"
    by (rule parse_tags_end) (simp add: tag_list_def)
  finally show ?thesis .
qed


text \<open>A board with a chip without bad blocks, a controller and a console that are always ready, and the SDRAM.\<close>

record boot_board =
  bb_phase :: nand_phase
  bb_mem :: "u32 \<Rightarrow> u8"
  bb_out :: "u8 list"

definition boot_img :: "nat \<Rightarrow> nat \<Rightarrow> u8" where
  "boot_img p c = (if c = 2048 then 0xff else of_nat (p + 3 * c))"

definition demo_boot_bus :: "boot_board bus" where
  "demo_boot_bus = \<lparr>
     rd8 = (\<lambda>a s. if a = NFDATA then
                    (case bb_phase s of Output p c \<Rightarrow> (boot_img p c, s\<lparr>bb_phase := Output p (Suc c)\<rparr>) | _ \<Rightarrow> (0, s))
                  else (1, s)),
     rd16 = (\<lambda>a s. (0, s)),
     rd32 = (\<lambda>a s. (if in_sdram a then get32 (bb_mem s) a else 4, s)),
     wr8 = (\<lambda>a v s. if a = NFCMD then s\<lparr>bb_phase := chip_cmd v (bb_phase s)\<rparr>
                    else if a = NFADDR then s\<lparr>bb_phase := chip_addr v (bb_phase s)\<rparr>
                    else if a = UTXH0 then s\<lparr>bb_out := bb_out s @ [v]\<rparr>
                    else if in_sdram a then s\<lparr>bb_mem := (bb_mem s)(a := v)\<rparr> else s),
     wr16 = (\<lambda>a v s. s),
     wr32 = (\<lambda>a v s. if in_sdram a then s\<lparr>bb_mem := put32 (bb_mem s) a v\<rparr> else s)\<rparr>"

lemma sfr_not_sdram:
  "\<not> in_sdram NFCMD" "\<not> in_sdram NFADDR" "\<not> in_sdram NFDATA" "\<not> in_sdram NFCONT" "\<not> in_sdram UTXH0" "\<not> in_sdram UTRSTAT0"
  "NFCMD \<noteq> NFADDR" "NFADDR \<noteq> NFCMD" "UTXH0 \<noteq> NFCMD" "UTXH0 \<noteq> NFADDR" "NFSTAT \<noteq> NFDATA"
  by (simp_all add: in_sdram_def sfr)

lemma demo_boot_sdram: "sdram_bus demo_boot_bus bb_mem"
  unfolding sdram_bus_def by (auto simp: demo_boot_bus_def sfr_not_sdram)

lemma demo_boot_nand: "nand_dev demo_boot_bus bb_phase bb_mem boot_img in_sdram"
proof -
  have "in_sdram a \<Longrightarrow> a \<noteq> NFCMD \<and> a \<noteq> NFADDR \<and> a \<noteq> UTXH0" for a using sfr_not_sdram(1,2,5) by auto
  then show ?thesis unfolding nand_dev_def by (simp add: demo_boot_bus_def sfr_not_sdram)
qed

lemma demo_boot_uart: "uart_tx demo_boot_bus bb_out"
  by (simp add: uart_tx_def demo_boot_bus_def sfr_not_sdram)

definition demo_kernel :: kernel_info where
  "demo_kernel = \<lparr>root_mountflags = 0x8001, ROOT_DEV = 0, meminfo = [], default_command_line = replicate 1024 0,
     screen = \<lparr>orig_x = 0, orig_y = 0, orig_video_page = 0, orig_video_mode = 0, orig_video_cols = 80, orig_video_ega_bx = 0,
       orig_video_lines = 30, orig_video_isVGA = 1, orig_video_points = 8\<rparr>,
     rd_image_start = 0, rd_prompt = True, rd_doload = False, rd_size = 4096, phys_initrd_start = 0, phys_initrd_size = 0,
     system_serial_low = 0, system_serial_high = 0, system_rev = 0\<rparr>"

lemma demo_kernel_room: "length (meminfo demo_kernel) < NR_BANKS" "length (default_command_line demo_kernel) = COMMAND_LINE_SIZE"
  by (simp_all add: demo_kernel_def NR_BANKS_def COMMAND_LINE_SIZE_def)


lemma boot_cmdline_ok: "0 \<notin> set boot_cmdline" "length boot_cmdline = 65"
  by code_simp+



end
