(* ===== verification/Mmu.thy ===== *)
theory Mmu
  imports Soc_Regs
begin

text \<open>
  The first-level page table of \<^verbatim>\<open>mmu.c\<close>. \<open>walk\<close> is the table walk of the ARM920T for
  section descriptors; the table that \<open>create_page_table\<close> builds is shown to translate every
  address of the regions in its comment as the comment says, and to stay inside its 16 KB.
\<close>

section \<open>Section descriptors\<close>

definition MMU_SECDESC_AP :: u32 where "MMU_SECDESC_AP = push_bit 10 3"
definition MMU_SECDESC_DOMAIN :: u32 where "MMU_SECDESC_DOMAIN = push_bit 5 0"
definition MMU_SECDESC_NCNB :: u32 where "MMU_SECDESC_NCNB = push_bit 2 0"
definition MMU_SECDESC_WB :: u32 where "MMU_SECDESC_WB = push_bit 2 3"
definition MMU_SECDESC_TYPE :: u32 where "MMU_SECDESC_TYPE = push_bit 4 1 OR push_bit 1 1"

definition MMU_SECDESC_FOR_IO :: u32 where
  "MMU_SECDESC_FOR_IO = MMU_SECDESC_AP OR MMU_SECDESC_DOMAIN OR MMU_SECDESC_NCNB OR MMU_SECDESC_TYPE"

definition MMU_SECDESC_FOR_MEM :: u32 where
  "MMU_SECDESC_FOR_MEM = MMU_SECDESC_AP OR MMU_SECDESC_DOMAIN OR MMU_SECDESC_WB OR MMU_SECDESC_TYPE"

lemmas secdesc_defs = MMU_SECDESC_AP_def MMU_SECDESC_DOMAIN_def MMU_SECDESC_NCNB_def MMU_SECDESC_WB_def
  MMU_SECDESC_TYPE_def MMU_SECDESC_FOR_IO_def MMU_SECDESC_FOR_MEM_def

text \<open>\<open>ttb\<close> is the address of an array of words, so \<^verbatim>\<open>ttb[index]\<close> is the word at \<open>ttb + 4 * index\<close>.\<close>

definition create_secdesc :: "'s bus \<Rightarrow> u32 \<Rightarrow> u32 \<Rightarrow> u32 \<Rightarrow> bool \<Rightarrow> 's \<Rightarrow> 's" where
  "create_secdesc B ttb va pa io s =
     (let index = va div 0x100000
      in if io then wr32 B (ttb + 4 * index) ((pa AND 0xfff00000) OR MMU_SECDESC_FOR_IO) s
         else wr32 B (ttb + 4 * index) ((pa AND 0xfff00000) OR MMU_SECDESC_FOR_MEM) s)"

lemma next_section:
  assumes "va \<le> (0x5B000000 :: u32)"
  shows "unat (va + 0x100000) = unat va + 0x100000"
proof -
  have "unat va \<le> 0x5B000000" using assms by (simp add: word_le_nat_alt)
  then show ?thesis by (simp add: unat_word_ariths)
qed

text \<open>The two loops of \<^verbatim>\<open>create_page_table\<close>: the SDRAM and the registers.\<close>

function sdram_sections :: "'s bus \<Rightarrow> u32 \<Rightarrow> u32 \<Rightarrow> u32 \<Rightarrow> 's \<Rightarrow> 's" where
  "sdram_sections B ttb va pa s =
     (if va < 0x34000000
      then sdram_sections B ttb (va + 0x100000) (pa + 0x100000) (create_secdesc B ttb va pa False s)
      else s)"
  by pat_completeness auto
termination
  by (relation "measure (\<lambda>(B, ttb, va, pa, s). 0x34000000 - unat va)")
    (auto simp: next_section word_less_nat_alt word_le_nat_alt)

function register_sections :: "'s bus \<Rightarrow> u32 \<Rightarrow> u32 \<Rightarrow> u32 \<Rightarrow> 's \<Rightarrow> 's" where
  "register_sections B ttb va pa s =
     (if va \<le> 0x5B000000
      then register_sections B ttb (va + 0x100000) (pa + 0x100000) (create_secdesc B ttb va pa True s)
      else s)"
  by pat_completeness auto
termination
  by (relation "measure (\<lambda>(B, ttb, va, pa, s). 0x5B000001 - unat va)")
    (auto simp: next_section word_le_nat_alt)

declare sdram_sections.simps [simp del] register_sections.simps [simp del]

definition create_page_table :: "'s bus \<Rightarrow> 's \<Rightarrow> 's" where
  "create_page_table B s =
     (let ttb = 0x32000000;
          s1 = create_secdesc B ttb 0 0 True s;
          s2 = create_secdesc B ttb 0x40000000 0x40000000 False s1;
          s3 = sdram_sections B ttb 0x30000000 0x30000000 s2;
          s4 = register_sections B ttb 0x48000000 0x48000000 s3;
          s5 = create_secdesc B ttb 0x33c00000 0x33c00000 True s4
      in create_secdesc B ttb 0xB0000000 0x30000000 False s5)"

section \<open>The table walk\<close>

text \<open>
  The walk of the MMU for a first-level table at 0x32000000: bits 31..20 of the virtual address
  select the descriptor; a section descriptor ends in binary 10, holds the physical section
  in bits 31..20 and the cache attributes C and B in bits 3 and 2.
\<close>

definition walk :: "(u32 \<Rightarrow> u32) \<Rightarrow> u32 \<Rightarrow> (u32 \<times> bool \<times> bool) option" where
  "walk mem va =
     (let desc = mem (0x32000000 + 4 * drop_bit 20 va)
      in if desc AND 3 = 2 then Some ((desc AND 0xfff00000) OR (va AND 0xfffff), bit desc 3, bit desc 2) else None)"

text \<open>The mapping that the comment above \<^verbatim>\<open>create_page_table\<close> lists: the physical address and CB.\<close>

definition page_map :: "u32 \<Rightarrow> (u32 \<times> bool \<times> bool) option" where
  "page_map va =
     (if va < 0x100000 then Some (va, False, False)
      else if 0x33c00000 \<le> va \<and> va < 0x33d00000 then Some (va, False, False)
      else if 0x30000000 \<le> va \<and> va < 0x34000000 then Some (va, True, True)
      else if 0x40000000 \<le> va \<and> va < 0x40100000 then Some (va, True, True)
      else if 0x48000000 \<le> va \<and> va < 0x5B100000 then Some (va, False, False)
      else if 0xB0000000 \<le> va \<and> va < 0xB0100000 then Some (va - 0x80000000, True, True)
      else None)"

text \<open>The descriptor of section \<open>n\<close>.\<close>

definition entry :: "(u32 \<Rightarrow> u32) \<Rightarrow> nat \<Rightarrow> u32" where
  "entry mem n = mem (0x32000000 + 4 * of_nat n)"

definition sec_desc :: "nat \<Rightarrow> bool \<Rightarrow> u32" where
  "sec_desc n io = push_bit 20 (of_nat n) OR (if io then 0xC12 else 0xC1E)"

lemma section_mask: "(0xfff00000 :: u32) = NOT (mask 20)"
  by (simp add: mask_eq_exp_minus_1 not_eq_complement)

lemma offset_mask: "(0xfffff :: u32) = mask 20"
  by (simp add: mask_eq_exp_minus_1)

lemma section_base: "unat (pa :: u32) = p * 0x100000 \<Longrightarrow> pa = push_bit 20 (of_nat p)"
proof -
  assume "unat pa = p * 0x100000"
  then have "pa = of_nat (p * 0x100000)" by (rule word_eq_of_nat)
  then show ?thesis by (simp add: push_bit_eq_mult)
qed

lemma push_and_high: "push_bit 20 w AND NOT (mask 20) = (push_bit 20 w :: u32)"
  by (rule bit_word_eqI) (auto simp: bit_simps)

lemma section_low: "k \<le> 20 \<Longrightarrow> (push_bit 20 w OR c) AND mask k = (c AND mask k :: u32)"
  by (rule bit_word_eqI) (auto simp: bit_simps)

lemma section_split: "((w :: u32) AND NOT (mask 20)) OR (w AND mask 20) = w"
  by (rule bit_word_eqI) (auto simp: bit_simps)

lemma entry_upd:
  assumes "n < 4096" "k < 4096"
  shows "entry (m(0x32000000 + 4 * of_nat k := v)) n = (if n = k then v else entry m n)"
proof -
  have "unat (4 * of_nat j :: u32) = 4 * j" if "j < 4096" for j
    using that unat_of_nat32 [of "4 * j"] by simp
  then have "(4 * of_nat n :: u32) = 4 * of_nat k \<longleftrightarrow> n = k"
    using assms by (metis mult_left_cancel zero_neq_numeral)
  then show ?thesis by (simp add: entry_def)
qed

lemma create_secdesc_entry:
  assumes B: "mem_bus B g" and n: "n < 4096" and va: "unat va = k * 0x100000" and pa: "unat pa = p * 0x100000"
  shows "entry (g (create_secdesc B 0x32000000 va pa io s)) n = (if n = k then sec_desc p io else entry (g s) n)"
proof -
  have k: "k < 4096" "p < 4096" using unat_less [of va] unat_less [of pa] va pa by simp_all
  have idx: "va div 0x100000 = of_nat k"
    by (rule word_eq_of_nat) (simp add: unat_div va)
  have "pa AND 0xfff00000 = push_bit 20 (of_nat p)"
    unfolding section_mask section_base [OF pa] by (rule push_and_high)
  then have "(if io then (pa AND 0xfff00000) OR MMU_SECDESC_FOR_IO else (pa AND 0xfff00000) OR MMU_SECDESC_FOR_MEM) = sec_desc p io"
    by (simp add: sec_desc_def secdesc_defs)
  then have "g (create_secdesc B 0x32000000 va pa io s) = (g s)(0x32000000 + 4 * of_nat k := sec_desc p io)"
    using mem_bus_wr [OF B] by (auto simp: create_secdesc_def idx Let_def)
  with entry_upd [OF n k(1)] show ?thesis by simp
qed

lemma walk_section:
  assumes "entry mem (unat va div 0x100000) = sec_desc n io"
  shows "walk mem va = Some (push_bit 20 (of_nat n) OR (va AND mask 20), \<not> io, \<not> io)"
proof -
  let ?c = "(if io then 0xC12 else 0xC1E) :: u32"
  have "drop_bit 20 va = of_nat (unat va div 0x100000)"
    by (rule word_eq_of_nat) (simp add: unat_shift_right)
  with assms have d: "mem (0x32000000 + 4 * drop_bit 20 va) = push_bit 20 (of_nat n) OR ?c"
    by (simp add: entry_def sec_desc_def)
  have m2: "(3 :: u32) = mask 2" by (simp add: mask_eq_exp_minus_1)
  have ty: "(push_bit 20 (of_nat n) OR ?c) AND 3 = 2"
    unfolding m2 by (subst section_low) (simp_all add: mask_eq_exp_minus_1)
  have "(push_bit 20 (of_nat n) OR ?c) AND NOT (mask 20) = push_bit 20 (of_nat n)"
  proof -
    have "?c AND NOT (mask 20) = 0" by (simp add: mask_eq_exp_minus_1)
    then show ?thesis by (simp only: bit.conj_disj_distrib2 push_and_high or.right_neutral)
  qed
  moreover have "bit (push_bit 20 (of_nat n) OR ?c) 3 = (\<not> io)" "bit (push_bit 20 (of_nat n) OR ?c) 2 = (\<not> io)"
    by (simp_all add: bit_simps)
  ultimately show ?thesis
    unfolding walk_def d Let_def section_mask offset_mask by (simp only: ty if_P simp_thms if_True)
qed

lemma section_interval:
  assumes "unat va div 0x100000 = k"
  shows "push_bit 20 (of_nat k) OR (va AND mask 20) = (va :: u32)"
proof -
  have "push_bit 20 (of_nat k) = va AND NOT (mask 20)"
  proof -
    have "of_nat k = drop_bit 20 va"
      by (rule word_eq_of_nat [symmetric]) (simp add: unat_shift_right assms)
    then show ?thesis by (auto simp: bit_simps intro!: bit_word_eqI)
  qed
  then show ?thesis by (simp only: section_split)
qed

lemma sdram_sections_entry:
  assumes B: "mem_bus B g" and n: "n < 4096" and "unat va = k * 0x100000" "0x300 \<le> k" "k \<le> 0x340"
  shows "entry (g (sdram_sections B 0x32000000 va va s)) n =
     (if k \<le> n \<and> n < 0x340 then sec_desc n False else entry (g s) n)"
  using assms(3-)
proof (induction "0x340 - k" arbitrary: va k s)
  case 0
  then have "\<not> va < 0x34000000" by (simp add: word_less_nat_alt)
  with 0 show ?case by (subst sdram_sections.simps) auto
next
  case (Suc d)
  then have lt: "va < 0x34000000" by (simp add: word_less_nat_alt)
  then have "va \<le> 0x5B000000" by (simp add: word_less_nat_alt word_le_nat_alt)
  then have va: "unat (va + 0x100000) = Suc k * 0x100000" using Suc.prems(1) by (simp add: next_section)
  show ?case
    using Suc.hyps(1) [OF _ va, where s = "create_secdesc B 0x32000000 va va False s"] Suc.hyps(2) Suc.prems
      create_secdesc_entry [OF B n Suc.prems(1,1), of False s] lt
    by (subst sdram_sections.simps) auto
qed

lemma register_sections_entry:
  assumes B: "mem_bus B g" and n: "n < 4096" and "unat va = k * 0x100000" "0x480 \<le> k" "k \<le> 0x5B1"
  shows "entry (g (register_sections B 0x32000000 va va s)) n =
     (if k \<le> n \<and> n < 0x5B1 then sec_desc n True else entry (g s) n)"
  using assms(3-)
proof (induction "0x5B1 - k" arbitrary: va k s)
  case 0
  then have "\<not> va \<le> 0x5B000000" by (simp add: word_le_nat_alt)
  with 0 show ?case by (subst register_sections.simps) auto
next
  case (Suc d)
  then have le: "va \<le> 0x5B000000" by (simp add: word_le_nat_alt)
  then have va: "unat (va + 0x100000) = Suc k * 0x100000" using Suc.prems(1) by (simp add: next_section)
  show ?case
    using Suc.hyps(1) [OF _ va, where s = "create_secdesc B 0x32000000 va va True s"] Suc.hyps(2) Suc.prems
      create_secdesc_entry [OF B n Suc.prems(1,1), of True s] le
    by (subst register_sections.simps) auto
qed

lemma create_page_table_entry:
  assumes B: "mem_bus B g" and n: "n < 4096"
  shows "entry (g (create_page_table B s)) n =
     (if n = 0xB00 then sec_desc 0x300 False
      else if n = 0 \<or> n = 0x33c \<or> 0x480 \<le> n \<and> n < 0x5B1 then sec_desc n True
      else if n = 0x400 \<or> 0x300 \<le> n \<and> n < 0x340 then sec_desc n False
      else entry (g s) n)"
proof -
  note e = create_secdesc_entry [OF B n]
  have "entry (g (create_secdesc B 0x32000000 0 0 io s)) n = (if n = 0 then sec_desc 0 io else entry (g s) n)"
    and "entry (g (create_secdesc B 0x32000000 0x40000000 0x40000000 io s)) n = (if n = 0x400 then sec_desc 0x400 io else entry (g s) n)"
    and "entry (g (create_secdesc B 0x32000000 0x33c00000 0x33c00000 io s)) n = (if n = 0x33c then sec_desc 0x33c io else entry (g s) n)"
    and "entry (g (create_secdesc B 0x32000000 0xB0000000 0x30000000 io s)) n = (if n = 0xB00 then sec_desc 0x300 io else entry (g s) n)" for io s
    by (rule e; simp)+
  moreover have "entry (g (sdram_sections B 0x32000000 0x30000000 0x30000000 s)) n =
      (if 0x300 \<le> n \<and> n < 0x340 then sec_desc n False else entry (g s) n)" for s
    by (rule sdram_sections_entry [OF B n]) simp_all
  moreover have "entry (g (register_sections B 0x32000000 0x48000000 0x48000000 s)) n =
      (if 0x480 \<le> n \<and> n < 0x5B1 then sec_desc n True else entry (g s) n)" for s
    by (rule register_sections_entry [OF B n]) simp_all
  ultimately show ?thesis unfolding create_page_table_def Let_def by (simp only:) auto
qed

section \<open>Correctness of the table\<close>

lemma create_secdesc_frame:
  assumes "mem_bus B g" and a: "a < 0x32000000 \<or> 0x32004000 \<le> a"
  shows "g (create_secdesc B 0x32000000 va pa io s) a = g s a"
proof -
  have "unat (va div 0x100000) < 4096"
    using unat_less [of va] by (simp add: unat_div less_mult_imp_div_less)
  then have "unat (0x32000000 + 4 * (va div 0x100000)) = 0x32000000 + 4 * unat (va div 0x100000)"
    by (simp add: unat_word_ariths)
  then have "a \<noteq> 0x32000000 + 4 * (va div 0x100000)"
    using a \<open>unat (va div 0x100000) < 4096\<close> by (auto simp: word_less_nat_alt word_le_nat_alt)
  then show ?thesis by (simp add: create_secdesc_def Let_def mem_bus_wr [OF assms(1)])
qed

lemma sdram_sections_frame:
  assumes "mem_bus B g" and "a < 0x32000000 \<or> 0x32004000 \<le> a"
  shows "g (sdram_sections B 0x32000000 va pa s) a = g s a"
  using assms
proof (induction B "0x32000000 :: u32" va pa s rule: sdram_sections.induct)
  case (1 B va pa s)
  then show ?case
    by (subst sdram_sections.simps) (simp add: create_secdesc_frame)
qed

lemma register_sections_frame:
  assumes "mem_bus B g" and "a < 0x32000000 \<or> 0x32004000 \<le> a"
  shows "g (register_sections B 0x32000000 va pa s) a = g s a"
  using assms
proof (induction B "0x32000000 :: u32" va pa s rule: register_sections.induct)
  case (1 B va pa s)
  then show ?case
    by (subst register_sections.simps) (simp add: create_secdesc_frame)
qed

lemma page_map_walk:
  assumes B: "mem_bus B g" and m: "page_map va = Some r"
  shows "walk (g (create_page_table B s)) va = Some r"
proof -
  define k where "k = unat va div 0x100000"
  define off where "off = unat va mod 0x100000"
  have va: "unat va = k * 0x100000 + off" "off < 0x100000" by (simp_all add: k_def off_def)
  have k: "k < 4096" using unat_less [of va] va by simp
  note e = create_page_table_entry [OF B k, of s]
  note w = walk_section [of _ va, folded k_def, OF trans [OF e]]
  note id = section_interval [OF k_def [symmetric]]
  note regions = word_less_nat_alt word_le_nat_alt va(1)
  consider (io) "r = (va, False, False)" "k = 0 \<or> k = 0x33c \<or> 0x480 \<le> k \<and> k < 0x5B1"
    | (ram) "r = (va, True, True)" "k = 0x400 \<or> 0x300 \<le> k \<and> k < 0x340 \<and> k \<noteq> 0x33c"
    | (link) "r = (va - 0x80000000, True, True)" "k = 0xB00"
    using m va(2) unfolding page_map_def by (auto simp: regions split: if_splits)
  then show ?thesis
  proof cases
    case io
    then show ?thesis using w [of k True] id by auto
  next
    case ram
    then show ?thesis using w [of k False] id by auto
  next
    case link
    have u: "unat (va - 0x80000000) = 0x300 * 0x100000 + off"
      using va link(2) by (subst unat_sub) (simp_all add: word_le_nat_alt)
    then have "unat (va - 0x80000000) div 0x100000 = 0x300" using va(2) by simp
    from section_interval [OF this]
    have "push_bit 20 (of_nat 0x300) OR ((va - 0x80000000) AND mask 20) = va - 0x80000000" .
    moreover have "(va - 0x80000000) AND mask 20 = va AND mask 20"
    proof (rule word_unat_eq_iff [THEN iffD2])
      have "(j * 0x100000 + off) mod 0x100000 = off mod 0x100000" for j :: nat by simp
      then have "unat (va - 0x80000000) mod 0x100000 = unat va mod 0x100000" unfolding u va(1) by metis
      then show "unat ((va - 0x80000000) AND mask 20) = unat (va AND mask 20)" by (simp add: and_mask_unat)
    qed
    ultimately show ?thesis using w [of "0x300" False] link by auto
  qed
qed

text \<open>
  C13. The table that \<^verbatim>\<open>create_page_table\<close> builds translates every address of the regions that its
  comment lists to the physical address and with the cache attributes given there, and building it
  changes no memory outside the 16 KB of the table.
\<close>

theorem create_page_table_maps:
  assumes "mem_bus B g"
  shows "(\<forall>va. page_map va \<noteq> None \<longrightarrow> walk (g (create_page_table B s)) va = page_map va) \<and>
     (\<forall>a. a < 0x32000000 \<or> 0x32004000 \<le> a \<longrightarrow> g (create_page_table B s) a = g s a)"
  using page_map_walk [OF assms]
  by (auto simp: create_page_table_def Let_def create_secdesc_frame [OF assms] sdram_sections_frame [OF assms]
      register_sections_frame [OF assms])

theorem create_page_table_maps_witness:
  "walk (create_page_table ram_bus (\<lambda>_. 0)) 0xB0001234 = Some (0x30001234, True, True) \<and>
   walk (create_page_table ram_bus (\<lambda>_. 0)) 0x33c00010 = Some (0x33c00010, False, False) \<and>
   create_page_table ram_bus (\<lambda>_. 0) 0x32004000 = 0"
proof -
  have "page_map 0xB0001234 = Some (0x30001234, True, True)" "page_map 0x33c00010 = Some (0x33c00010, False, False)"
    by (simp_all add: page_map_def)
  then show ?thesis
    using create_page_table_maps [OF ram_bus_mem, of "\<lambda>_. 0"] by (simp del: not_None_eq)
qed

end
