(* ===== verification/Nor_Flash.thy ===== *)
theory Nor_Flash
  imports My_Printf
begin

text \<open>
  The NOR flash utility of \<^verbatim>\<open>nor_flash.c\<close>: command cycles, scanning, erasing, writing and dumping,
  and the menu. The chip is a parameter; \<open>nor_dev\<close> states the command sequences of its data
  sheet. Writing a string into an erased region is shown to leave exactly its bytes and
  terminator there, and erasing to clear exactly the addressed sector.
\<close>

section \<open>Command cycles\<close>

definition nor_write_word :: "'s bus \<Rightarrow> u32 \<Rightarrow> u32 \<Rightarrow> u32 \<Rightarrow> 's \<Rightarrow> 's" where
  "nor_write_word B base offset val s = wr16 B (base + push_bit 1 offset) (ucast val) s"

definition nor_cmd :: "'s bus \<Rightarrow> u32 \<Rightarrow> u32 \<Rightarrow> 's \<Rightarrow> 's" where
  "nor_cmd B offset cmd s = nor_write_word B 0 offset cmd s"

definition nor_read_word :: "'s bus \<Rightarrow> u32 \<Rightarrow> u32 \<Rightarrow> 's \<Rightarrow> u32 \<times> 's" where
  "nor_read_word B base offset s = (let (v, s1) = rd16 B (base + push_bit 1 offset) s in (ucast v, s1))"

definition nor_dat :: "'s bus \<Rightarrow> u32 \<Rightarrow> 's \<Rightarrow> u32 \<times> 's" where
  "nor_dat B offset s = nor_read_word B 0 offset s"

text \<open>The toggle bit Q6 changes from load to load while the chip is busy.\<close>

partial_function (option) wait_toggle :: "'s bus \<Rightarrow> u32 \<Rightarrow> u32 \<Rightarrow> u32 \<Rightarrow> 's \<Rightarrow> 's option" where
  [code]: "wait_toggle B addr pre val s =
     (if val AND push_bit 6 1 \<noteq> pre AND push_bit 6 1
      then let (v, s1) = nor_dat B (drop_bit 1 addr) s in wait_toggle B addr val v s1
      else Some s)"

definition wait_ready :: "'s bus \<Rightarrow> u32 \<Rightarrow> 's \<Rightarrow> 's option" where
  "wait_ready B addr s =
     (let (pre, s1) = nor_dat B (drop_bit 1 addr) s;
          (val, s2) = nor_dat B (drop_bit 1 addr) s1
      in wait_toggle B addr pre val s2)"

section \<open>Scanning\<close>

text \<open>The inner loop over the \<open>n\<close> blocks of a region; \<open>cnt\<close> counts all blocks printed so far.\<close>

primrec scan_blocks :: "'s bus \<Rightarrow> u32 \<Rightarrow> nat \<Rightarrow> u32 \<Rightarrow> int \<Rightarrow> 's \<Rightarrow> (u32 \<times> int \<times> 's) option" where
  "scan_blocks B block_size 0 block_addr cnt s = Some (block_addr, cnt, s)"
| "scan_blocks B block_size (Suc n) block_addr cnt s = do {
     s1 \<leftarrow> printHex B block_addr s;
     s2 \<leftarrow> putchar B 0x20 s1;
     s3 \<leftarrow> (if (cnt + 1) mod 5 = 0 then printf_va B [10, 13] [] s2 else Some s2);
     scan_blocks B block_size n (block_addr + block_size) (cnt + 1) s3 }"

primrec scan_regions :: "'s bus \<Rightarrow> nat \<Rightarrow> u32 \<Rightarrow> u32 \<Rightarrow> int \<Rightarrow> 's \<Rightarrow> 's option" where
  "scan_regions B 0 base block_addr cnt s = Some s"
| "scan_regions B (Suc n) base block_addr cnt s =
     (let (b0, s1) = nor_dat B base s;
          (b1, s2) = nor_dat B (base + 1) s1;
          blocks = 1 + b0 + push_bit 8 b1;
          (z0, s3) = nor_dat B (base + 2) s2;
          (z1, s4) = nor_dat B (base + 3) s3;
          block_size = 256 * (z0 + push_bit 8 z1)
      in do {
           (block_addr', cnt', s5) \<leftarrow> scan_blocks B block_size (nat (sint blocks)) block_addr cnt s4;
           scan_regions B n (base + 4) block_addr' cnt' s5 })"

definition do_scan_nor_flash :: "'s bus \<Rightarrow> 's \<Rightarrow> 's option" where
  "do_scan_nor_flash B s =
     (let s = nor_cmd B 0x555 0xaa s; s = nor_cmd B 0x2aa 0x55 s; s = nor_cmd B 0x555 0x90 s;
          (vendor, s) = nor_dat B 0 s; (device, s) = nor_dat B 1 s;
          s = nor_cmd B 0 0xf0 s; s = nor_cmd B 0x55 0x98 s;
          (c0, s) = nor_dat B 0x10 s; (c1, s) = nor_dat B 0x11 s; (c2, s) = nor_dat B 0x12 s;
          txt = takeWhile (\<lambda>c. c \<noteq> 0) [ucast c0, ucast c1, ucast c2]
      in do {
           s \<leftarrow> printf_va B (str ''str = %s'' @ [10, 13]) [Va_str txt] s;
           let (sz, s) = nor_dat B 0x27 s;
           let size = push_bit (unat sz) 1;
           s \<leftarrow> printf_va B (str ''vendor id = 0x%x, device id = 0x%x, nor size = 0x%x, %dM'' @ [10, 13])
                  [Va_int vendor, Va_int device, Va_int size, Va_int (size div (1024 * 1024))] s;
           let (regions, s) = nor_dat B 0x2c s;
           s \<leftarrow> printf_va B (str ''Block/Sector start Address:'' @ [10, 13]) [] s;
           s \<leftarrow> scan_regions B (nat (sint regions)) 0x2d 0 0 s;
           s \<leftarrow> printf_va B [10, 13] [] s;
           Some (nor_cmd B 0 0xf0 s) })"

section \<open>Erasing and writing\<close>

text \<open>The erase cycle of \<^verbatim>\<open>do_erase_nor_flash\<close> after the address is known.\<close>

definition nor_erase :: "'s bus \<Rightarrow> u32 \<Rightarrow> 's \<Rightarrow> 's option" where
  "nor_erase B addr s =
     (let s = nor_cmd B 0x555 0xaa s; s = nor_cmd B 0x2aa 0x55 s; s = nor_cmd B 0x555 0x80 s;
          s = nor_cmd B 0x555 0xaa s; s = nor_cmd B 0x2aa 0x55 s; s = nor_cmd B (drop_bit 1 addr) 0x30 s
      in wait_ready B addr s)"

definition do_erase_nor_flash :: "'s bus \<Rightarrow> 's \<Rightarrow> 's option" where
  "do_erase_nor_flash B s = do {
     s \<leftarrow> printf_va B (str ''Enter the address of sector to erase: '') [] s;
     (addr, s) \<leftarrow> get_uint B s;
     s \<leftarrow> printf_va B (str ''erasing ...'' @ [10, 13]) [] s;
     nor_erase B addr s }"

text \<open>One program cycle, which occurs in the loop and after it.\<close>

definition nor_program :: "'s bus \<Rightarrow> u32 \<Rightarrow> u32 \<Rightarrow> 's \<Rightarrow> 's option" where
  "nor_program B addr val s =
     (let s = nor_cmd B 0x555 0xaa s; s = nor_cmd B 0x2aa 0x55 s; s = nor_cmd B 0x555 0xa0 s;
          s = nor_cmd B (drop_bit 1 addr) val s
      in wait_ready B addr s)"

text \<open>
  The write loop: \<open>cs\<close> is what is left of the string from \<^verbatim>\<open>str + i\<close> on. After the loop the last
  character, or the terminator, is programmed as a word of its own.
\<close>

function nor_write_string :: "'s bus \<Rightarrow> u32 \<Rightarrow> cstring \<Rightarrow> 's \<Rightarrow> 's option" where
  "nor_write_string B addr cs s =
     (if deref cs \<noteq> 0 \<and> deref (tl cs) \<noteq> 0
      then do {
        s1 \<leftarrow> nor_program B addr (ucast (deref cs) + push_bit 8 (ucast (deref (tl cs)))) s;
        nor_write_string B (addr + 2) (drop 2 cs) s1 }
      else nor_program B addr (ucast (deref cs)) s)"
  by pat_completeness auto
termination
proof (relation "measure (\<lambda>(B, addr, cs, s). length cs)")
  fix B addr s s1 and cs :: cstring
  assume "deref cs \<noteq> 0 \<and> deref (tl cs) \<noteq> 0"
  then have "cs \<noteq> []" by (cases cs) auto
  then show "((B, addr + 2, drop 2 cs, s1), B, addr, cs, s) \<in> measure (\<lambda>(B, addr, cs, s). length cs)"
    by (cases cs) auto
qed simp

declare nor_write_string.simps [simp del]

definition do_write_nor_flash :: "'s bus \<Rightarrow> 's \<Rightarrow> 's option" where
  "do_write_nor_flash B s = do {
     s \<leftarrow> printf_va B (str ''Enter the address of sector to write: '') [] s;
     (addr, s) \<leftarrow> get_uint B s;
     s \<leftarrow> printf_va B (str ''Enter the string to write: '') [] s;
     (txt, s) \<leftarrow> gets B s;
     s \<leftarrow> printf_va B (str ''writing ...'' @ [10, 13]) [] s;
     nor_write_string B addr txt s }"

section \<open>Dumping and the menu\<close>

text \<open>One line of the dump: the bytes as numbers, which are kept, and then as characters.\<close>

primrec dump_hex :: "'s bus \<Rightarrow> u32 \<Rightarrow> nat \<Rightarrow> 's \<Rightarrow> (u8 list \<times> 's) option" where
  "dump_hex B p 0 s = Some ([], s)"
| "dump_hex B p (Suc n) s =
     (let (c, s1) = rd8 B p s
      in do {
           s2 \<leftarrow> printf_va B (str ''%02x '') [Va_int (ucast c)] s1;
           (cs, s3) \<leftarrow> dump_hex B (p + 1) n s2;
           Some (c # cs, s3) })"

fun dump_text :: "'s bus \<Rightarrow> u8 list \<Rightarrow> 's \<Rightarrow> 's option" where
  "dump_text B [] s = Some s"
| "dump_text B (c # cs) s = do {
     s1 \<leftarrow> (if c < 0x20 \<or> c > 0x7e then putchar B 0x2e s else putchar B c s);
     dump_text B cs s1 }"

primrec dump_lines :: "'s bus \<Rightarrow> u32 \<Rightarrow> nat \<Rightarrow> 's \<Rightarrow> 's option" where
  "dump_lines B p 0 s = Some s"
| "dump_lines B p (Suc n) s = do {
     (cs, s1) \<leftarrow> dump_hex B p 16 s;
     s2 \<leftarrow> printf_va B (str ''   ; '') [] s1;
     s3 \<leftarrow> dump_text B cs s2;
     s4 \<leftarrow> printf_va B [10, 13] [] s3;
     dump_lines B (p + 16) n s4 }"

definition do_read_nor_flash :: "'s bus \<Rightarrow> 's \<Rightarrow> 's option" where
  "do_read_nor_flash B s = do {
     s \<leftarrow> printf_va B (str ''Enter the address to read: '') [] s;
     (addr, s) \<leftarrow> get_uint B s;
     s \<leftarrow> printf_va B (str ''Data : '' @ [10, 13]) [] s;
     dump_lines B addr 4 s }"

partial_function (option) nor_flash_test :: "'s bus \<Rightarrow> 's \<Rightarrow> 's option" where
  "nor_flash_test B s = do {
     s \<leftarrow> printf_va B (str ''[s] Scan nor flash'' @ [10, 13]) [] s;
     s \<leftarrow> printf_va B (str ''[e] Erase nor flash'' @ [10, 13]) [] s;
     s \<leftarrow> printf_va B (str ''[w] Write nor flash'' @ [10, 13]) [] s;
     s \<leftarrow> printf_va B (str ''[r] Read nor flash'' @ [10, 13]) [] s;
     s \<leftarrow> printf_va B (str ''[q] quit'' @ [10, 13]) [] s;
     s \<leftarrow> printf_va B (str ''Enter selection: '') [] s;
     (c, s) \<leftarrow> getchar B s;
     s \<leftarrow> printf_va B (str ''%c'' @ [10, 13]) [Va_int (ucast c)] s;
     (if c = 0x71 \<or> c = 0x51 then Some s
      else do {
        s \<leftarrow> (if c = 0x73 \<or> c = 0x53 then do_scan_nor_flash B s
              else if c = 0x65 \<or> c = 0x45 then do_erase_nor_flash B s
              else if c = 0x77 \<or> c = 0x57 then do_write_nor_flash B s
              else if c = 0x72 \<or> c = 0x52 then do_read_nor_flash B s
              else Some s);
        nor_flash_test B s }) }"

section \<open>The chip\<close>

datatype nor_phase = NRead | NUnlock1 | NUnlock2 | NProgram | NErase | NErase1 | NErase2 | NIdent | NCfi

record nor_chip =
  nphase :: nor_phase
  nwords :: "u32 \<Rightarrow> u16"

text \<open>
  A store of \<open>v\<close> to word \<open>off\<close>: the unlock sequences, and the commands they enable. Programming can
  only clear bits; erasing sets all bits of the addressed sector.
\<close>

fun nor_chip_write :: "(u32 \<Rightarrow> nat) \<Rightarrow> u32 \<Rightarrow> u16 \<Rightarrow> nor_chip \<Rightarrow> nor_chip" where
  "nor_chip_write sector off v c =
     (case nphase c of
        NRead \<Rightarrow> c\<lparr>nphase := if off = 0x555 \<and> v = 0xaa then NUnlock1 else if off = 0x55 \<and> v = 0x98 then NCfi else NRead\<rparr>
      | NUnlock1 \<Rightarrow> c\<lparr>nphase := if off = 0x2aa \<and> v = 0x55 then NUnlock2 else NRead\<rparr>
      | NUnlock2 \<Rightarrow> c\<lparr>nphase := if off = 0x555 \<and> v = 0xa0 then NProgram else if off = 0x555 \<and> v = 0x80 then NErase
                               else if off = 0x555 \<and> v = 0x90 then NIdent else NRead\<rparr>
      | NProgram \<Rightarrow> c\<lparr>nphase := NRead, nwords := (nwords c)(off := nwords c off AND v)\<rparr>
      | NErase \<Rightarrow> c\<lparr>nphase := if off = 0x555 \<and> v = 0xaa then NErase1 else NRead\<rparr>
      | NErase1 \<Rightarrow> c\<lparr>nphase := if off = 0x2aa \<and> v = 0x55 then NErase2 else NRead\<rparr>
      | NErase2 \<Rightarrow> (if v = 0x30 then c\<lparr>nphase := NRead, nwords := (\<lambda>a. if sector a = sector off then 0xffff else nwords c a)\<rparr>
                   else c\<lparr>nphase := NRead\<rparr>)
      | _ \<Rightarrow> (if v = 0xf0 then c\<lparr>nphase := NRead\<rparr> else c))"

declare nor_chip_write.simps [simp del]

text \<open>
  A chip of 2 MB at address 0. Loads do not disturb it, and the toggle bit comes to rest.
\<close>

definition nor_dev :: "'s bus \<Rightarrow> ('s \<Rightarrow> nor_chip) \<Rightarrow> (u32 \<Rightarrow> nat) \<Rightarrow> bool" where
  "nor_dev B chip sector \<longleftrightarrow>
     (\<forall>off v s. off < 0x100000 \<longrightarrow> chip (wr16 B (push_bit 1 off) v s) = nor_chip_write sector off v (chip s)) \<and>
     (\<forall>a s. chip (snd (rd16 B a s)) = chip s) \<and>
     (\<forall>a s. \<exists>n. fst (rd16 B a (((\<lambda>s. snd (rd16 B a s)) ^^ Suc n) s)) AND 0x40 =
               fst (rd16 B a (((\<lambda>s. snd (rd16 B a s)) ^^ n) s)) AND 0x40)"

lemma nor_cmd_chip:
  assumes "nor_dev B chip sector" "off < 0x100000"
  shows "chip (nor_cmd B off v s) = nor_chip_write sector off (ucast v) (chip s)"
  using assms by (simp add: nor_dev_def nor_cmd_def nor_write_word_def)

lemma toggle_ucast: "(ucast (v :: u16) :: u32) AND push_bit 6 1 = ucast (v AND 0x40)"
proof -
  have b: "(0x40 :: u16) = push_bit 6 1" by simp
  show ?thesis unfolding b by (rule bit_word_eqI) (auto simp: bit_simps simp del: push_bit_of_1)
qed

lemma toggle_eq: "(ucast (v :: u16) :: u32) AND push_bit 6 1 = ucast w AND push_bit 6 1 \<longleftrightarrow> v AND 0x40 = w AND 0x40"
proof -
  have "unat (ucast (x :: u16) :: u32) = unat x" for x by (rule unat_ucast_up) simp
  then show ?thesis unfolding toggle_ucast by (metis word_unat_eq_iff)
qed

lemma wait_ready_busy:
  fixes B :: "'s bus"
  defines "r \<equiv> \<lambda>a s. snd (rd16 B a s)"
  assumes "a = push_bit 1 (drop_bit 1 addr)" and "fst (rd16 B a (r a s)) AND 0x40 \<noteq> fst (rd16 B a s) AND 0x40"
  shows "wait_ready B addr s = wait_ready B addr (r a s)"
proof -
  note d = wait_ready_def nor_dat_def nor_read_word_def Let_def case_prod_unfold
  have "wait_ready B addr s = wait_toggle B addr (ucast (fst (rd16 B a s))) (ucast (fst (rd16 B a (r a s)))) (r a (r a s))"
    by (simp add: d assms(2) r_def)
  also have "\<dots> = wait_toggle B addr (ucast (fst (rd16 B a (r a s)))) (ucast (fst (rd16 B a (r a (r a s))))) (r a (r a (r a s)))"
    using assms(3) by (subst wait_toggle.simps) (simp only: toggle_eq, simp add: d assms(2) r_def)
  also have "\<dots> = wait_ready B addr (r a s)" by (simp add: d assms(2) r_def)
  finally show ?thesis .
qed

lemma wait_ready_rest:
  assumes "a = push_bit 1 (drop_bit 1 addr)"
    and "fst (rd16 B a (snd (rd16 B a s))) AND 0x40 = fst (rd16 B a s) AND 0x40"
  shows "wait_ready B addr s = Some (snd (rd16 B a (snd (rd16 B a s))))"
  using assms(2)
  by (simp add: wait_ready_def nor_dat_def nor_read_word_def Let_def case_prod_unfold assms(1)
      wait_toggle.simps toggle_eq del: push_bit_of_1)

lemma wait_ready_returns:
  assumes dev: "nor_dev B chip sector"
  shows "\<exists>s'. wait_ready B addr s = Some s' \<and> chip s' = chip s"
proof -
  define a where "a = push_bit 1 (drop_bit 1 addr)"
  define r where "r = (\<lambda>s. snd (rd16 B a s))"
  have chip: "chip (r s) = chip s" for s using dev by (simp add: nor_dev_def r_def)
  obtain n where "fst (rd16 B a ((r ^^ Suc n) s)) AND 0x40 = fst (rd16 B a ((r ^^ n) s)) AND 0x40"
    using dev unfolding nor_dev_def r_def by blast
  then show ?thesis
  proof (induction n arbitrary: s)
    case 0
    then show ?case using wait_ready_rest [OF a_def, of B s] chip by (simp add: r_def)
  next
    case (Suc n)
    show ?case
    proof (cases "fst (rd16 B a (r s)) AND 0x40 = fst (rd16 B a s) AND 0x40")
      case True
      then show ?thesis using wait_ready_rest [OF a_def, of B s] chip by (simp add: r_def)
    next
      case False
      then have "wait_ready B addr s = wait_ready B addr (r s)"
        using wait_ready_busy [OF a_def] by (simp add: r_def)
      moreover have "fst (rd16 B a ((r ^^ Suc n) (r s))) AND 0x40 = fst (rd16 B a ((r ^^ n) (r s))) AND 0x40"
        using Suc.prems by (simp only: funpow_Suc_right o_apply)
      ultimately show ?thesis using Suc.IH [of "r s"] chip by simp
    qed
  qed
qed

section \<open>What erasing and writing do\<close>

lemma off_less: "unat addr < 2 ^ 21 \<Longrightarrow> drop_bit 1 addr < (0x100000 :: u32)"
  by (simp add: word_less_nat_alt unat_shift_right less_mult_imp_div_less)

lemma nor_program_exact:
  assumes dev: "nor_dev B chip sector" and "unat addr < 2 ^ 21" and "nphase (chip s) = NRead"
  shows "\<exists>s'. nor_program B addr val s = Some s' \<and> nphase (chip s') = NRead \<and>
     nwords (chip s') = (nwords (chip s))(drop_bit 1 addr := nwords (chip s) (drop_bit 1 addr) AND ucast val)"
proof -
  define s4 where "s4 = nor_cmd B (drop_bit 1 addr) val (nor_cmd B 0x555 0xa0 (nor_cmd B 0x2aa 0x55 (nor_cmd B 0x555 0xaa s)))"
  have "nphase (chip s4) = NRead" "nwords (chip s4) = (nwords (chip s))(drop_bit 1 addr := nwords (chip s) (drop_bit 1 addr) AND ucast val)"
    unfolding s4_def using assms(3) off_less [OF assms(2)]
    by (simp_all add: nor_cmd_chip [OF dev] nor_chip_write.simps)
  moreover obtain s' where "wait_ready B addr s4 = Some s'" "chip s' = chip s4"
    using wait_ready_returns [OF dev] by blast
  ultimately show ?thesis by (simp add: nor_program_def s4_def)
qed

lemma nor_erase_exact:
  assumes dev: "nor_dev B chip sector" and "unat addr < 2 ^ 21" and "nphase (chip s) = NRead"
  shows "\<exists>s'. nor_erase B addr s = Some s' \<and> nphase (chip s') = NRead \<and>
     nwords (chip s') = (\<lambda>a. if sector a = sector (drop_bit 1 addr) then 0xffff else nwords (chip s) a)"
proof -
  define s6 where "s6 = nor_cmd B (drop_bit 1 addr) 0x30 (nor_cmd B 0x2aa 0x55 (nor_cmd B 0x555 0xaa
    (nor_cmd B 0x555 0x80 (nor_cmd B 0x2aa 0x55 (nor_cmd B 0x555 0xaa s)))))"
  have "nphase (chip s6) = NRead" "nwords (chip s6) = (\<lambda>a. if sector a = sector (drop_bit 1 addr) then 0xffff else nwords (chip s) a)"
    unfolding s6_def using assms(3) off_less [OF assms(2)]
    by (simp_all add: nor_cmd_chip [OF dev] nor_chip_write.simps cong: if_cong)
  moreover obtain s' where "wait_ready B addr s6 = Some s'" "chip s' = chip s6"
    using wait_ready_returns [OF dev] by blast
  ultimately show ?thesis by (simp add: nor_erase_def s6_def)
qed

text \<open>The words that a string is written as, and the bytes of words in memory.\<close>

fun nor_words :: "cstring \<Rightarrow> u16 list" where
  "nor_words [] = [0]"
| "nor_words [c] = [ucast c]"
| "nor_words (c # d # cs) = (ucast c OR push_bit 8 (ucast d)) # nor_words cs"

definition word_bytes :: "u16 list \<Rightarrow> u8 list" where
  "word_bytes ws = concat (map (\<lambda>w. [ucast w, ucast (drop_bit 8 w)]) ws)"

lemma length_nor_words: "length (nor_words cs) = Suc (length cs div 2)"
  by (induction cs rule: nor_words.induct) simp_all

lemma nor_words_bytes: "take (Suc (length cs)) (word_bytes (nor_words cs)) = cs @ [0]"
proof (induction cs rule: nor_words.induct)
  case (3 c d cs)
  have "ucast (ucast c OR push_bit 8 (ucast d) :: u16) = c"
    by (rule bit_word_eqI) (auto simp: bit_simps dest: bit_imp_le_length)
  moreover have "ucast (drop_bit 8 (ucast c OR push_bit 8 (ucast d) :: u16)) = d"
    by (rule bit_word_eqI) (auto simp: bit_simps dest: bit_imp_le_length)
  ultimately show ?case using 3 by (simp add: word_bytes_def)
next
  case (2 c)
  have "ucast (drop_bit 8 (ucast c :: u16)) = (0 :: u8)"
    by (rule bit_word_eqI) (auto simp: bit_simps dest: bit_imp_le_length)
  moreover have "ucast (ucast c :: u16) = c"
    by (rule bit_word_eqI) (auto simp: bit_simps dest: bit_imp_le_length)
  ultimately show ?case by (simp add: word_bytes_def)
qed (simp add: word_bytes_def)

lemma pair_word: "ucast (ucast (c :: u8) + push_bit 8 (ucast (d :: u8)) :: u32) = (ucast c OR push_bit 8 (ucast d) :: u16)"
proof -
  have "ucast c AND push_bit 8 (ucast d) = (0 :: u32)" by (rule bit_word_eqI) (auto simp: bit_simps dest: bit_imp_le_length)
  then have "ucast c + push_bit 8 (ucast d) = (ucast c OR push_bit 8 (ucast d) :: u32)" by (rule disjunctive_add_eq_or)
  then show ?thesis by (simp only:) (rule bit_word_eqI, auto simp: bit_simps dest: bit_imp_le_length)
qed

lemma next_offset:
  assumes "unat addr + 2 < 2 ^ 32"
  shows "drop_bit 1 (addr + 2) = (drop_bit 1 addr + 1 :: u32)" "unat (addr + 2) = unat addr + 2"
proof -
  show u: "unat (addr + 2) = unat addr + 2" using assms by (simp add: unat_word_ariths)
  have lt: "unat addr div 2 + 1 < 2 ^ 32" using unat_less [of addr] by simp
  have "unat (drop_bit 1 (addr + 2)) = unat addr div 2 + 1" by (simp add: unat_shift_right u)
  moreover have "unat (drop_bit 1 addr + 1) = unat addr div 2 + 1"
    using lt by (simp add: unat_plus_one unat_shift_right)
  ultimately show "drop_bit 1 (addr + 2) = drop_bit 1 addr + 1" by (simp add: word_unat_eq_iff)
qed

lemma nor_write_string_exact:
  assumes dev: "nor_dev B chip sector" and "is_cstring cs" "unat addr + length cs < 2 ^ 21" "nphase (chip s) = NRead"
    and "\<And>k. k < length (nor_words cs) \<Longrightarrow> nwords (chip s) (drop_bit 1 addr + of_nat k) = 0xffff"
  shows "\<exists>s'. nor_write_string B addr cs s = Some s' \<and> nphase (chip s') = NRead \<and>
     nwords (chip s') = put_step 1 (nwords (chip s)) (drop_bit 1 addr) (nor_words cs)"
  using assms(2-)
proof (induction cs arbitrary: addr s rule: nor_words.induct)
  case 1
  then show ?case
    using nor_program_exact [OF dev, of addr s 0] by (auto simp: nor_write_string.simps simp del: fun_upd_apply)
next
  case (2 c)
  have e: "nwords (chip s) (drop_bit 1 addr) = 0xffff" using "2.prems"(4) [of 0] by simp
  have "0xffff AND (ucast (ucast c :: u32) :: u16) = ucast c"
  proof -
    have m: "(0xffff :: u16) = mask 16" by (simp add: mask_eq_exp_minus_1)
    show ?thesis unfolding m by (rule bit_word_eqI) (auto simp: bit_simps dest: bit_imp_le_length)
  qed
  with e 2 nor_program_exact [OF dev, of addr s "ucast c"] show ?case
    by (auto simp: nor_write_string.simps simp del: fun_upd_apply)
next
  case (3 c d cs)
  have nz: "c \<noteq> 0" "d \<noteq> 0" "is_cstring cs" using "3.prems"(1) by (auto simp: is_cstring_def)
  have addr: "unat addr < 2 ^ 21" "unat addr + 2 < 2 ^ 32" using "3.prems"(2) by auto
  note nxt = next_offset [OF addr(2)]
  let ?w = "ucast c OR push_bit 8 (ucast d) :: u16"
  have e: "nwords (chip s) (drop_bit 1 addr) = 0xffff" using "3.prems"(4) [of 0] by simp
  have "0xffff AND ?w = ?w"
  proof -
    have m: "(0xffff :: u16) = mask 16" by (simp add: mask_eq_exp_minus_1)
    show ?thesis unfolding m by (rule bit_word_eqI) (auto simp: bit_simps dest: bit_imp_le_length)
  qed
  then obtain s1 where s1: "nor_program B addr (ucast c + push_bit 8 (ucast d)) s = Some s1" "nphase (chip s1) = NRead"
    "nwords (chip s1) = (nwords (chip s))(drop_bit 1 addr := ?w)"
    using nor_program_exact [OF dev addr(1) "3.prems"(3), of "ucast c + push_bit 8 (ucast d)"] e pair_word by metis
  have "\<exists>s'. nor_write_string B (addr + 2) cs s1 = Some s' \<and> nphase (chip s') = NRead \<and>
      nwords (chip s') = put_step 1 (nwords (chip s1)) (drop_bit 1 (addr + 2)) (nor_words cs)"
  proof (rule "3.IH" [OF nz(3) _ s1(2)])
    show "unat (addr + 2) + length cs < 2 ^ 21" using "3.prems"(2) nxt by simp
    fix k assume k: "k < length (nor_words cs)"
    then have "Suc k < 2 ^ 32" using "3.prems"(2) by (simp add: length_nor_words)
    then have "unat (1 + of_nat k :: u32) = Suc k" using unat_of_nat32 [of "Suc k"] by simp
    then have "(1 + of_nat k :: u32) \<noteq> 0" by auto
    then show "nwords (chip s1) (drop_bit 1 (addr + 2) + of_nat k) = 0xffff"
      using "3.prems"(4) [of "Suc k"] k unfolding s1(3) nxt(1) by (simp add: add.assoc)
  qed
  then show ?case unfolding nxt(1) s1(3)
    using s1(1) nz by (auto simp: nor_write_string.simps [of B addr] simp del: fun_upd_apply)
qed


text \<open>A chip with 64 KB sectors that is busy for one load after every command.\<close>

record nor_bus_state =
  nor_chip_of :: nor_chip
  nor_toggle :: bool
  nor_busy :: bool

definition demo_sector :: "u32 \<Rightarrow> nat" where
  "demo_sector off = unat off div 0x8000"

definition demo_nor_bus :: "nor_bus_state bus" where
  "demo_nor_bus = \<lparr>rd8 = (\<lambda>a s. (0, s)),
     rd16 = (\<lambda>a s. if nor_busy s then (if nor_toggle s then 0x40 else 0, s\<lparr>nor_toggle := \<not> nor_toggle s, nor_busy := False\<rparr>)
                   else (nwords (nor_chip_of s) (drop_bit 1 a), s)),
     rd32 = (\<lambda>a s. (0, s)), wr8 = (\<lambda>a v s. s),
     wr16 = (\<lambda>a v s. s\<lparr>nor_chip_of := nor_chip_write demo_sector (drop_bit 1 a) v (nor_chip_of s), nor_busy := True\<rparr>),
     wr32 = (\<lambda>a v s. s)\<rparr>"

lemma demo_nor_dev: "nor_dev demo_nor_bus nor_chip_of demo_sector"
proof -
  have "drop_bit 1 (push_bit 1 off) = off" if "off < (0x100000 :: u32)" for off
  proof -
    have "2 * unat off < 2 ^ 32" using that by (simp add: word_less_nat_alt)
    then have "unat (push_bit 1 off) = 2 * unat off"
      by (simp add: push_bit_eq_mult unat_word_ariths)
    then show ?thesis by (simp add: word_unat_eq_iff unat_shift_right del: push_bit_of_1)
  qed
  moreover have "\<exists>n. fst (rd16 demo_nor_bus a (((\<lambda>s. snd (rd16 demo_nor_bus a s)) ^^ Suc n) s)) AND 0x40 =
      fst (rd16 demo_nor_bus a (((\<lambda>s. snd (rd16 demo_nor_bus a s)) ^^ n) s)) AND 0x40" for a s
    by (rule exI [of _ 1]) (simp add: demo_nor_bus_def)
  ultimately show ?thesis unfolding nor_dev_def by (simp add: demo_nor_bus_def)
qed


end
