(* ===== verification/I2c.thy ===== *)
theory I2c
  imports Interrupt Registry
begin

text \<open>
  The I2C stack of \<^verbatim>\<open>022_i2c_019/005th_i2c_ok_019_007/i2c\<close>: the registration of controllers
  (\<^verbatim>\<open>i2c_controller.c\<close>) and the interrupt-driven S3C2440 controller (\<^verbatim>\<open>s3c2440_i2c_controller.c\<close>). The bus hardware is a parameter; \<open>i2c_dev\<close> states how the
  controller reacts to its registers and logs what appears on the wire.
\<close>

section \<open>Messages\<close>

record i2c_msg =
  msg_addr :: u32
  msg_flags :: int
  msg_len :: int
  msg_cnt_transferred :: int
  msg_err :: int
  msg_buf :: "u8 list"

section \<open>The interrupt handler\<close>

text \<open>The handler works on the message that \<^verbatim>\<open>p_cur_msg\<close> points to.\<close>

definition isLastData :: "i2c_msg \<Rightarrow> bool" where
  "isLastData m \<longleftrightarrow> msg_cnt_transferred m = msg_len m - 1"

definition resume_iic_with_ack :: "'s bus \<Rightarrow> 's \<Rightarrow> 's" where
  "resume_iic_with_ack B s =
     (let (iiccon, s) = rd32 B IICCON s;
          iiccon = iiccon OR push_bit 7 1;
          iiccon = iiccon AND NOT (push_bit 4 1)
      in wr32 B IICCON iiccon s)"

definition resume_iic_without_ack :: "'s bus \<Rightarrow> 's \<Rightarrow> 's" where
  "resume_iic_without_ack B s =
     (let (iiccon, s) = rd32 B IICCON s;
          iiccon = iiccon AND NOT (push_bit 7 1 OR push_bit 4 1)
      in wr32 B IICCON iiccon s)"

text \<open>
  One interrupt. \<open>None\<close>: the handler accesses the buffer out of its bounds, or the error message
  cannot be printed. The calls of \<^verbatim>\<open>delay\<close> only count.
\<close>

definition i2c_tx_irq :: "'s bus \<Rightarrow> u32 \<Rightarrow> i2c_msg \<Rightarrow> 's \<Rightarrow> (i2c_msg \<times> 's) option" where
  "i2c_tx_irq B iicstat m s =
     (if msg_cnt_transferred m = 0 \<and> iicstat AND push_bit 0 1 \<noteq> 0
      then let s = wr32 B IICSTAT 0xd0 s; s = reg_and B IICCON (NOT (push_bit 4 1)) s
           in do {
                s \<leftarrow> printf_va B (str ''tx err, no ack'' @ [10, 13]) [] s;
                Some (m\<lparr>msg_err := - 1\<rparr>, s) }
      else if msg_cnt_transferred m < msg_len m
      then if 0 \<le> msg_cnt_transferred m \<and> msg_cnt_transferred m < int (length (msg_buf m))
           then let s = wr32 B IICDS (ucast (msg_buf m ! nat (msg_cnt_transferred m))) s
                in Some (m, reg_and B IICCON (NOT (push_bit 4 1)) s)
           else None
      else let s = wr32 B IICSTAT 0xd0 s in Some (m, reg_and B IICCON (NOT (push_bit 4 1)) s))"

definition i2c_rx_irq :: "'s bus \<Rightarrow> u32 \<Rightarrow> i2c_msg \<Rightarrow> 's \<Rightarrow> (i2c_msg \<times> 's) option" where
  "i2c_rx_irq B iicstat m s =
     (if msg_cnt_transferred m = 0
      then if iicstat AND push_bit 0 1 \<noteq> 0
           then let s = wr32 B IICSTAT 0x90 s; s = reg_and B IICCON (NOT (push_bit 4 1)) s
                in do {
                     s \<leftarrow> printf_va B (str ''rx err, no ack'' @ [10, 13]) [] s;
                     Some (m\<lparr>msg_err := - 1\<rparr>, s) }
           else Some (m, if isLastData m then resume_iic_without_ack B s else resume_iic_with_ack B s)
      else if msg_cnt_transferred m < msg_len m
      then let index = msg_cnt_transferred m - 1;
               (v, s) = rd32 B IICDS s
           in if 0 \<le> index \<and> index < int (length (msg_buf m))
              then let m = m\<lparr>msg_buf := (msg_buf m)[nat index := ucast v]\<rparr>
                   in Some (m, if isLastData m then resume_iic_without_ack B s else resume_iic_with_ack B s)
              else None
      else let s = wr32 B IICSTAT 0x90 s in Some (m, reg_and B IICCON (NOT (push_bit 4 1)) s))"

definition i2c_interrupt_func :: "'s bus \<Rightarrow> i2c_msg \<Rightarrow> 's \<Rightarrow> (i2c_msg \<times> 's) option" where
  "i2c_interrupt_func B m s =
     (let (iicstat, s) = rd32 B IICSTAT s;
          m = m\<lparr>msg_cnt_transferred := msg_cnt_transferred m + 1\<rparr>
      in if msg_flags m = 0 then i2c_tx_irq B iicstat m s else i2c_rx_irq B iicstat m s)"

section \<open>Transfers\<close>

text \<open>
  The loop \<^verbatim>\<open>while (!msg->err && msg->cnt_transferred != msg->len);\<close> makes progress only through
  interrupts. \<open>hw\<close> takes the bus to the moment at which the controller raises its next interrupt;
  it is \<open>None\<close> if there is none, and then the loop does not end.
\<close>

partial_function (option) wait_xfer ::
  "'s bus \<Rightarrow> ('s \<Rightarrow> 's option) \<Rightarrow> i2c_msg \<Rightarrow> 's \<Rightarrow> (i2c_msg \<times> 's) option" where
  [code]: "wait_xfer B hw m s =
     (if msg_err m = 0 \<and> msg_cnt_transferred m \<noteq> msg_len m
      then do {
        s1 \<leftarrow> hw s;
        (m', s2) \<leftarrow> i2c_interrupt_func B m s1;
        wait_xfer B hw m' s2 }
      else Some (m, s))"

definition do_master_tx :: "'s bus \<Rightarrow> ('s \<Rightarrow> 's option) \<Rightarrow> i2c_msg \<Rightarrow> 's \<Rightarrow> (int \<times> i2c_msg \<times> 's) option" where
  "do_master_tx B hw m s =
     (let m = m\<lparr>msg_cnt_transferred := - 1, msg_err := 0\<rparr>;
          s = reg_or B IICCON (push_bit 7 1) s;
          s = wr32 B IICSTAT (push_bit 4 1) s;
          s = wr32 B IICDS (push_bit 1 (msg_addr m)) s;
          s = wr32 B IICSTAT 0xf0 s
      in do {
           (m, s) \<leftarrow> wait_xfer B hw m s;
           Some (if msg_err m \<noteq> 0 then - 1 else 0, m, s) })"

definition do_master_rx :: "'s bus \<Rightarrow> ('s \<Rightarrow> 's option) \<Rightarrow> i2c_msg \<Rightarrow> 's \<Rightarrow> (int \<times> i2c_msg \<times> 's) option" where
  "do_master_rx B hw m s =
     (let m = m\<lparr>msg_cnt_transferred := - 1, msg_err := 0\<rparr>;
          s = reg_or B IICCON (push_bit 7 1) s;
          s = wr32 B IICSTAT (push_bit 4 1) s;
          s = wr32 B IICDS (push_bit 1 (msg_addr m) OR push_bit 0 1) s;
          s = wr32 B IICSTAT 0xb0 s
      in do {
           (m, s) \<leftarrow> wait_xfer B hw m s;
           Some (if msg_err m \<noteq> 0 then - 1 else 0, m, s) })"

text \<open>The loop over the messages, which stops at the first error.\<close>

fun s3c2440_master_xfer :: "'s bus \<Rightarrow> ('s \<Rightarrow> 's option) \<Rightarrow> i2c_msg list \<Rightarrow> 's \<Rightarrow> (int \<times> i2c_msg list \<times> 's) option" where
  "s3c2440_master_xfer B hw [] s = Some (0, [], s)"
| "s3c2440_master_xfer B hw (m # ms) s = do {
     (err, m, s) \<leftarrow> (if msg_flags m = 0 then do_master_tx B hw m s else do_master_rx B hw m s);
     (if err \<noteq> 0 then Some (err, m # ms, s)
      else do {
        (err, ms, s) \<leftarrow> s3c2440_master_xfer B hw ms s;
        Some (err, m # ms, s) }) }"

definition s3c2440_i2c_con_init ::
  "'s bus \<Rightarrow> 'f \<Rightarrow> 'f irq_array \<times> 's \<Rightarrow> ('f irq_array \<times> 's) option" where
  "s3c2440_i2c_con_init B i2c_fp = (\<lambda>(irqs, s).
     let s = reg_and B GPECON (NOT (push_bit 28 3 OR push_bit 30 3)) s;
         s = reg_or B GPECON (push_bit 28 2 OR push_bit 30 2) s;
         s = wr32 B IICCON (push_bit 7 1 OR push_bit 6 0 OR push_bit 5 1 OR push_bit 0 30) s
     in register_irq B 27 i2c_fp (irqs, s))"

section \<open>Registration of controllers\<close>

record ('st, 's) i2c_controller =
  ic_init :: "'st \<Rightarrow> 'st option"
  ic_master_xfer :: "i2c_msg list \<Rightarrow> int \<Rightarrow> 's \<Rightarrow> (int \<times> i2c_msg list \<times> 's) option"
  ic_name :: cstring

record ('st, 's) i2c_con_state =
  p_i2c_controllers :: "('st, 's) i2c_controller option list"
  p_i2c_con_selected :: "('st, 's) i2c_controller option"

definition I2C_CONTROLLER_NUM :: nat where
  "I2C_CONTROLLER_NUM = 10"

definition i2c_con_state_init :: "('st, 's) i2c_con_state" where
  "i2c_con_state_init = \<lparr>p_i2c_controllers = replicate I2C_CONTROLLER_NUM None, p_i2c_con_selected = None\<rparr>"

definition register_i2c_controller :: "('st, 's) i2c_controller \<Rightarrow> ('st, 's) i2c_con_state \<Rightarrow> ('st, 's) i2c_con_state" where
  "register_i2c_controller p c =
     (case register_slot p (p_i2c_controllers c) of
        Some (i, arr) \<Rightarrow> c\<lparr>p_i2c_controllers := arr\<rparr>
      | None \<Rightarrow> c)"

definition select_i2c_controller :: "cstring \<Rightarrow> ('st, 's) i2c_con_state \<Rightarrow> int \<times> ('st, 's) i2c_con_state" where
  "select_i2c_controller n c =
     (case find_slot (\<lambda>p. strcmp n (ic_name p) = 0) (p_i2c_controllers c) of
        Some (i, p) \<Rightarrow> (0, c\<lparr>p_i2c_con_selected := Some p\<rparr>)
      | None \<Rightarrow> (- 1, c))"

text \<open>\<open>None\<close>: no controller is selected, and the call goes through a null pointer.\<close>

definition i2c_transfer ::
  "('st, 's) i2c_con_state \<Rightarrow> i2c_msg list \<Rightarrow> int \<Rightarrow> 's \<Rightarrow> (int \<times> i2c_msg list \<times> 's) option" where
  "i2c_transfer c msgs num s = do { p \<leftarrow> p_i2c_con_selected c; ic_master_xfer p msgs num s }"

definition s3c2440_i2c_con ::
  "'s bus \<Rightarrow> 'f \<Rightarrow> ('s \<Rightarrow> 's option) \<Rightarrow> ('f irq_array \<times> 's, 's) i2c_controller" where
  "s3c2440_i2c_con B i2c_fp hw = \<lparr>ic_init = s3c2440_i2c_con_init B i2c_fp,
     ic_master_xfer = (\<lambda>msgs num. s3c2440_master_xfer B hw (take (nat num) msgs)), ic_name = str ''s3c2440''\<rparr>"

definition s3c2440_i2c_con_add ::
  "'s bus \<Rightarrow> 'f \<Rightarrow> ('s \<Rightarrow> 's option) \<Rightarrow> ('f irq_array \<times> 's, 's) i2c_con_state \<Rightarrow> ('f irq_array \<times> 's, 's) i2c_con_state" where
  "s3c2440_i2c_con_add B i2c_fp hw c = register_i2c_controller (s3c2440_i2c_con B i2c_fp hw) c"

definition i2c_init ::
  "'s bus \<Rightarrow> 'f \<Rightarrow> ('s \<Rightarrow> 's option) \<Rightarrow> ('f irq_array \<times> 's, 's) i2c_con_state \<Rightarrow> 'f irq_array \<times> 's \<Rightarrow>
     (('f irq_array \<times> 's, 's) i2c_con_state \<times> 'f irq_array \<times> 's) option" where
  "i2c_init B i2c_fp hw c st =
     (let c = s3c2440_i2c_con_add B i2c_fp hw c;
          c = snd (select_i2c_controller (str ''s3c2440'') c)
      in do { p \<leftarrow> p_i2c_con_selected c; st \<leftarrow> ic_init p st; Some (c, st) })"

section \<open>The controller and the wire\<close>

text \<open>What appears on the wire, and the observable state of the controller.\<close>

datatype wire_ev = W_start u8 | W_byte u8 | W_read u8 bool | W_stop

datatype i2c_mode = I_idle | I_tx | I_rx | I_stop

record i2c_hw =
  hw_mode :: i2c_mode
  hw_pend :: bool
  hw_ds :: u8
  hw_wire :: "wire_ev list"

fun iicstat_write :: "u32 \<Rightarrow> i2c_hw \<Rightarrow> i2c_hw" where
  "iicstat_write v h =
     (if v = 0xf0 then h\<lparr>hw_mode := I_tx, hw_wire := hw_wire h @ [W_start (hw_ds h)]\<rparr>
      else if v = 0xb0 then h\<lparr>hw_mode := I_rx, hw_wire := hw_wire h @ [W_start (hw_ds h)]\<rparr>
      else if v = 0xd0 \<or> v = 0x90 then h\<lparr>hw_mode := I_stop\<rparr>
      else h\<lparr>hw_mode := I_idle\<rparr>)"

text \<open>
  Clearing the pending bit resumes the bus: the byte in the shift register is sent, or a byte is
  received and answered with the acknowledge bit, or the stop condition is generated. \<open>dat\<close> is the
  byte the addressed device sends after what was on the wire so far.
\<close>

fun iiccon_write :: "(wire_ev list \<Rightarrow> u8) \<Rightarrow> u32 \<Rightarrow> i2c_hw \<Rightarrow> i2c_hw" where
  "iiccon_write dat v h =
     (if hw_pend h \<and> \<not> bit v 4
      then (case hw_mode h of
              I_tx \<Rightarrow> h\<lparr>hw_pend := False, hw_wire := hw_wire h @ [W_byte (hw_ds h)]\<rparr>
            | I_rx \<Rightarrow> h\<lparr>hw_pend := False, hw_ds := dat (hw_wire h), hw_wire := hw_wire h @ [W_read (dat (hw_wire h)) (bit v 7)]\<rparr>
            | I_stop \<Rightarrow> h\<lparr>hw_pend := False, hw_mode := I_idle, hw_wire := hw_wire h @ [W_stop]\<rparr>
            | I_idle \<Rightarrow> h\<lparr>hw_pend := False\<rparr>)
      else h)"

declare iicstat_write.simps [simp del] iiccon_write.simps [simp del]

text \<open>
  The documented behaviour of the controller. \<open>st\<close> observes it, \<open>ack\<close> says whether the address on
  the wire is acknowledged, and \<open>hw\<close> raises the pending bit when a byte has been transferred.
\<close>

definition i2c_dev ::
    "'s bus \<Rightarrow> ('s \<Rightarrow> i2c_hw) \<Rightarrow> ('s \<Rightarrow> 's option) \<Rightarrow> (wire_ev list \<Rightarrow> bool) \<Rightarrow> (wire_ev list \<Rightarrow> u8) \<Rightarrow> bool" where
  "i2c_dev B st hw ack dat \<longleftrightarrow>
     (\<forall>v s. st (wr32 B IICDS v s) = (st s)\<lparr>hw_ds := ucast v\<rparr>) \<and>
     (\<forall>v s. st (wr32 B IICSTAT v s) = iicstat_write v (st s)) \<and>
     (\<forall>v s. st (wr32 B IICCON v s) = iiccon_write dat v (st s)) \<and>
     (\<forall>s. st (snd (rd32 B IICCON s)) = st s \<and> bit (fst (rd32 B IICCON s)) 4 = hw_pend (st s)) \<and>
     (\<forall>s. st (snd (rd32 B IICSTAT s)) = st s \<and> (fst (rd32 B IICSTAT s) AND 1 = 0) = ack (hw_wire (st s))) \<and>
     (\<forall>s. st (snd (rd32 B IICDS s)) = st s \<and> ucast (fst (rd32 B IICDS s)) = hw_ds (st s)) \<and>
     (\<forall>s. hw_mode (st s) \<in> {I_tx, I_rx} \<longrightarrow> (\<exists>s'. hw s = Some s' \<and> st s' = (st s)\<lparr>hw_pend := True\<rparr>))"

lemma i2c_dev_simps:
  assumes "i2c_dev B st hw ack dat"
  shows "st (wr32 B IICDS v s) = (st s)\<lparr>hw_ds := ucast v\<rparr>"
    and "st (wr32 B IICSTAT v s) = iicstat_write v (st s)"
    and "st (snd (rd32 B IICSTAT s)) = st s"
    and "(fst (rd32 B IICSTAT s) AND 1 = 0) = ack (hw_wire (st s))"
    and "st (snd (rd32 B IICDS s)) = st s" "ucast (fst (rd32 B IICDS s)) = hw_ds (st s)"
  using assms by (simp_all add: i2c_dev_def)

lemma i2c_hw_irq:
  assumes "i2c_dev B st hw ack dat" and "hw_mode (st s) \<in> {I_tx, I_rx}"
  shows "\<exists>s'. hw s = Some s' \<and> st s' = (st s)\<lparr>hw_pend := True\<rparr>"
  using assms unfolding i2c_dev_def by blast

text \<open>The three ways in which the handler resumes the bus, and the one in which a start leaves it.\<close>

lemma i2c_resume:
  assumes "i2c_dev B st hw ack dat"
  shows "\<exists>v. \<not> bit v 4 \<and> st (reg_and B IICCON (NOT (push_bit 4 1)) s) = iiccon_write dat v (st s)"
    and "\<exists>v. \<not> bit v 4 \<and> bit v 7 \<and> st (resume_iic_with_ack B s) = iiccon_write dat v (st s)"
    and "\<exists>v. \<not> bit v 4 \<and> \<not> bit v 7 \<and> st (resume_iic_without_ack B s) = iiccon_write dat v (st s)"
proof -
  obtain v s1 where r: "rd32 B IICCON s = (v, s1)" by fastforce
  with assms have s1: "st s1 = st s" unfolding i2c_dev_def by (metis snd_conv)
  have w: "st (wr32 B IICCON x s1) = iiccon_write dat x (st s)" for x
    using assms s1 by (simp add: i2c_dev_def)
  show "\<exists>v. \<not> bit v 4 \<and> st (reg_and B IICCON (NOT (push_bit 4 1)) s) = iiccon_write dat v (st s)"
    by (rule exI [of _ "v AND NOT (push_bit 4 1)"]) (simp add: reg_and_def r w bit_simps del: push_bit_of_1)
  show "\<exists>v. \<not> bit v 4 \<and> bit v 7 \<and> st (resume_iic_with_ack B s) = iiccon_write dat v (st s)"
    by (rule exI [of _ "(v OR push_bit 7 1) AND NOT (push_bit 4 1)"])
      (simp add: resume_iic_with_ack_def r w bit_simps del: push_bit_of_1)
  show "\<exists>v. \<not> bit v 4 \<and> \<not> bit v 7 \<and> st (resume_iic_without_ack B s) = iiccon_write dat v (st s)"
    by (rule exI [of _ "v AND NOT (push_bit 7 1 OR push_bit 4 1)"])
      (simp add: resume_iic_without_ack_def r w bit_simps del: push_bit_of_1)
qed

lemma i2c_no_resume:
  assumes "i2c_dev B st hw ack dat" "\<not> hw_pend (st s)"
  shows "st (reg_or B IICCON m s) = st s"
  using assms by (simp add: i2c_dev_def reg_or_def case_prod_unfold Let_def iiccon_write.simps)

lemma resume_sends:
  assumes dev: "i2c_dev B st hw ack dat" and "hw_pend (st s)" "hw_mode (st s) = I_tx"
  shows "st (reg_and B IICCON (NOT (push_bit 4 1)) s) =
    (st s)\<lparr>hw_pend := False, hw_wire := hw_wire (st s) @ [W_byte (hw_ds (st s))]\<rparr>"
  using i2c_resume(1) [OF dev, of s] assms(2,3) by (auto simp: iiccon_write.simps)

lemma resume_stops:
  assumes dev: "i2c_dev B st hw ack dat" and "hw_pend (st s)" "hw_mode (st s) = I_stop"
  shows "st (reg_and B IICCON (NOT (push_bit 4 1)) s) =
    (st s)\<lparr>hw_pend := False, hw_mode := I_idle, hw_wire := hw_wire (st s) @ [W_stop]\<rparr>"
  using i2c_resume(1) [OF dev, of s] assms(2,3) by (auto simp: iiccon_write.simps)

lemma resume_reads:
  assumes dev: "i2c_dev B st hw ack dat" and "hw_pend (st s)" "hw_mode (st s) = I_rx"
  shows "st (if l then resume_iic_without_ack B s else resume_iic_with_ack B s) =
    (st s)\<lparr>hw_pend := False, hw_ds := dat (hw_wire (st s)),
      hw_wire := hw_wire (st s) @ [W_read (dat (hw_wire (st s))) (\<not> l)]\<rparr>"
  using i2c_resume(2,3) [OF dev, of s] assms(2,3) by (cases l) (auto simp: iiccon_write.simps)

section \<open>A complete transmission\<close>

lemma wait_xfer_done:
  "msg_err m \<noteq> 0 \<or> msg_cnt_transferred m = msg_len m \<Longrightarrow> wait_xfer B hw m s = Some (m, s)"
  by (subst wait_xfer.simps) auto

lemma wait_xfer_irq:
  "msg_err m = 0 \<Longrightarrow> msg_cnt_transferred m \<noteq> msg_len m \<Longrightarrow> hw s = Some s1 \<Longrightarrow>
   i2c_interrupt_func B m s1 = Some (m', s2) \<Longrightarrow> wait_xfer B hw m s = wait_xfer B hw m' s2"
  by (subst wait_xfer.simps) auto

lemma tx_irq_next:
  assumes dev: "i2c_dev B st hw ack dat" and "msg_flags m = 0" and k: "msg_cnt_transferred m = int k - 1"
    and "k < n" "msg_len m = int n" "n \<le> length (msg_buf m)"
    and "hw_mode (st s) = I_tx" "hw_pend (st s)" and "k = 0 \<Longrightarrow> ack (hw_wire (st s))"
  shows "\<exists>s'. i2c_interrupt_func B m s = Some (m\<lparr>msg_cnt_transferred := int k\<rparr>, s') \<and>
    st s' = (st s)\<lparr>hw_ds := msg_buf m ! k, hw_pend := False, hw_wire := hw_wire (st s) @ [W_byte (msg_buf m ! k)]\<rparr>"
proof -
  obtain v s1 where r: "rd32 B IICSTAT s = (v, s1)" by fastforce
  with i2c_dev_simps(3,4) [OF dev, of s] have s1: "st s1 = st s" "(v AND 1 = 0) = ack (hw_wire (st s))" by simp_all
  have "ucast (ucast (msg_buf m ! k) :: u32) = msg_buf m ! k"
    by (rule bit_word_eqI) (auto simp: bit_simps dest: bit_imp_le_length)
  then have "st (reg_and B IICCON (NOT (push_bit 4 1)) (wr32 B IICDS (ucast (msg_buf m ! k)) s1)) =
      (st s)\<lparr>hw_ds := msg_buf m ! k, hw_pend := False, hw_wire := hw_wire (st s) @ [W_byte (msg_buf m ! k)]\<rparr>"
    using assms(7,8) s1 by (subst resume_sends [OF dev]) (simp_all add: i2c_dev_simps [OF dev])
  then show ?thesis
    using assms(2-6,9) s1 r by (auto simp: i2c_interrupt_func_def i2c_tx_irq_def Let_def)
qed

lemma tx_irq_stop:
  assumes dev: "i2c_dev B st hw ack dat" and "msg_flags m = 0" and k: "msg_cnt_transferred m = msg_len m - 1"
    and "hw_mode (st s) = I_tx" "hw_pend (st s)" and "msg_len m = 0 \<Longrightarrow> ack (hw_wire (st s))"
  shows "\<exists>s'. i2c_interrupt_func B m s = Some (m\<lparr>msg_cnt_transferred := msg_len m\<rparr>, s') \<and>
    st s' = (st s)\<lparr>hw_pend := False, hw_mode := I_idle, hw_wire := hw_wire (st s) @ [W_stop]\<rparr>"
proof -
  obtain v s1 where r: "rd32 B IICSTAT s = (v, s1)" by fastforce
  with i2c_dev_simps(3,4) [OF dev, of s] have s1: "st s1 = st s" "(v AND 1 = 0) = ack (hw_wire (st s))" by simp_all
  have "st (reg_and B IICCON (NOT (push_bit 4 1)) (wr32 B IICSTAT 0xd0 s1)) =
      (st s)\<lparr>hw_pend := False, hw_mode := I_idle, hw_wire := hw_wire (st s) @ [W_stop]\<rparr>"
    using assms(5) s1 by (subst resume_stops [OF dev]) (simp_all add: i2c_dev_simps [OF dev] iicstat_write.simps)
  then show ?thesis
    using assms(2,3,6) s1 r by (auto simp: i2c_interrupt_func_def i2c_tx_irq_def Let_def)
qed

lemma tx_rest:
  assumes dev: "i2c_dev B st hw ack dat" and "msg_flags m = 0" "msg_err m = 0" "msg_len m = int n" "n \<le> length (msg_buf m)"
    and "msg_cnt_transferred m = int k - 1" "k \<le> n"
    and "hw_mode (st s) = I_tx" and "k = 0 \<Longrightarrow> ack (hw_wire (st s))"
  shows "\<exists>m' s'. wait_xfer B hw m s = Some (m', s') \<and> msg_err m' = 0 \<and> msg_buf m' = msg_buf m \<and>
    hw_mode (st s') = I_idle \<and> \<not> hw_pend (st s') \<and>
    hw_wire (st s') = hw_wire (st s) @ map W_byte (drop k (take n (msg_buf m))) @ [W_stop]"
  using assms(2-)
proof (induction "n - k" arbitrary: k m s)
  case 0
  then have k: "k = n" by simp
  obtain s1 where s1: "hw s = Some s1" "st s1 = (st s)\<lparr>hw_pend := True\<rparr>"
    using i2c_hw_irq [OF dev, of s] 0 by auto
  obtain s2 where s2: "i2c_interrupt_func B m s1 = Some (m\<lparr>msg_cnt_transferred := msg_len m\<rparr>, s2)"
    "st s2 = (st s1)\<lparr>hw_pend := False, hw_mode := I_idle, hw_wire := hw_wire (st s1) @ [W_stop]\<rparr>"
    using tx_irq_stop [OF dev, of m s1] 0 k s1 by auto
  have "wait_xfer B hw m s = wait_xfer B hw (m\<lparr>msg_cnt_transferred := msg_len m\<rparr>) s2"
    using 0 s1 s2 by (intro wait_xfer_irq) auto
  also have "\<dots> = Some (m\<lparr>msg_cnt_transferred := msg_len m\<rparr>, s2)" by (rule wait_xfer_done) simp
  finally show ?case using 0 s1 s2 k by simp
next
  case (Suc d)
  then have k: "k < n" by simp
  let ?m = "m\<lparr>msg_cnt_transferred := int k\<rparr>"
  obtain s1 where s1: "hw s = Some s1" "st s1 = (st s)\<lparr>hw_pend := True\<rparr>"
    using i2c_hw_irq [OF dev, of s] Suc.prems by auto
  obtain s2 where s2: "i2c_interrupt_func B m s1 = Some (?m, s2)"
    "st s2 = (st s1)\<lparr>hw_ds := msg_buf m ! k, hw_pend := False, hw_wire := hw_wire (st s1) @ [W_byte (msg_buf m ! k)]\<rparr>"
    using tx_irq_next [OF dev, of m k n s1] Suc.prems k s1 by auto
  have "wait_xfer B hw m s = wait_xfer B hw ?m s2"
    using Suc.prems s1 s2 by (intro wait_xfer_irq) auto
  moreover have "\<exists>m' s'. wait_xfer B hw ?m s2 = Some (m', s') \<and> msg_err m' = 0 \<and> msg_buf m' = msg_buf ?m \<and>
      hw_mode (st s') = I_idle \<and> \<not> hw_pend (st s') \<and>
      hw_wire (st s') = hw_wire (st s2) @ map W_byte (drop (Suc k) (take n (msg_buf ?m))) @ [W_stop]"
    by (rule Suc.hyps(1)) (use Suc.hyps(2) Suc.prems s1 s2 in auto)
  moreover have "drop k (take n (msg_buf m)) = msg_buf m ! k # drop (Suc k) (take n (msg_buf m))"
    using k Suc.prems(4) by (subst Cons_nth_drop_Suc [symmetric]) simp_all
  ultimately show ?case using s1 s2 by simp
qed

text \<open>The bytes of a written message on the wire.\<close>

definition write_wire :: "i2c_msg \<Rightarrow> wire_ev list" where
  "write_wire m = W_start (ucast (push_bit 1 (msg_addr m))) # map W_byte (take (nat (msg_len m)) (msg_buf m)) @ [W_stop]"

lemma do_master_tx_sends:
  assumes dev: "i2c_dev B st hw ack dat" and "msg_flags m = 0" "0 \<le> msg_len m" "msg_len m \<le> int (length (msg_buf m))"
    and "\<not> hw_pend (st s)" and "ack (hw_wire (st s) @ [W_start (ucast (push_bit 1 (msg_addr m)))])"
  shows "\<exists>m' s'. do_master_tx B hw m s = Some (0, m', s') \<and> msg_buf m' = msg_buf m \<and>
    hw_mode (st s') = I_idle \<and> \<not> hw_pend (st s') \<and> hw_wire (st s') = hw_wire (st s) @ write_wire m"
proof -
  let ?m = "m\<lparr>msg_cnt_transferred := - 1, msg_err := 0\<rparr>"
  let ?s = "wr32 B IICSTAT 0xf0 (wr32 B IICDS (push_bit 1 (msg_addr m)) (wr32 B IICSTAT (push_bit 4 1)
      (reg_or B IICCON (push_bit 7 1) s)))"
  have s: "hw_mode (st ?s) = I_tx" "hw_wire (st ?s) = hw_wire (st s) @ [W_start (ucast (push_bit 1 (msg_addr m)))]"
    using assms(5) by (simp_all add: i2c_dev_simps [OF dev] i2c_no_resume [OF dev] iicstat_write.simps)
  have "\<exists>m' s'. wait_xfer B hw ?m ?s = Some (m', s') \<and> msg_err m' = 0 \<and> msg_buf m' = msg_buf ?m \<and>
    hw_mode (st s') = I_idle \<and> \<not> hw_pend (st s') \<and>
    hw_wire (st s') = hw_wire (st ?s) @ map W_byte (drop 0 (take (nat (msg_len m)) (msg_buf ?m))) @ [W_stop]"
    by (rule tx_rest [OF dev]) (use assms(2-4,6) s in auto)
  with s show ?thesis by (auto simp: do_master_tx_def write_wire_def Let_def)
qed

section \<open>A complete reception\<close>

text \<open>
  The wire after \<open>j\<close> of \<open>n\<close> bytes were received, starting from the wire \<open>w\<close>: every byte but the last
  one is acknowledged.
\<close>

primrec read_wire :: "(wire_ev list \<Rightarrow> u8) \<Rightarrow> nat \<Rightarrow> wire_ev list \<Rightarrow> nat \<Rightarrow> wire_ev list" where
  "read_wire dat n w 0 = w"
| "read_wire dat n w (Suc j) =
     (let w' = read_wire dat n w j in w' @ [W_read (dat w') (Suc j \<noteq> n)])"

text \<open>Byte \<open>j\<close> that the device sends.\<close>

definition read_byte :: "(wire_ev list \<Rightarrow> u8) \<Rightarrow> nat \<Rightarrow> wire_ev list \<Rightarrow> nat \<Rightarrow> u8" where
  "read_byte dat n w j = dat (read_wire dat n w j)"

lemma rx_irq_first:
  assumes dev: "i2c_dev B st hw ack dat" and "msg_flags m \<noteq> 0" "msg_cnt_transferred m = - 1"
    and "msg_len m = int n" "hw_mode (st s) = I_rx" "hw_pend (st s)" "ack (hw_wire (st s))"
  shows "\<exists>s'. i2c_interrupt_func B m s = Some (m\<lparr>msg_cnt_transferred := 0\<rparr>, s') \<and>
    st s' = (st s)\<lparr>hw_pend := False, hw_ds := dat (hw_wire (st s)),
      hw_wire := hw_wire (st s) @ [W_read (dat (hw_wire (st s))) (1 \<noteq> n)]\<rparr>"
proof -
  obtain v s1 where r: "rd32 B IICSTAT s = (v, s1)" by fastforce
  with i2c_dev_simps(3,4) [OF dev, of s] have s1: "st s1 = st s" "(v AND 1 = 0) = ack (hw_wire (st s))" by simp_all
  then show ?thesis
    using resume_reads [OF dev, of s1 "n = 1"] assms(2-) r
    by (auto simp: i2c_interrupt_func_def i2c_rx_irq_def isLastData_def Let_def eq_commute [of "Suc 0"])
qed

lemma rx_irq_next:
  assumes dev: "i2c_dev B st hw ack dat" and "msg_flags m \<noteq> 0" "msg_cnt_transferred m = int k - 1"
    and "0 < k" "k < n" "msg_len m = int n" "n \<le> length (msg_buf m)" "hw_mode (st s) = I_rx" "hw_pend (st s)"
  shows "\<exists>s'. i2c_interrupt_func B m s =
      Some (m\<lparr>msg_cnt_transferred := int k, msg_buf := (msg_buf m)[k - 1 := hw_ds (st s)]\<rparr>, s') \<and>
    st s' = (st s)\<lparr>hw_pend := False, hw_ds := dat (hw_wire (st s)),
      hw_wire := hw_wire (st s) @ [W_read (dat (hw_wire (st s))) (Suc k \<noteq> n)]\<rparr>"
proof -
  obtain v s1 where r: "rd32 B IICSTAT s = (v, s1)" by fastforce
  with i2c_dev_simps(3,4) [OF dev, of s] have s1: "st s1 = st s" by simp
  obtain d s2 where r2: "rd32 B IICDS s1 = (d, s2)" by fastforce
  with i2c_dev_simps(5,6) [OF dev, of s1] s1 have s2: "st s2 = st s" "ucast d = hw_ds (st s)" by simp_all
  let ?l = "int k = msg_len m - 1"
  have l: "?l = (Suc k = n)" using assms(6) by auto
  have "nat (int k - 1) = k - 1" "int k - 1 < int (length (msg_buf m))" using assms(4,5,7) by auto
  then have "i2c_interrupt_func B m s =
      Some (m\<lparr>msg_cnt_transferred := int k, msg_buf := (msg_buf m)[k - 1 := hw_ds (st s)]\<rparr>,
        if ?l then resume_iic_without_ack B s2 else resume_iic_with_ack B s2)"
    using assms(2-7) r r2 s2 by (simp add: i2c_interrupt_func_def i2c_rx_irq_def isLastData_def Let_def)
  moreover have "st (if ?l then resume_iic_without_ack B s2 else resume_iic_with_ack B s2) =
    (st s)\<lparr>hw_pend := False, hw_ds := dat (hw_wire (st s)),
      hw_wire := hw_wire (st s) @ [W_read (dat (hw_wire (st s))) (Suc k \<noteq> n)]\<rparr>"
    using resume_reads [OF dev, of s2 ?l] s2 assms(8,9) l by simp
  ultimately show ?thesis by blast
qed

lemma rx_irq_stop:
  assumes dev: "i2c_dev B st hw ack dat" and "msg_flags m \<noteq> 0" "msg_cnt_transferred m = msg_len m - 1"
    and "0 < msg_len m" "hw_pend (st s)"
  shows "\<exists>s'. i2c_interrupt_func B m s = Some (m\<lparr>msg_cnt_transferred := msg_len m\<rparr>, s') \<and>
    st s' = (st s)\<lparr>hw_pend := False, hw_mode := I_idle, hw_wire := hw_wire (st s) @ [W_stop]\<rparr>"
proof -
  obtain v s1 where r: "rd32 B IICSTAT s = (v, s1)" by fastforce
  with i2c_dev_simps(3,4) [OF dev, of s] have s1: "st s1 = st s" by simp
  have "st (reg_and B IICCON (NOT (push_bit 4 1)) (wr32 B IICSTAT 0x90 s1)) =
      (st s)\<lparr>hw_pend := False, hw_mode := I_idle, hw_wire := hw_wire (st s) @ [W_stop]\<rparr>"
    using assms(5) s1 by (subst resume_stops [OF dev]) (simp_all add: i2c_dev_simps [OF dev] iicstat_write.simps)
  then show ?thesis
    using assms(2-4) r by (auto simp: i2c_interrupt_func_def i2c_rx_irq_def Let_def)
qed

text \<open>What the buffer holds when byte \<open>k - 1\<close> has just been received.\<close>

definition rx_buf :: "(wire_ev list \<Rightarrow> u8) \<Rightarrow> nat \<Rightarrow> wire_ev list \<Rightarrow> u8 list \<Rightarrow> nat \<Rightarrow> u8 list" where
  "rx_buf dat n w b k = map (read_byte dat n w) [0..<k] @ drop k b"

lemma rx_buf_upd:
  assumes "k < length b"
  shows "(rx_buf dat n w b k)[k := read_byte dat n w k] = rx_buf dat n w b (Suc k)"
proof -
  have "drop k b = b ! k # drop (Suc k) b" using assms by (simp add: Cons_nth_drop_Suc)
  then show ?thesis by (simp add: rx_buf_def list_update_append)
qed

lemma rx_rest:
  assumes dev: "i2c_dev B st hw ack dat" and "msg_flags m \<noteq> 0" "msg_err m = 0" "msg_len m = int n"
    and "msg_cnt_transferred m = int k - 1" "0 < k" "k \<le> n" "n \<le> length b" "msg_buf m = rx_buf dat n w b (k - 1)"
    and "hw_mode (st s) = I_rx" "hw_ds (st s) = read_byte dat n w (k - 1)" "hw_wire (st s) = read_wire dat n w k"
  shows "\<exists>m' s'. wait_xfer B hw m s = Some (m', s') \<and> msg_err m' = 0 \<and> msg_buf m' = rx_buf dat n w b (n - 1) \<and>
    hw_mode (st s') = I_idle \<and> \<not> hw_pend (st s') \<and> hw_wire (st s') = read_wire dat n w n @ [W_stop]"
  using assms(2-)
proof (induction "n - k" arbitrary: k m s)
  case 0
  then have k: "k = n" by simp
  obtain s1 where s1: "hw s = Some s1" "st s1 = (st s)\<lparr>hw_pend := True\<rparr>"
    using i2c_hw_irq [OF dev, of s] 0 by auto
  obtain s2 where s2: "i2c_interrupt_func B m s1 = Some (m\<lparr>msg_cnt_transferred := msg_len m\<rparr>, s2)"
    "st s2 = (st s1)\<lparr>hw_pend := False, hw_mode := I_idle, hw_wire := hw_wire (st s1) @ [W_stop]\<rparr>"
    using rx_irq_stop [OF dev, of m s1] 0 k s1 by auto
  have "wait_xfer B hw m s = wait_xfer B hw (m\<lparr>msg_cnt_transferred := msg_len m\<rparr>) s2"
    using 0 s1 s2 by (intro wait_xfer_irq) auto
  also have "\<dots> = Some (m\<lparr>msg_cnt_transferred := msg_len m\<rparr>, s2)" by (rule wait_xfer_done) simp
  finally show ?case using 0 s1 s2 k by simp
next
  case (Suc d)
  then have k: "k < n" by simp
  let ?m = "m\<lparr>msg_cnt_transferred := int k, msg_buf := (msg_buf m)[k - 1 := hw_ds (st s)]\<rparr>"
  obtain s1 where s1: "hw s = Some s1" "st s1 = (st s)\<lparr>hw_pend := True\<rparr>"
    using i2c_hw_irq [OF dev, of s] Suc.prems by auto
  have len: "length (msg_buf m) = length b" using Suc.prems k by (simp add: rx_buf_def)
  obtain s2 where s2: "i2c_interrupt_func B m s1 = Some (?m, s2)"
    "st s2 = (st s1)\<lparr>hw_pend := False, hw_ds := dat (hw_wire (st s1)),
      hw_wire := hw_wire (st s1) @ [W_read (dat (hw_wire (st s1))) (Suc k \<noteq> n)]\<rparr>"
    using rx_irq_next [OF dev, of m k n s1] Suc.prems k s1 len by auto
  have "(rx_buf dat n w b (k - 1))[k - 1 := read_byte dat n w (k - 1)] = rx_buf dat n w b k"
    using rx_buf_upd [of "k - 1" b] Suc.prems k by simp
  then have buf: "msg_buf ?m = rx_buf dat n w b (Suc k - 1)" using Suc.prems by simp
  have "wait_xfer B hw m s = wait_xfer B hw ?m s2"
    using Suc.prems s1 s2 k by (intro wait_xfer_irq) auto
  moreover have "\<exists>m' s'. wait_xfer B hw ?m s2 = Some (m', s') \<and> msg_err m' = 0 \<and> msg_buf m' = rx_buf dat n w b (n - 1) \<and>
      hw_mode (st s') = I_idle \<and> \<not> hw_pend (st s') \<and> hw_wire (st s') = read_wire dat n w n @ [W_stop]"
    by (rule Suc.hyps(1) [OF _ _ _ _ _ _ _ _ buf])
      (use Suc.hyps(2) Suc.prems s1 s2 k in \<open>auto simp: read_byte_def Let_def\<close>)
  ultimately show ?case by simp
qed

lemma do_master_rx_receives:
  assumes dev: "i2c_dev B st hw ack dat" and "msg_flags m \<noteq> 0" "msg_len m = int n" "0 < n" "n \<le> length (msg_buf m)"
    and "\<not> hw_pend (st s)" and w: "w = hw_wire (st s) @ [W_start (ucast (push_bit 1 (msg_addr m) OR 1))]" and "ack w"
  shows "\<exists>m' s'. do_master_rx B hw m s = Some (0, m', s') \<and> msg_buf m' = rx_buf dat n w (msg_buf m) (n - 1) \<and>
    hw_mode (st s') = I_idle \<and> \<not> hw_pend (st s') \<and> hw_wire (st s') = read_wire dat n w n @ [W_stop]"
proof -
  let ?m = "m\<lparr>msg_cnt_transferred := - 1, msg_err := 0\<rparr>" and ?mz = "m\<lparr>msg_cnt_transferred := 0, msg_err := 0\<rparr>"
  define s0 where "s0 = wr32 B IICSTAT 0xb0 (wr32 B IICDS (push_bit 1 (msg_addr m) OR push_bit 0 1)
      (wr32 B IICSTAT (push_bit 4 1) (reg_or B IICCON (push_bit 7 1) s)))"
  have s: "hw_mode (st s0) = I_rx" "hw_wire (st s0) = w"
    using assms(6) by (simp_all add: i2c_dev_simps [OF dev] i2c_no_resume [OF dev] iicstat_write.simps w s0_def)
  obtain s1 where s1: "hw s0 = Some s1" "st s1 = (st s0)\<lparr>hw_pend := True\<rparr>"
    using i2c_hw_irq [OF dev, of s0] s by auto
  obtain s2 where s2: "i2c_interrupt_func B ?m s1 = Some (?mz, s2)"
    "st s2 = (st s1)\<lparr>hw_pend := False, hw_ds := dat w, hw_wire := w @ [W_read (dat w) (1 \<noteq> n)]\<rparr>"
    using rx_irq_first [OF dev, of ?m n s1] assms(2-4,8) s s1 by (auto simp del: One_nat_def)
  have "wait_xfer B hw ?m s0 = wait_xfer B hw ?mz s2"
    using s1 s2 assms(3) by (intro wait_xfer_irq) auto
  moreover have "\<exists>m' s'. wait_xfer B hw ?mz s2 = Some (m', s') \<and> msg_err m' = 0 \<and> msg_buf m' = rx_buf dat n w (msg_buf m) (n - 1) \<and>
      hw_mode (st s') = I_idle \<and> \<not> hw_pend (st s') \<and> hw_wire (st s') = read_wire dat n w n @ [W_stop]"
    by (rule rx_rest [OF dev, where k = 1])
      (use assms(2-5) s s1 s2 in \<open>auto simp: rx_buf_def read_byte_def Let_def\<close>)
  ultimately show ?thesis by (auto simp: do_master_rx_def Let_def s0_def simp del: push_bit_of_1)
qed

text \<open>
  C28. A reception of \<open>n\<close> bytes returns 0 after the device sent \<open>n\<close> bytes, all but the last
  acknowledged. The first \<open>n - 1\<close> of them are in the buffer, but the last one is not: the interrupt
  that announces it only stops the bus, so element \<open>n - 1\<close> keeps its old value.
\<close>

theorem i2c_receive_loses_last:
  assumes "i2c_dev B st hw ack dat" and "msg_flags m \<noteq> 0" "msg_len m = int n" "0 < n" "n \<le> length (msg_buf m)"
    and "\<not> hw_pend (st s)" and "w = hw_wire (st s) @ [W_start (ucast (push_bit 1 (msg_addr m) OR 1))]" and "ack w"
  shows "\<exists>m' s'. do_master_rx B hw m s = Some (0, m', s') \<and>
    hw_wire (st s') = read_wire dat n w n @ [W_stop] \<and>
    take (n - 1) (msg_buf m') = map (\<lambda>j. dat (read_wire dat n w j)) [0..<n - 1] \<and>
    msg_buf m' ! (n - 1) = msg_buf m ! (n - 1)"
proof -
  obtain m' s' where "do_master_rx B hw m s = Some (0, m', s')" "hw_wire (st s') = read_wire dat n w n @ [W_stop]"
    and b: "msg_buf m' = rx_buf dat n w (msg_buf m) (n - 1)"
    using do_master_rx_receives [OF assms] by auto
  moreover have "take (n - 1) (msg_buf m') = map (\<lambda>j. dat (read_wire dat n w j)) [0..<n - 1]"
    unfolding b by (simp add: rx_buf_def read_byte_def)
  moreover have "msg_buf m' ! (n - 1) = msg_buf m ! (n - 1)"
    unfolding b using assms(4,5) by (simp add: rx_buf_def nth_append)
  ultimately show ?thesis by blast
qed

section \<open>A missing device\<close>

lemma tx_irq_nack:
  assumes dev: "i2c_dev B st hw ack dat" and uart: "uart_tx B tx" "uart_frame B st"
    and "msg_flags m = 0" "msg_cnt_transferred m = - 1" "hw_pend (st s)" "\<not> ack (hw_wire (st s))"
  shows "\<exists>s'. i2c_interrupt_func B m s = Some (m\<lparr>msg_cnt_transferred := 0, msg_err := - 1\<rparr>, s') \<and>
    st s' = (st s)\<lparr>hw_pend := False, hw_mode := I_idle, hw_wire := hw_wire (st s) @ [W_stop]\<rparr>"
proof -
  obtain v s1 where r: "rd32 B IICSTAT s = (v, s1)" by fastforce
  with i2c_dev_simps(3,4) [OF dev, of s] have s1: "st s1 = st s" "(v AND 1 = 0) = ack (hw_wire (st s))" by simp_all
  define s2 where "s2 = reg_and B IICCON (NOT (push_bit 4 1)) (wr32 B IICSTAT 0xd0 s1)"
  have s2: "st s2 = (st s)\<lparr>hw_pend := False, hw_mode := I_idle, hw_wire := hw_wire (st s) @ [W_stop]\<rparr>"
    unfolding s2_def using assms(6) s1
    by (subst resume_stops [OF dev]) (simp_all add: i2c_dev_simps [OF dev] iicstat_write.simps)
  have "fmt_ok (str ''tx err, no ack'' @ [10, 13])" by code_simp
  then obtain s3 where s3: "printf_va B (str ''tx err, no ack'' @ [10, 13]) [] s2 = Some s3"
    using printf_returns [OF uart(1)] by blast
  then have "st s3 = st s2" using printf_frame [OF uart(2)] by blast
  with s2 s3 assms(4,5,7) s1 r show ?thesis
    by (auto simp: i2c_interrupt_func_def i2c_tx_irq_def Let_def s2_def simp del: push_bit_of_1)
qed

text \<open>
  If no device acknowledges the address of a transmission, the driver sends no data: it stops the
  bus, prints a message and returns -1.
\<close>

theorem i2c_no_device:
  assumes dev: "i2c_dev B st hw ack dat" and uart: "uart_tx B tx" "uart_frame B st"
    and m: "msg_flags m = 0" "0 \<le> msg_len m" and s: "\<not> hw_pend (st s)"
    and nack: "\<not> ack (hw_wire (st s) @ [W_start (ucast (push_bit 1 (msg_addr m)))])"
  shows "\<exists>m' s'. do_master_tx B hw m s = Some (- 1, m', s') \<and> hw_mode (st s') = I_idle \<and>
    hw_wire (st s') = hw_wire (st s) @ [W_start (ucast (push_bit 1 (msg_addr m))), W_stop]"
proof -
  let ?m = "m\<lparr>msg_cnt_transferred := - 1, msg_err := 0\<rparr>" and ?me = "m\<lparr>msg_cnt_transferred := 0, msg_err := - 1\<rparr>"
  define s0 where "s0 = wr32 B IICSTAT 0xf0 (wr32 B IICDS (push_bit 1 (msg_addr m))
      (wr32 B IICSTAT (push_bit 4 1) (reg_or B IICCON (push_bit 7 1) s)))"
  have s0: "hw_mode (st s0) = I_tx" "hw_wire (st s0) = hw_wire (st s) @ [W_start (ucast (push_bit 1 (msg_addr m)))]"
    using s by (simp_all add: i2c_dev_simps [OF dev] i2c_no_resume [OF dev] iicstat_write.simps s0_def)
  obtain s1 where s1: "hw s0 = Some s1" "st s1 = (st s0)\<lparr>hw_pend := True\<rparr>"
    using i2c_hw_irq [OF dev, of s0] s0 by auto
  obtain s2 where s2: "i2c_interrupt_func B ?m s1 = Some (?me, s2)"
    "st s2 = (st s1)\<lparr>hw_pend := False, hw_mode := I_idle, hw_wire := hw_wire (st s1) @ [W_stop]\<rparr>"
    using tx_irq_nack [OF dev uart, of ?m s1] m(1) nack s0 s1 by auto
  have "wait_xfer B hw ?m s0 = wait_xfer B hw ?me s2"
    using s1 s2 m(2) by (intro wait_xfer_irq) auto
  also have "\<dots> = Some (?me, s2)" by (rule wait_xfer_done) simp
  finally show ?thesis
    using s0 s1 s2 by (auto simp: do_master_tx_def Let_def s0_def simp del: push_bit_of_1)
qed

section \<open>Every interrupt is safe\<close>

text \<open>
  The messages that can occur while \<^verbatim>\<open>do_master_tx\<close> or \<^verbatim>\<open>do_master_rx\<close> waits, whatever the bus does: any
  state may be on the bus when an interrupt arrives.
\<close>

inductive i2c_run :: "'s bus \<Rightarrow> i2c_msg \<Rightarrow> i2c_msg \<Rightarrow> bool" for B m0 where
  start: "i2c_run B m0 (m0\<lparr>msg_cnt_transferred := - 1, msg_err := 0\<rparr>)"
| irq: "i2c_run B m0 m \<Longrightarrow> msg_err m = 0 \<Longrightarrow> msg_cnt_transferred m \<noteq> msg_len m \<Longrightarrow>
    i2c_interrupt_func B m s = Some (m', s') \<Longrightarrow> i2c_run B m0 m'"

definition msg_inv :: "i2c_msg \<Rightarrow> i2c_msg \<Rightarrow> bool" where
  "msg_inv m0 m \<longleftrightarrow> msg_flags m = msg_flags m0 \<and> msg_len m = msg_len m0 \<and> length (msg_buf m) = length (msg_buf m0) \<and>
     - 1 \<le> msg_cnt_transferred m \<and> msg_cnt_transferred m \<le> msg_len m"

lemma irq_fields:
  assumes "i2c_interrupt_func B m s = Some (m', s')"
  shows "msg_flags m' = msg_flags m" "msg_len m' = msg_len m" "length (msg_buf m') = length (msg_buf m)"
    "msg_cnt_transferred m' = msg_cnt_transferred m + 1"
  using assms
  by (auto simp: i2c_interrupt_func_def i2c_tx_irq_def i2c_rx_irq_def Let_def split: prod.splits if_splits Option.bind_splits)

lemma i2c_run_inv:
  assumes "i2c_run B m0 m" and "0 \<le> msg_len m0"
  shows "msg_inv m0 m"
  using assms
proof (induction rule: i2c_run.induct)
  case start
  then show ?case by (simp add: msg_inv_def)
next
  case (irq m s m' s')
  then show ?case using irq_fields [OF irq.hyps(4)] by (auto simp: msg_inv_def)
qed

lemma printf_some: "uart_tx B tx \<Longrightarrow> fmt_ok fmt \<Longrightarrow> \<exists>s'. printf_va B fmt args s = Some s'"
  using printf_returns [of B tx fmt args s] by blast

text \<open>
  C29. Whatever the hardware does, while a transfer runs every interrupt is handled without an access
  outside the buffer of the message, the count grows by one, and it never passes the length.
\<close>

theorem i2c_irq_safe:
  assumes "i2c_run B m0 m" and "0 \<le> msg_len m0" "msg_len m0 \<le> int (length (msg_buf m0))" and "uart_tx B tx"
    and "msg_err m = 0" "msg_cnt_transferred m \<noteq> msg_len m"
  shows "\<exists>m' s'. i2c_interrupt_func B m s = Some (m', s') \<and> length (msg_buf m') = length (msg_buf m0) \<and>
    msg_cnt_transferred m' = msg_cnt_transferred m + 1 \<and> msg_cnt_transferred m' \<le> msg_len m0"
proof -
  have inv: "msg_inv m0 m" using assms(1,2) by (rule i2c_run_inv)
  have "fmt_ok (str ''tx err, no ack'' @ [10, 13])" "fmt_ok (str ''rx err, no ack'' @ [10, 13])" by code_simp+
  note p = this [THEN printf_some [OF assms(4)]]
  obtain f g where fg: "\<And>s. printf_va B (str ''tx err, no ack'' @ [10, 13]) [] s = Some (f s)"
    "\<And>s. printf_va B (str ''rx err, no ack'' @ [10, 13]) [] s = Some (g s)"
    using p(1) [of "[]"] p(2) [of "[]"] by metis
  have c: "0 \<le> msg_cnt_transferred m + 1" "msg_cnt_transferred m + 1 < msg_len m \<Longrightarrow>
      msg_cnt_transferred m + 1 < int (length (msg_buf m))"
    using inv assms(3) by (auto simp: msg_inv_def)
  obtain v s1 where "rd32 B IICSTAT s = (v, s1)" by fastforce
  then have "\<exists>m' s'. i2c_interrupt_func B m s = Some (m', s')"
    using c by (auto simp: i2c_interrupt_func_def i2c_tx_irq_def i2c_rx_irq_def Let_def fg split: prod.splits)
  then obtain m' s' where i: "i2c_interrupt_func B m s = Some (m', s')" by blast
  with irq_fields [OF i] inv assms(6) show ?thesis by (auto simp: msg_inv_def)
qed

section \<open>A controller that works\<close>

text \<open>A bus with the controller and an always ready transmitter, for any device on the wire.\<close>

definition demo_i2c_bus :: "(wire_ev list \<Rightarrow> bool) \<Rightarrow> (wire_ev list \<Rightarrow> u8) \<Rightarrow> (i2c_hw \<times> u8 list) bus" where
  "demo_i2c_bus ack dat = \<lparr>rd8 = (\<lambda>a s. (0, s)), rd16 = (\<lambda>a s. (0, s)),
     rd32 = (\<lambda>a s. (if a = IICCON then (if hw_pend (fst s) then 16 else 0)
                   else if a = IICSTAT then (if ack (hw_wire (fst s)) then 0 else 1)
                   else if a = IICDS then ucast (hw_ds (fst s)) else 6, s)),
     wr8 = (\<lambda>a v s. if a = UTXH0 then (fst s, snd s @ [v]) else s), wr16 = (\<lambda>a v s. s),
     wr32 = (\<lambda>a v s. (if a = IICDS then (fst s)\<lparr>hw_ds := ucast v\<rparr> else if a = IICSTAT then iicstat_write v (fst s)
                     else if a = IICCON then iiccon_write dat v (fst s) else fst s, snd s))\<rparr>"

definition demo_i2c_hw :: "i2c_hw \<times> u8 list \<Rightarrow> (i2c_hw \<times> u8 list) option" where
  "demo_i2c_hw s = (if hw_mode (fst s) \<in> {I_tx, I_rx} then Some ((fst s)\<lparr>hw_pend := True\<rparr>, snd s) else None)"

definition i2c_hw_reset :: i2c_hw where
  "i2c_hw_reset = \<lparr>hw_mode = I_idle, hw_pend = False, hw_ds = 0, hw_wire = []\<rparr>"

lemma demo_i2c_dev: "i2c_dev (demo_i2c_bus ack dat) fst demo_i2c_hw ack dat"
proof -
  have "ucast (ucast (b :: u8) :: u32) = b" for b
    by (rule bit_word_eqI) (auto simp: bit_simps dest: bit_imp_le_length)
  moreover have "bit (16 :: u32) 4" by simp
  ultimately show ?thesis by (auto simp: i2c_dev_def demo_i2c_bus_def demo_i2c_hw_def sfr)
qed

lemma demo_i2c_uart: "uart_tx (demo_i2c_bus ack dat) snd" "uart_frame (demo_i2c_bus ack dat) fst"
  by (auto simp: uart_tx_def uart_frame_def demo_i2c_bus_def sfr)

definition demo_msg :: "int \<Rightarrow> u8 list \<Rightarrow> i2c_msg" where
  "demo_msg f b = \<lparr>msg_addr = 0x50, msg_flags = f, msg_len = int (length b), msg_cnt_transferred = - 1, msg_err = 0, msg_buf = b\<rparr>"

theorem i2c_receive_loses_last_witness:
  "\<exists>m' s'. do_master_rx (demo_i2c_bus (\<lambda>_. True) (\<lambda>w. of_nat (length w))) demo_i2c_hw (demo_msg 1 [9, 9, 9]) (i2c_hw_reset, []) =
     Some (0, m', s') \<and> take 2 (msg_buf m') = [1, 2] \<and> msg_buf m' ! 2 = 9"
proof -
  let ?dat = "\<lambda>w :: wire_ev list. of_nat (length w) :: u8" and ?m = "demo_msg 1 [9, 9, 9]"
  have "\<exists>m' s'. do_master_rx (demo_i2c_bus (\<lambda>_. True) ?dat) demo_i2c_hw ?m (i2c_hw_reset, []) = Some (0, m', s') \<and>
     hw_wire (fst s') = read_wire ?dat 3 [W_start 0xA1] 3 @ [W_stop] \<and>
     take (3 - 1) (msg_buf m') = map (\<lambda>j. ?dat (read_wire ?dat 3 [W_start 0xA1] j)) [0..<3 - 1] \<and>
     msg_buf m' ! (3 - 1) = msg_buf ?m ! (3 - 1)"
    by (rule i2c_receive_loses_last [OF demo_i2c_dev]) (simp_all add: demo_msg_def i2c_hw_reset_def)
  moreover have "[0..<3 - 1] = [0, Suc 0]" by (simp add: upt_rec)
  ultimately show ?thesis by (auto simp: Let_def demo_msg_def)
qed

theorem i2c_no_device_witness:
  "\<exists>m' s'. do_master_tx (demo_i2c_bus (\<lambda>_. False) (\<lambda>w. 0)) demo_i2c_hw (demo_msg 0 [1, 2]) (i2c_hw_reset, []) = Some (- 1, m', s') \<and>
     hw_mode (fst s') = I_idle \<and> hw_wire (fst s') = [W_start 0xA0, W_stop]"
  using i2c_no_device [OF demo_i2c_dev demo_i2c_uart, of "demo_msg 0 [1, 2]" "(i2c_hw_reset, [])" "\<lambda>_. False" "\<lambda>w. 0"]
  by (simp add: demo_msg_def i2c_hw_reset_def)

theorem i2c_irq_safe_witness:
  "\<exists>m' s'. i2c_interrupt_func (demo_i2c_bus (\<lambda>_. True) (\<lambda>w. 0)) (demo_msg 1 [9]) (i2c_hw_reset, []) = Some (m', s') \<and>
     length (msg_buf m') = 1 \<and> msg_cnt_transferred m' = 0"
proof -
  have "(demo_msg 1 [9])\<lparr>msg_cnt_transferred := - 1, msg_err := 0\<rparr> = demo_msg 1 [9]" by (simp add: demo_msg_def)
  then have "i2c_run (demo_i2c_bus (\<lambda>_. True) (\<lambda>w. 0)) (demo_msg 1 [9]) (demo_msg 1 [9])"
    using i2c_run.start by metis
  from i2c_irq_safe [OF this _ _ demo_i2c_uart(1), of "(i2c_hw_reset, [])"] show ?thesis
    by (auto simp: demo_msg_def)
qed

section \<open>Registration\<close>

text \<open>After initialisation the S3C2440 controller is selected and its interrupt source is registered.\<close>

lemma i2c_init_selects:
  fixes B :: "'s bus" and irqs :: "'f irq_array"
  assumes "length irqs = 32"
  shows "\<exists>c s'. i2c_init B fp hw i2c_con_state_init (irqs, s) = Some (c, irqs[27 := Some fp], s') \<and>
    i2c_transfer c msgs num = s3c2440_master_xfer B hw (take (nat num) msgs)"
proof -
  have "strcmp (str ''s3c2440'') (str ''s3c2440'') = 0" by code_simp
  moreover have "replicate 10 None = None # replicate 9 (None :: ('f irq_array \<times> 's, 's) i2c_controller option)"
    by (simp add: numeral_eq_Suc)
  ultimately show ?thesis
    using assms
    by (auto simp: i2c_init_def s3c2440_i2c_con_add_def register_i2c_controller_def i2c_con_state_init_def
        I2C_CONTROLLER_NUM_def select_i2c_controller_def s3c2440_i2c_con_def i2c_transfer_def
        s3c2440_i2c_con_init_def register_irq_def Let_def fun_eq_iff)
qed

end
