(* ===== verification/At24cxx.thy ===== *)
theory At24cxx
  imports I2c
begin

text \<open>
  The EEPROM driver of \<^verbatim>\<open>at24cxx.c\<close>, over the interface \<open>i2c_master\<close> of an I2C controller, which the
  S3C2440 controller is shown to implement. With an EEPROM on the wire, what \<open>at24cxx_write\<close> writes
  is what \<open>at24cxx_read\<close> returns, but for the last byte it asks for.
\<close>

section \<open>The EEPROM driver\<close>

text \<open>\<open>xfer\<close> is \<^verbatim>\<open>i2c_transfer\<close> for the selected controller.\<close>

definition AT24CXX_ADDR :: u32 where
  "AT24CXX_ADDR = 0x50"

fun at24cxx_write ::
  "(i2c_msg list \<Rightarrow> int \<Rightarrow> 's \<Rightarrow> (int \<times> i2c_msg list \<times> 's) option) \<Rightarrow> u32 \<Rightarrow> u8 list \<Rightarrow> 's \<Rightarrow> (int \<times> 's) option" where
  "at24cxx_write xfer addr [] s = Some (0, s)"
| "at24cxx_write xfer addr (d # ds) s =
     (let msg = \<lparr>msg_addr = AT24CXX_ADDR, msg_flags = 0, msg_len = 2, msg_cnt_transferred = - 1, msg_err = 0,
                msg_buf = [ucast addr, d]\<rparr>
      in do {
           (err, _, s) \<leftarrow> xfer [msg] 1 s;
           (if err \<noteq> 0 then Some (err, s) else at24cxx_write xfer (addr + 1) ds s) })"

text \<open>The address byte is taken from the variable \<^verbatim>\<open>addr\<close> itself, least significant byte first.\<close>

definition at24cxx_read ::
  "(i2c_msg list \<Rightarrow> int \<Rightarrow> 's \<Rightarrow> (int \<times> i2c_msg list \<times> 's) option) \<Rightarrow> u32 \<Rightarrow> u8 list \<Rightarrow> int \<Rightarrow> 's \<Rightarrow>
     (int \<times> u8 list \<times> 's) option" where
  "at24cxx_read xfer addr data len s =
     (let m0 = \<lparr>msg_addr = AT24CXX_ADDR, msg_flags = 0, msg_len = 1, msg_cnt_transferred = - 1, msg_err = 0,
                msg_buf = [ucast addr, ucast (drop_bit 8 addr), ucast (drop_bit 16 addr), ucast (drop_bit 24 addr)]\<rparr>;
          m1 = \<lparr>msg_addr = AT24CXX_ADDR, msg_flags = 1, msg_len = len, msg_cnt_transferred = - 1, msg_err = 0,
                msg_buf = data\<rparr>
      in do {
           (err, ms, s) \<leftarrow> xfer [m0, m1] 2 s;
           let data' = (case ms of [_, m] \<Rightarrow> msg_buf m | _ \<Rightarrow> data);
           Some (err, data', s) })"

section \<open>What the driver needs of a controller\<close>

text \<open>
  \<open>ready\<close>: the controller is idle and the device answers. \<open>wire\<close> is what appeared on the wire, and
  \<open>dat\<close> what the device sends.
\<close>

locale i2c_master =
  fixes xfer :: "i2c_msg list \<Rightarrow> int \<Rightarrow> 's \<Rightarrow> (int \<times> i2c_msg list \<times> 's) option"
    and ready :: "'s \<Rightarrow> bool" and wire :: "'s \<Rightarrow> wire_ev list" and dat :: "wire_ev list \<Rightarrow> u8"
  assumes xfer_write: "ready s \<Longrightarrow> msg_flags m = 0 \<Longrightarrow> 0 \<le> msg_len m \<Longrightarrow> msg_len m \<le> int (length (msg_buf m)) \<Longrightarrow>
      \<exists>ms s'. xfer [m] 1 s = Some (0, ms, s') \<and> ready s' \<and> wire s' = wire s @ write_wire m"
    and xfer_read: "ready s \<Longrightarrow> msg_flags m = 0 \<Longrightarrow> 0 \<le> msg_len m \<Longrightarrow> msg_len m \<le> int (length (msg_buf m)) \<Longrightarrow>
      msg_flags r \<noteq> 0 \<Longrightarrow> msg_len r = int n \<Longrightarrow> 0 < n \<Longrightarrow> n \<le> length (msg_buf r) \<Longrightarrow>
      w = wire s @ write_wire m @ [W_start (ucast (push_bit 1 (msg_addr r) OR 1))] \<Longrightarrow>
      \<exists>m' r' s'. xfer [m, r] 2 s = Some (0, [m', r'], s') \<and> ready s' \<and>
        msg_buf r' = rx_buf dat n w (msg_buf r) (n - 1) \<and> wire s' = read_wire dat n w n @ [W_stop]"
begin

text \<open>One message per byte: the address in the chip, and the byte.\<close>

lemma write_messages:
  assumes "ready s"
  shows "\<exists>s'. at24cxx_write xfer addr ds s = Some (0, s') \<and> ready s' \<and>
    wire s' = wire s @ concat (map (\<lambda>k. [W_start 0xA0, W_byte (ucast addr + of_nat k), W_byte (ds ! k), W_stop]) [0..<length ds])"
  using assms
proof (induction ds arbitrary: addr s)
  case Nil
  then show ?case by simp
next
  case (Cons d ds)
  let ?m = "\<lparr>msg_addr = AT24CXX_ADDR, msg_flags = 0, msg_len = 2, msg_cnt_transferred = - 1, msg_err = 0,
    msg_buf = [ucast addr, d]\<rparr>"
  have "\<exists>ms s1. xfer [?m] 1 s = Some (0, ms, s1) \<and> ready s1 \<and> wire s1 = wire s @ write_wire ?m"
    by (rule xfer_write [OF Cons.prems]) simp_all
  then obtain ms s1 where s1: "xfer [?m] 1 s = Some (0, ms, s1)" "ready s1" "wire s1 = wire s @ write_wire ?m"
    by blast
  have w: "write_wire ?m = [W_start 0xA0, W_byte (ucast addr), W_byte d, W_stop]"
    by (simp add: write_wire_def AT24CXX_ADDR_def)
  have u: "(ucast (addr + 1) :: u8) = ucast addr + 1"
    by (simp add: word_unat_eq_iff unsigned_ucast_eq unat_word_ariths take_bit_eq_mod mod_simps mod_mod_cancel)
  let ?f = "\<lambda>a ds k. [W_start 0xA0, W_byte (ucast (a :: u32) + of_nat k), W_byte (ds ! k), W_stop]"
  obtain s2 where s2: "at24cxx_write xfer (addr + 1) ds s1 = Some (0, s2)" "ready s2"
    "wire s2 = wire s1 @ concat (map (?f (addr + 1) ds) [0..<length ds])"
    using Cons.IH [OF s1(2), of "addr + 1"] by (elim exE conjE)
  have "[0..<length (d # ds)] = 0 # map Suc [0..<length ds]"
    by (simp add: map_Suc_upt upt_conv_Cons del: upt_Suc)
  then have "map (?f addr (d # ds)) [0..<length (d # ds)] = write_wire ?m # map (?f (addr + 1) ds) [0..<length ds]"
    by (simp add: u w add.assoc del: upt_Suc)
  then have "concat (map (?f addr (d # ds)) [0..<length (d # ds)]) = write_wire ?m @ concat (map (?f (addr + 1) ds) [0..<length ds])"
    by (simp only: concat.simps)
  moreover have "at24cxx_write xfer addr (d # ds) s = Some (0, s2)" using s1 s2 by (simp add: Let_def)
  ultimately show ?case using s1(3) s2(2,3) by (simp only: append_assoc) blast
qed

lemma read_messages:
  assumes "ready s" "0 < n" "n \<le> length data"
    and "w = wire s @ [W_start 0xA0, W_byte (ucast addr), W_stop, W_start 0xA1]"
  shows "\<exists>s'. at24cxx_read xfer addr data (int n) s = Some (0, rx_buf dat n w data (n - 1), s') \<and> ready s' \<and>
    wire s' = read_wire dat n w n @ [W_stop]"
proof -
  let ?m = "\<lparr>msg_addr = AT24CXX_ADDR, msg_flags = 0, msg_len = 1, msg_cnt_transferred = - 1, msg_err = 0,
    msg_buf = [ucast addr, ucast (drop_bit 8 addr), ucast (drop_bit 16 addr), ucast (drop_bit 24 addr)]\<rparr>"
  let ?r = "\<lparr>msg_addr = AT24CXX_ADDR, msg_flags = 1, msg_len = int n, msg_cnt_transferred = - 1, msg_err = 0,
    msg_buf = data\<rparr>"
  have "w = wire s @ write_wire ?m @ [W_start (ucast (push_bit 1 (msg_addr ?r) OR 1))]"
    using assms(4) by (simp add: write_wire_def AT24CXX_ADDR_def)
  then obtain m' r' s' where "xfer [?m, ?r] 2 s = Some (0, [m', r'], s')" "ready s'"
    "msg_buf r' = rx_buf dat n w data (n - 1)" "wire s' = read_wire dat n w n @ [W_stop]"
    using xfer_read [OF assms(1), of ?m ?r n w] assms(2,3) by auto
  then show ?thesis by (simp add: at24cxx_read_def Let_def)
qed

end

text \<open>The S3C2440 controller implements the interface, when it is idle and every address is acknowledged.\<close>

definition i2c_ready ::
    "'s bus \<Rightarrow> ('s \<Rightarrow> i2c_hw) \<Rightarrow> ('s \<Rightarrow> 's option) \<Rightarrow> (wire_ev list \<Rightarrow> u8) \<Rightarrow> 's \<Rightarrow> bool" where
  "i2c_ready B st hw dat s \<longleftrightarrow> i2c_dev B st hw (\<lambda>_. True) dat \<and> \<not> hw_pend (st s)"

interpretation s3c_i2c: i2c_master "\<lambda>msgs num. s3c2440_master_xfer B hw (take (nat num) msgs)" "i2c_ready B st hw dat"
  "\<lambda>s. hw_wire (st s)" dat for B hw st dat
proof unfold_locales
  fix s and m :: i2c_msg
  assume s: "i2c_ready B st hw dat s" and m: "msg_flags m = 0" "0 \<le> msg_len m" "msg_len m \<le> int (length (msg_buf m))"
  then have dev: "i2c_dev B st hw (\<lambda>_. True) dat" and p: "\<not> hw_pend (st s)" by (auto simp: i2c_ready_def)
  obtain m' s1 where s1: "do_master_tx B hw m s = Some (0, m', s1)" "\<not> hw_pend (st s1)"
    "hw_wire (st s1) = hw_wire (st s) @ write_wire m"
    using do_master_tx_sends [OF dev m p] by auto
  then show "\<exists>ms s'. s3c2440_master_xfer B hw (take (nat 1) [m]) s = Some (0, ms, s') \<and> i2c_ready B st hw dat s' \<and>
      hw_wire (st s') = hw_wire (st s) @ write_wire m"
    using m dev by (simp add: i2c_ready_def)
  show "\<exists>m' r' s'. s3c2440_master_xfer B hw (take (nat 2) [m, r]) s = Some (0, [m', r'], s') \<and> i2c_ready B st hw dat s' \<and>
      msg_buf r' = rx_buf dat n w (msg_buf r) (n - 1) \<and> hw_wire (st s') = read_wire dat n w n @ [W_stop]"
    if "msg_flags r \<noteq> 0" "msg_len r = int n" "0 < n" "n \<le> length (msg_buf r)"
      "w = hw_wire (st s) @ write_wire m @ [W_start (ucast (push_bit 1 (msg_addr r) OR 1))]" for r :: i2c_msg and n w
    using do_master_rx_receives [OF dev that(1-4) s1(2), of w] that s1 m dev by (auto simp: i2c_ready_def)
qed

section \<open>The EEPROM\<close>

text \<open>
  A 256-byte EEPROM at address 0x50: the first byte written after its write address sets the
  pointer, further bytes are stored, with the pointer wrapping in its page of eight bytes; read
  bytes come from the pointer on.
\<close>

datatype ee_phase = E_idle | E_addr | E_data | E_read

record eeprom =
  ee_phase :: ee_phase
  ee_ptr :: u8
  ee_mem :: "u8 \<Rightarrow> u8"

fun ee_step :: "wire_ev \<Rightarrow> eeprom \<Rightarrow> eeprom" where
  "ee_step (W_start a) e = e\<lparr>ee_phase := if a = 0xA0 then E_addr else if a = 0xA1 then E_read else E_idle\<rparr>"
| "ee_step (W_byte b) e =
     (case ee_phase e of
        E_addr \<Rightarrow> e\<lparr>ee_ptr := b, ee_phase := E_data\<rparr>
      | E_data \<Rightarrow> e\<lparr>ee_mem := (ee_mem e)(ee_ptr e := b), ee_ptr := (ee_ptr e AND NOT 7) OR ((ee_ptr e + 1) AND 7)\<rparr>
      | _ \<Rightarrow> e)"
| "ee_step (W_read b ack) e = (if ee_phase e = E_read then e\<lparr>ee_ptr := ee_ptr e + 1\<rparr> else e)"
| "ee_step W_stop e = e\<lparr>ee_phase := E_idle\<rparr>"

definition ee_dat :: "eeprom \<Rightarrow> wire_ev list \<Rightarrow> u8" where
  "ee_dat e w = (let e' = fold ee_step w e in ee_mem e' (ee_ptr e'))"

lemma ee_write_messages:
  "ee_mem (fold ee_step (concat (map (\<lambda>k. [W_start 0xA0, W_byte (a + of_nat k), W_byte (ds ! k), W_stop]) [0..<length ds])) e)
    = put_step 1 (ee_mem e) a ds"
proof (induction ds arbitrary: a e)
  case Nil
  then show ?case by simp
next
  case (Cons d ds)
  let ?f = "\<lambda>a ds k. [W_start 0xA0, W_byte (a + of_nat k), W_byte (ds ! k), W_stop]"
  have "[0..<length (d # ds)] = 0 # map Suc [0..<length ds]"
    by (simp add: map_Suc_upt upt_conv_Cons del: upt_Suc)
  then have "concat (map (?f a (d # ds)) [0..<length (d # ds)]) =
      [W_start 0xA0, W_byte a, W_byte d, W_stop] @ concat (map (?f (a + 1) ds) [0..<length ds])"
    by (simp add: add.assoc comp_def del: upt_Suc)
  then show ?case
    using Cons.IH [of "a + 1" "fold ee_step [W_start 0xA0, W_byte a, W_byte d, W_stop] e"]
    by (simp only: fold_append o_apply) (simp del: fun_upd_apply)
qed

lemma ee_reads:
  assumes "ee_phase (fold ee_step w e) = E_read"
  shows "fold ee_step (read_wire dat n w j) e = (fold ee_step w e)\<lparr>ee_ptr := ee_ptr (fold ee_step w e) + of_nat j\<rparr>"
proof (induction j)
  case (Suc j)
  then show ?case using assms by (simp add: Let_def algebra_simps)
qed simp


definition blank_eeprom :: eeprom where
  "blank_eeprom = \<lparr>ee_phase = E_idle, ee_ptr = 0, ee_mem = (\<lambda>_. 0xff)\<rparr>"


end
