(* ===== verification/Spi.thy ===== *)
theory Spi
  imports Soc_Regs
begin

text \<open>
  SPI byte transfers: the bit-banged port of \<^verbatim>\<open>gpio_spi.c\<close> and the controller of
  \<^verbatim>\<open>s3c2440_spi.c\<close>. The interface \<open>spi_master\<close> says what a driver of an SPI device relies on; both
  ports are shown to implement it, the first one down to the edges of the clock.
\<close>

section \<open>Registers of the SPI controller\<close>

definition SPCON0 :: u32 where [sfr]: "SPCON0 = 0x59000000"
definition SPPRE0 :: u32 where [sfr]: "SPPRE0 = 0x5900000C"
definition SPCON1 :: u32 where [sfr]: "SPCON1 = 0x59000020"
definition SPSTA1 :: u32 where [sfr]: "SPSTA1 = 0x59000024"
definition SPPRE1 :: u32 where [sfr]: "SPPRE1 = 0x5900002C"
definition SPTDAT1 :: u32 where [sfr]: "SPTDAT1 = 0x59000030"
definition SPRDAT1 :: u32 where [sfr]: "SPRDAT1 = 0x59000034"

section \<open>The bit-banged port\<close>

definition SPI_GPIO_Init :: "'s bus \<Rightarrow> 's \<Rightarrow> 's" where
  "SPI_GPIO_Init B s =
     (let s = reg_and B GPFCON (NOT (push_bit (1 * 2) 3)) s;
          s = reg_or B GPFCON (push_bit (1 * 2) 1) s;
          s = reg_or B GPFDAT (push_bit 1 1) s;
          s = reg_and B GPGCON (NOT (push_bit (2 * 2) 3 OR push_bit (4 * 2) 3 OR push_bit (5 * 2) 3 OR
                push_bit (6 * 2) 3 OR push_bit (7 * 2) 3)) s;
          s = reg_or B GPGCON (push_bit (2 * 2) 1 OR push_bit (4 * 2) 1 OR push_bit (6 * 2) 1 OR push_bit (7 * 2) 1) s
      in reg_or B GPGDAT (push_bit 2 1) s)"

definition SPI_Set_CLK :: "'s bus \<Rightarrow> bool \<Rightarrow> 's \<Rightarrow> 's" where
  "SPI_Set_CLK B val s =
     (if val then reg_or B GPGDAT (push_bit 7 1) s else reg_and B GPGDAT (NOT (push_bit 7 1)) s)"

definition SPI_Set_DO :: "'s bus \<Rightarrow> bool \<Rightarrow> 's \<Rightarrow> 's" where
  "SPI_Set_DO B val s =
     (if val then reg_or B GPGDAT (push_bit 6 1) s else reg_and B GPGDAT (NOT (push_bit 6 1)) s)"

definition SPI_Get_DI :: "'s bus \<Rightarrow> 's \<Rightarrow> bool \<times> 's" where
  "SPI_Get_DI B s = (let (v, s1) = rd32 B GPGDAT s in (v AND push_bit 5 1 \<noteq> 0, s1))"

text \<open>The loops of the two byte transfers, with \<open>n\<close> rounds to go.\<close>

primrec gpio_send_bits :: "'s bus \<Rightarrow> nat \<Rightarrow> u8 \<Rightarrow> 's \<Rightarrow> 's" where
  "gpio_send_bits B 0 val s = s"
| "gpio_send_bits B (Suc n) val s =
     (let s = SPI_Set_CLK B False s;
          s = SPI_Set_DO B (val AND 0x80 \<noteq> 0) s;
          s = SPI_Set_CLK B True s
      in gpio_send_bits B n (push_bit 1 val) s)"

definition gpio_SPISendByte :: "'s bus \<Rightarrow> u8 \<Rightarrow> 's \<Rightarrow> 's option" where
  "gpio_SPISendByte B val s = Some (gpio_send_bits B 8 val s)"

primrec gpio_recv_bits :: "'s bus \<Rightarrow> nat \<Rightarrow> u8 \<Rightarrow> 's \<Rightarrow> u8 \<times> 's" where
  "gpio_recv_bits B 0 val s = (val, s)"
| "gpio_recv_bits B (Suc n) val s =
     (let val = push_bit 1 val;
          s = SPI_Set_CLK B False s;
          (d, s) = SPI_Get_DI B s;
          val = (if d then val OR 1 else val);
          s = SPI_Set_CLK B True s
      in gpio_recv_bits B n val s)"

definition gpio_SPIRecvByte :: "'s bus \<Rightarrow> 's \<Rightarrow> (u8 \<times> 's) option" where
  "gpio_SPIRecvByte B s = Some (gpio_recv_bits B 8 0 s)"

definition gpio_SPIInit :: "'s bus \<Rightarrow> 's \<Rightarrow> 's" where
  "gpio_SPIInit B s = SPI_GPIO_Init B s"

section \<open>The controller\<close>

definition s3c_SPI_GPIO_Init :: "'s bus \<Rightarrow> 's \<Rightarrow> 's" where
  "s3c_SPI_GPIO_Init B s =
     (let s = reg_and B GPFCON (NOT (push_bit (1 * 2) 3)) s;
          s = reg_or B GPFCON (push_bit (1 * 2) 1) s;
          s = reg_or B GPFDAT (push_bit 1 1) s;
          s = reg_and B GPGCON (NOT (push_bit (2 * 2) 3 OR push_bit (4 * 2) 3 OR push_bit (5 * 2) 3 OR
                push_bit (6 * 2) 3 OR push_bit (7 * 2) 3)) s;
          s = reg_or B GPGCON (push_bit (2 * 2) 1 OR push_bit (4 * 2) 1 OR push_bit (5 * 2) 3 OR push_bit (6 * 2) 3 OR
                push_bit (7 * 2) 3) s
      in reg_or B GPGDAT (push_bit 2 1) s)"

definition s3c_SPISendByte :: "'s bus \<Rightarrow> u8 \<Rightarrow> 's \<Rightarrow> 's option" where
  "s3c_SPISendByte B val s = do {
     (_, s) \<leftarrow> poll (rd32 B SPSTA1) (\<lambda>v. v AND 1 \<noteq> 0) s;
     Some (wr8 B SPTDAT1 val s) }"

definition s3c_SPIRecvByte :: "'s bus \<Rightarrow> 's \<Rightarrow> (u8 \<times> 's) option" where
  "s3c_SPIRecvByte B s =
     (let s = wr8 B SPTDAT1 0xff s
      in do {
           (_, s) \<leftarrow> poll (rd32 B SPSTA1) (\<lambda>v. v AND 1 \<noteq> 0) s;
           Some (rd8 B SPRDAT1 s) })"

definition SPIControllerInit :: "'s bus \<Rightarrow> 's \<Rightarrow> 's" where
  "SPIControllerInit B s =
     (let s = wr32 B SPPRE0 2 s;
          s = wr32 B SPPRE1 2 s;
          s = wr32 B SPCON0 (push_bit 4 1 OR push_bit 3 1) s
      in wr32 B SPCON1 (push_bit 4 1 OR push_bit 3 1) s)"

definition s3c_SPIInit :: "'s bus \<Rightarrow> 's \<Rightarrow> 's" where
  "s3c_SPIInit B s = SPIControllerInit B (s3c_SPI_GPIO_Init B s)"

section \<open>The interface\<close>

text \<open>
  A device on the bus takes a byte and shifts one out at the same time: \<open>out d\<close> is the byte that its
  state \<open>d\<close> puts on the line and \<open>inp b d\<close> its state after the byte \<open>b\<close> was shifted in. \<open>sel\<close> and
  \<open>dsel\<close> are what the falling and the rising edge of its chip select do. \<open>up\<close> and \<open>down\<close> are the states
  of the port with the device deselected and selected.
\<close>

locale spi_master =
  fixes send :: "u8 \<Rightarrow> 's \<Rightarrow> 's option" and recv :: "'s \<Rightarrow> (u8 \<times> 's) option" and cs :: "bool \<Rightarrow> 's \<Rightarrow> 's"
    and dev :: "'s \<Rightarrow> 'd" and up :: "'s \<Rightarrow> bool" and down :: "'s \<Rightarrow> bool"
    and out :: "'d \<Rightarrow> u8" and inp :: "u8 \<Rightarrow> 'd \<Rightarrow> 'd" and sel :: "'d \<Rightarrow> 'd" and dsel :: "'d \<Rightarrow> 'd"
  assumes send_byte: "down s \<Longrightarrow> \<exists>s'. send b s = Some s' \<and> down s' \<and> dev s' = inp b (dev s)"
    and recv_byte: "down s \<Longrightarrow> \<exists>b s'. recv s = Some (out (dev s), s') \<and> down s' \<and> dev s' = inp b (dev s)"
    and cs_low: "up s \<Longrightarrow> down (cs False s) \<and> dev (cs False s) = sel (dev s)"
    and cs_high: "down s \<Longrightarrow> up (cs True s) \<and> dev (cs True s) = dsel (dev s)"

section \<open>A device at the pins\<close>

text \<open>
  The device samples its input at the rising edge of the clock while it is selected, and shifts its
  output byte out most significant bit first. \<open>pin_bits\<close> are the bits of the byte so far.
\<close>

record 'd spi_pins =
  pin_clk :: bool
  pin_mosi :: bool
  pin_csn :: bool
  pin_bits :: "bool list"
  pin_dev :: 'd

definition pin_shift :: "(u8 \<Rightarrow> 'd \<Rightarrow> 'd) \<Rightarrow> bool \<Rightarrow> 'd spi_pins \<Rightarrow> 'd spi_pins" where
  "pin_shift inp b p =
     (let bs = pin_bits p @ [b]
      in if length bs = 8 then p\<lparr>pin_bits := [], pin_dev := inp (byte_of bs) (pin_dev p)\<rparr> else p\<lparr>pin_bits := bs\<rparr>)"

definition gpg_write ::
    "(u8 \<Rightarrow> 'd \<Rightarrow> 'd) \<Rightarrow> ('d \<Rightarrow> 'd) \<Rightarrow> ('d \<Rightarrow> 'd) \<Rightarrow> u32 \<Rightarrow> 'd spi_pins \<Rightarrow> 'd spi_pins" where
  "gpg_write inp sel dsel v p =
     (let clk = bit v 7; mosi = bit v 6; csn = bit v 2;
          p1 = (if pin_csn p \<and> \<not> csn then p\<lparr>pin_dev := sel (pin_dev p), pin_bits := []\<rparr>
                else if \<not> pin_csn p \<and> csn then p\<lparr>pin_dev := dsel (pin_dev p), pin_bits := []\<rparr>
                else if \<not> csn \<and> \<not> pin_clk p \<and> clk then pin_shift inp mosi p
                else p)
      in p1\<lparr>pin_clk := clk, pin_mosi := mosi, pin_csn := csn\<rparr>)"

text \<open>What a load and a store of the port register show of it; the other pins are free.\<close>

definition spi_gpio ::
    "'s bus \<Rightarrow> ('s \<Rightarrow> 'd spi_pins) \<Rightarrow> ('d \<Rightarrow> u8) \<Rightarrow> (u8 \<Rightarrow> 'd \<Rightarrow> 'd) \<Rightarrow> ('d \<Rightarrow> 'd) \<Rightarrow> ('d \<Rightarrow> 'd) \<Rightarrow> bool" where
  "spi_gpio B st out inp sel dsel \<longleftrightarrow>
     (\<forall>v s. st (wr32 B GPGDAT v s) = gpg_write inp sel dsel v (st s)) \<and>
     (\<forall>s. st (snd (rd32 B GPGDAT s)) = st s \<and>
        bit (fst (rd32 B GPGDAT s)) 7 = pin_clk (st s) \<and> bit (fst (rd32 B GPGDAT s)) 6 = pin_mosi (st s) \<and>
        bit (fst (rd32 B GPGDAT s)) 2 = pin_csn (st s) \<and>
        bit (fst (rd32 B GPGDAT s)) 5 = bit (out (pin_dev (st s))) (7 - length (pin_bits (st s))))"

lemma spi_gpio_set:
  assumes "spi_gpio B st out inp sel dsel"
  shows "\<exists>v. bit v 7 = (k = 7 \<or> pin_clk (st s)) \<and> bit v 6 = (k = 6 \<or> pin_mosi (st s)) \<and> bit v 2 = (k = 2 \<or> pin_csn (st s)) \<and>
      st (reg_or B GPGDAT (push_bit k 1) s) = gpg_write inp sel dsel v (st s)"
    and "\<exists>v. bit v 7 = (k \<noteq> 7 \<and> pin_clk (st s)) \<and> bit v 6 = (k \<noteq> 6 \<and> pin_mosi (st s)) \<and> bit v 2 = (k \<noteq> 2 \<and> pin_csn (st s)) \<and>
      st (reg_and B GPGDAT (NOT (push_bit k 1)) s) = gpg_write inp sel dsel v (st s)"
proof -
  obtain v s1 where r: "rd32 B GPGDAT s = (v, s1)" by fastforce
  with assms have v: "st s1 = st s" "bit v 7 = pin_clk (st s)" "bit v 6 = pin_mosi (st s)" "bit v 2 = pin_csn (st s)"
    unfolding spi_gpio_def by (metis fst_conv snd_conv)+
  have w: "st (wr32 B GPGDAT x s1) = gpg_write inp sel dsel x (st s)" for x
    using assms v(1) by (simp add: spi_gpio_def)
  show "\<exists>v. bit v 7 = (k = 7 \<or> pin_clk (st s)) \<and> bit v 6 = (k = 6 \<or> pin_mosi (st s)) \<and> bit v 2 = (k = 2 \<or> pin_csn (st s)) \<and>
      st (reg_or B GPGDAT (push_bit k 1) s) = gpg_write inp sel dsel v (st s)"
    by (rule exI [of _ "v OR push_bit k 1"]) (auto simp: reg_or_def r w v bit_simps simp del: push_bit_of_1)
  show "\<exists>v. bit v 7 = (k \<noteq> 7 \<and> pin_clk (st s)) \<and> bit v 6 = (k \<noteq> 6 \<and> pin_mosi (st s)) \<and> bit v 2 = (k \<noteq> 2 \<and> pin_csn (st s)) \<and>
      st (reg_and B GPGDAT (NOT (push_bit k 1)) s) = gpg_write inp sel dsel v (st s)"
    by (rule exI [of _ "v AND NOT (push_bit k 1)"]) (auto simp: reg_and_def r w v bit_simps simp del: push_bit_of_1)
qed

lemma spi_pins_eqI:
  "pin_clk p = pin_clk q \<Longrightarrow> pin_mosi p = pin_mosi q \<Longrightarrow> pin_csn p = pin_csn q \<Longrightarrow> pin_bits p = pin_bits q \<Longrightarrow>
   pin_dev p = pin_dev q \<Longrightarrow> p = (q :: 'd spi_pins)"
  by simp

lemma pin_shift_simps [simp]:
  "pin_clk (pin_shift inp b p) = pin_clk p" "pin_mosi (pin_shift inp b p) = pin_mosi p" "pin_csn (pin_shift inp b p) = pin_csn p"
  by (simp_all add: pin_shift_def Let_def)

text \<open>Each call changes one pin, and the rising edge of the clock shifts.\<close>

lemma pin_calls:
  assumes B: "spi_gpio B st out inp sel dsel" and cs: "\<not> pin_csn (st s)"
  shows "st (SPI_Set_CLK B False s) = (st s)\<lparr>pin_clk := False\<rparr>"
    and "st (SPI_Set_DO B b s) = (st s)\<lparr>pin_mosi := b\<rparr>"
    and "\<not> pin_clk (st s) \<Longrightarrow> st (SPI_Set_CLK B True s) = (pin_shift inp (pin_mosi (st s)) (st s))\<lparr>pin_clk := True\<rparr>"
    and "fst (SPI_Get_DI B s) = bit (out (pin_dev (st s))) (7 - length (pin_bits (st s)))"
    and "st (snd (SPI_Get_DI B s)) = st s"
proof -
  show "st (SPI_Set_CLK B False s) = (st s)\<lparr>pin_clk := False\<rparr>"
    using spi_gpio_set(2) [OF B, of 7 s] cs by (auto simp: SPI_Set_CLK_def gpg_write_def Let_def intro!: spi_pins_eqI)
  show "st (SPI_Set_DO B b s) = (st s)\<lparr>pin_mosi := b\<rparr>"
    using spi_gpio_set(2) [OF B, of 6 s] spi_gpio_set(1) [OF B, of 6 s] cs
    by (cases b) (auto simp: SPI_Set_DO_def gpg_write_def Let_def intro!: spi_pins_eqI)
  show "st (SPI_Set_CLK B True s) = (pin_shift inp (pin_mosi (st s)) (st s))\<lparr>pin_clk := True\<rparr>" if "\<not> pin_clk (st s)"
    using spi_gpio_set(1) [OF B, of 7 s] cs that
    by (auto simp: SPI_Set_CLK_def gpg_write_def Let_def intro!: spi_pins_eqI)
  show "fst (SPI_Get_DI B s) = bit (out (pin_dev (st s))) (7 - length (pin_bits (st s)))"
    and "st (snd (SPI_Get_DI B s)) = st s"
    using B unfolding SPI_Get_DI_def spi_gpio_def by (auto simp: and_bit_eq_0 case_prod_unfold Let_def simp del: push_bit_of_1)
qed

lemma select_calls:
  assumes B: "spi_gpio B st out inp sel dsel"
  shows "pin_csn (st s) \<Longrightarrow> st (reg_and B GPGDAT (NOT (push_bit 2 1)) s) =
      (st s)\<lparr>pin_csn := False, pin_bits := [], pin_dev := sel (pin_dev (st s))\<rparr>"
    and "\<not> pin_csn (st s) \<Longrightarrow> st (reg_or B GPGDAT (push_bit 2 1) s) =
      (st s)\<lparr>pin_csn := True, pin_bits := [], pin_dev := dsel (pin_dev (st s))\<rparr>"
  using spi_gpio_set(2) [OF B, of 2 s] spi_gpio_set(1) [OF B, of 2 s]
  by (auto simp: gpg_write_def Let_def intro!: spi_pins_eqI)

text \<open>One round of each loop: the device has taken one bit more.\<close>

lemma test_msb: "(val AND 0x80 \<noteq> 0) = bit (val :: u8) 7"
proof -
  have "(0x80 :: u8) = push_bit 7 1" by simp
  then show ?thesis using and_bit_eq_0 [of val 7] by metis
qed

lemma send_bits:
  assumes B: "spi_gpio B st out inp sel dsel" and "\<not> pin_csn (st s)" and "length (pin_bits (st s)) + Suc n = 8"
  shows "\<not> pin_csn (st (gpio_send_bits B (Suc n) val s)) \<and> pin_bits (st (gpio_send_bits B (Suc n) val s)) = [] \<and>
    pin_dev (st (gpio_send_bits B (Suc n) val s)) = inp (byte_of (pin_bits (st s) @ bits_msb (Suc n) val)) (pin_dev (st s))"
  using assms(2,3)
proof (induction n arbitrary: val s)
  case 0
  then show ?case by (simp add: pin_calls [OF B] test_msb pin_shift_def Let_def)
next
  case (Suc n)
  define s1 where "s1 = SPI_Set_CLK B True (SPI_Set_DO B (val AND 0x80 \<noteq> 0) (SPI_Set_CLK B False s))"
  have "st s1 = (pin_shift inp (bit val 7) ((st s)\<lparr>pin_clk := False, pin_mosi := bit val 7\<rparr>))\<lparr>pin_clk := True\<rparr>"
    using Suc.prems by (simp add: s1_def pin_calls [OF B] test_msb)
  then have "pin_csn (st s1) = pin_csn (st s)" "pin_dev (st s1) = pin_dev (st s)" "pin_bits (st s1) = pin_bits (st s) @ [bit val 7]"
    using Suc.prems by (simp_all add: pin_shift_def Let_def)
  moreover have "gpio_send_bits B (Suc (Suc n)) val s = gpio_send_bits B (Suc n) (push_bit 1 val) s1"
    by (simp only: gpio_send_bits.simps(2) [of B "Suc n"] Let_def s1_def)
  moreover have "bits_msb (Suc (Suc n)) val = bit val 7 # bits_msb (Suc n) (push_bit 1 val)"
    by (rule bits_msb.simps(2))
  ultimately show ?case
    using Suc.IH [of s1 "push_bit 1 val"] Suc.prems by (simp only: append_assoc append.simps) simp
qed

lemma recv_round:
  assumes B: "spi_gpio B st out inp sel dsel" and cs: "\<not> pin_csn (st s)" and n: "length (pin_bits (st s)) + Suc n = 8"
    and val: "val = byte_of (take (7 - n) (bits_msb 8 (out (pin_dev (st s)))))"
  shows "\<exists>s1. gpio_recv_bits B (Suc n) val s =
      gpio_recv_bits B n (byte_of (take (8 - n) (bits_msb 8 (out (pin_dev (st s)))))) s1 \<and>
    st s1 = (pin_shift inp (pin_mosi (st s)) ((st s)\<lparr>pin_clk := False\<rparr>))\<lparr>pin_clk := True\<rparr>"
proof -
  define s0 where "s0 = SPI_Set_CLK B False s"
  have s0: "st s0 = (st s)\<lparr>pin_clk := False\<rparr>" using cs by (simp add: s0_def pin_calls [OF B])
  obtain b s1 where di: "SPI_Get_DI B s0 = (b, s1)" by fastforce
  have len: "7 - length (pin_bits (st s)) = n" using n by simp
  have b: "b = bit (out (pin_dev (st s))) n" and s1: "st s1 = st s0"
    using pin_calls(4,5) [OF B, of s0] cs di s0 len by simp_all
  have "bits_msb 8 (out (pin_dev (st s))) ! (7 - n) = bit (out (pin_dev (st s))) n"
    using n by (subst bits_msb_nth) auto
  moreover have "take (8 - n) xs = take (7 - n) xs @ [xs ! (7 - n)]" if "length xs = 8" for xs :: "bool list"
  proof -
    have "8 - n = Suc (7 - n)" using n by simp
    then show ?thesis using take_Suc_conv_app_nth [of "7 - n" xs] that by simp
  qed
  ultimately have "byte_of (take (8 - n) (bits_msb 8 (out (pin_dev (st s))))) = (if b then push_bit 1 val OR 1 else push_bit 1 val)"
    unfolding val b by (simp only: length_bits_msb byte_of_snoc)
  moreover have "gpio_recv_bits B (Suc n) val s = gpio_recv_bits B n (if b then push_bit 1 val OR 1 else push_bit 1 val) (SPI_Set_CLK B True s1)"
    by (simp only: gpio_recv_bits.simps(2) Let_def s0_def [symmetric] di prod.case)
  moreover have "st (SPI_Set_CLK B True s1) = (pin_shift inp (pin_mosi (st s)) ((st s)\<lparr>pin_clk := False\<rparr>))\<lparr>pin_clk := True\<rparr>"
    using cs s0 s1 by (subst pin_calls(3) [OF B]) simp_all
  ultimately show ?thesis by metis
qed

lemma recv_bits:
  assumes B: "spi_gpio B st out inp sel dsel" and "\<not> pin_csn (st s)" and "length (pin_bits (st s)) + Suc n = 8"
    and "d = pin_dev (st s)" and "val = byte_of (take (7 - n) (bits_msb 8 (out d)))"
  shows "\<exists>b s'. gpio_recv_bits B (Suc n) val s = (out d, s') \<and> \<not> pin_csn (st s') \<and> pin_bits (st s') = [] \<and>
    pin_dev (st s') = inp b d"
  using assms(2-)
proof (induction n arbitrary: val s)
  case 0
  obtain s1 where s1: "gpio_recv_bits B (Suc 0) val s = gpio_recv_bits B 0 (byte_of (take (8 - 0) (bits_msb 8 (out d)))) s1"
    "st s1 = (pin_shift inp (pin_mosi (st s)) ((st s)\<lparr>pin_clk := False\<rparr>))\<lparr>pin_clk := True\<rparr>"
    using recv_round [OF B 0(1,2)] 0 by blast
  moreover have "take (8 - 0) (bits_msb 8 (out d)) = bits_msb 8 (out d)" by (rule take_all) simp
  ultimately have "gpio_recv_bits B (Suc 0) val s = (out d, s1)" by (simp only: byte_of_bits_msb gpio_recv_bits.simps(1))
  with s1(2) 0 show ?case by (simp add: pin_shift_def Let_def) blast
next
  case (Suc n)
  obtain s1 where s1: "gpio_recv_bits B (Suc (Suc n)) val s = gpio_recv_bits B (Suc n) (byte_of (take (8 - Suc n) (bits_msb 8 (out d)))) s1"
    "st s1 = (pin_shift inp (pin_mosi (st s)) ((st s)\<lparr>pin_clk := False\<rparr>))\<lparr>pin_clk := True\<rparr>"
    using recv_round [OF B Suc.prems(1,2)] Suc.prems by blast
  have "8 - Suc n = 7 - n" by simp
  moreover have "\<not> pin_csn (st s1)" "length (pin_bits (st s1)) + Suc n = 8" "d = pin_dev (st s1)"
    using Suc.prems s1(2) by (simp_all add: pin_shift_def Let_def)
  ultimately show ?case
    using Suc.IH [of s1 "byte_of (take (8 - Suc n) (bits_msb 8 (out d)))"] s1(1) by metis
qed

section \<open>The ports implement the interface\<close>

definition gpio_up ::
    "'s bus \<Rightarrow> ('s \<Rightarrow> 'd spi_pins) \<Rightarrow> ('d \<Rightarrow> u8) \<Rightarrow> (u8 \<Rightarrow> 'd \<Rightarrow> 'd) \<Rightarrow> ('d \<Rightarrow> 'd) \<Rightarrow> ('d \<Rightarrow> 'd) \<Rightarrow> 's \<Rightarrow> bool" where
  "gpio_up B st out inp sel dsel s \<longleftrightarrow> spi_gpio B st out inp sel dsel \<and> pin_csn (st s)"

definition gpio_down ::
    "'s bus \<Rightarrow> ('s \<Rightarrow> 'd spi_pins) \<Rightarrow> ('d \<Rightarrow> u8) \<Rightarrow> (u8 \<Rightarrow> 'd \<Rightarrow> 'd) \<Rightarrow> ('d \<Rightarrow> 'd) \<Rightarrow> ('d \<Rightarrow> 'd) \<Rightarrow> 's \<Rightarrow> bool" where
  "gpio_down B st out inp sel dsel s \<longleftrightarrow>
     spi_gpio B st out inp sel dsel \<and> \<not> pin_csn (st s) \<and> pin_bits (st s) = []"

text \<open>The chip select of the flash, \<^verbatim>\<open>SPIFlash_Set_CS\<close>.\<close>

definition SPIFlash_Set_CS :: "'s bus \<Rightarrow> bool \<Rightarrow> 's \<Rightarrow> 's" where
  "SPIFlash_Set_CS B val s =
     (if val then reg_or B GPGDAT (push_bit 2 1) s else reg_and B GPGDAT (NOT (push_bit 2 1)) s)"

interpretation gpio_spi: spi_master "gpio_SPISendByte B" "gpio_SPIRecvByte B" "SPIFlash_Set_CS B" "\<lambda>s. pin_dev (st s)"
  "gpio_up B st out inp sel dsel" "gpio_down B st out inp sel dsel" out inp sel dsel for B st out inp sel dsel
proof unfold_locales
  fix s b
  have eight: "Suc 7 = (8 :: nat)" by simp
  show "\<exists>s'. gpio_SPISendByte B b s = Some s' \<and> gpio_down B st out inp sel dsel s' \<and> pin_dev (st s') = inp b (pin_dev (st s))"
    if "gpio_down B st out inp sel dsel s"
    using send_bits [of B st out inp sel dsel s 7 b, unfolded eight] that
    by (auto simp: gpio_down_def gpio_SPISendByte_def byte_of_bits_msb)
  show "\<exists>b s'. gpio_SPIRecvByte B s = Some (out (pin_dev (st s)), s') \<and> gpio_down B st out inp sel dsel s' \<and>
      pin_dev (st s') = inp b (pin_dev (st s))"
    if "gpio_down B st out inp sel dsel s"
    using recv_bits [of B st out inp sel dsel s 7 "pin_dev (st s)" 0, unfolded eight] that
    by (auto simp: gpio_down_def gpio_SPIRecvByte_def byte_of_def)
  show "gpio_down B st out inp sel dsel (SPIFlash_Set_CS B False s) \<and> pin_dev (st (SPIFlash_Set_CS B False s)) = sel (pin_dev (st s))"
    if "gpio_up B st out inp sel dsel s"
    using select_calls(1) [of B st out inp sel dsel s] that by (auto simp: gpio_up_def gpio_down_def SPIFlash_Set_CS_def simp del: push_bit_of_1)
  show "gpio_up B st out inp sel dsel (SPIFlash_Set_CS B True s) \<and> pin_dev (st (SPIFlash_Set_CS B True s)) = dsel (pin_dev (st s))"
    if "gpio_down B st out inp sel dsel s"
    using select_calls(2) [of B st out inp sel dsel s] that by (auto simp: gpio_up_def gpio_down_def SPIFlash_Set_CS_def simp del: push_bit_of_1)
qed

text \<open>
  The controller. \<^verbatim>\<open>SPIRecvByte\<close> writes its dummy byte, and \<^verbatim>\<open>SPIFlash_Set_CS\<close> raises the chip select,
  without waiting for the end of a transfer in progress; they rely on the byte being exchanged by
  the time of the next access, which is what the contract says of a store to \<^verbatim>\<open>SPTDAT1\<close>.
\<close>

record 'd spi_ctl_state =
  ctl_csn :: bool
  ctl_rx :: u8
  ctl_dev :: 'd

definition spi_ctl ::
    "'s bus \<Rightarrow> ('s \<Rightarrow> 'd spi_ctl_state) \<Rightarrow> ('d \<Rightarrow> u8) \<Rightarrow> (u8 \<Rightarrow> 'd \<Rightarrow> 'd) \<Rightarrow> ('d \<Rightarrow> 'd) \<Rightarrow> ('d \<Rightarrow> 'd) \<Rightarrow> bool" where
  "spi_ctl B st out inp sel dsel \<longleftrightarrow>
     (\<forall>v s. st (wr8 B SPTDAT1 v s) =
        (if ctl_csn (st s) then st s
         else (st s)\<lparr>ctl_rx := out (ctl_dev (st s)), ctl_dev := inp v (ctl_dev (st s))\<rparr>)) \<and>
     (\<forall>s. st (snd (rd32 B SPSTA1 s)) = st s) \<and>
     (\<forall>s. \<exists>n. fst (rd32 B SPSTA1 (((\<lambda>s. snd (rd32 B SPSTA1 s)) ^^ n) s)) AND 1 \<noteq> 0) \<and>
     (\<forall>s. fst (rd8 B SPRDAT1 s) = ctl_rx (st s) \<and> st (snd (rd8 B SPRDAT1 s)) = st s) \<and>
     (\<forall>s. st (snd (rd32 B GPGDAT s)) = st s \<and> bit (fst (rd32 B GPGDAT s)) 2 = ctl_csn (st s)) \<and>
     (\<forall>v s. st (wr32 B GPGDAT v s) = (st s)\<lparr>ctl_csn := bit v 2,
        ctl_dev := (if ctl_csn (st s) \<and> \<not> bit v 2 then sel (ctl_dev (st s))
                    else if \<not> ctl_csn (st s) \<and> bit v 2 then dsel (ctl_dev (st s)) else ctl_dev (st s))\<rparr>)"

lemma spi_ctl_ready:
  assumes "spi_ctl B st out inp sel dsel"
  shows "\<exists>v s'. poll (rd32 B SPSTA1) (\<lambda>v. v AND 1 \<noteq> 0) s = Some (v, s') \<and> st s' = st s"
proof -
  from assms obtain n where n: "fst (rd32 B SPSTA1 (((\<lambda>s. snd (rd32 B SPSTA1 s)) ^^ n) s)) AND 1 \<noteq> 0"
    unfolding spi_ctl_def by blast
  then obtain v s' where p: "poll (rd32 B SPSTA1) (\<lambda>v. v AND 1 \<noteq> 0) s = Some (v, s')"
    using poll_returns [of "\<lambda>v. v AND 1 \<noteq> 0" "rd32 B SPSTA1", OF n] by blast
  moreover have "st s' = st s"
    by (rule poll_frame [OF p, where f = st]) (use assms in \<open>simp add: spi_ctl_def\<close>)
  ultimately show ?thesis by blast
qed

definition ctl_up ::
    "'s bus \<Rightarrow> ('s \<Rightarrow> 'd spi_ctl_state) \<Rightarrow> ('d \<Rightarrow> u8) \<Rightarrow> (u8 \<Rightarrow> 'd \<Rightarrow> 'd) \<Rightarrow> ('d \<Rightarrow> 'd) \<Rightarrow> ('d \<Rightarrow> 'd) \<Rightarrow> bool \<Rightarrow> 's \<Rightarrow> bool" where
  "ctl_up B st out inp sel dsel u s \<longleftrightarrow> spi_ctl B st out inp sel dsel \<and> ctl_csn (st s) = u"

interpretation ctl_spi: spi_master "s3c_SPISendByte B" "s3c_SPIRecvByte B" "SPIFlash_Set_CS B" "\<lambda>s. ctl_dev (st s)"
  "ctl_up B st out inp sel dsel True" "ctl_up B st out inp sel dsel False" out inp sel dsel for B st out inp sel dsel
proof unfold_locales
  fix s b
  show "\<exists>s'. s3c_SPISendByte B b s = Some s' \<and> ctl_up B st out inp sel dsel False s' \<and> ctl_dev (st s') = inp b (ctl_dev (st s))"
    if "ctl_up B st out inp sel dsel False s"
  proof -
    have dev: "spi_ctl B st out inp sel dsel" and c: "\<not> ctl_csn (st s)" using that by (simp_all add: ctl_up_def)
    obtain v s1 where "poll (rd32 B SPSTA1) (\<lambda>v. v AND 1 \<noteq> 0) s = Some (v, s1)" "st s1 = st s"
      using spi_ctl_ready [OF dev] by blast
    then show ?thesis using dev c by (auto simp: s3c_SPISendByte_def ctl_up_def spi_ctl_def)
  qed
  show "\<exists>b s'. s3c_SPIRecvByte B s = Some (out (ctl_dev (st s)), s') \<and> ctl_up B st out inp sel dsel False s' \<and>
      ctl_dev (st s') = inp b (ctl_dev (st s))"
    if "ctl_up B st out inp sel dsel False s"
  proof -
    have dev: "spi_ctl B st out inp sel dsel" and c: "\<not> ctl_csn (st s)" using that by (simp_all add: ctl_up_def)
    obtain v s1 where p: "poll (rd32 B SPSTA1) (\<lambda>v. v AND 1 \<noteq> 0) (wr8 B SPTDAT1 0xff s) = Some (v, s1)"
      "st s1 = st (wr8 B SPTDAT1 0xff s)"
      using spi_ctl_ready [OF dev] by blast
    obtain r s2 where "rd8 B SPRDAT1 s1 = (r, s2)" by fastforce
    moreover from this dev have "r = ctl_rx (st s1)" "st s2 = st s1"
      unfolding spi_ctl_def by (metis fst_conv, metis snd_conv)
    ultimately show ?thesis using dev c p by (auto simp: s3c_SPIRecvByte_def ctl_up_def spi_ctl_def)
  qed
  show "ctl_up B st out inp sel dsel False (SPIFlash_Set_CS B False s) \<and> ctl_dev (st (SPIFlash_Set_CS B False s)) = sel (ctl_dev (st s))"
    if "ctl_up B st out inp sel dsel True s"
    using that by (auto simp: ctl_up_def spi_ctl_def SPIFlash_Set_CS_def reg_and_def case_prod_unfold Let_def bit_simps simp del: push_bit_of_1)
  show "ctl_up B st out inp sel dsel True (SPIFlash_Set_CS B True s) \<and> ctl_dev (st (SPIFlash_Set_CS B True s)) = dsel (ctl_dev (st s))"
    if "ctl_up B st out inp sel dsel False s"
    using that by (auto simp: ctl_up_def spi_ctl_def SPIFlash_Set_CS_def reg_or_def case_prod_unfold Let_def bit_simps simp del: push_bit_of_1)
qed

end
