(* ===== verification/Spi_Flash.thy ===== *)
theory Spi_Flash
  imports Spi
begin

text \<open>
  The SPI flash driver of \<^verbatim>\<open>spi_flash.c\<close>, over any port that implements \<open>spi_master\<close>. \<open>flash_chip\<close> is
  the chip of the board with the commands the driver uses; removing the protection, erasing,
  programming and reading back are shown to compose.
\<close>

section \<open>The driver\<close>

text \<open>The functions of the port that the driver calls: the two byte transfers and the chip select.\<close>

record 's spi_port =
  SPISendByte :: "u8 \<Rightarrow> 's \<Rightarrow> 's option"
  SPIRecvByte :: "'s \<Rightarrow> (u8 \<times> 's) option"
  Set_CS :: "bool \<Rightarrow> 's \<Rightarrow> 's"

definition SPIFlashSendAddr :: "'s spi_port \<Rightarrow> u32 \<Rightarrow> 's \<Rightarrow> 's option" where
  "SPIFlashSendAddr P addr s = do {
     s \<leftarrow> SPISendByte P (ucast (drop_bit 16 addr)) s;
     s \<leftarrow> SPISendByte P (ucast (drop_bit 8 addr)) s;
     SPISendByte P (ucast (addr AND 0xff)) s }"

definition SPIFlashReadID :: "'s spi_port \<Rightarrow> 's \<Rightarrow> (u8 \<times> u8 \<times> 's) option" where
  "SPIFlashReadID P s = do {
     let s = Set_CS P False s;
     s \<leftarrow> SPISendByte P 0x90 s;
     s \<leftarrow> SPIFlashSendAddr P 0 s;
     (mid, s) \<leftarrow> SPIRecvByte P s;
     (did, s) \<leftarrow> SPIRecvByte P s;
     Some (mid, did, Set_CS P True s) }"

definition SPIFlashWriteEnable :: "'s spi_port \<Rightarrow> bool \<Rightarrow> 's \<Rightarrow> 's option" where
  "SPIFlashWriteEnable P enable s =
     (if enable
      then do { let s = Set_CS P False s; s \<leftarrow> SPISendByte P 0x06 s; Some (Set_CS P True s) }
      else do { let s = Set_CS P False s; s \<leftarrow> SPISendByte P 0x04 s; Some (Set_CS P True s) })"

definition SPIFlashReadStatusReg1 :: "'s spi_port \<Rightarrow> 's \<Rightarrow> (u8 \<times> 's) option" where
  "SPIFlashReadStatusReg1 P s = do {
     let s = Set_CS P False s;
     s \<leftarrow> SPISendByte P 0x05 s;
     (val, s) \<leftarrow> SPIRecvByte P s;
     Some (val, Set_CS P True s) }"

definition SPIFlashReadStatusReg2 :: "'s spi_port \<Rightarrow> 's \<Rightarrow> (u8 \<times> 's) option" where
  "SPIFlashReadStatusReg2 P s = do {
     let s = Set_CS P False s;
     s \<leftarrow> SPISendByte P 0x35 s;
     (val, s) \<leftarrow> SPIRecvByte P s;
     Some (val, Set_CS P True s) }"

partial_function (option) SPIFlashWaitWhenBusy :: "'s spi_port \<Rightarrow> 's \<Rightarrow> 's option" where
  [code]: "SPIFlashWaitWhenBusy P s = do {
     (v, s) \<leftarrow> SPIFlashReadStatusReg1 P s;
     (if v AND 1 \<noteq> 0 then SPIFlashWaitWhenBusy P s else Some s) }"

definition SPIFlashWriteStatusReg :: "'s spi_port \<Rightarrow> u8 \<Rightarrow> u8 \<Rightarrow> 's \<Rightarrow> 's option" where
  "SPIFlashWriteStatusReg P reg1 reg2 s = do {
     s \<leftarrow> SPIFlashWriteEnable P True s;
     let s = Set_CS P False s;
     s \<leftarrow> SPISendByte P 0x01 s;
     s \<leftarrow> SPISendByte P reg1 s;
     s \<leftarrow> SPISendByte P reg2 s;
     SPIFlashWaitWhenBusy P (Set_CS P True s) }"

definition SPIFlashClearProtectForStatusReg :: "'s spi_port \<Rightarrow> 's \<Rightarrow> 's option" where
  "SPIFlashClearProtectForStatusReg P s = do {
     (reg1, s) \<leftarrow> SPIFlashReadStatusReg1 P s;
     (reg2, s) \<leftarrow> SPIFlashReadStatusReg2 P s;
     SPIFlashWriteStatusReg P (reg1 AND NOT (push_bit 7 1)) (reg2 AND NOT (push_bit 0 1)) s }"

definition SPIFlashClearProtectForData :: "'s spi_port \<Rightarrow> 's \<Rightarrow> 's option" where
  "SPIFlashClearProtectForData P s = do {
     (reg1, s) \<leftarrow> SPIFlashReadStatusReg1 P s;
     (reg2, s) \<leftarrow> SPIFlashReadStatusReg2 P s;
     SPIFlashWriteStatusReg P (reg1 AND NOT (push_bit 2 7)) (reg2 AND NOT (push_bit 6 1)) s }"

definition SPIFlashEraseSector :: "'s spi_port \<Rightarrow> u32 \<Rightarrow> 's \<Rightarrow> 's option" where
  "SPIFlashEraseSector P addr s = do {
     s \<leftarrow> SPIFlashWriteEnable P True s;
     let s = Set_CS P False s;
     s \<leftarrow> SPISendByte P 0x20 s;
     s \<leftarrow> SPIFlashSendAddr P addr s;
     SPIFlashWaitWhenBusy P (Set_CS P True s) }"

text \<open>The loops over the bytes of the buffer.\<close>

fun spi_send_list :: "'s spi_port \<Rightarrow> u8 list \<Rightarrow> 's \<Rightarrow> 's option" where
  "spi_send_list P [] s = Some s"
| "spi_send_list P (b # bs) s = do { s \<leftarrow> SPISendByte P b s; spi_send_list P bs s }"

primrec spi_recv_list :: "'s spi_port \<Rightarrow> nat \<Rightarrow> 's \<Rightarrow> (u8 list \<times> 's) option" where
  "spi_recv_list P 0 s = Some ([], s)"
| "spi_recv_list P (Suc n) s = do {
     (b, s) \<leftarrow> SPIRecvByte P s;
     (bs, s) \<leftarrow> spi_recv_list P n s;
     Some (b # bs, s) }"

definition SPIFlashProgram :: "'s spi_port \<Rightarrow> u32 \<Rightarrow> u8 list \<Rightarrow> 's \<Rightarrow> 's option" where
  "SPIFlashProgram P addr buf s = do {
     s \<leftarrow> SPIFlashWriteEnable P True s;
     let s = Set_CS P False s;
     s \<leftarrow> SPISendByte P 0x02 s;
     s \<leftarrow> SPIFlashSendAddr P addr s;
     s \<leftarrow> spi_send_list P buf s;
     SPIFlashWaitWhenBusy P (Set_CS P True s) }"

definition SPIFlashRead :: "'s spi_port \<Rightarrow> u32 \<Rightarrow> nat \<Rightarrow> 's \<Rightarrow> (u8 list \<times> 's) option" where
  "SPIFlashRead P addr len s = do {
     let s = Set_CS P False s;
     s \<leftarrow> SPISendByte P 0x03 s;
     s \<leftarrow> SPIFlashSendAddr P addr s;
     (buf, s) \<leftarrow> spi_recv_list P len s;
     Some (buf, Set_CS P True s) }"

definition SPIFlashInit :: "'s spi_port \<Rightarrow> 's \<Rightarrow> 's option" where
  "SPIFlashInit P s = do {
     s \<leftarrow> SPIFlashClearProtectForStatusReg P s;
     SPIFlashClearProtectForData P s }"

section \<open>The chip\<close>

text \<open>
  \<open>fc_in\<close> are the bytes of the command that is being sent; it is executed when the chip is
  deselected. While the chip is busy, for \<open>fc_busy\<close> more loads of its status, it takes no other
  command. Every erase, program and status command takes \<open>fc_delay\<close> such loads.
\<close>

record flash_chip =
  fc_in :: "u8 list"
  fc_wel :: bool
  fc_sr1 :: u8
  fc_sr2 :: u8
  fc_busy :: nat
  fc_delay :: nat
  fc_mem :: "u32 \<Rightarrow> u8"

definition addr24 :: "u8 \<Rightarrow> u8 \<Rightarrow> u8 \<Rightarrow> u32" where
  "addr24 a b c = push_bit 16 (ucast a) OR push_bit 8 (ucast b) OR ucast c"

definition flash_status :: "flash_chip \<Rightarrow> u8" where
  "flash_status d = (fc_sr1 d AND 0xFC) OR (if fc_wel d then 2 else 0) OR (if 0 < fc_busy d then 1 else 0)"

fun flash_out :: "flash_chip \<Rightarrow> u8" where
  "flash_out d =
     (case fc_in d of
        [] \<Rightarrow> 0xff
      | c # args \<Rightarrow>
          (if c = 0x05 then flash_status d
           else if c = 0x35 then fc_sr2 d
           else case args of
                  x # y # z # rest \<Rightarrow>
                    (if c = 0x03 then fc_mem d (addr24 x y z + of_nat (length rest))
                     else if c = 0x90 then (if even (length rest) then 0xef else 0x14) else 0xff)
                | _ \<Rightarrow> 0xff))"

definition flash_inp :: "u8 \<Rightarrow> flash_chip \<Rightarrow> flash_chip" where
  "flash_inp b d = d\<lparr>fc_in := fc_in d @ [b]\<rparr>"

definition flash_sel :: "flash_chip \<Rightarrow> flash_chip" where
  "flash_sel d = d\<lparr>fc_in := []\<rparr>"

text \<open>The block protection bits of the two status registers.\<close>

definition flash_protected :: "flash_chip \<Rightarrow> bool" where
  "flash_protected d \<longleftrightarrow> fc_sr1 d AND 0x1C \<noteq> 0 \<or> fc_sr2 d AND 0x40 \<noteq> 0"

text \<open>Programming clears bits, and the address stays in its page of 256 bytes.\<close>

fun flash_program :: "u32 \<Rightarrow> u8 list \<Rightarrow> (u32 \<Rightarrow> u8) \<Rightarrow> u32 \<Rightarrow> u8" where
  "flash_program a [] m = m"
| "flash_program a (b # bs) m =
     flash_program ((a AND NOT 0xff) OR ((a + 1) AND 0xff)) bs (m(a := m a AND b))"

definition flash_done :: "flash_chip \<Rightarrow> flash_chip" where
  "flash_done d = d\<lparr>fc_in := [], fc_wel := False, fc_busy := fc_delay d\<rparr>"

fun flash_exec :: "u8 list \<Rightarrow> flash_chip \<Rightarrow> flash_chip" where
  "flash_exec [] d = d"
| "flash_exec (c # args) d =
     (if 0 < fc_busy d then (if c = 0x05 then d\<lparr>fc_busy := fc_busy d - 1\<rparr> else d)
      else if c = 0x06 then d\<lparr>fc_wel := True\<rparr>
      else if c = 0x04 then d\<lparr>fc_wel := False\<rparr>
      else if \<not> fc_wel d then d
      else if c = 0x01 then
        (case args of [r1, r2] \<Rightarrow> flash_done (d\<lparr>fc_sr1 := r1, fc_sr2 := r2\<rparr>) | _ \<Rightarrow> d)
      else if c = 0x20 \<and> \<not> flash_protected d then
        (case args of
           [x, y, z] \<Rightarrow> flash_done (d\<lparr>fc_mem := (\<lambda>a. if a div 4096 = addr24 x y z div 4096 then 0xff else fc_mem d a)\<rparr>)
         | _ \<Rightarrow> d)
      else if c = 0x02 \<and> \<not> flash_protected d then
        (case args of x # y # z # bs \<Rightarrow> flash_done (d\<lparr>fc_mem := flash_program (addr24 x y z) bs (fc_mem d)\<rparr>) | _ \<Rightarrow> d)
      else d)"

declare flash_exec.simps(2) [simp del] flash_out.simps [simp del]

definition flash_dsel :: "flash_chip \<Rightarrow> flash_chip" where
  "flash_dsel d = (flash_exec (fc_in d) d)\<lparr>fc_in := []\<rparr>"

lemma SPIFlashSendAddr_list:
  "SPIFlashSendAddr P addr s = spi_send_list P [ucast (drop_bit 16 addr), ucast (drop_bit 8 addr), ucast (addr AND 0xff)] s"
  by (simp add: SPIFlashSendAddr_def Option.bind_assoc cong: Option.bind_cong)

lemma addr24_bytes:
  assumes "unat addr < 2 ^ 24"
  shows "addr24 (ucast (drop_bit 16 addr)) (ucast (drop_bit 8 addr)) (ucast (addr AND 0xff)) = addr"
proof -
  have m: "(0xff :: u32) = mask 8" by (simp add: mask_eq_exp_minus_1)
  have high: "\<not> bit addr n" if "24 \<le> n" for n using bit_above [OF assms that] .
  show ?thesis unfolding addr24_def m
  proof (rule bit_word_eqI)
    fix n assume n: "n < LENGTH(32)"
    show "bit (push_bit 16 (ucast (ucast (drop_bit 16 addr) :: u8)) OR push_bit 8 (ucast (ucast (drop_bit 8 addr) :: u8)) OR
        ucast (ucast (addr AND mask 8) :: u8) :: u32) n = bit addr n"
      using n high [of n] by (cases "n < 8"; cases "n < 16"; cases "n < 24") (auto simp: bit_simps)
  qed
qed

lemma page_Suc:
  assumes "unat a mod 256 < 255"
  shows "unat (a + 1 :: u32) = Suc (unat a)"
proof -
  have "Suc (unat a) < 2 ^ 32"
  proof (rule ccontr)
    assume "\<not> Suc (unat a) < 2 ^ 32"
    then have "unat a = 2 ^ 32 - 1" using unat_less [of a] by simp
    with assms show False by simp
  qed
  then show ?thesis by (simp add: unat_plus_one)
qed

lemma page_next:
  assumes "unat a mod 256 < 255"
  shows "(a AND NOT 0xff) OR ((a + 1) AND 0xff) = (a + 1 :: u32)"
proof -
  have m: "(0xff :: u32) = mask 8" by (simp add: mask_eq_exp_minus_1)
  have high: "x AND NOT (mask 8) = push_bit 8 (drop_bit 8 x)" for x :: u32
    by (rule bit_word_eqI) (auto simp: bit_simps)
  have "Suc (unat a) mod 256 \<noteq> 0" using assms by (auto simp: mod_Suc)
  then have q: "Suc (unat a) div 256 = unat a div 256" by (simp add: div_Suc)
  then have "unat (drop_bit 8 (a + 1)) = unat (drop_bit 8 a)" by (simp add: unat_shift_right page_Suc [OF assms])
  then have "drop_bit 8 (a + 1) = drop_bit 8 a" by (simp only: word_unat_eq_iff)
  then have "a AND NOT (mask 8) = (a + 1) AND NOT (mask 8)" unfolding high by simp
  moreover have "(w AND NOT (mask 8)) OR (w AND mask 8) = w" for w :: u32
    by (rule bit_word_eqI) (auto simp: bit_simps)
  ultimately show ?thesis unfolding m by simp
qed

text \<open>Inside a page, blank memory takes the bytes as they are.\<close>

lemma flash_program_blank:
  assumes "unat a mod 256 + length bs \<le> 256" "\<And>k. k < length bs \<Longrightarrow> m (a + of_nat k) = 0xff"
  shows "flash_program a bs m = put_step 1 m a bs"
  using assms
proof (induction bs arbitrary: a m)
  case (Cons b bs)
  have ff: "0xff AND b = b"
  proof -
    have m8: "(0xff :: u8) = mask 8" by (simp add: mask_eq_exp_minus_1)
    show ?thesis unfolding m8 by (rule bit_word_eqI) (auto simp: bit_simps)
  qed
  have ma: "m a AND b = b" using Cons.prems(2) [of 0] ff by simp
  show ?case
  proof (cases bs)
    case Nil
    then show ?thesis by (simp add: ma)
  next
    case (Cons c cs)
    then have low: "unat a mod 256 < 255" using Cons.prems(1) by simp
    have "unat (a + 1) mod 256 = unat a mod 256 + 1"
      using low by (simp add: page_Suc mod_Suc)
    then have "flash_program (a + 1) bs (m(a := b)) = put_step 1 (m(a := b)) (a + 1) bs"
    proof (intro Cons.IH)
      fix k assume k: "k < length bs"
      then have "Suc k < 2 ^ 32" using Cons.prems(1) by simp
      then have "unat (1 + of_nat k :: u32) = Suc k" using unat_of_nat32 [of "Suc k"] by simp
      then have "(1 + of_nat k :: u32) \<noteq> 0" by auto
      then show "(m(a := b)) (a + 1 + of_nat k) = 0xff"
        using Cons.prems(2) [of "Suc k"] k by (simp add: add.assoc)
    qed (use Cons.prems(1) in simp)
    then show ?thesis by (simp only: flash_program.simps put_step.simps page_next [OF low] ma)
  qed
qed simp

lemma page_in_sector:
  assumes "unat a mod 256 + k < 256" "unat a < 2 ^ 24"
  shows "(a + of_nat k) div 4096 = (a :: u32) div 4096"
proof -
  define q where "q = unat a div 256"
  define r where "r = unat a mod 256"
  have a: "unat a = q * 256 + r" by (simp add: q_def r_def)
  have rk: "r + k < 256" using assms(1) by (simp add: r_def)
  have "a + of_nat k = of_nat (unat a + k)" by simp
  then have u: "unat (a + of_nat k) = unat a + k"
    using assms unat_of_nat32 [of "unat a + k"] by (simp del: of_nat_add)
  have "(x + j * 256) div 256 = j" if "x < 256" for x j :: nat using that by simp
  then have "(r + k + q * 256) div 256 = q" "(r + q * 256) div 256 = q" using rk by auto
  then have "(unat a + k) div 256 = unat a div 256" unfolding a by (simp add: ac_simps)
  then have "(unat a + k) div (256 * 16) = unat a div (256 * 16)" by (simp only: div_mult2_eq)
  then show ?thesis by (simp add: word_unat_eq_iff unat_div u)
qed

section \<open>The driver on a port with the chip\<close>

locale flash_port =
  spi_master "SPISendByte P" "SPIRecvByte P" "Set_CS P" dev up down flash_out flash_inp flash_sel flash_dsel
  for P :: "'s spi_port" and dev up down
begin

lemma send_list:
  assumes "down s"
  shows "\<exists>s'. spi_send_list P bs s = Some s' \<and> down s' \<and> dev s' = (dev s)\<lparr>fc_in := fc_in (dev s) @ bs\<rparr>"
  using assms
proof (induction bs arbitrary: s)
  case (Cons b bs)
  obtain s1 where s1: "SPISendByte P b s = Some s1" "down s1" "dev s1 = flash_inp b (dev s)"
    using send_byte [OF Cons.prems] by blast
  then show ?case using Cons.IH [OF s1(2)] by (simp add: flash_inp_def)
qed simp

text \<open>A command without an answer.\<close>

lemma command:
  assumes "up s"
  shows "\<exists>s'. spi_send_list P bs (Set_CS P False s) = Some s' \<and> up (Set_CS P True s') \<and>
    dev (Set_CS P True s') = (flash_exec bs ((dev s)\<lparr>fc_in := bs\<rparr>))\<lparr>fc_in := []\<rparr>"
proof -
  have "down (Set_CS P False s)" "dev (Set_CS P False s) = (dev s)\<lparr>fc_in := []\<rparr>"
    using cs_low [OF assms] by (simp_all add: flash_sel_def)
  then obtain s' where "spi_send_list P bs (Set_CS P False s) = Some s'" "down s'" "dev s' = (dev s)\<lparr>fc_in := bs\<rparr>"
    using send_list [of "Set_CS P False s" bs] by auto
  then show ?thesis using cs_high [of s'] by (auto simp: flash_dsel_def)
qed

lemma write_enable:
  assumes "up s" "fc_busy (dev s) = 0"
  shows "\<exists>s'. SPIFlashWriteEnable P True s = Some s' \<and> up s' \<and> dev s' = (dev s)\<lparr>fc_in := [], fc_wel := True\<rparr>"
  using command [OF assms(1), of "[0x06]"] assms(2)
  by (auto simp: SPIFlashWriteEnable_def flash_exec.simps split: Option.bind_splits)

lemma read_register:
  assumes "up s"
  shows "\<exists>s'. (do { let s = Set_CS P False s; s \<leftarrow> SPISendByte P c s; (val, s) \<leftarrow> SPIRecvByte P s; Some (val, Set_CS P True s) }) =
      Some (flash_out ((dev s)\<lparr>fc_in := [c]\<rparr>), s') \<and> up s' \<and>
    (\<exists>b. dev s' = (flash_exec [c, b] ((dev s)\<lparr>fc_in := [c, b]\<rparr>))\<lparr>fc_in := []\<rparr>)"
proof -
  have d0: "down (Set_CS P False s)" "dev (Set_CS P False s) = (dev s)\<lparr>fc_in := []\<rparr>"
    using cs_low [OF assms] by (simp_all add: flash_sel_def)
  obtain s1 where s1: "SPISendByte P c (Set_CS P False s) = Some s1" "down s1" "dev s1 = (dev s)\<lparr>fc_in := [c]\<rparr>"
    using send_byte [OF d0(1), of c] d0(2) by (auto simp: flash_inp_def)
  obtain b s2 where s2: "SPIRecvByte P s1 = Some (flash_out (dev s1), s2)" "down s2" "dev s2 = (dev s)\<lparr>fc_in := [c, b]\<rparr>"
    using recv_byte [OF s1(2)] s1(3) by (auto simp: flash_inp_def)
  show ?thesis using s1 s2 cs_high [OF s2(2)] by (auto simp: flash_dsel_def)
qed

lemma read_status1:
  assumes "up s"
  shows "\<exists>s'. SPIFlashReadStatusReg1 P s = Some (flash_status (dev s), s') \<and> up s' \<and>
    dev s' = (dev s)\<lparr>fc_in := [], fc_busy := fc_busy (dev s) - 1\<rparr>"
proof -
  have "flash_out ((dev s)\<lparr>fc_in := [0x05]\<rparr>) = flash_status (dev s)"
    by (simp add: flash_out.simps flash_status_def)
  moreover have "(flash_exec [0x05, b] ((dev s)\<lparr>fc_in := [0x05, b]\<rparr>))\<lparr>fc_in := []\<rparr> = (dev s)\<lparr>fc_in := [], fc_busy := fc_busy (dev s) - 1\<rparr>" for b
    by (simp add: flash_exec.simps)
  ultimately show ?thesis using read_register [OF assms, of "0x05"] unfolding SPIFlashReadStatusReg1_def by metis
qed

lemma read_status2:
  assumes "up s" "fc_busy (dev s) = 0"
  shows "\<exists>s'. SPIFlashReadStatusReg2 P s = Some (fc_sr2 (dev s), s') \<and> up s' \<and> dev s' = (dev s)\<lparr>fc_in := []\<rparr>"
proof -
  have "flash_out ((dev s)\<lparr>fc_in := [0x35]\<rparr>) = fc_sr2 (dev s)" by (simp add: flash_out.simps)
  moreover have "(flash_exec [0x35, b] ((dev s)\<lparr>fc_in := [0x35, b]\<rparr>))\<lparr>fc_in := []\<rparr> = (dev s)\<lparr>fc_in := []\<rparr>" for b
    using assms(2) by (simp add: flash_exec.simps)
  ultimately show ?thesis using read_register [OF assms(1), of "0x35"] unfolding SPIFlashReadStatusReg2_def by metis
qed

lemma status_busy: "(flash_status d AND 1 \<noteq> 0) = (0 < fc_busy d)"
proof -
  have "(0xFC :: u8) AND 1 = 0" by simp
  then have "(fc_sr1 d AND 0xFC) AND 1 = 0" by (simp only: and.assoc and_zero_eq)
  then show ?thesis by (auto simp: flash_status_def bit.conj_disj_distrib2)
qed

lemma wait_when_busy:
  assumes "up s"
  shows "\<exists>s'. SPIFlashWaitWhenBusy P s = Some s' \<and> up s' \<and> dev s' = (dev s)\<lparr>fc_in := [], fc_busy := 0\<rparr>"
  using assms
proof (induction "fc_busy (dev s)" arbitrary: s)
  case 0
  then obtain s1 where s1: "SPIFlashReadStatusReg1 P s = Some (flash_status (dev s), s1)" "up s1"
    "dev s1 = (dev s)\<lparr>fc_in := [], fc_busy := 0\<rparr>"
    using read_status1 [of s] by auto
  moreover have "flash_status (dev s) AND 1 = 0" using status_busy [of "dev s"] 0 by auto
  ultimately show ?case by (subst SPIFlashWaitWhenBusy.simps) simp
next
  case (Suc n)
  then obtain s1 where s1: "SPIFlashReadStatusReg1 P s = Some (flash_status (dev s), s1)" "up s1"
    "dev s1 = (dev s)\<lparr>fc_in := [], fc_busy := n\<rparr>"
    using read_status1 [of s] by (metis diff_Suc_1)
  moreover have "flash_status (dev s) AND 1 \<noteq> 0" using status_busy [of "dev s"] Suc.hyps(2) by auto
  ultimately show ?case using Suc.hyps(1) [of s1] by (subst SPIFlashWaitWhenBusy.simps) simp
qed

text \<open>A command that changes the chip: write enable, the command, and waiting for its end.\<close>

lemma modify:
  assumes "up s" "fc_busy (dev s) = 0"
    and d: "flash_exec bs ((dev s)\<lparr>fc_wel := True, fc_in := bs\<rparr>) = flash_done d"
  shows "\<exists>s'. (do { s \<leftarrow> SPIFlashWriteEnable P True s; s \<leftarrow> spi_send_list P bs (Set_CS P False s); SPIFlashWaitWhenBusy P (Set_CS P True s) }) =
      Some s' \<and> up s' \<and> dev s' = d\<lparr>fc_in := [], fc_wel := False, fc_busy := 0\<rparr>"
proof -
  obtain s1 where s1: "SPIFlashWriteEnable P True s = Some s1" "up s1" "dev s1 = (dev s)\<lparr>fc_in := [], fc_wel := True\<rparr>"
    using write_enable [OF assms(1,2)] by blast
  obtain s2 where s2: "spi_send_list P bs (Set_CS P False s1) = Some s2" "up (Set_CS P True s2)"
    "dev (Set_CS P True s2) = (flash_done d)\<lparr>fc_in := []\<rparr>"
    using command [OF s1(2), of bs] s1(3) d by auto
  obtain s3 where "SPIFlashWaitWhenBusy P (Set_CS P True s2) = Some s3" "up s3"
    "dev s3 = (dev (Set_CS P True s2))\<lparr>fc_in := [], fc_busy := 0\<rparr>"
    using wait_when_busy [OF s2(2)] by blast
  then show ?thesis using s1 s2 by (simp add: flash_done_def)
qed

lemma write_status:
  assumes "up s" "fc_busy (dev s) = 0"
  shows "\<exists>s'. SPIFlashWriteStatusReg P r1 r2 s = Some s' \<and> up s' \<and>
    dev s' = (dev s)\<lparr>fc_sr1 := r1, fc_sr2 := r2, fc_in := [], fc_wel := False, fc_busy := 0\<rparr>"
  using modify [OF assms, of "[0x01, r1, r2]" "(dev s)\<lparr>fc_wel := True, fc_in := [0x01, r1, r2], fc_sr1 := r1, fc_sr2 := r2\<rparr>"] assms(2)
  by (simp add: SPIFlashWriteStatusReg_def flash_exec.simps Option.bind_assoc cong: Option.bind_cong)

lemma init:
  assumes "up s" "fc_busy (dev s) = 0"
  shows "\<exists>s'. SPIFlashInit P s = Some s' \<and> up s' \<and> fc_busy (dev s') = 0 \<and> \<not> flash_protected (dev s') \<and>
    fc_mem (dev s') = fc_mem (dev s)"
proof -
  have clear: "\<exists>s'. (do { (reg1, s) \<leftarrow> SPIFlashReadStatusReg1 P s; (reg2, s) \<leftarrow> SPIFlashReadStatusReg2 P s;
        SPIFlashWriteStatusReg P (reg1 AND m1) (reg2 AND m2) s }) = Some s' \<and> up s' \<and> fc_busy (dev s') = 0 \<and>
      fc_mem (dev s') = fc_mem (dev s) \<and> fc_sr1 (dev s') = flash_status (dev s) AND m1 \<and> fc_sr2 (dev s') = fc_sr2 (dev s) AND m2"
    if u: "up s" and z: "fc_busy (dev s) = 0" for s m1 m2
  proof -
    obtain s1 where s1: "SPIFlashReadStatusReg1 P s = Some (flash_status (dev s), s1)" "up s1"
      "dev s1 = (dev s)\<lparr>fc_in := [], fc_busy := 0\<rparr>" using read_status1 [OF u] z by auto
    obtain s2 where s2: "SPIFlashReadStatusReg2 P s1 = Some (fc_sr2 (dev s), s2)" "up s2"
      "dev s2 = (dev s)\<lparr>fc_in := [], fc_busy := 0\<rparr>" using read_status2 [OF s1(2)] s1(3) by auto
    show ?thesis
      using s1 s2 write_status [OF s2(2), of "flash_status (dev s) AND m1" "fc_sr2 (dev s) AND m2"] by auto
  qed
  obtain s1 where s1: "SPIFlashClearProtectForStatusReg P s = Some s1" "up s1" "fc_busy (dev s1) = 0" "fc_mem (dev s1) = fc_mem (dev s)"
    using clear [OF assms, of "NOT (push_bit 7 1)" "NOT (push_bit 0 1)"]
    unfolding SPIFlashClearProtectForStatusReg_def by blast
  obtain s2 where s2: "SPIFlashClearProtectForData P s1 = Some s2" "up s2" "fc_busy (dev s2) = 0" "fc_mem (dev s2) = fc_mem (dev s1)"
    "fc_sr1 (dev s2) = flash_status (dev s1) AND NOT (push_bit 2 7)" "fc_sr2 (dev s2) = fc_sr2 (dev s1) AND NOT (push_bit 6 1)"
    using clear [OF s1(2,3), of "NOT (push_bit 2 7)" "NOT (push_bit 6 1)"]
    unfolding SPIFlashClearProtectForData_def by blast
  have "NOT (push_bit 2 7) AND (0x1C :: u8) = 0" "NOT (push_bit 6 1) AND (0x40 :: u8) = 0" by simp_all
  then have "\<not> flash_protected (dev s2)"
    unfolding flash_protected_def s2(5,6) by (simp only: and.assoc and_zero_eq simp_thms)
  with s1 s2 show ?thesis by (simp add: SPIFlashInit_def)
qed

lemma erase_sector:
  assumes "up s" "fc_busy (dev s) = 0" "\<not> flash_protected (dev s)" "unat addr < 2 ^ 24"
  shows "\<exists>s'. SPIFlashEraseSector P addr s = Some s' \<and> up s' \<and>
    dev s' = (dev s)\<lparr>fc_mem := (\<lambda>a. if a div 4096 = addr div 4096 then 0xff else fc_mem (dev s) a),
      fc_in := [], fc_wel := False, fc_busy := 0\<rparr>"
proof -
  let ?bs = "[0x20, ucast (drop_bit 16 addr), ucast (drop_bit 8 addr), ucast (addr AND 0xff)] :: u8 list"
  let ?m = "\<lambda>a. if a div 4096 = addr div 4096 then 0xff else fc_mem (dev s) a"
  have "flash_exec ?bs ((dev s)\<lparr>fc_wel := True, fc_in := ?bs\<rparr>) = flash_done ((dev s)\<lparr>fc_wel := True, fc_in := ?bs, fc_mem := ?m\<rparr>)"
    using assms(2,3) by (simp add: flash_exec.simps addr24_bytes [OF assms(4)] flash_protected_def cong: if_cong)
  from modify [OF assms(1,2) this] show ?thesis
    unfolding SPIFlashEraseSector_def SPIFlashSendAddr_list
    by (simp add: Option.bind_assoc cong: Option.bind_cong if_cong)
qed

lemma program:
  assumes "up s" "fc_busy (dev s) = 0" "\<not> flash_protected (dev s)" "unat addr < 2 ^ 24"
  shows "\<exists>s'. SPIFlashProgram P addr buf s = Some s' \<and> up s' \<and>
    dev s' = (dev s)\<lparr>fc_mem := flash_program addr buf (fc_mem (dev s)), fc_in := [], fc_wel := False, fc_busy := 0\<rparr>"
proof -
  let ?bs = "0x02 # ucast (drop_bit 16 addr) # ucast (drop_bit 8 addr) # ucast (addr AND 0xff) # buf :: u8 list"
  have "flash_exec ?bs ((dev s)\<lparr>fc_wel := True, fc_in := ?bs\<rparr>) =
      flash_done ((dev s)\<lparr>fc_wel := True, fc_in := ?bs, fc_mem := flash_program addr buf (fc_mem (dev s))\<rparr>)"
    using assms(2,3) by (simp add: flash_exec.simps addr24_bytes [OF assms(4)] flash_protected_def)
  from modify [OF assms(1,2) this] show ?thesis
    unfolding SPIFlashProgram_def SPIFlashSendAddr_list
    by (simp add: Option.bind_assoc cong: Option.bind_cong)
qed

lemma recv_list:
  assumes "down s" "fc_in (dev s) = 0x03 # x # y # z # rest"
  shows "\<exists>rest' s'. spi_recv_list P n s =
      Some (map (\<lambda>k. fc_mem (dev s) (addr24 x y z + of_nat (length rest) + of_nat k)) [0..<n], s') \<and> down s' \<and>
    dev s' = (dev s)\<lparr>fc_in := 0x03 # x # y # z # rest'\<rparr>"
  using assms
proof (induction n arbitrary: s rest)
  case 0
  then show ?case by (intro exI [of _ rest]) simp
next
  case (Suc n)
  obtain b s1 where s1: "SPIRecvByte P s = Some (flash_out (dev s), s1)" "down s1" "dev s1 = flash_inp b (dev s)"
    using recv_byte [OF Suc.prems(1)] by blast
  have o: "flash_out (dev s) = fc_mem (dev s) (addr24 x y z + of_nat (length rest))"
    using Suc.prems(2) by (simp add: flash_out.simps)
  have "fc_in (dev s1) = 0x03 # x # y # z # (rest @ [b])" using s1(3) Suc.prems(2) by (simp add: flash_inp_def)
  from Suc.IH [OF s1(2) this] obtain rest' s2 where s2: "spi_recv_list P n s1 =
      Some (map (\<lambda>k. fc_mem (dev s1) (addr24 x y z + of_nat (length (rest @ [b])) + of_nat k)) [0..<n], s2)" "down s2"
    "dev s2 = (dev s1)\<lparr>fc_in := 0x03 # x # y # z # rest'\<rparr>" by (elim exE conjE)
  have "[0..<Suc n] = 0 # map Suc [0..<n]" by (simp add: map_Suc_upt upt_conv_Cons del: upt_Suc)
  then have "map (\<lambda>k. fc_mem (dev s) (addr24 x y z + of_nat (length rest) + of_nat k)) [0..<Suc n] =
      flash_out (dev s) # map (\<lambda>k. fc_mem (dev s1) (addr24 x y z + of_nat (length (rest @ [b])) + of_nat k)) [0..<n]"
    by (simp add: o s1(3) flash_inp_def ac_simps del: upt_Suc)
  with s1 s2 show ?case by (intro exI [of _ rest'] exI [of _ s2]) (simp add: flash_inp_def del: upt_Suc)
qed

lemma read_data:
  assumes "up s" "fc_busy (dev s) = 0" "unat addr < 2 ^ 24"
  shows "\<exists>s'. SPIFlashRead P addr n s = Some (map (\<lambda>k. fc_mem (dev s) (addr + of_nat k)) [0..<n], s') \<and> up s' \<and>
    dev s' = (dev s)\<lparr>fc_in := []\<rparr>"
proof -
  let ?x = "ucast (drop_bit 16 addr) :: u8" and ?y = "ucast (drop_bit 8 addr) :: u8" and ?z = "ucast (addr AND 0xff) :: u8"
  have d0: "down (Set_CS P False s)" "dev (Set_CS P False s) = (dev s)\<lparr>fc_in := []\<rparr>"
    using cs_low [OF assms(1)] by (simp_all add: flash_sel_def)
  then obtain s1 where s1: "spi_send_list P [0x03, ?x, ?y, ?z] (Set_CS P False s) = Some s1" "down s1"
    "dev s1 = (dev s)\<lparr>fc_in := [0x03, ?x, ?y, ?z]\<rparr>"
    using send_list [OF d0(1), of "[0x03, ?x, ?y, ?z]"] by auto
  obtain rest s2 where s2: "spi_recv_list P n s1 = Some (map (\<lambda>k. fc_mem (dev s) (addr + of_nat k)) [0..<n], s2)" "down s2"
    "dev s2 = (dev s)\<lparr>fc_in := 0x03 # ?x # ?y # ?z # rest\<rparr>"
    using recv_list [OF s1(2), of ?x ?y ?z "[]" n] s1(3) by (auto simp: addr24_bytes [OF assms(3)])
  have "dev (Set_CS P True s2) = (dev s)\<lparr>fc_in := []\<rparr>" "up (Set_CS P True s2)"
    using cs_high [OF s2(2)] s2(3) assms(2) by (simp_all add: flash_dsel_def flash_exec.simps)
  moreover have "SPIFlashRead P addr n s = Some (map (\<lambda>k. fc_mem (dev s) (addr + of_nat k)) [0..<n], Set_CS P True s2)"
  proof -
    have "SPIFlashRead P addr n s = do {
        s1 \<leftarrow> spi_send_list P [0x03, ?x, ?y, ?z] (Set_CS P False s);
        (buf, s2) \<leftarrow> spi_recv_list P n s1;
        Some (buf, Set_CS P True s2) }"
      by (simp add: SPIFlashRead_def SPIFlashSendAddr_list Option.bind_assoc cong: Option.bind_cong)
    then show ?thesis by (simp only: s1 s2 Option.bind.bind_lunit prod.case)
  qed
  ultimately show ?thesis by blast
qed

lemma init_erase_program_read:
  assumes "up s" "fc_busy (dev s) = 0" "unat addr < 2 ^ 24" "unat addr mod 256 + length buf \<le> 256"
  shows "\<exists>s1 s2 s3 s4. SPIFlashInit P s = Some s1 \<and> SPIFlashEraseSector P addr s1 = Some s2 \<and>
    SPIFlashProgram P addr buf s2 = Some s3 \<and> SPIFlashRead P addr (length buf) s3 = Some (buf, s4) \<and> up s4 \<and>
    fc_mem (dev s4) = put_step 1 (\<lambda>a. if a div 4096 = addr div 4096 then 0xff else fc_mem (dev s) a) addr buf"
proof -
  define m where "m = (\<lambda>a. if a div 4096 = addr div 4096 then 0xff else fc_mem (dev s) a)"
  obtain s1 where s1: "SPIFlashInit P s = Some s1" "up s1" "fc_busy (dev s1) = 0" "\<not> flash_protected (dev s1)"
    "fc_mem (dev s1) = fc_mem (dev s)"
    using init [OF assms(1,2)] by blast
  obtain s2 where s2: "SPIFlashEraseSector P addr s1 = Some s2" "up s2"
    "dev s2 = (dev s1)\<lparr>fc_mem := m, fc_in := [], fc_wel := False, fc_busy := 0\<rparr>"
    using erase_sector [OF s1(2-4) assms(3)] unfolding m_def s1(5) by blast
  have "\<not> flash_protected (dev s2)" "fc_busy (dev s2) = 0" using s1(4) s2(3) by (simp_all add: flash_protected_def)
  then obtain s3 where s3: "SPIFlashProgram P addr buf s2 = Some s3" "up s3"
    "dev s3 = (dev s2)\<lparr>fc_mem := flash_program addr buf m, fc_in := [], fc_wel := False, fc_busy := 0\<rparr>"
    using program [OF s2(2) _ _ assms(3), of buf] s2(3) by auto
  have "flash_program addr buf m = put_step 1 m addr buf"
    using assms(3,4) page_in_sector [of addr] by (intro flash_program_blank) (auto simp: m_def)
  with s3(3) have m3: "fc_mem (dev s3) = put_step 1 m addr buf" by simp
  have "fc_mem (dev s3) (addr + of_nat k) = buf ! k" if "k < length buf" for k
    using put_step_nth [of "1 :: u32" buf k m addr] that assms(4) unfolding m3 by simp
  then have "map (\<lambda>k. fc_mem (dev s3) (addr + of_nat k)) [0..<length buf] = buf"
    by (intro nth_equalityI) simp_all
  then obtain s4 where "SPIFlashRead P addr (length buf) s3 = Some (buf, s4)" "up s4" "dev s4 = (dev s3)\<lparr>fc_in := []\<rparr>"
    using read_data [OF s3(2) _ assms(3), of "length buf"] s3(3) by auto
  with s1(1) s2(1) s3(1) m3 show ?thesis unfolding m_def
    by (intro exI [of _ s1] exI [of _ s2] exI [of _ s3] exI [of _ s4]) simp
qed

end

section \<open>The two ports\<close>

definition gpio_port :: "'s bus \<Rightarrow> 's spi_port" where
  "gpio_port B = \<lparr>SPISendByte = gpio_SPISendByte B, SPIRecvByte = gpio_SPIRecvByte B, Set_CS = SPIFlash_Set_CS B\<rparr>"

definition s3c_port :: "'s bus \<Rightarrow> 's spi_port" where
  "s3c_port B = \<lparr>SPISendByte = s3c_SPISendByte B, SPIRecvByte = s3c_SPIRecvByte B, Set_CS = SPIFlash_Set_CS B\<rparr>"

interpretation gpio_flash: flash_port "gpio_port B" "\<lambda>s. pin_dev (st s)"
  "gpio_up B st flash_out flash_inp flash_sel flash_dsel" "gpio_down B st flash_out flash_inp flash_sel flash_dsel" for B st
  by (intro flash_port.intro) (simp add: gpio_port_def gpio_spi.spi_master_axioms)

interpretation s3c_flash: flash_port "s3c_port B" "\<lambda>s. ctl_dev (st s)"
  "ctl_up B st flash_out flash_inp flash_sel flash_dsel True" "ctl_up B st flash_out flash_inp flash_sel flash_dsel False" for B st
  by (intro flash_port.intro) (simp add: s3c_port_def ctl_spi.spi_master_axioms)

text \<open>
  C11. Over the bit-banged port, with the chip seen only through the pins: removing the protection,
  erasing a sector, programming at most a page in it and reading it back all return, and the bytes
  read are the bytes programmed. The rest of the sector is blank and the rest of the chip is as before.
\<close>

theorem spi_flash_roundtrip:
  assumes "spi_gpio B st flash_out flash_inp flash_sel flash_dsel" "pin_csn (st s)" "fc_busy (pin_dev (st s)) = 0"
    and "unat addr < 2 ^ 24" "unat addr mod 256 + length buf \<le> 256"
  shows "\<exists>s1 s2 s3 s4. SPIFlashInit (gpio_port B) s = Some s1 \<and> SPIFlashEraseSector (gpio_port B) addr s1 = Some s2 \<and>
    SPIFlashProgram (gpio_port B) addr buf s2 = Some s3 \<and> SPIFlashRead (gpio_port B) addr (length buf) s3 = Some (buf, s4) \<and>
    fc_mem (pin_dev (st s4)) =
      put_step 1 (\<lambda>a. if a div 4096 = addr div 4096 then 0xff else fc_mem (pin_dev (st s)) a) addr buf"
proof -
  have "gpio_up B st flash_out flash_inp flash_sel flash_dsel s" using assms(1,2) by (simp add: gpio_up_def)
  from gpio_flash.init_erase_program_read [OF this assms(3-5)] show ?thesis by (elim exE conjE, intro exI conjI) assumption+
qed

text \<open>A board on which the port register drives the chip, protected at first and slow.\<close>

definition pins_word :: "flash_chip spi_pins \<Rightarrow> u32" where
  "pins_word p = (if pin_clk p then push_bit 7 1 else 0) OR (if pin_mosi p then push_bit 6 1 else 0) OR
     (if pin_csn p then push_bit 2 1 else 0) OR
     (if bit (flash_out (pin_dev p)) (7 - length (pin_bits p)) then push_bit 5 1 else 0)"

definition demo_spi_bus :: "flash_chip spi_pins bus" where
  "demo_spi_bus = \<lparr>rd8 = (\<lambda>a s. (0, s)), rd16 = (\<lambda>a s. (0, s)), rd32 = (\<lambda>a s. (pins_word s, s)),
     wr8 = (\<lambda>a v s. s), wr16 = (\<lambda>a v s. s), wr32 = (\<lambda>a v s. gpg_write flash_inp flash_sel flash_dsel v s)\<rparr>"

lemma demo_spi_gpio: "spi_gpio demo_spi_bus (\<lambda>s. s) flash_out flash_inp flash_sel flash_dsel"
  by (auto simp: spi_gpio_def demo_spi_bus_def pins_word_def bit_simps simp del: push_bit_of_1)

definition demo_flash :: "flash_chip spi_pins" where
  "demo_flash = \<lparr>pin_clk = False, pin_mosi = False, pin_csn = True, pin_bits = [],
     pin_dev = \<lparr>fc_in = [], fc_wel = False, fc_sr1 = 0x9C, fc_sr2 = 0x40, fc_busy = 0, fc_delay = 3, fc_mem = (\<lambda>_. 0x55)\<rparr>\<rparr>"

theorem spi_flash_roundtrip_witness:
  "\<exists>s1 s2 s3 s4. SPIFlashInit (gpio_port demo_spi_bus) demo_flash = Some s1 \<and>
    SPIFlashEraseSector (gpio_port demo_spi_bus) 4096 s1 = Some s2 \<and>
    SPIFlashProgram (gpio_port demo_spi_bus) 4096 [0x31, 0x30, 0x30] s2 = Some s3 \<and>
    SPIFlashRead (gpio_port demo_spi_bus) 4096 3 s3 = Some ([0x31, 0x30, 0x30], s4)"
proof -
  let ?buf = "[0x31, 0x30, 0x30] :: u8 list"
  have "pin_csn demo_flash" "fc_busy (pin_dev demo_flash) = 0" "unat (4096 :: u32) < 2 ^ 24"
    "unat (4096 :: u32) mod 256 + length ?buf \<le> 256"
    by (simp_all add: demo_flash_def)
  from spi_flash_roundtrip [OF demo_spi_gpio this] have
    "\<exists>s1 s2 s3 s4. SPIFlashInit (gpio_port demo_spi_bus) demo_flash = Some s1 \<and>
      SPIFlashEraseSector (gpio_port demo_spi_bus) 4096 s1 = Some s2 \<and>
      SPIFlashProgram (gpio_port demo_spi_bus) 4096 ?buf s2 = Some s3 \<and>
      SPIFlashRead (gpio_port demo_spi_bus) 4096 (length ?buf) s3 = Some (?buf, s4)" by blast
  then show ?thesis by (simp add: numeral_eq_Suc)
qed

end
