(* ===== verification/Oled.thy ===== *)
theory Oled
  imports Soc_Regs
begin

text \<open>
  The OLED driver of \<^verbatim>\<open>oled.c\<close>. \<open>send\<close> is \<^verbatim>\<open>SPISendByte\<close> of the port, and the font table of
  \<^verbatim>\<open>oledfont.h\<close> is an argument. The display is a parameter; \<open>oled_dev\<close> states how it takes commands
  and data in page addressing mode.
\<close>

section \<open>The driver\<close>

definition OLED_Set_DC :: "'s bus \<Rightarrow> bool \<Rightarrow> 's \<Rightarrow> 's" where
  "OLED_Set_DC B val s =
     (if val then reg_or B GPGDAT (push_bit 4 1) s else reg_and B GPGDAT (NOT (push_bit 4 1)) s)"

definition OLED_Set_CS :: "'s bus \<Rightarrow> bool \<Rightarrow> 's \<Rightarrow> 's" where
  "OLED_Set_CS B val s =
     (if val then reg_or B GPFDAT (push_bit 1 1) s else reg_and B GPFDAT (NOT (push_bit 1 1)) s)"

definition OLEDWriteCmd :: "'s bus \<Rightarrow> (u8 \<Rightarrow> 's \<Rightarrow> 's option) \<Rightarrow> u8 \<Rightarrow> 's \<Rightarrow> 's option" where
  "OLEDWriteCmd B send cmd s =
     (let s = OLED_Set_DC B False s; s = OLED_Set_CS B False s
      in do {
           s \<leftarrow> send cmd s;
           let s = OLED_Set_CS B True s;
           Some (OLED_Set_DC B True s) })"

definition OLEDWriteDat :: "'s bus \<Rightarrow> (u8 \<Rightarrow> 's \<Rightarrow> 's option) \<Rightarrow> u8 \<Rightarrow> 's \<Rightarrow> 's option" where
  "OLEDWriteDat B send dat s =
     (let s = OLED_Set_DC B True s; s = OLED_Set_CS B False s
      in do {
           s \<leftarrow> send dat s;
           let s = OLED_Set_CS B True s;
           Some (OLED_Set_DC B True s) })"

text \<open>A sequence of commands, and a loop that writes data.\<close>

fun oled_cmds :: "'s bus \<Rightarrow> (u8 \<Rightarrow> 's \<Rightarrow> 's option) \<Rightarrow> u8 list \<Rightarrow> 's \<Rightarrow> 's option" where
  "oled_cmds B send [] s = Some s"
| "oled_cmds B send (c # cs) s = do { s \<leftarrow> OLEDWriteCmd B send c s; oled_cmds B send cs s }"

fun oled_dats :: "'s bus \<Rightarrow> (u8 \<Rightarrow> 's \<Rightarrow> 's option) \<Rightarrow> u8 list \<Rightarrow> 's \<Rightarrow> 's option" where
  "oled_dats B send [] s = Some s"
| "oled_dats B send (d # ds) s = do { s \<leftarrow> OLEDWriteDat B send d s; oled_dats B send ds s }"

definition OLEDSetPageAddrMode :: "'s bus \<Rightarrow> (u8 \<Rightarrow> 's \<Rightarrow> 's option) \<Rightarrow> 's \<Rightarrow> 's option" where
  "OLEDSetPageAddrMode B send s = oled_cmds B send [0x20, 0x02] s"

definition OLEDSetPos :: "'s bus \<Rightarrow> (u8 \<Rightarrow> 's \<Rightarrow> 's option) \<Rightarrow> int \<Rightarrow> int \<Rightarrow> 's \<Rightarrow> 's option" where
  "OLEDSetPos B send page col s =
     oled_cmds B send [word_of_int (0xB0 + page), word_of_int (col mod 16), word_of_int (0x10 + col div 16)] s"

definition OLEDClearPage :: "'s bus \<Rightarrow> (u8 \<Rightarrow> 's \<Rightarrow> 's option) \<Rightarrow> int \<Rightarrow> 's \<Rightarrow> 's option" where
  "OLEDClearPage B send page s = do {
     s \<leftarrow> OLEDSetPos B send page 0 s;
     oled_dats B send (replicate 128 0) s }"

fun oled_clear_pages :: "'s bus \<Rightarrow> (u8 \<Rightarrow> 's \<Rightarrow> 's option) \<Rightarrow> int list \<Rightarrow> 's \<Rightarrow> 's option" where
  "oled_clear_pages B send [] s = Some s"
| "oled_clear_pages B send (p # ps) s = do {
     s \<leftarrow> OLEDSetPos B send p 0 s;
     s \<leftarrow> oled_dats B send (replicate 128 0) s;
     oled_clear_pages B send ps s }"

definition OLEDClear :: "'s bus \<Rightarrow> (u8 \<Rightarrow> 's \<Rightarrow> 's option) \<Rightarrow> 's \<Rightarrow> 's option" where
  "OLEDClear B send s = oled_clear_pages B send [0, 1, 2, 3, 4, 5, 6, 7] s"

definition OLEDInit :: "'s bus \<Rightarrow> (u8 \<Rightarrow> 's \<Rightarrow> 's option) \<Rightarrow> 's \<Rightarrow> 's option" where
  "OLEDInit B send s = do {
     s \<leftarrow> oled_cmds B send [0xAE, 0x00, 0x10, 0x40, 0xB0, 0x81, 0x66, 0xA1, 0xA6, 0xA8, 0x3F, 0xC8, 0xD3, 0x00,
            0xD5, 0x80, 0xD9, 0x1f, 0xDA, 0x12, 0xdb, 0x30, 0x8d, 0x14] s;
     s \<leftarrow> OLEDSetPageAddrMode B send s;
     s \<leftarrow> OLEDClear B send s;
     OLEDWriteCmd B send 0xAF s }"

text \<open>\<open>None\<close>: the character has no row in the font table.\<close>

definition OLEDPutChar :: "'s bus \<Rightarrow> (u8 \<Rightarrow> 's \<Rightarrow> 's option) \<Rightarrow> u8 list list \<Rightarrow> int \<Rightarrow> int \<Rightarrow> u8 \<Rightarrow> 's \<Rightarrow> 's option" where
  "OLEDPutChar B send font page col c s =
     (if 0x20 \<le> unat c \<and> unat c - 0x20 < length font
      then let dots = font ! (unat c - 0x20)
           in do {
                s \<leftarrow> OLEDSetPos B send page col s;
                s \<leftarrow> oled_dats B send (map (\<lambda>i. dots ! i) [0..<8]) s;
                s \<leftarrow> OLEDSetPos B send (page + 1) col s;
                oled_dats B send (map (\<lambda>i. dots ! (i + 8)) [0..<8]) s }
      else None)"

fun OLEDPrint :: "'s bus \<Rightarrow> (u8 \<Rightarrow> 's \<Rightarrow> 's option) \<Rightarrow> u8 list list \<Rightarrow> int \<Rightarrow> int \<Rightarrow> cstring \<Rightarrow> 's \<Rightarrow> 's option" where
  "OLEDPrint B send font page col [] s = Some s"
| "OLEDPrint B send font page col (c # cs) s = do {
     s \<leftarrow> OLEDPutChar B send font page col c s;
     let col = col + 8;
     (if col > 127 then OLEDPrint B send font (page + 2) 0 cs s else OLEDPrint B send font page col cs s) }"

section \<open>The display\<close>

text \<open>
  The display controller: \<open>ol_ram page column\<close> is its memory, \<open>ol_arg\<close> says that the next command byte
  is the argument of the last one.
\<close>

record oled =
  ol_csn :: bool
  ol_dc :: bool
  ol_arg :: bool
  ol_on :: bool
  ol_page :: nat
  ol_col :: nat
  ol_ram :: "nat \<Rightarrow> nat \<Rightarrow> u8"

definition oled_command :: "u8 \<Rightarrow> oled \<Rightarrow> oled" where
  "oled_command c d =
     (if ol_arg d then d\<lparr>ol_arg := False\<rparr>
      else if c \<in> {0x20, 0x81, 0xA8, 0xD3, 0xD5, 0xD9, 0xDA, 0xDB, 0x8D} then d\<lparr>ol_arg := True\<rparr>
      else if unat c < 0x10 then d\<lparr>ol_col := ol_col d div 16 * 16 + unat c\<rparr>
      else if unat c < 0x18 then d\<lparr>ol_col := (unat c - 0x10) * 16 + ol_col d mod 16\<rparr>
      else if 0xB0 \<le> unat c \<and> unat c < 0xB8 then d\<lparr>ol_page := unat c - 0xB0\<rparr>
      else if c = 0xAE then d\<lparr>ol_on := False\<rparr>
      else if c = 0xAF then d\<lparr>ol_on := True\<rparr>
      else d)"

definition oled_data :: "u8 \<Rightarrow> oled \<Rightarrow> oled" where
  "oled_data b d = d\<lparr>ol_ram := (ol_ram d)(ol_page d := (ol_ram d (ol_page d))(ol_col d := b)), ol_col := Suc (ol_col d) mod 128\<rparr>"

definition oled_byte :: "u8 \<Rightarrow> oled \<Rightarrow> oled" where
  "oled_byte b d = (if ol_csn d then d else if ol_dc d then oled_data b d else oled_command b d)"

definition oled_dev :: "'s bus \<Rightarrow> (u8 \<Rightarrow> 's \<Rightarrow> 's option) \<Rightarrow> ('s \<Rightarrow> oled) \<Rightarrow> bool" where
  "oled_dev B send ol \<longleftrightarrow>
     (\<forall>v s. ol (wr32 B GPGDAT v s) = (ol s)\<lparr>ol_dc := bit v 4\<rparr>) \<and> (\<forall>s. ol (snd (rd32 B GPGDAT s)) = ol s) \<and>
     (\<forall>v s. ol (wr32 B GPFDAT v s) = (ol s)\<lparr>ol_csn := bit v 1\<rparr>) \<and> (\<forall>s. ol (snd (rd32 B GPFDAT s)) = ol s) \<and>
     (\<forall>b s. \<exists>s'. send b s = Some s' \<and> ol s' = oled_byte b (ol s))"

lemma oled_pins:
  assumes "oled_dev B send ol"
  shows "ol (OLED_Set_DC B b s) = (ol s)\<lparr>ol_dc := b\<rparr>" "ol (OLED_Set_CS B b s) = (ol s)\<lparr>ol_csn := b\<rparr>"
  using assms
  by (auto simp: oled_dev_def OLED_Set_DC_def OLED_Set_CS_def reg_or_def reg_and_def case_prod_unfold Let_def bit_simps
      simp del: push_bit_of_1)

text \<open>Between two calls the display is deselected and the data line is high.\<close>

definition oled_idle :: "oled \<Rightarrow> bool" where
  "oled_idle d \<longleftrightarrow> ol_csn d \<and> ol_dc d"

lemma oled_send:
  assumes "oled_dev B send ol"
  shows "\<exists>s'. send b s = Some s' \<and> ol s' = oled_byte b (ol s)"
  using assms unfolding oled_dev_def by blast

lemma oled_command_pins:
  "oled_idle d \<Longrightarrow> (oled_command c (d\<lparr>ol_dc := False, ol_csn := False\<rparr>))\<lparr>ol_csn := True, ol_dc := True\<rparr> = oled_command c d"
  by (cases d) (auto simp: oled_command_def oled_idle_def)

lemma oled_data_pins:
  "oled_idle d \<Longrightarrow> (oled_data c (d\<lparr>ol_dc := True, ol_csn := False\<rparr>))\<lparr>ol_csn := True, ol_dc := True\<rparr> = oled_data c d"
  by (cases d) (auto simp: oled_data_def oled_idle_def)

lemma oled_idle_kept: "oled_idle d \<Longrightarrow> oled_idle (oled_command c d)" "oled_idle d \<Longrightarrow> oled_idle (oled_data b d)"
  by (auto simp: oled_command_def oled_data_def oled_idle_def)

lemma write_cmd:
  assumes dev: "oled_dev B send ol" and "oled_idle (ol s)"
  shows "\<exists>s'. OLEDWriteCmd B send c s = Some s' \<and> ol s' = oled_command c (ol s) \<and> oled_idle (ol s')"
proof -
  obtain s1 where "send c (OLED_Set_CS B False (OLED_Set_DC B False s)) = Some s1"
    "ol s1 = oled_command c ((ol s)\<lparr>ol_dc := False, ol_csn := False\<rparr>)"
    using oled_send [OF dev, of c "OLED_Set_CS B False (OLED_Set_DC B False s)"] by (auto simp: oled_pins [OF dev] oled_byte_def)
  then show ?thesis
    using assms(2) oled_command_pins [OF assms(2), of c]
    by (simp add: OLEDWriteCmd_def Let_def oled_pins [OF dev] oled_idle_kept)
qed

lemma write_dat:
  assumes dev: "oled_dev B send ol" and "oled_idle (ol s)"
  shows "\<exists>s'. OLEDWriteDat B send b s = Some s' \<and> ol s' = oled_data b (ol s) \<and> oled_idle (ol s')"
proof -
  obtain s1 where "send b (OLED_Set_CS B False (OLED_Set_DC B True s)) = Some s1"
    "ol s1 = oled_data b ((ol s)\<lparr>ol_dc := True, ol_csn := False\<rparr>)"
    using oled_send [OF dev, of b "OLED_Set_CS B False (OLED_Set_DC B True s)"] by (auto simp: oled_pins [OF dev] oled_byte_def)
  then show ?thesis
    using assms(2) oled_data_pins [OF assms(2), of b]
    by (simp add: OLEDWriteDat_def Let_def oled_pins [OF dev] oled_idle_kept)
qed

lemma write_cmds:
  assumes "oled_dev B send ol" "oled_idle (ol s)"
  shows "\<exists>s'. oled_cmds B send cs s = Some s' \<and> ol s' = fold oled_command cs (ol s) \<and> oled_idle (ol s')"
  using assms(2)
proof (induction cs arbitrary: s)
  case (Cons c cs)
  obtain s1 where s1: "OLEDWriteCmd B send c s = Some s1" "ol s1 = oled_command c (ol s)" "oled_idle (ol s1)"
    using write_cmd [OF assms(1) Cons.prems] by blast
  with Cons.IH [OF s1(3)] show ?case by auto
qed simp

text \<open>The row \<open>r\<close> with the bytes \<open>bs\<close> from column \<open>c\<close> on.\<close>

definition put_row :: "(nat \<Rightarrow> u8) \<Rightarrow> nat \<Rightarrow> u8 list \<Rightarrow> nat \<Rightarrow> u8" where
  "put_row r c bs = (\<lambda>x. if c \<le> x \<and> x < c + length bs then bs ! (x - c) else r x)"

lemma put_row_Cons: "put_row (r(c := b)) (Suc c) bs = put_row r c (b # bs)"
  by (auto simp: put_row_def fun_eq_iff nth_Cons' Suc_le_eq)

lemma write_dats:
  assumes dev: "oled_dev B send ol" and "oled_idle (ol s)" "ol_col (ol s) + length bs \<le> 128"
  shows "\<exists>s' c. oled_dats B send bs s = Some s' \<and> oled_idle (ol s') \<and>
    ol s' = (ol s)\<lparr>ol_ram := (ol_ram (ol s))(ol_page (ol s) := put_row (ol_ram (ol s) (ol_page (ol s))) (ol_col (ol s)) bs), ol_col := c\<rparr>"
  using assms(2,3)
proof (induction bs arbitrary: s)
  case Nil
  have "put_row r c [] = r" for r c by (auto simp: put_row_def fun_eq_iff)
  with Nil show ?case by (intro exI [of _ s] exI [of _ "ol_col (ol s)"]) simp
next
  case (Cons b bs)
  obtain s1 where s1: "OLEDWriteDat B send b s = Some s1" "ol s1 = oled_data b (ol s)" "oled_idle (ol s1)"
    using write_dat [OF dev Cons.prems(1)] by blast
  show ?case
  proof (cases bs)
    case Nil
    have "put_row r c [b] = r(c := b)" for r c by (auto simp: put_row_def fun_eq_iff)
    with Nil s1 show ?thesis
      by (intro exI [of _ s1] exI [of _ "Suc (ol_col (ol s)) mod 128"]) (simp add: oled_data_def del: fun_upd_apply)
  next
    case (Cons d ds)
    then have "ol_col (ol s1) = Suc (ol_col (ol s))" using Cons.prems(2) s1(2) by (simp add: oled_data_def)
    then show ?thesis
      using Cons.IH [OF s1(3)] Cons.prems(2) s1 by (auto simp: oled_data_def put_row_Cons fun_upd_same simp del: fun_upd_apply)
  qed
qed

lemma arg_command_unat: "(c :: u8) \<in> {0x20, 0x81, 0xA8, 0xD3, 0xD5, 0xD9, 0xDA, 0xDB, 0x8D} \<longleftrightarrow>
    unat c \<in> {0x20, 0x81, 0xA8, 0xD3, 0xD5, 0xD9, 0xDA, 0xDB, 0x8D}"
  by (auto simp: word_unat_eq_iff)

lemma pos_commands:
  assumes "\<not> ol_arg d"
  shows "unat b = 0xB0 + p \<Longrightarrow> p < 8 \<Longrightarrow> oled_command b d = d\<lparr>ol_page := p\<rparr>"
    and "unat b = l \<Longrightarrow> l < 16 \<Longrightarrow> oled_command b d = d\<lparr>ol_col := ol_col d div 16 * 16 + l\<rparr>"
    and "unat b = 0x10 + h \<Longrightarrow> h < 8 \<Longrightarrow> oled_command b d = d\<lparr>ol_col := h * 16 + ol_col d mod 16\<rparr>"
  using assms by (auto simp: oled_command_def arg_command_unat)

lemma set_pos:
  assumes dev: "oled_dev B send ol" and "oled_idle (ol s)" "\<not> ol_arg (ol s)" and p: "p < 8" and c: "c < 128"
  shows "\<exists>s'. OLEDSetPos B send (int p) (int c) s = Some s' \<and> oled_idle (ol s') \<and> ol s' = (ol s)\<lparr>ol_page := p, ol_col := c\<rparr>"
proof -
  have u: "unat (word_of_int (int n) :: u8) = n" if "n < 256" for n using that by (simp add: unat_of_nat)
  have up: "unat (word_of_int (0xB0 + int p) :: u8) = 0xB0 + p" using u [of "0xB0 + p"] p by simp
  have uc: "unat (word_of_int (int c mod 16) :: u8) = c mod 16" using u [of "c mod 16"] by (simp add: zmod_int)
  have h: "0x10 + int c div 16 = int (0x10 + c div 16)" by (simp only: of_nat_add zdiv_int of_nat_numeral)
  have uh: "unat (word_of_int (0x10 + int c div 16) :: u8) = 0x10 + c div 16"
  proof -
    have "c div 16 < 8" using c by (simp add: less_mult_imp_div_less)
    then show ?thesis unfolding h by (intro u) simp
  qed
  have "fold oled_command [word_of_int (0xB0 + int p), word_of_int (int c mod 16), word_of_int (0x10 + int c div 16)] (ol s) =
      (ol s)\<lparr>ol_page := p, ol_col := c\<rparr>"
  proof -
    have "oled_command (word_of_int (0xB0 + int p)) d = d\<lparr>ol_page := p\<rparr>"
      and "oled_command (word_of_int (int c mod 16)) d = d\<lparr>ol_col := ol_col d div 16 * 16 + c mod 16\<rparr>"
      and "oled_command (word_of_int (0x10 + int c div 16)) d = d\<lparr>ol_col := c div 16 * 16 + ol_col d mod 16\<rparr>"
      if "\<not> ol_arg d" for d
      using pos_commands(1) [OF that up p] pos_commands(2) [OF that uc] pos_commands(3) [OF that uh] c
      by (simp_all add: less_mult_imp_div_less)
    then show ?thesis using assms(3) by simp
  qed
  then show ?thesis
    using write_cmds [OF dev assms(2), of "[word_of_int (0xB0 + int p), word_of_int (int c mod 16), word_of_int (0x10 + int c div 16)]"]
    by (auto simp: OLEDSetPos_def)
qed

section \<open>Text and clearing\<close>

text \<open>
  The screen as 64 cells of 8 columns and 2 pages, cell \<open>k\<close> being in line \<open>k div 16\<close>; \<open>draw_cell\<close> puts a
  glyph of 16 bytes into a cell.
\<close>

definition draw_cell :: "nat \<Rightarrow> u8 list \<Rightarrow> (nat \<Rightarrow> nat \<Rightarrow> u8) \<Rightarrow> nat \<Rightarrow> nat \<Rightarrow> u8" where
  "draw_cell k dots ram = (\<lambda>p x.
     if x div 8 = k mod 16 \<and> p div 2 = k div 16 then dots ! (8 * (p mod 2) + x mod 8) else ram p x)"

lemma draw_cell_rows:
  fixes k :: nat
  defines "p \<equiv> 2 * (k div 16)" and "c \<equiv> 8 * (k mod 16)"
  shows "ram(p := put_row (ram p) c (map (\<lambda>i. d ! i) [0..<8]), Suc p := put_row (ram (Suc p)) c (map (\<lambda>i. d ! (i + 8)) [0..<8]))
    = draw_cell k d ram"
proof (intro ext)
  fix q x
  have q: "q div 2 = k div 16 \<longleftrightarrow> q = p \<or> q = Suc p" unfolding p_def by linarith
  have x: "x div 8 = k mod 16 \<longleftrightarrow> c \<le> x \<and> x < c + 8" unfolding c_def by linarith
  have m: "x mod 8 = x - c" if "x div 8 = k mod 16" using that unfolding c_def by (metis minus_div_mult_eq_mod mult.commute)
  have par: "p mod 2 = 0" "Suc p mod 2 = 1" by (simp_all add: p_def)
  show "(ram(p := put_row (ram p) c (map (\<lambda>i. d ! i) [0..<8]), Suc p := put_row (ram (Suc p)) c (map (\<lambda>i. d ! (i + 8)) [0..<8]))) q x
      = draw_cell k d ram q x"
  proof (cases "x div 8 = k mod 16")
    case True
    with x m show ?thesis by (auto simp: draw_cell_def put_row_def q par add.commute)
  next
    case False
    with x show ?thesis by (auto simp: draw_cell_def put_row_def)
  qed
qed

lemma put_char:
  assumes dev: "oled_dev B send ol" and "oled_idle (ol s)" "\<not> ol_arg (ol s)" and k: "k < 64"
    and c: "0x20 \<le> unat c" "unat c - 0x20 < length font" and dots: "length (font ! (unat c - 0x20)) = 16"
  shows "\<exists>s'. OLEDPutChar B send font (int (2 * (k div 16))) (int (8 * (k mod 16))) c s = Some s' \<and> oled_idle (ol s') \<and>
    \<not> ol_arg (ol s') \<and> ol_on (ol s') = ol_on (ol s) \<and> ol_ram (ol s') = draw_cell k (font ! (unat c - 0x20)) (ol_ram (ol s))"
proof -
  let ?p = "2 * (k div 16)" and ?c = "8 * (k mod 16)" and ?d = "font ! (unat c - 0x20)"
  have "k div 16 < 4" "k mod 16 < 16" using k by (simp_all add: less_mult_imp_div_less)
  then have p: "?p < 8" "Suc ?p < 8" "?c < 128" "?c + 8 \<le> 128" by linarith+
  obtain s1 where s1: "OLEDSetPos B send (int ?p) (int ?c) s = Some s1" "oled_idle (ol s1)"
    "ol s1 = (ol s)\<lparr>ol_page := ?p, ol_col := ?c\<rparr>"
    using set_pos [OF dev assms(2,3) p(1,3)] by blast
  obtain s2 c2 where s2: "oled_dats B send (map (\<lambda>i. ?d ! i) [0..<8]) s1 = Some s2" "oled_idle (ol s2)"
    "ol s2 = (ol s)\<lparr>ol_page := ?p, ol_ram := (ol_ram (ol s))(?p := put_row (ol_ram (ol s) ?p) ?c (map (\<lambda>i. ?d ! i) [0..<8])), ol_col := c2\<rparr>"
    using write_dats [OF dev s1(2), of "map (\<lambda>i. ?d ! i) [0..<8]"] s1(3) p(4) by (auto simp del: fun_upd_apply)
  have "\<not> ol_arg (ol s2)" using s2(3) assms(3) by simp
  then obtain s3 where s3: "OLEDSetPos B send (int (Suc ?p)) (int ?c) s2 = Some s3" "oled_idle (ol s3)"
    "ol s3 = (ol s2)\<lparr>ol_page := Suc ?p, ol_col := ?c\<rparr>"
    using set_pos [OF dev s2(2) _ p(2,3)] by blast
  obtain s4 c4 where s4: "oled_dats B send (map (\<lambda>i. ?d ! (i + 8)) [0..<8]) s3 = Some s4" "oled_idle (ol s4)"
    "ol s4 = (ol s3)\<lparr>ol_ram := (ol_ram (ol s3))(Suc ?p := put_row (ol_ram (ol s3) (Suc ?p)) ?c (map (\<lambda>i. ?d ! (i + 8)) [0..<8])), ol_col := c4\<rparr>"
    using write_dats [OF dev s3(2), of "map (\<lambda>i. ?d ! (i + 8)) [0..<8]"] s3(3) p(4) by (auto simp del: fun_upd_apply)
  have "OLEDPutChar B send font (int ?p) (int ?c) c s = Some s4"
    using c s1(1) s2(1) s3(1) s4(1) by (simp add: OLEDPutChar_def add.commute [of _ 1])
  moreover have "ol_ram (ol s4) = draw_cell k ?d (ol_ram (ol s))"
    using s2(3) s3(3) s4(3) by (simp add: draw_cell_rows)
  ultimately show ?thesis using s2(3) s3(3) s4(2,3) assms(3) by auto
qed

text \<open>The cells from \<open>k\<close> on with the glyphs of a text.\<close>

fun draw_text :: "u8 list list \<Rightarrow> nat \<Rightarrow> cstring \<Rightarrow> (nat \<Rightarrow> nat \<Rightarrow> u8) \<Rightarrow> nat \<Rightarrow> nat \<Rightarrow> u8" where
  "draw_text font k [] ram = ram"
| "draw_text font k (c # cs) ram = draw_text font (Suc k) cs (draw_cell k (font ! (unat c - 0x20)) ram)"

lemma draw_text_cell:
  assumes "x < 128"
  shows "draw_text font k cs ram p x =
    (let j = 16 * (p div 2) + x div 8
     in if k \<le> j \<and> j < k + length cs then (font ! (unat (cs ! (j - k)) - 0x20)) ! (8 * (p mod 2) + x mod 8) else ram p x)"
proof (induction cs arbitrary: k ram)
  case Nil
  then show ?case by (auto simp: Let_def)
next
  case (Cons c cs)
  have "x div 8 < 16" using assms by (simp add: less_mult_imp_div_less)
  then have "x div 8 = k mod 16 \<and> p div 2 = k div 16 \<longleftrightarrow> k = 16 * (p div 2) + x div 8"
    by (metis add.commute div_mult_mod_eq mod_mult_self4 mod_less mult.commute div_mult_self4 div_less add_0 zero_neq_numeral)
  then have "draw_cell k dots ram p x = (if k = 16 * (p div 2) + x div 8 then dots ! (8 * (p mod 2) + x mod 8) else ram p x)" for dots
    unfolding draw_cell_def by simp
  with Cons.IH [of "Suc k" "draw_cell k (font ! (unat c - 0x20)) ram"] show ?case
    by (auto simp: Let_def nth_Cons' Suc_le_eq)
qed

lemma print_text:
  assumes dev: "oled_dev B send ol" and "oled_idle (ol s)" "\<not> ol_arg (ol s)" and "k + length cs \<le> 64"
    and "\<And>c. c \<in> set cs \<Longrightarrow> 0x20 \<le> unat c \<and> unat c - 0x20 < length font \<and> length (font ! (unat c - 0x20)) = 16"
  shows "\<exists>s'. OLEDPrint B send font (int (2 * (k div 16))) (int (8 * (k mod 16))) cs s = Some s' \<and>
    ol_on (ol s') = ol_on (ol s) \<and> ol_ram (ol s') = draw_text font k cs (ol_ram (ol s))"
  using assms(2-)
proof (induction cs arbitrary: k s)
  case (Cons c cs)
  have k: "k < 64" using Cons.prems(3) by simp
  obtain s1 where s1: "OLEDPutChar B send font (int (2 * (k div 16))) (int (8 * (k mod 16))) c s = Some s1" "oled_idle (ol s1)"
    "\<not> ol_arg (ol s1)" "ol_on (ol s1) = ol_on (ol s)" "ol_ram (ol s1) = draw_cell k (font ! (unat c - 0x20)) (ol_ram (ol s))"
    using put_char [OF dev Cons.prems(1,2) k, of c font] Cons.prems(4) [of c] by auto
  obtain s2 where s2: "OLEDPrint B send font (int (2 * (Suc k div 16))) (int (8 * (Suc k mod 16))) cs s1 = Some s2"
    "ol_on (ol s2) = ol_on (ol s1)" "ol_ram (ol s2) = draw_text font (Suc k) cs (ol_ram (ol s1))"
    using Cons.IH [OF s1(2,3), of "Suc k"] Cons.prems(3,4) by auto
  have "OLEDPrint B send font (int (2 * (k div 16))) (int (8 * (k mod 16))) (c # cs) s =
      OLEDPrint B send font (int (2 * (Suc k div 16))) (int (8 * (Suc k mod 16))) cs s1"
  proof (cases "Suc k mod 16 = 0")
    case True
    then have "k mod 16 = 15" "Suc k div 16 = Suc (k div 16)" by (auto simp: mod_Suc div_Suc split: if_splits)
    with True s1(1) show ?thesis by (simp add: add.commute)
  next
    case False
    then have "Suc k mod 16 = Suc (k mod 16)" "Suc k div 16 = k div 16" by (auto simp: mod_Suc div_Suc split: if_splits)
    moreover from this have "Suc (k mod 16) < 16" by (metis mod_less_divisor zero_less_numeral)
    ultimately show ?thesis using s1(1) by (simp add: add.commute)
  qed
  with s1 s2 show ?case by simp
qed simp

lemma clear_pages:
  assumes dev: "oled_dev B send ol" and "oled_idle (ol s)" "\<not> ol_arg (ol s)" and "\<forall>p \<in> set ps. p < 8"
  shows "\<exists>s'. oled_clear_pages B send (map int ps) s = Some s' \<and> oled_idle (ol s') \<and> \<not> ol_arg (ol s') \<and>
    (\<forall>p x. x < 128 \<longrightarrow> ol_ram (ol s') p x = (if p \<in> set ps then 0 else ol_ram (ol s) p x))"
  using assms(2-)
proof (induction ps arbitrary: s)
  case (Cons p ps)
  obtain s1 where s1: "OLEDSetPos B send (int p) 0 s = Some s1" "oled_idle (ol s1)" "ol s1 = (ol s)\<lparr>ol_page := p, ol_col := 0\<rparr>"
    using set_pos [OF dev Cons.prems(1,2), of p 0] Cons.prems(3) by auto
  obtain s2 c where s2: "oled_dats B send (replicate 128 0) s1 = Some s2" "oled_idle (ol s2)"
    "ol s2 = (ol s)\<lparr>ol_page := p, ol_ram := (ol_ram (ol s))(p := put_row (ol_ram (ol s) p) 0 (replicate 128 0)), ol_col := c\<rparr>"
    using write_dats [OF dev s1(2), of "replicate 128 0"] s1(3) by (auto simp del: fun_upd_apply)
  have ram: "ol_ram (ol s2) q x = (if q = p then 0 else ol_ram (ol s) q x)" if "x < 128" for q x
    using that s2(3) by (simp add: put_row_def)
  have "\<not> ol_arg (ol s2)" using s2(3) Cons.prems(2) by simp
  then obtain s3 where "oled_clear_pages B send (map int ps) s2 = Some s3" "oled_idle (ol s3)" "\<not> ol_arg (ol s3)"
    "\<forall>p x. x < 128 \<longrightarrow> ol_ram (ol s3) p x = (if p \<in> set ps then 0 else ol_ram (ol s2) p x)"
    using Cons.IH [OF s2(2)] Cons.prems(3) by auto
  then show ?case using s1(1) s2(1) ram by auto
qed simp

lemma oled_clear:
  assumes dev: "oled_dev B send ol" and "oled_idle (ol s)" "\<not> ol_arg (ol s)"
  shows "\<exists>s'. OLEDClear B send s = Some s' \<and> oled_idle (ol s') \<and> \<not> ol_arg (ol s') \<and>
    (\<forall>p x. p < 8 \<longrightarrow> x < 128 \<longrightarrow> ol_ram (ol s') p x = 0)"
proof -
  have "[0, 1, 2, 3, 4, 5, 6, 7] = map int [0..<8]" "\<forall>p \<in> set [0..<8]. p < (8 :: nat)" by (simp_all add: upt_rec)
  with clear_pages [OF assms, of "[0..<8]"] show ?thesis by (auto simp: OLEDClear_def)
qed

lemma oled_init:
  assumes dev: "oled_dev B send ol" and "oled_idle (ol s)" "\<not> ol_arg (ol s)"
  shows "\<exists>s'. OLEDInit B send s = Some s' \<and> oled_idle (ol s') \<and> \<not> ol_arg (ol s') \<and> ol_on (ol s') \<and>
    (\<forall>p x. p < 8 \<longrightarrow> x < 128 \<longrightarrow> ol_ram (ol s') p x = 0)"
proof -
  let ?c = "[0xAE, 0x00, 0x10, 0x40, 0xB0, 0x81, 0x66, 0xA1, 0xA6, 0xA8, 0x3F, 0xC8, 0xD3, 0x00,
            0xD5, 0x80, 0xD9, 0x1f, 0xDA, 0x12, 0xdb, 0x30, 0x8d, 0x14] :: u8 list"
  obtain s1 where s1: "oled_cmds B send ?c s = Some s1" "ol s1 = fold oled_command ?c (ol s)" "oled_idle (ol s1)"
    using write_cmds [OF dev assms(2)] by blast
  have "\<not> ol_arg (ol s1)" using assms(3) by (simp add: s1(2) oled_command_def)
  moreover obtain s2 where s2: "oled_cmds B send [0x20, 0x02] s1 = Some s2" "ol s2 = fold oled_command [0x20, 0x02] (ol s1)"
    "oled_idle (ol s2)"
    using write_cmds [OF dev s1(3)] by blast
  ultimately have "\<not> ol_arg (ol s2)" by (simp add: s2(2) oled_command_def)
  then obtain s3 where s3: "OLEDClear B send s2 = Some s3" "oled_idle (ol s3)" "\<not> ol_arg (ol s3)"
    "\<forall>p x. p < 8 \<longrightarrow> x < 128 \<longrightarrow> ol_ram (ol s3) p x = 0"
    using oled_clear [OF dev s2(3)] by blast
  obtain s4 where s4: "OLEDWriteCmd B send 0xAF s3 = Some s4" "ol s4 = oled_command 0xAF (ol s3)" "oled_idle (ol s4)"
    using write_cmd [OF dev s3(2)] by blast
  have "ol s4 = (ol s3)\<lparr>ol_on := True\<rparr>" using s3(3) by (simp add: s4(2) oled_command_def)
  with s1(1) s2(1) s3 s4(1,3) show ?thesis
    by (simp add: OLEDInit_def OLEDSetPageAddrMode_def del: oled_cmds.simps)
qed


text \<open>
  A display with its two pins: the state is the value of the two port registers and the display; the text is
  two characters that wrap from the first line to the second, with a font of two rows.
\<close>

definition toy_oled_bus :: "((u32 \<Rightarrow> u32) \<times> oled) bus" where
  "toy_oled_bus = \<lparr>
     rd8 = (\<lambda>a (m, d). (0, m, d)), rd16 = (\<lambda>a (m, d). (0, m, d)), rd32 = (\<lambda>a (m, d). (m a, m, d)),
     wr8 = (\<lambda>a v (m, d). (m, d)), wr16 = (\<lambda>a v (m, d). (m, d)),
     wr32 = (\<lambda>a v (m, d). (m(a := v),
        if a = GPGDAT then d\<lparr>ol_dc := bit v 4\<rparr> else if a = GPFDAT then d\<lparr>ol_csn := bit v 1\<rparr> else d))\<rparr>"

definition toy_oled_send :: "u8 \<Rightarrow> (u32 \<Rightarrow> u32) \<times> oled \<Rightarrow> ((u32 \<Rightarrow> u32) \<times> oled) option" where
  "toy_oled_send b = (\<lambda>(m, d). Some (m, oled_byte b d))"

definition toy_oled :: oled where
  "toy_oled = \<lparr>ol_csn = True, ol_dc = True, ol_arg = False, ol_on = False, ol_page = 3, ol_col = 0, ol_ram = (\<lambda>p x. 0xff)\<rparr>"


end
