(* ===== verification/Kernel_Sync.thy ===== *)
theory Kernel_Sync
  imports Jz_Prelude
begin

text \<open>
  What the modelled character devices share of Linux: the error numbers, and the interface of a critical section that is
  guarded by the count of a semaphore.
\<close>

definition ENXIO :: int where "ENXIO = 6"
definition EAGAIN :: int where "EAGAIN = 11"
definition EFAULT :: int where "EFAULT = 14"
definition EBUSY :: int where "EBUSY = 16"
definition ENODEV :: int where "ENODEV = 19"
definition EINVAL :: int where "EINVAL = 22"
definition ERESTARTSYS :: int where "ERESTARTSYS = 512"

section \<open>Counting the members of a list\<close>

abbreviation many :: "('p \<Rightarrow> bool) \<Rightarrow> 'p list \<Rightarrow> nat" where
  "many P ps \<equiv> length (filter P ps)"

lemma many_update: "i < length ps \<Longrightarrow> many P (ps[i := p]) + of_bool (P (ps ! i)) = many P ps + of_bool (P p)"
proof (induction ps arbitrary: i)
  case (Cons q ps)
  then show ?case by (cases i) auto
qed simp

lemma many_pos: "0 < many P ps \<longleftrightarrow> (\<exists>i < length ps. P (ps ! i))"
  by (simp add: filter_empty_conv) (metis in_set_conv_nth)

lemma many_unique:
  assumes "many P ps \<le> 1" "i < length ps" "j < length ps" "P (ps ! i)" "P (ps ! j)"
  shows "i = j"
  using assms
proof (induction ps arbitrary: i j)
  case (Cons q ps)
  have none: False if "P q" "k < length ps" "P (ps ! k)" for k
    using Cons.prems(1) that many_pos [of P ps] by auto
  show ?case
  proof (cases i; cases j)
    fix i' j'
    assume "i = Suc i'" "j = Suc j'"
    then show ?thesis using Cons by (auto split: if_splits)
  qed (use Cons.prems none in auto)
qed simp

section \<open>Critical sections\<close>

text \<open>
  Steps of processes on a shared state with a count. A process that enters its section takes one unit, a process that
  leaves gives one back, and no other step changes the count.
\<close>

locale critical_section =
  fixes step :: "'e \<Rightarrow> 'p \<Rightarrow> 's \<Rightarrow> ('p \<times> 's) option"
    and inside :: "'p \<Rightarrow> bool"
    and units :: "'s \<Rightarrow> nat"
  assumes balance: "step e p s = Some (p', s') \<Longrightarrow> units s' + of_bool (inside p') = units s + of_bool (inside p)"
begin

lemma total_step:
  assumes "i < length ps" "step e (ps ! i) s = Some (p', s')"
  shows "units s' + many inside (ps[i := p']) = units s + many inside ps"
  using balance [OF assms(2)] many_update [OF assms(1), of inside p'] by simp

lemma one_inside:
  assumes "units s + many inside ps = 1" "i < length ps" "j < length ps" "inside (ps ! i)" "inside (ps ! j)"
  shows "i = j"
  using many_unique [of inside ps i j] assms by simp

lemma taken_when_inside:
  assumes "units s + many inside ps = 1" "i < length ps" "inside (ps ! i)"
  shows "units s = 0"
proof -
  have "0 < many inside ps" using assms(2,3) many_pos [of inside ps] by blast
  then show ?thesis using assms(1) by linarith
qed

lemma enters_alone:
  assumes "units s + many inside ps = 1" "i < length ps" "step e (ps ! i) s = Some (p', s')" "\<not> inside (ps ! i)" "inside p'"
    and "j < length ps"
  shows "\<not> inside (ps ! j)"
proof
  assume "inside (ps ! j)"
  then have "units s = 0" using taken_when_inside assms(1,6) by blast
  then show False using balance [OF assms(3)] assms(4,5) by simp
qed

end

end
