(* ===== verification/Memdev.thy ===== *)
theory Memdev
  imports Kernel_Sync
begin

text \<open>
  The character device of \<^verbatim>\<open>memdev_poll.c\<close>: a buffer that is used as a mailbox for one message, with a semaphore and
  two wait queues. Several processes are inside the driver at the same time, so \<^verbatim>\<open>mem_read\<close> and \<^verbatim>\<open>mem_write\<close> are
  programs with a program counter, and an execution interleaves their steps in any order.

  The semaphore is its count. A process that sleeps in a queue or on the semaphore is one whose step is not enabled.
  What the driver does not control is a choice of the step: a signal, or a fault in the user's buffer.
\<close>

section \<open>State\<close>

definition MEMDEV_NR_DEVS :: nat where "MEMDEV_NR_DEVS = 2"
definition MEMDEV_SIZE :: nat where "MEMDEV_SIZE = 4096"

record mem_dev =
  dev_data :: "u8 list"
  dev_size :: nat
  dev_sem :: nat

record mem_sys =
  mem_devp :: "mem_dev list"
  have_data :: bool

record mem_file =
  private_data :: nat
  f_pos :: int
  f_nonblock :: bool

definition up :: "nat \<Rightarrow> mem_sys \<Rightarrow> mem_sys" where
  "up d s = s\<lparr>mem_devp := (mem_devp s)[d := (mem_devp s ! d)\<lparr>dev_sem := Suc (dev_sem (mem_devp s ! d))\<rparr>]\<rparr>"

definition down :: "nat \<Rightarrow> mem_sys \<Rightarrow> mem_sys option" where
  "down d s =
     (if dev_sem (mem_devp s ! d) = 0 then None
      else Some (s\<lparr>mem_devp := (mem_devp s)[d := (mem_devp s ! d)\<lparr>dev_sem := dev_sem (mem_devp s ! d) - 1\<rparr>]\<rparr>))"

section \<open>Operations that do not wait\<close>

definition mem_open :: "nat \<Rightarrow> mem_file \<Rightarrow> int \<times> mem_file" where
  "mem_open num filp = (if num \<ge> MEMDEV_NR_DEVS then (- ENODEV, filp) else (0, filp\<lparr>private_data := num\<rparr>))"

definition mem_release :: "mem_file \<Rightarrow> int" where
  "mem_release filp = 0"

definition mem_llseek :: "mem_file \<Rightarrow> int \<Rightarrow> int \<Rightarrow> int \<times> mem_file" where
  "mem_llseek filp offset whence =
     (let newpos = (if whence = 0 then Some offset
                    else if whence = 1 then Some (f_pos filp + offset)
                    else if whence = 2 then Some (int MEMDEV_SIZE - 1 + offset) else None)
      in case newpos of
           None \<Rightarrow> (- EINVAL, filp)
         | Some newpos \<Rightarrow>
             if newpos < 0 \<or> newpos > int MEMDEV_SIZE then (- EINVAL, filp) else (newpos, filp\<lparr>f_pos := newpos\<rparr>))"

text \<open>The mask of \<^verbatim>\<open>mem_poll\<close>, and \<open>None\<close> while the semaphore is taken.\<close>

datatype poll_event = POLLIN | POLLRDNORM | POLLOUT | POLLWRNORM

definition mem_poll :: "mem_file \<Rightarrow> mem_sys \<Rightarrow> (poll_event set \<times> mem_sys) option" where
  "mem_poll filp s =
     (let d = private_data filp
      in do {
           s \<leftarrow> down d s;
           let mask = {};
           let mask = (if have_data s then mask \<union> {POLLIN, POLLRDNORM} else mask);
           let mask = (if \<not> have_data s then mask \<union> {POLLOUT, POLLWRNORM} else mask);
           Some (mask, up d s) })"

text \<open>The devices after \<^verbatim>\<open>memdev_init\<close> with memory for both.\<close>

definition memdev_init :: mem_sys where
  "memdev_init = \<lparr>mem_devp = replicate MEMDEV_NR_DEVS \<lparr>dev_data = replicate MEMDEV_SIZE 0, dev_size = MEMDEV_SIZE, dev_sem = 1\<rparr>, have_data = False\<rparr>"

section \<open>Reading and writing\<close>

text \<open>
  \<open>Down\<close>: at \<^verbatim>\<open>down_interruptible\<close>. \<open>Test\<close>: at the condition of the loop. \<open>Leave\<close>: at \<^verbatim>\<open>up\<close> in the loop. \<open>Wait\<close>: at
  \<^verbatim>\<open>wait_event_interruptible\<close>. \<open>Copy\<close>: at the copy from or to the user. \<open>Mark r\<close>: at the assignment of
  \<^verbatim>\<open>have_data\<close>. \<open>Last r\<close>: at the last \<^verbatim>\<open>up\<close>. \<open>Done r\<close>: returned.
\<close>

datatype pc = Down | Test | Leave | Wait | Copy | Mark int | Last int | Done int

record mem_call =
  c_dev :: nat
  c_pos :: nat
  c_count :: nat
  c_nonblock :: bool
  c_buf :: "u8 list"
  c_pc :: pc

text \<open>The first part of both functions, up to the semaphore.\<close>

definition mem_enter :: "mem_file \<Rightarrow> nat \<Rightarrow> u8 list \<Rightarrow> mem_call" where
  "mem_enter filp n buf =
     (let p = nat (f_pos filp);
          count = (if n > MEMDEV_SIZE - p then MEMDEV_SIZE - p else n)
      in \<lparr>c_dev = private_data filp, c_pos = p, c_count = count, c_nonblock = f_nonblock filp, c_buf = buf,
          c_pc = (if p \<ge> MEMDEV_SIZE then Done 0 else Down)\<rparr>)"

text \<open>The choices: nothing happens, a signal arrives, or the copy faults and leaves \<open>bs\<close> in the device.\<close>

datatype choice = Go | Signal | Fault "u8 list"

definition mem_read :: "choice \<Rightarrow> mem_call \<Rightarrow> mem_sys \<Rightarrow> (mem_call \<times> mem_sys) option" where
  "mem_read e c s =
     (let d = c_dev c
      in case c_pc c of
           Down \<Rightarrow>
             if e = Signal then Some (c\<lparr>c_pc := Done (- ERESTARTSYS)\<rparr>, s)
             else do { s \<leftarrow> down d s; Some (c\<lparr>c_pc := Test\<rparr>, s) }
         | Test \<Rightarrow> Some (c\<lparr>c_pc := if \<not> have_data s then Leave else Copy\<rparr>, s)
         | Leave \<Rightarrow> Some (c\<lparr>c_pc := if c_nonblock c then Done (- EAGAIN) else Wait\<rparr>, up d s)
         | Wait \<Rightarrow> if have_data s \<or> e = Signal then Some (c\<lparr>c_pc := Down\<rparr>, s) else None
         | Copy \<Rightarrow>
             (case e of
                Fault bs \<Rightarrow> Some (c\<lparr>c_pc := Mark (- EFAULT)\<rparr>, up d s)
              | _ \<Rightarrow> Some (c\<lparr>c_buf := take (c_count c) (drop (c_pos c) (dev_data (mem_devp s ! d))),
                           c_pos := c_pos c + c_count c, c_pc := Mark (int (c_count c))\<rparr>, s))
         | Mark ret \<Rightarrow> Some (c\<lparr>c_pc := Last ret\<rparr>, s\<lparr>have_data := False\<rparr>)
         | Last ret \<Rightarrow> Some (c\<lparr>c_pc := Done ret\<rparr>, up d s)
         | Done ret \<Rightarrow> None)"

definition mem_write :: "choice \<Rightarrow> mem_call \<Rightarrow> mem_sys \<Rightarrow> (mem_call \<times> mem_sys) option" where
  "mem_write e c s =
     (let d = c_dev c
      in case c_pc c of
           Down \<Rightarrow>
             if e = Signal then Some (c\<lparr>c_pc := Done (- ERESTARTSYS)\<rparr>, s)
             else do { s \<leftarrow> down d s; Some (c\<lparr>c_pc := Test\<rparr>, s) }
         | Test \<Rightarrow> Some (c\<lparr>c_pc := if have_data s then Leave else Copy\<rparr>, s)
         | Leave \<Rightarrow> Some (c\<lparr>c_pc := if c_nonblock c then Done (- EAGAIN) else Wait\<rparr>, up d s)
         | Wait \<Rightarrow> if \<not> have_data s \<or> e = Signal then Some (c\<lparr>c_pc := Down\<rparr>, s) else None
         | Copy \<Rightarrow>
             (let store = (\<lambda>bs. s\<lparr>mem_devp := (mem_devp s)[d := (mem_devp s ! d)
                    \<lparr>dev_data := overwrite (dev_data (mem_devp s ! d)) (c_pos c) (take (c_count c) bs)\<rparr>]\<rparr>)
              in case e of
                   Fault bs \<Rightarrow> Some (c\<lparr>c_pc := Mark (- EFAULT)\<rparr>, up d (store bs))
                 | _ \<Rightarrow> Some (c\<lparr>c_pos := c_pos c + c_count c, c_pc := Mark (int (c_count c))\<rparr>, store (c_buf c)))
         | Mark ret \<Rightarrow> Some (c\<lparr>c_pc := Last ret\<rparr>, s\<lparr>have_data := True\<rparr>)
         | Last ret \<Rightarrow> Some (c\<lparr>c_pc := Done ret\<rparr>, up d s)
         | Done ret \<Rightarrow> None)"

section \<open>Executions\<close>

text \<open>
  A process is inside one of the two functions. The history has the transfers between user and device, newest
  first: who, from which position, and the bytes.
\<close>

datatype proc = Reader mem_call | Writer mem_call

datatype transfer = Got nat "u8 list" | Put nat "u8 list"

record mem_run =
  r_sys :: mem_sys
  r_procs :: "proc list"
  r_hist :: "transfer list"

fun proc_step :: "choice \<Rightarrow> proc \<Rightarrow> mem_sys \<Rightarrow> (proc \<times> mem_sys) option" where
  "proc_step e (Reader c) s = map_option (\<lambda>(c, s). (Reader c, s)) (mem_read e c s)"
| "proc_step e (Writer c) s = map_option (\<lambda>(c, s). (Writer c, s)) (mem_write e c s)"

fun call_of :: "proc \<Rightarrow> mem_call" where
  "call_of (Reader c) = c"
| "call_of (Writer c) = c"

text \<open>The transfer that a step makes: it is the copy without a fault.\<close>

fun transfers :: "choice \<Rightarrow> proc \<Rightarrow> mem_sys \<Rightarrow> transfer list" where
  "transfers (Fault bs) p s = []"
| "transfers e (Reader c) s =
     (if c_pc c = Copy then [Got (c_pos c) (take (c_count c) (drop (c_pos c) (dev_data (mem_devp s ! c_dev c))))] else [])"
| "transfers e (Writer c) s = (if c_pc c = Copy then [Put (c_pos c) (take (c_count c) (c_buf c))] else [])"

text \<open>
  One step: a process that has returned calls the driver again, on a file of one of the devices \<open>ds\<close>, or one process
  makes a step. \<open>fl\<close> says whether buffers may fault.
\<close>

inductive mem_step :: "nat set \<Rightarrow> bool \<Rightarrow> mem_run \<Rightarrow> mem_run \<Rightarrow> bool" for ds fl where
  call_read: "i < length (r_procs r) \<Longrightarrow> c_pc (call_of (r_procs r ! i)) = Done ret \<Longrightarrow> private_data filp \<in> ds \<Longrightarrow>
    mem_step ds fl r (r\<lparr>r_procs := (r_procs r)[i := Reader (mem_enter filp n [])]\<rparr>)"
| call_write: "i < length (r_procs r) \<Longrightarrow> c_pc (call_of (r_procs r ! i)) = Done ret \<Longrightarrow> private_data filp \<in> ds \<Longrightarrow>
    length buf = n \<Longrightarrow>
    mem_step ds fl r (r\<lparr>r_procs := (r_procs r)[i := Writer (mem_enter filp n buf)]\<rparr>)"
| run: "i < length (r_procs r) \<Longrightarrow> proc_step e (r_procs r ! i) (r_sys r) = Some (p, s) \<Longrightarrow> (\<forall>bs. e = Fault bs \<longrightarrow> fl) \<Longrightarrow>
    mem_step ds fl r (r\<lparr>r_sys := s, r_procs := (r_procs r)[i := p], r_hist := transfers e (r_procs r ! i) (r_sys r) @ r_hist r\<rparr>)"

text \<open>The start: \<open>n\<close> processes that have returned from earlier calls.\<close>

definition idle_call :: "nat \<Rightarrow> mem_call" where
  "idle_call d = \<lparr>c_dev = d, c_pos = 0, c_count = 0, c_nonblock = False, c_buf = [], c_pc = Done 0\<rparr>"

definition run_init :: "nat \<Rightarrow> nat \<Rightarrow> mem_run" where
  "run_init d n = \<lparr>r_sys = memdev_init, r_procs = replicate n (Reader (idle_call d)), r_hist = []\<rparr>"

inductive mem_reach :: "nat set \<Rightarrow> bool \<Rightarrow> mem_run \<Rightarrow> mem_run \<Rightarrow> bool" for ds fl r where
  start: "mem_reach ds fl r r"
| next_step: "mem_reach ds fl r r' \<Longrightarrow> mem_step ds fl r' r'' \<Longrightarrow> mem_reach ds fl r r''"

section \<open>The invariant\<close>

text \<open>Between the semaphore and its release a process is in its critical section.\<close>

fun in_section :: "pc \<Rightarrow> bool" where
  "in_section Down = False"
| "in_section Wait = False"
| "in_section (Done r) = False"
| "in_section pc = True"

definition inside :: "proc \<Rightarrow> bool" where
  "inside p \<longleftrightarrow> in_section (c_pc (call_of p))"

text \<open>The history of a mailbox: the contents after it, and that every read takes what the write before it left.\<close>

fun contents :: "transfer list \<Rightarrow> u8 list" where
  "contents [] = replicate MEMDEV_SIZE 0"
| "contents (Got p bs # h) = contents h"
| "contents (Put p bs # h) = overwrite (contents h) p bs"

fun full :: "transfer list \<Rightarrow> bool" where
  "full [] = False"
| "full (Got p bs # h) = False"
| "full (Put p bs # h) = True"

fun mailbox :: "transfer list \<Rightarrow> bool" where
  "mailbox [] = True"
| "mailbox (Got p bs # h) = (mailbox h \<and> full h \<and> bs = take (length bs) (drop p (contents h)) \<and> p + length bs \<le> MEMDEV_SIZE)"
| "mailbox (Put p bs # h) = (mailbox h \<and> \<not> full h \<and> p + length bs \<le> MEMDEV_SIZE)"

text \<open>What a call keeps of its arguments, and what the holder of the semaphore knows about the flag.\<close>

fun before_copy :: "pc \<Rightarrow> bool" where
  "before_copy (Mark r) = False"
| "before_copy (Last r) = False"
| "before_copy (Done r) = False"
| "before_copy pc = True"

fun call_ok :: "nat \<Rightarrow> proc \<Rightarrow> bool" where
  "call_ok d (Reader c) = (c_dev c = d \<and> (before_copy (c_pc c) \<longrightarrow> c_pos c + c_count c \<le> MEMDEV_SIZE))"
| "call_ok d (Writer c) = (c_dev c = d \<and> (before_copy (c_pc c) \<longrightarrow> c_pos c + c_count c \<le> MEMDEV_SIZE \<and> c_count c \<le> length (c_buf c)))"

fun is_reader :: "proc \<Rightarrow> bool" where
  "is_reader (Reader c) = True"
| "is_reader (Writer c) = False"

definition flag_ok :: "proc \<Rightarrow> bool \<Rightarrow> bool \<Rightarrow> bool" where
  "flag_ok p flag put_last =
     (case c_pc (call_of p) of
        Copy \<Rightarrow> flag = is_reader p \<and> put_last = flag
      | Mark r \<Rightarrow> flag = is_reader p \<and> put_last \<noteq> flag
      | _ \<Rightarrow> put_last = flag)"

definition status :: "nat option \<Rightarrow> proc list \<Rightarrow> bool \<Rightarrow> bool \<Rightarrow> bool" where
  "status who ps flag put_last = (case who of None \<Rightarrow> put_last = flag | Some j \<Rightarrow> flag_ok (ps ! j) flag put_last)"

definition mem_inv :: "nat \<Rightarrow> nat option \<Rightarrow> mem_run \<Rightarrow> bool" where
  "mem_inv d who r \<longleftrightarrow>
     d < length (mem_devp (r_sys r)) \<and>
     (\<forall>j < length (r_procs r). call_ok d (r_procs r ! j) \<and> (inside (r_procs r ! j) \<longleftrightarrow> who = Some j)) \<and>
     (\<forall>j. who = Some j \<longrightarrow> j < length (r_procs r)) \<and>
     dev_sem (mem_devp (r_sys r) ! d) = (if who = None then 1 else 0) \<and>
     status who (r_procs r) (have_data (r_sys r)) (full (r_hist r)) \<and>
     mailbox (r_hist r) \<and> contents (r_hist r) = dev_data (mem_devp (r_sys r) ! d)"

lemma mem_inv_init: "d < MEMDEV_NR_DEVS \<Longrightarrow> mem_inv d None (run_init d n)"
  by (simp add: mem_inv_def run_init_def memdev_init_def idle_call_def inside_def status_def)

lemma mem_inv_update:
  assumes "mem_inv d who r" "i < length (r_procs r)" "call_ok d p" "d < length (mem_devp s)"
    and "inside p \<longleftrightarrow> who' = Some i" "\<And>j. j \<noteq> i \<Longrightarrow> who = Some j \<longleftrightarrow> who' = Some j"
    and "dev_sem (mem_devp s ! d) = (if who' = None then 1 else 0)"
    and "status who' ((r_procs r)[i := p]) (have_data s) (full h)"
    and "mailbox h" "contents h = dev_data (mem_devp s ! d)"
  shows "mem_inv d who' (r\<lparr>r_sys := s, r_procs := (r_procs r)[i := p], r_hist := h\<rparr>)"
proof -
  have "call_ok d ((r_procs r)[i := p] ! j) \<and> (inside ((r_procs r)[i := p] ! j) \<longleftrightarrow> who' = Some j)"
    if "j < length (r_procs r)" for j
    using assms(1,3,5,6) that by (cases "j = i") (simp_all add: mem_inv_def)
  moreover have "j < length (r_procs r)" if "who' = Some j" for j
    using that assms(1,2) assms(6) [of j] by (cases "j = i") (simp_all add: mem_inv_def)
  ultimately show ?thesis using assms(4,7-10) by (simp add: mem_inv_def)
qed

text \<open>A step outside the critical section that changes nothing but the process.\<close>

lemma mem_inv_outside:
  assumes inv: "mem_inv d who r" and i: "i < length (r_procs r)" and p: "call_ok d p" "\<not> inside p" "\<not> inside (r_procs r ! i)"
  shows "mem_inv d who (r\<lparr>r_procs := (r_procs r)[i := p]\<rparr>)"
proof -
  have who: "who \<noteq> Some i" using inv i p(3) by (simp add: mem_inv_def)
  have "status who ((r_procs r)[i := p]) (have_data (r_sys r)) (full (r_hist r))"
    using inv who by (auto simp: mem_inv_def status_def split: option.splits)
  then show ?thesis
    using mem_inv_update [OF inv i p(1), of "r_sys r" who "r_hist r"] inv who p(2) by (simp add: mem_inv_def)
qed

text \<open>The process takes the semaphore; it is inside; it leaves.\<close>

lemma mem_inv_take:
  assumes inv: "mem_inv d who r" and i: "i < length (r_procs r)" and p: "call_ok d p" "inside p" "\<not> inside (r_procs r ! i)"
    and s: "down d (r_sys r) = Some s" and f: "\<And>flag. flag_ok p flag flag"
  shows "mem_inv d (Some i) (r\<lparr>r_sys := s, r_procs := (r_procs r)[i := p]\<rparr>)"
proof -
  have who: "who = None" using inv s by (auto simp: mem_inv_def down_def split: if_splits)
  have st: "full (r_hist r) = have_data (r_sys r)" using inv who by (simp add: mem_inv_def status_def)
  show ?thesis
    using mem_inv_update [OF inv i p(1), of s "Some i" "r_hist r"] inv who p(2) i f st s
    by (auto simp: mem_inv_def down_def status_def split: if_splits)
qed

lemma mem_inv_inside:
  assumes inv: "mem_inv d who r" and i: "i < length (r_procs r)" and p: "call_ok d p" "inside p" "inside (r_procs r ! i)"
    and s: "d < length (mem_devp s)" "dev_sem (mem_devp s ! d) = dev_sem (mem_devp (r_sys r) ! d)"
    and f: "flag_ok (r_procs r ! i) (have_data (r_sys r)) (full (r_hist r)) \<Longrightarrow> flag_ok p (have_data s) (full h)"
    and h: "flag_ok (r_procs r ! i) (have_data (r_sys r)) (full (r_hist r)) \<Longrightarrow> mailbox h \<and> contents h = dev_data (mem_devp s ! d)"
  shows "mem_inv d who (r\<lparr>r_sys := s, r_procs := (r_procs r)[i := p], r_hist := h\<rparr>)"
proof -
  have who: "who = Some i" using inv i p(3) by (simp add: mem_inv_def)
  then have "flag_ok (r_procs r ! i) (have_data (r_sys r)) (full (r_hist r))" using inv by (simp add: mem_inv_def status_def)
  note f = f [OF this] and h = h [OF this]
  have "status who ((r_procs r)[i := p]) (have_data s) (full h)" using f who i by (simp add: status_def)
  moreover have "dev_sem (mem_devp s ! d) = (if who = None then 1 else 0)" using inv s(2) by (simp add: mem_inv_def)
  ultimately show ?thesis
    by (intro mem_inv_update [OF inv i p(1) s(1)]) (simp_all add: who p(2) h)
qed

lemma mem_inv_release:
  assumes inv: "mem_inv d who r" and i: "i < length (r_procs r)" and p: "call_ok d p" "\<not> inside p" "inside (r_procs r ! i)"
    and f: "\<And>flag put_last. flag_ok (r_procs r ! i) flag put_last \<Longrightarrow> put_last = flag"
  shows "mem_inv d None (r\<lparr>r_sys := up d (r_sys r), r_procs := (r_procs r)[i := p]\<rparr>)"
proof -
  have who: "who = Some i" using inv i p(3) by (simp add: mem_inv_def)
  have "full (r_hist r) = have_data (r_sys r)" using inv who by (intro f) (simp add: mem_inv_def status_def)
  then show ?thesis
    using mem_inv_update [OF inv i p(1), of "up d (r_sys r)" None "r_hist r"] inv who p(2)
    by (simp add: mem_inv_def up_def status_def)
qed

section \<open>Every step keeps the invariant\<close>

lemma transfers_none: "c_pc (call_of p) \<noteq> Copy \<Longrightarrow> transfers e p s = []"
  by (cases e; cases p) simp_all

lemma contents_length: "mailbox h \<Longrightarrow> length (contents h) = MEMDEV_SIZE"
  by (induction h rule: contents.induct) (auto simp: overwrite_def)

text \<open>The steps that both functions have.\<close>

lemma mem_inv_common:
  assumes inv: "mem_inv d who r" and i: "i < length (r_procs r)" and c: "call_of (r_procs r ! i) = c"
    and same: "is_reader p = is_reader (r_procs r ! i)" "call_of p = c\<lparr>c_pc := pc\<rparr>"
    and step: "c_pc c = Down \<and> (s = r_sys r \<and> pc = Done res \<or> down d (r_sys r) = Some s \<and> pc = Test) \<or>
      c_pc c = Test \<and> s = r_sys r \<and> pc = (if have_data (r_sys r) = is_reader p then Copy else Leave) \<or>
      c_pc c = Leave \<and> s = up d (r_sys r) \<and> pc \<in> {Done res, Wait} \<or>
      c_pc c = Wait \<and> s = r_sys r \<and> pc = Down \<or>
      c_pc c = Mark res \<and> s = r_sys r\<lparr>have_data := \<not> is_reader p\<rparr> \<and> pc = Last res \<or>
      c_pc c = Last res \<and> s = up d (r_sys r) \<and> pc = Done res"
  shows "\<exists>who'. mem_inv d who' (r\<lparr>r_sys := s, r_procs := (r_procs r)[i := p], r_hist := transfers e (r_procs r ! i) (r_sys r) @ r_hist r\<rparr>)"
proof -
  let ?q = "r_procs r ! i"
  have ok: "call_ok d p"
    using inv i c same step by (cases p; cases ?q; auto simp: mem_inv_def)
  have tr: "transfers e ?q (r_sys r) = []" using step c by (intro transfers_none) auto
  have d: "d < length (mem_devp (r_sys r))" and mb: "mailbox (r_hist r)" "contents (r_hist r) = dev_data (mem_devp (r_sys r) ! d)"
    using inv by (simp_all add: mem_inv_def)
  note defs = inside_def flag_ok_def same c
  consider (take) "c_pc c = Down" "down d (r_sys r) = Some s" "pc = Test"
    | (out) "c_pc c \<in> {Down, Wait}" "s = r_sys r" "pc \<in> {Done res, Down}"
    | (test) "c_pc c = Test" "s = r_sys r" "pc = (if have_data (r_sys r) = is_reader p then Copy else Leave)"
    | (mark) "c_pc c = Mark res" "s = r_sys r\<lparr>have_data := \<not> is_reader p\<rparr>" "pc = Last res"
    | (release) "c_pc c \<in> {Leave, Last res}" "s = up d (r_sys r)" "pc \<in> {Done res, Wait}"
    using step by auto
  then show ?thesis
  proof cases
    case take
    have "mem_inv d (Some i) (r\<lparr>r_sys := s, r_procs := (r_procs r)[i := p]\<rparr>)"
      by (rule mem_inv_take [OF inv i ok _ _ take(2)]) (simp_all add: defs take)
    then show ?thesis by (intro exI [of _ "Some i"]) (simp add: tr)
  next
    case out
    have "mem_inv d who (r\<lparr>r_procs := (r_procs r)[i := p]\<rparr>)"
      by (rule mem_inv_outside [OF inv i ok]) (use out in \<open>auto simp: defs\<close>)
    then show ?thesis by (intro exI [of _ who]) (simp add: tr out(2))
  next
    case test
    have "mem_inv d who (r\<lparr>r_sys := r_sys r, r_procs := (r_procs r)[i := p], r_hist := r_hist r\<rparr>)"
      by (rule mem_inv_inside [OF inv i ok]) (use test d mb in \<open>auto simp: defs\<close>)
    then show ?thesis unfolding tr append_Nil test(2) by blast
  next
    case mark
    have "mem_inv d who (r\<lparr>r_sys := r_sys r\<lparr>have_data := \<not> is_reader p\<rparr>, r_procs := (r_procs r)[i := p], r_hist := r_hist r\<rparr>)"
      by (rule mem_inv_inside [OF inv i ok]) (use mark d mb in \<open>auto simp: defs\<close>)
    then show ?thesis unfolding tr append_Nil mark(2) by blast
  next
    case release
    have "mem_inv d None (r\<lparr>r_sys := up d (r_sys r), r_procs := (r_procs r)[i := p]\<rparr>)"
      by (rule mem_inv_release [OF inv i ok]) (use release in \<open>auto simp: defs\<close>)
    then show ?thesis by (intro exI [of _ None]) (simp add: tr release(2))
  qed
qed

lemma mem_inv_read:
  assumes inv: "mem_inv d who r" and i: "i < length (r_procs r)" and q: "r_procs r ! i = Reader c"
    and step: "mem_read e c (r_sys r) = Some (c', s)" and e: "\<And>bs. e \<noteq> Fault bs"
  shows "\<exists>who'. mem_inv d who' (r\<lparr>r_sys := s, r_procs := (r_procs r)[i := Reader c'], r_hist := transfers e (r_procs r ! i) (r_sys r) @ r_hist r\<rparr>)"
proof (cases "c_pc c = Copy")
  case False
  have cd: "c_dev c = d" using inv i q by (auto simp: mem_inv_def)
  have "\<exists>res. c_pc c = Down \<and> (s = r_sys r \<and> c_pc c' = Done res \<or> down d (r_sys r) = Some s \<and> c_pc c' = Test) \<or>
      c_pc c = Test \<and> s = r_sys r \<and> c_pc c' = (if have_data (r_sys r) = is_reader (Reader c') then Copy else Leave) \<or>
      c_pc c = Leave \<and> s = up d (r_sys r) \<and> c_pc c' \<in> {Done res, Wait} \<or>
      c_pc c = Wait \<and> s = r_sys r \<and> c_pc c' = Down \<or>
      c_pc c = Mark res \<and> s = r_sys r\<lparr>have_data := \<not> is_reader (Reader c')\<rparr> \<and> c_pc c' = Last res \<or>
      c_pc c = Last res \<and> s = up d (r_sys r) \<and> c_pc c' = Done res"
    using step False cd by (cases "c_pc c") (auto simp: mem_read_def Let_def split: if_splits Option.bind_splits)
  moreover have "c' = c\<lparr>c_pc := c_pc c'\<rparr>"
    using step False by (cases "c_pc c") (auto simp: mem_read_def Let_def split: if_splits Option.bind_splits)
  ultimately show ?thesis
    using q by (elim exE, intro mem_inv_common [OF inv i, of c "Reader c'" "c_pc c'"]) simp_all
next
  case True
  let ?D = "mem_devp (r_sys r) ! d"
  have c: "c_dev c = d" "c_pos c + c_count c \<le> MEMDEV_SIZE" using inv i q True by (auto simp: mem_inv_def)
  have mb: "mailbox (r_hist r)" "contents (r_hist r) = dev_data ?D" "d < length (mem_devp (r_sys r))" using inv by (simp_all add: mem_inv_def)
  have len: "length (dev_data ?D) = MEMDEV_SIZE" using contents_length [OF mb(1)] mb(2) by simp
  let ?bs = "take (c_count c) (drop (c_pos c) (dev_data ?D))"
  have n: "length ?bs = c_count c" using len c(2) by simp
  have s: "s = r_sys r" "c_pc c' = Mark (int (c_count c))" "c_dev c' = d"
    using step True e c(1) by (auto simp: mem_read_def split: choice.splits)
  have tr: "transfers e (r_procs r ! i) (r_sys r) = [Got (c_pos c) ?bs]" using q True e c(1) by (cases e) auto
  have "mem_inv d who (r\<lparr>r_sys := r_sys r, r_procs := (r_procs r)[i := Reader c'], r_hist := Got (c_pos c) ?bs # r_hist r\<rparr>)"
    by (rule mem_inv_inside [OF inv i]) (use q s True mb n c(2) in \<open>auto simp: inside_def flag_ok_def\<close>)
  then show ?thesis unfolding tr s(1) by auto
qed

lemma mem_inv_write:
  assumes inv: "mem_inv d who r" and i: "i < length (r_procs r)" and q: "r_procs r ! i = Writer c"
    and step: "mem_write e c (r_sys r) = Some (c', s)" and e: "\<And>bs. e \<noteq> Fault bs"
  shows "\<exists>who'. mem_inv d who' (r\<lparr>r_sys := s, r_procs := (r_procs r)[i := Writer c'], r_hist := transfers e (r_procs r ! i) (r_sys r) @ r_hist r\<rparr>)"
proof (cases "c_pc c = Copy")
  case False
  have cd: "c_dev c = d" using inv i q by (auto simp: mem_inv_def)
  have "\<exists>res. c_pc c = Down \<and> (s = r_sys r \<and> c_pc c' = Done res \<or> down d (r_sys r) = Some s \<and> c_pc c' = Test) \<or>
      c_pc c = Test \<and> s = r_sys r \<and> c_pc c' = (if have_data (r_sys r) = is_reader (Writer c') then Copy else Leave) \<or>
      c_pc c = Leave \<and> s = up d (r_sys r) \<and> c_pc c' \<in> {Done res, Wait} \<or>
      c_pc c = Wait \<and> s = r_sys r \<and> c_pc c' = Down \<or>
      c_pc c = Mark res \<and> s = r_sys r\<lparr>have_data := \<not> is_reader (Writer c')\<rparr> \<and> c_pc c' = Last res \<or>
      c_pc c = Last res \<and> s = up d (r_sys r) \<and> c_pc c' = Done res"
    using step False cd by (cases "c_pc c") (auto simp: mem_write_def Let_def split: if_splits Option.bind_splits)
  moreover have "c' = c\<lparr>c_pc := c_pc c'\<rparr>"
    using step False by (cases "c_pc c") (auto simp: mem_write_def Let_def split: if_splits Option.bind_splits)
  ultimately show ?thesis
    using q by (elim exE, intro mem_inv_common [OF inv i, of c "Writer c'" "c_pc c'"]) simp_all
next
  case True
  let ?D = "mem_devp (r_sys r) ! d"
  have c: "c_dev c = d" "c_pos c + c_count c \<le> MEMDEV_SIZE" "c_count c \<le> length (c_buf c)"
    using inv i q True by (auto simp: mem_inv_def)
  have mb: "mailbox (r_hist r)" "contents (r_hist r) = dev_data ?D" "d < length (mem_devp (r_sys r))" using inv by (simp_all add: mem_inv_def)
  let ?bs = "take (c_count c) (c_buf c)"
  have s: "s = r_sys r\<lparr>mem_devp := (mem_devp (r_sys r))[d := ?D\<lparr>dev_data := overwrite (dev_data ?D) (c_pos c) ?bs\<rparr>]\<rparr>"
    "c_pc c' = Mark (int (c_count c))" "c_dev c' = d"
    using step True e c(1) by (auto simp: mem_write_def split: choice.splits)
  have tr: "transfers e (r_procs r ! i) (r_sys r) = [Put (c_pos c) ?bs]" using q True e by (cases e) auto
  have "mem_inv d who (r\<lparr>r_sys := s, r_procs := (r_procs r)[i := Writer c'], r_hist := Put (c_pos c) ?bs # r_hist r\<rparr>)"
    by (rule mem_inv_inside [OF inv i]) (use q s True mb c in \<open>auto simp: inside_def flag_ok_def min_def\<close>)
  then show ?thesis unfolding tr by auto
qed

lemma mem_enter_ok:
  assumes "private_data filp = d"
  shows "call_ok d (Reader (mem_enter filp n buf))" "length buf = n \<Longrightarrow> call_ok d (Writer (mem_enter filp n buf))"
    "\<not> in_section (c_pc (mem_enter filp n buf))"
  using assms by (auto simp: mem_enter_def Let_def)

lemma mem_inv_step:
  assumes "mem_step {d} False r r'" "mem_inv d who r"
  shows "\<exists>who'. mem_inv d who' r'"
  using assms(1)
proof cases
  case (call_read i ret filp n)
  have "mem_inv d who (r\<lparr>r_procs := (r_procs r)[i := Reader (mem_enter filp n [])]\<rparr>)"
    by (rule mem_inv_outside [OF assms(2) call_read(2)]) (use call_read mem_enter_ok [of filp d] in \<open>auto simp: inside_def\<close>)
  with call_read(1) show ?thesis by blast
next
  case (call_write i ret filp buf n)
  have "mem_inv d who (r\<lparr>r_procs := (r_procs r)[i := Writer (mem_enter filp n buf)]\<rparr>)"
    by (rule mem_inv_outside [OF assms(2) call_write(2)]) (use call_write mem_enter_ok [of filp d] in \<open>auto simp: inside_def\<close>)
  with call_write(1) show ?thesis by blast
next
  case (run i e p s)
  have e: "e \<noteq> Fault bs" for bs using run(4) by auto
  show ?thesis
  proof (cases "r_procs r ! i")
    case (Reader c)
    with run(3) obtain c' where "p = Reader c'" "mem_read e c (r_sys r) = Some (c', s)" by auto
    with mem_inv_read [OF assms(2) run(2) Reader _ e] run(1) show ?thesis by simp
  next
    case (Writer c)
    with run(3) obtain c' where "p = Writer c'" "mem_write e c (r_sys r) = Some (c', s)" by auto
    with mem_inv_write [OF assms(2) run(2) Writer _ e] run(1) show ?thesis by simp
  qed
qed

lemma mem_inv_reach:
  assumes "mem_reach {d} False (run_init d n) r" "d < MEMDEV_NR_DEVS"
  shows "\<exists>who. mem_inv d who r"
  using assms(1)
proof (induction rule: mem_reach.induct)
  case start
  then show ?case using mem_inv_init [OF assms(2)] by blast
next
  case (next_step r' r'')
  then show ?case using mem_inv_step by blast
qed

section \<open>The mailbox\<close>

lemma mailbox_suffix: "mailbox (h1 @ h2) \<Longrightarrow> mailbox h2"
  by (induction h1 rule: mailbox.induct) auto

lemma mailbox_delivers:
  assumes "mailbox (h1 @ Got p bs # Put p bs' # h2)" "length bs = length bs'"
  shows "bs = bs'"
proof -
  have m: "mailbox (Got p bs # Put p bs' # h2)" using assms(1) by (rule mailbox_suffix)
  then have "bs = take (length bs) (drop p (overwrite (contents h2) p bs'))" by simp
  also have "\<dots> = bs'" using m contents_length [of h2] assms(2) by (simp add: overwrite_read)
  finally show ?thesis .
qed



section \<open>Executions from scripts\<close>

text \<open>A script says which process does what: a call on a file, or a step.\<close>

datatype action = Call_read mem_file nat | Call_write mem_file "u8 list" | Act choice

fun do_action :: "nat \<Rightarrow> action \<Rightarrow> mem_run \<Rightarrow> mem_run option" where
  "do_action i (Call_read filp n) r =
     (case c_pc (call_of (r_procs r ! i)) of
        Done ret \<Rightarrow> Some (r\<lparr>r_procs := (r_procs r)[i := Reader (mem_enter filp n [])]\<rparr>) | _ \<Rightarrow> None)"
| "do_action i (Call_write filp buf) r =
     (case c_pc (call_of (r_procs r ! i)) of
        Done ret \<Rightarrow> Some (r\<lparr>r_procs := (r_procs r)[i := Writer (mem_enter filp (length buf) buf)]\<rparr>) | _ \<Rightarrow> None)"
| "do_action i (Act e) r =
     (case proc_step e (r_procs r ! i) (r_sys r) of
        None \<Rightarrow> None
      | Some (p, s) \<Rightarrow> Some (r\<lparr>r_sys := s, r_procs := (r_procs r)[i := p], r_hist := transfers e (r_procs r ! i) (r_sys r) @ r_hist r\<rparr>))"

fun do_script :: "(nat \<times> action) list \<Rightarrow> mem_run \<Rightarrow> mem_run option" where
  "do_script [] r = Some r"
| "do_script ((i, a) # as) r = (if i < length (r_procs r) then do { r \<leftarrow> do_action i a r; do_script as r } else None)"

fun action_ok :: "nat set \<Rightarrow> bool \<Rightarrow> action \<Rightarrow> bool" where
  "action_ok ds fl (Call_read filp n) = (private_data filp \<in> ds)"
| "action_ok ds fl (Call_write filp buf) = (private_data filp \<in> ds)"
| "action_ok ds fl (Act e) = (\<forall>bs. e = Fault bs \<longrightarrow> fl)"

lemma do_action_step:
  assumes "i < length (r_procs r)" "do_action i a r = Some r'" "action_ok ds fl a"
  shows "mem_step ds fl r r'"
  using assms
  by (cases a)
    (auto split: pc.splits option.splits intro!: mem_step.intros)

lemma do_script_reach:
  assumes "do_script as r = Some r'" "\<forall>(i, a) \<in> set as. action_ok ds fl a" "mem_reach ds fl r0 r"
  shows "mem_reach ds fl r0 r'"
  using assms
proof (induction as arbitrary: r)
  case Nil
  then show ?case by simp
next
  case (Cons x as)
  obtain i a where x: "x = (i, a)" by fastforce
  from Cons.prems(1) x obtain r1 where r1: "i < length (r_procs r)" "do_action i a r = Some r1" "do_script as r1 = Some r'"
    by (auto split: if_splits Option.bind_splits)
  have "mem_step ds fl r r1" using r1 Cons.prems(2) x by (intro do_action_step) auto
  then have "mem_reach ds fl r0 r1" using Cons.prems(3) by (rule mem_reach.next_step [rotated])
  with Cons.IH [OF r1(3)] Cons.prems(2) show ?case by simp
qed

definition demo_file :: mem_file where
  "demo_file = \<lparr>private_data = 0, f_pos = 0, f_nonblock = False\<rparr>"

lemma demo_enter:
  "mem_enter demo_file (Suc 0) buf = \<lparr>c_dev = 0, c_pos = 0, c_count = 1, c_nonblock = False, c_buf = buf, c_pc = Down\<rparr>"
  by (simp add: mem_enter_def demo_file_def MEMDEV_SIZE_def)

lemmas script_simps = run_init_def memdev_init_def idle_call_def demo_enter mem_read_def mem_write_def up_def down_def
  MEMDEV_NR_DEVS_def overwrite_def numeral_2_eq_2 numeral_3_eq_3 Let_def

text \<open>One process writes a byte, and another one reads it.\<close>

definition demo_exchange :: "(nat \<times> action) list" where
  "demo_exchange = (0, Call_write demo_file [5]) # map (\<lambda>_. (0, Act Go)) [0..<5] @
     (1, Call_read demo_file 1) # map (\<lambda>_. (1, Act Go)) [0..<5]"

lemma demo_exchange_run:
  "\<exists>r. do_script demo_exchange (run_init 0 2) = Some r \<and> r_hist r = [Got 0 [5], Put 0 [5]]"
  by (simp add: demo_exchange_def script_simps upt_rec)



text \<open>
  C40. A fault breaks the exclusion. On \<^verbatim>\<open>-EFAULT\<close> both functions release the semaphore twice: after one faulting write
  it lets two processes in, and a writer and a reader copy at the same time.
\<close>

theorem memdev_fault_breaks_exclusion:
  "\<exists>r c1 c2. mem_reach {0} True (run_init 0 3) r \<and> r_procs r ! 1 = Writer c1 \<and> c_pc c1 = Copy \<and>
     r_procs r ! 2 = Reader c2 \<and> c_pc c2 = Copy"
proof -
  let ?as = "[(0, Call_write demo_file [5]), (0, Act Go), (0, Act Go), (0, Act (Fault [])),
     (1, Call_write demo_file [6]), (1, Act Go), (1, Act Go), (0, Act Go), (0, Act Go),
     (2, Call_read demo_file 1), (2, Act Go), (2, Act Go)]"
  have "\<exists>r c1 c2. do_script ?as (run_init 0 3) = Some r \<and> r_procs r ! 1 = Writer c1 \<and> c_pc c1 = Copy \<and>
      r_procs r ! 2 = Reader c2 \<and> c_pc c2 = Copy"
    by (simp add: script_simps)
  then obtain r c1 c2 where r: "do_script ?as (run_init 0 3) = Some r" "r_procs r ! 1 = Writer c1" "c_pc c1 = Copy"
    "r_procs r ! 2 = Reader c2" "c_pc c2 = Copy" by blast
  have "mem_reach {0} True (run_init 0 3) r"
    by (rule do_script_reach [OF r(1) _ mem_reach.start]) (auto simp: demo_file_def)
  with r(2-) show ?thesis by blast
qed

text \<open>
  The flag is one variable for both devices: a message for device 0 wakes a reader of device 1, which returns the
  zeros of its own buffer and takes the message away.
\<close>

lemma memdev_flag_shared:
  "\<exists>r. mem_reach {0, 1} False (run_init 0 2) r \<and> r_hist r = [Got 0 [0], Put 0 [5]] \<and> \<not> have_data (r_sys r)"
proof -
  let ?f1 = "\<lparr>private_data = Suc 0, f_pos = 0, f_nonblock = False\<rparr>"
  have f1: "mem_enter ?f1 (Suc 0) buf = \<lparr>c_dev = Suc 0, c_pos = 0, c_count = 1, c_nonblock = False, c_buf = buf, c_pc = Down\<rparr>" for buf
    by (simp add: mem_enter_def MEMDEV_SIZE_def)
  have z: "min (Suc 0) MEMDEV_SIZE = Suc 0" by (simp add: MEMDEV_SIZE_def)
  let ?as = "[(0, Call_write demo_file [5]), (0, Act Go), (0, Act Go), (0, Act Go), (0, Act Go), (0, Act Go),
     (1, Call_read ?f1 1), (1, Act Go), (1, Act Go), (1, Act Go), (1, Act Go)]"
  have "\<exists>r. do_script ?as (run_init 0 2) = Some r \<and> r_hist r = [Got 0 [0], Put 0 [5]] \<and> \<not> have_data (r_sys r)"
    by (simp add: script_simps f1 z)
  then obtain r where r: "do_script ?as (run_init 0 2) = Some r" "r_hist r = [Got 0 [0], Put 0 [5]]" "\<not> have_data (r_sys r)"
    by blast
  have "mem_reach {0, 1} False (run_init 0 2) r"
    by (rule do_script_reach [OF r(1) _ mem_reach.start]) (auto simp: demo_file_def)
  with r show ?thesis by blast
qed

section \<open>Seeking and polling\<close>

text \<open>A position that \<^verbatim>\<open>mem_llseek\<close> accepts is within the device, and on an error the file keeps its own.\<close>

lemma mem_llseek_bounds:
  assumes "mem_llseek filp offset whence = (res, filp')"
  shows "0 \<le> res \<and> res \<le> int MEMDEV_SIZE \<and> f_pos filp' = res \<or> res = - EINVAL \<and> filp' = filp"
  using assms by (auto simp: mem_llseek_def Let_def split: option.splits if_splits)

lemma mem_poll_mask:
  assumes "private_data filp < length (mem_devp s)" "mem_poll filp s = Some (ev, s')"
  shows "s' = s" "POLLIN \<in> ev \<longleftrightarrow> have_data s" "POLLOUT \<in> ev \<longleftrightarrow> \<not> have_data s"
  using assms by (auto simp: mem_poll_def down_def up_def Let_def split: if_splits)

end
