(* ===== verification/Inet_Csum.thy ===== *)
theory Inet_Csum
  imports Jz_Prelude
begin

text \<open>
  The Internet checksum of Linux on ARM, \<^verbatim>\<open>csum_fold\<close> and \<^verbatim>\<open>ip_fast_csum\<close> of \<^verbatim>\<open>asm-arm/checksum.h\<close>, translated
  instruction by instruction with the carry flag, and the sum of RFC 1071 that they compute.

  The kernel serves loads from addresses that are not aligned, so a load here takes any offset. The bytes are those
  from the header to the end of the packet; \<open>None\<close> is a load behind them.
\<close>

section \<open>Instructions\<close>

definition le16 :: "u8 list \<Rightarrow> nat \<Rightarrow> u16" where
  "le16 bs a = of_nat (unat (bs ! a) + 2 ^ 8 * unat (bs ! (a + 1)))"

definition le32 :: "u8 list \<Rightarrow> nat \<Rightarrow> u32" where
  "le32 bs a = of_nat (unat (bs ! a) + 2 ^ 8 * unat (bs ! (a + 1)) + 2 ^ 16 * unat (bs ! (a + 2)) + 2 ^ 24 * unat (bs ! (a + 3)))"

definition ldr :: "u8 list \<Rightarrow> nat \<Rightarrow> u32 option" where
  "ldr bs a = (if a + 4 \<le> length bs then Some (le32 bs a) else None)"

text \<open>The sum and the carry out.\<close>

definition adcs :: "bool \<Rightarrow> u32 \<Rightarrow> u32 \<Rightarrow> u32 \<times> bool" where
  "adcs c x y = (x + y + of_bool c, 2 ^ 32 \<le> unat x + unat y + of_bool c)"

definition adds :: "u32 \<Rightarrow> u32 \<Rightarrow> u32 \<times> bool" where
  "adds x y = adcs False x y"

definition ror :: "u32 \<Rightarrow> nat \<Rightarrow> u32" where
  "ror x n = drop_bit n x OR push_bit (32 - n) x"

lemma and_15: "unat (n AND 15 :: u32) = unat n mod 16"
  using and_mask_unat [of n 4] by (simp add: mask_eq_exp_minus_1)

lemma and_15_dec: "n AND 15 \<noteq> (0 :: u32) \<Longrightarrow> Suc (unat ((n - 1) AND 15)) = unat (n AND 15)"
proof -
  assume "n AND 15 \<noteq> 0"
  then have k: "unat n mod 16 \<noteq> 0" by (metis and_15 unat_eq_zero)
  then obtain m where m: "unat n = Suc m" by (cases "unat n") auto
  then have "unat (n - 1) = m" by (metis diff_Suc_1 nat.simps(3) unat_eq_zero unat_minus_one)
  then show ?thesis using k m by (simp add: and_15 mod_Suc split: if_splits)
qed

section \<open>The checksum\<close>

definition csum_fold :: "u32 \<Rightarrow> u16" where
  "csum_fold wsum = (let wsum = wsum + ror wsum 16 in ucast (drop_bit 16 (NOT wsum)))"

text \<open>From the label on: \<open>a\<close> is the pointer, \<open>n\<close> the counter.\<close>

function ip_fast_csum_loop :: "u8 list \<Rightarrow> nat \<Rightarrow> u32 \<Rightarrow> u32 \<Rightarrow> bool \<Rightarrow> u32 \<Rightarrow> u32 option" where
  "ip_fast_csum_loop bs a n wsum c tmp1 =
     (let (wsum, c) = adcs c wsum tmp1
      in case ldr bs a of
           None \<Rightarrow> None
         | Some tmp1 \<Rightarrow>
             if n AND 15 \<noteq> 0 then ip_fast_csum_loop bs (a + 4) (n - 1) wsum c tmp1
             else (let (wsum, c) = adcs c wsum tmp1 in Some (wsum + 0 + of_bool c)))"
  by pat_completeness auto

termination by (relation "measure (\<lambda>(bs, a, n, _). unat (n AND 15))") (auto dest: and_15_dec)

declare ip_fast_csum_loop.simps [simp del]

definition ip_fast_csum :: "u8 list \<Rightarrow> u32 \<Rightarrow> u16 option" where
  "ip_fast_csum iph ihl =
     do {
       wsum \<leftarrow> ldr iph 0;
       tmp1 \<leftarrow> ldr iph 4;
       let ihl = ihl - 5;
       let (wsum, c) = adds wsum tmp1;
       tmp1 \<leftarrow> ldr iph 8;
       let (wsum, c) = adcs c wsum tmp1;
       tmp1 \<leftarrow> ldr iph 12;
       wsum \<leftarrow> ip_fast_csum_loop iph 16 ihl wsum c tmp1;
       Some (csum_fold wsum) }"

section \<open>The sum of RFC 1071\<close>

text \<open>The halfwords in the order of the machine; an odd byte at the end is padded.\<close>

fun halfwords :: "u8 list \<Rightarrow> u16 list" where
  "halfwords [] = []"
| "halfwords [x] = [ucast x]"
| "halfwords (x # y # bs) = of_nat (unat x + 2 ^ 8 * unat y) # halfwords bs"

definition oc_add :: "u16 \<Rightarrow> u16 \<Rightarrow> u16" where
  "oc_add x y = (let t = unat x + unat y in of_nat (t mod 2 ^ 16 + t div 2 ^ 16))"

definition rfc1071 :: "u8 list \<Rightarrow> u16" where
  "rfc1071 bs = NOT (foldl oc_add 0 (halfwords bs))"

section \<open>Addition with end-around carry\<close>

text \<open>Ones' complement: the residue of \<open>n\<close>, where a positive number is never represented by zero.\<close>

definition ones :: "nat \<Rightarrow> nat \<Rightarrow> nat" where
  "ones M n = (if n = 0 then 0 else Suc ((n - 1) mod M))"

lemma ones_le: "0 < M \<Longrightarrow> ones M n \<le> M"
  by (simp add: ones_def Suc_le_eq)

lemma ones_0_iff [simp]: "ones M n = 0 \<longleftrightarrow> n = 0"
  by (simp add: ones_def)

lemma ones_small: "n \<le> M \<Longrightarrow> ones M n = n"
  by (cases n) (auto simp: ones_def)

lemma ones_mod: "ones M n mod M = n mod M"
  by (cases n) (simp_all add: ones_def mod_Suc_eq)

lemma ones_cong:
  assumes "m mod M = n mod M" "m = 0 \<longleftrightarrow> n = 0"
  shows "ones M m = ones M n"
proof (cases n)
  case 0
  then show ?thesis using assms by (simp add: ones_def)
next
  case (Suc n')
  then obtain m' where "m = Suc m'" using assms by (cases m) auto
  then show ?thesis using assms(1) Suc by (simp add: ones_def mod_Suc split: if_splits)
qed

lemma ones_absorb: "ones M (ones M m + n) = ones M (m + n)"
proof (rule ones_cong)
  show "(ones M m + n) mod M = (m + n) mod M" by (rule mod_add_cong) (simp_all add: ones_mod)
qed simp

lemma ones_dvd: "M dvd N \<Longrightarrow> ones M (ones N n) = ones M n"
proof (rule ones_cong)
  assume "M dvd N"
  then show "ones N n mod M = n mod M" by (metis mod_mod_cancel ones_mod)
qed simp

lemma ones_reduce: "t \<le> 2 * M \<Longrightarrow> M < t \<Longrightarrow> ones M t = t - M"
  by (cases t) (simp_all add: ones_def le_mod_geq)

text \<open>An accumulator and its pending carry.\<close>

definition acc :: "u32 \<Rightarrow> bool \<Rightarrow> nat" where
  "acc wsum c = unat wsum + of_bool c"

lemma adcs_ones:
  assumes "adcs c x y = (s, c')" "acc x c \<le> 2 ^ 32 - 1"
  shows "acc s c' = ones (2 ^ 32 - 1) (acc x c + unat y)"
proof -
  let ?t = "acc x c + unat y"
  have st: "s = of_nat ?t" and c': "c' = (2 ^ 32 \<le> ?t)" using assms(1) by (auto simp: adcs_def acc_def)
  have s: "unat s = ?t mod 2 ^ 32" unfolding st unat_of_nat by simp
  have "unat y < 2 ^ 32" using unat_less [of y] by simp
  then have t: "?t \<le> 2 * (2 ^ 32 - 1)" using assms(2) by linarith
  show ?thesis
  proof (cases "?t < 2 ^ 32")
    case True
    then show ?thesis using s c' by (simp add: acc_def ones_small)
  next
    case False
    then have "unat s = ?t - 2 ^ 32" using s t by (simp add: le_mod_geq)
    moreover have "ones (2 ^ 32 - 1) ?t = ?t - (2 ^ 32 - 1)" using False t by (intro ones_reduce) simp_all
    moreover have "acc s c' = Suc (unat s)" using c' False by (simp add: acc_def)
    ultimately show ?thesis using False by simp
  qed
qed

lemma oc_add_ones: "unat (oc_add x y) = ones (2 ^ 16 - 1) (unat x + unat y)"
proof -
  let ?t = "unat x + unat y"
  have t: "?t \<le> 2 * (2 ^ 16 - 1)" using unat_less [of x] unat_less [of y] by simp
  have e: "?t mod 2 ^ 16 + ?t div 2 ^ 16 = ones (2 ^ 16 - 1) ?t"
  proof (cases "?t < 2 ^ 16")
    case True
    then show ?thesis by (simp add: ones_small)
  next
    case False
    then have "?t div 2 ^ 16 = 1" "?t mod 2 ^ 16 = ?t - 2 ^ 16"
      using t by (simp_all add: le_mod_geq div_nat_eqI)
    moreover have "ones (2 ^ 16 - 1) ?t = ?t - (2 ^ 16 - 1)" using False t by (intro ones_reduce) simp_all
    ultimately show ?thesis using False by simp
  qed
  have "ones (2 ^ 16 - 1) ?t < 2 ^ 16" using ones_le [of "2 ^ 16 - 1" ?t] by simp
  moreover have "oc_add x y = of_nat (ones (2 ^ 16 - 1) ?t)" by (simp only: oc_add_def Let_def e)
  ultimately show ?thesis by (simp add: unat_of_nat)
qed

lemma foldl_oc_add: "unat (foldl oc_add x hs) = ones (2 ^ 16 - 1) (unat x + sum_list (map unat hs))"
proof (induction hs arbitrary: x)
  case Nil
  then show ?case using unat_less [of x] by (simp add: ones_small)
next
  case (Cons h hs)
  then show ?case by (simp add: oc_add_ones ones_absorb add.assoc)
qed

lemma unat_NOT16: "unat (NOT x :: u16) = 2 ^ 16 - 1 - unat x"
proof -
  have "NOT x = - 1 - x" by (simp add: not_eq_complement)
  then show ?thesis by (simp add: unat_sub word_order.extremum unsigned_minus_1_eq_mask mask_eq_exp_minus_1)
qed

lemma rfc1071_ones: "unat (rfc1071 bs) = 2 ^ 16 - 1 - ones (2 ^ 16 - 1) (sum_list (map unat (halfwords bs)))"
  by (simp only: rfc1071_def unat_NOT16 foldl_oc_add) simp

lemma unat_le16: "unat (le16 bs a) = unat (bs ! a) + 2 ^ 8 * unat (bs ! (a + 1))"
  using unat_less [of "bs ! a"] unat_less [of "bs ! (a + 1)"] by (simp add: le16_def unat_of_nat del: of_nat_add of_nat_mult)

lemma unat_le32: "unat (le32 bs a) = unat (le16 bs a) + 2 ^ 16 * unat (le16 bs (a + 2))"
  using unat_less [of "bs ! a"] unat_less [of "bs ! (a + 1)"] unat_less [of "bs ! (a + 2)"] unat_less [of "bs ! (a + 3)"]
  by (simp add: le32_def unat_le16 unat_of_nat numeral_3_eq_3 del: of_nat_add of_nat_mult)

section \<open>The fold\<close>

lemma unat_ror16: "unat (ror x 16) = unat x mod 2 ^ 16 * 2 ^ 16 + unat x div 2 ^ 16"
proof -
  have "ror x 16 = drop_bit 16 x + push_bit 16 x"
    unfolding ror_def by (subst disjunctive_add) (auto simp: bit_simps dest: bit_imp_le_length)
  moreover have "unat (drop_bit 16 x) = unat x div 2 ^ 16" by (simp add: unat_shift_right)
  moreover have "unat (push_bit 16 x) = unat x mod 2 ^ 16 * 2 ^ 16"
    using mod_mult_mult2 [of "unat x" "2 ^ 16" "2 ^ 16"] by (simp add: push_bit_eq_mult unat_word_ariths)
  moreover have "unat x div 2 ^ 16 < 2 ^ 16" using unat_less [of x] by simp
  ultimately show ?thesis by (simp add: unat_word_ariths)
qed

lemma fold_arith:
  assumes "hi < 2 ^ 16" "lo < (2 ^ 16 :: nat)"
  shows "((hi + lo) * 2 ^ 16 + (hi + lo)) mod 2 ^ 32 div 2 ^ 16 = ones (2 ^ 16 - 1) (hi + lo)"
proof (cases "hi + lo < 2 ^ 16")
  case True
  then show ?thesis by (simp add: ones_small)
next
  case False
  then obtain u where u: "hi + lo = 2 ^ 16 + u" using le_Suc_ex not_less by blast
  then have "u \<le> 2 ^ 16 - 2" using assms by simp
  moreover have "ones (2 ^ 16 - 1) (2 ^ 16 + u) = Suc u" using ones_reduce [of "2 ^ 16 + u" "2 ^ 16 - 1"] calculation by simp
  moreover have "(2 ^ 16 + u) * 2 ^ 16 + (2 ^ 16 + u) = 2 ^ 32 + (Suc u * 2 ^ 16 + u)" by simp
  moreover have "(Suc u * 2 ^ 16 + u) div 2 ^ 16 = Suc u" using calculation(1) by simp
  moreover have "Suc u * 2 ^ 16 + u < 2 ^ 32" using calculation(1) by simp
  ultimately show ?thesis unfolding u by (simp only: mod_add_self1 mod_less)
qed

lemma ones_halves: "ones (2 ^ 16 - 1) (m + 2 ^ 16 * n) = ones (2 ^ 16 - 1) (m + n)"
proof (rule ones_cong)
  have "m + 2 ^ 16 * n = (m + n) + n * (2 ^ 16 - 1)" by simp
  then show "(m + 2 ^ 16 * n) mod (2 ^ 16 - 1) = (m + n) mod (2 ^ 16 - 1)" by (metis mod_mult_self1)
qed simp

lemma unat_high_NOT: "unat (ucast (drop_bit 16 (NOT x :: u32)) :: u16) = 2 ^ 16 - 1 - unat x div 2 ^ 16"
proof -
  have "(ucast (drop_bit 16 (NOT x)) :: u16) = NOT (ucast (drop_bit 16 x))"
    by (rule bit_eqI) (auto simp: bit_simps)
  moreover have "unat (ucast (drop_bit 16 x) :: u16) = unat x div 2 ^ 16"
    using unat_less [of x] by (simp add: unsigned_ucast_eq take_bit_eq_mod unat_shift_right)
  ultimately show ?thesis by (simp only: unat_NOT16)
qed

lemma csum_fold_ones: "unat (csum_fold wsum) = 2 ^ 16 - 1 - ones (2 ^ 16 - 1) (unat wsum)"
proof -
  define hi lo where "hi = unat wsum div 2 ^ 16" and "lo = unat wsum mod 2 ^ 16"
  have w: "unat wsum = lo + 2 ^ 16 * hi" by (simp add: hi_def lo_def)
  have b: "hi < 2 ^ 16" "lo < 2 ^ 16" using unat_less [of wsum] by (simp_all add: hi_def lo_def)
  have "unat (wsum + ror wsum 16) = (unat wsum + unat (ror wsum 16)) mod 2 ^ 32" by (simp add: unat_word_ariths)
  also have "unat wsum + unat (ror wsum 16) = (hi + lo) * 2 ^ 16 + (hi + lo)"
    unfolding unat_ror16 hi_def [symmetric] lo_def [symmetric] using w by simp
  finally have "unat (wsum + ror wsum 16) div 2 ^ 16 = ones (2 ^ 16 - 1) (hi + lo)" using fold_arith [OF b] by simp
  then show ?thesis
    using ones_halves [of lo hi] by (simp only: csum_fold_def Let_def unat_high_NOT w add.commute [of lo hi])
qed

section \<open>The loop\<close>

lemma loop_ones:
  assumes "a + 4 * Suc (unat (n AND 15)) \<le> length bs" "acc wsum c \<le> 2 ^ 32 - 1"
  shows "\<exists>r. ip_fast_csum_loop bs a n wsum c tmp1 = Some r \<and>
    unat r = ones (2 ^ 32 - 1) (acc wsum c + unat tmp1 + (\<Sum>i < Suc (unat (n AND 15)). unat (le32 bs (a + 4 * i))))"
  using assms
proof (induction bs a n wsum c tmp1 rule: ip_fast_csum_loop.induct)
  case (1 bs a n wsum c tmp1)
  obtain s c' where s: "adcs c wsum tmp1 = (s, c')" by force
  have v: "acc s c' = ones (2 ^ 32 - 1) (acc wsum c + unat tmp1)" using adcs_ones [OF s] 1(3) by simp
  then have le: "acc s c' \<le> 2 ^ 32 - 1" using ones_le by simp
  have l: "ldr bs a = Some (le32 bs a)" using 1(2) by (simp add: ldr_def)
  show ?case
  proof (cases "n AND 15 = 0")
    case True
    obtain s' c'' where s': "adcs c' s (le32 bs a) = (s', c'')" by force
    have v': "acc s' c'' = ones (2 ^ 32 - 1) (acc s c' + unat (le32 bs a))" using adcs_ones [OF s' le] .
    then have "acc s' c'' < 2 ^ 32" using ones_le [of "2 ^ 32 - 1" "acc s c' + unat (le32 bs a)"] by simp
    then have "unat (s' + of_bool c'') = acc s' c''" by (cases c'') (simp_all add: acc_def unat_word_ariths)
    then show ?thesis
      using True l s s' by (subst ip_fast_csum_loop.simps) (simp add: v' v ones_absorb)
  next
    case False
    have k: "Suc (unat ((n - 1) AND 15)) = unat (n AND 15)" by (rule and_15_dec [OF False])
    have "\<exists>r. ip_fast_csum_loop bs (a + 4) (n - 1) s c' (le32 bs a) = Some r \<and>
      unat r = ones (2 ^ 32 - 1) (acc s c' + unat (le32 bs a) + (\<Sum>i < unat (n AND 15). unat (le32 bs (a + 4 + 4 * i))))"
      using 1(1) [OF s [symmetric] refl l False] 1(2) le k by simp
    then show ?thesis
      using False l s
      by (subst ip_fast_csum_loop.simps)
        (simp add: v ones_absorb sum.lessThan_Suc_shift add.assoc del: sum.lessThan_Suc)
  qed
qed

lemma ip_fast_csum_ones:
  assumes "4 * unat ihl \<le> length bs" "5 \<le> unat ihl" "unat ihl \<le> 15"
  shows "\<exists>r. ip_fast_csum bs ihl = Some r \<and>
    unat r = 2 ^ 16 - 1 - ones (2 ^ 16 - 1) (\<Sum>i < unat ihl. unat (le32 bs (4 * i)))"
proof -
  let ?w = "\<lambda>i. le32 bs (4 * i)"
  have n: "unat (ihl - 5) = unat ihl - 5" using assms(2) by (simp add: unat_sub word_le_nat_alt)
  then have k: "Suc (unat ((ihl - 5) AND 15)) = unat ihl - 4" using assms by (simp add: and_15)
  obtain s1 c1 where s1: "adds (?w 0) (?w 1) = (s1, c1)" by force
  have v1: "acc s1 c1 = ones (2 ^ 32 - 1) (unat (?w 0) + unat (?w 1))"
    using adcs_ones [of False "?w 0" "?w 1"] s1 unat_less [of "?w 0"] by (simp add: adds_def acc_def)
  obtain s2 c2 where s2: "adcs c1 s1 (?w 2) = (s2, c2)" by force
  have v2: "acc s2 c2 = ones (2 ^ 32 - 1) (unat (?w 0) + unat (?w 1) + unat (?w 2))"
    using adcs_ones [OF s2] ones_le [of "2 ^ 32 - 1"] by (simp add: v1 ones_absorb)
  have "16 + 4 * (unat ihl - 4) \<le> length bs" "acc s2 c2 \<le> 2 ^ 32 - 1" using assms v2 ones_le [of "2 ^ 32 - 1"] by simp_all
  then obtain r where r: "ip_fast_csum_loop bs 16 (ihl - 5) s2 c2 (?w 3) = Some r"
      "unat r = ones (2 ^ 32 - 1) (acc s2 c2 + unat (?w 3) + (\<Sum>i < unat ihl - 4. unat (le32 bs (16 + 4 * i))))"
    using loop_ones [of 16 "ihl - 5" bs s2 c2 "?w 3", unfolded k] by blast
  have "(\<Sum>i < unat ihl. unat (?w i)) = (\<Sum>i < Suc (Suc (Suc (Suc (unat ihl - 4)))). unat (?w i))"
    using assms(2) by (intro arg_cong [where f = "\<lambda>n. sum _ {..<n}"]) linarith
  also have "\<dots> = unat (?w 0) + unat (?w 1) + unat (?w 2) + unat (?w 3) + (\<Sum>i < unat ihl - 4. unat (le32 bs (16 + 4 * i)))"
    by (simp add: sum.lessThan_Suc_shift add.assoc del: sum.lessThan_Suc)
  finally have "unat r = ones (2 ^ 32 - 1) (\<Sum>i < unat ihl. unat (?w i))"
    using r(2) by (simp add: v2 ones_absorb add.assoc)
  moreover have "2 ^ 16 - 1 dvd (2 ^ 32 - 1 :: nat)" by simp
  ultimately have "ones (2 ^ 16 - 1) (unat r) = ones (2 ^ 16 - 1) (\<Sum>i < unat ihl. unat (?w i))"
    by (simp only: ones_dvd)
  then show ?thesis
    using s1 s2 r(1) assms by (simp add: ip_fast_csum_def ldr_def csum_fold_ones)
qed

section \<open>The checksum of a header\<close>

lemma halfwords_append: "even (length xs) \<Longrightarrow> halfwords (xs @ ys) = halfwords xs @ halfwords ys"
  by (induction xs rule: halfwords.induct) auto

lemma take_four: "a + 4 \<le> length bs \<Longrightarrow> take (a + 4) bs = take a bs @ [bs ! a, bs ! (a + 1), bs ! (a + 2), bs ! (a + 3)]"
  by (simp add: take_Suc_conv_app_nth numeral_eq_Suc)

lemma halfwords_take:
  "4 * Suc n \<le> length bs \<Longrightarrow>
    halfwords (take (4 * Suc n) bs) = halfwords (take (4 * n) bs) @ [le16 bs (4 * n), le16 bs (4 * n + 2)]"
  using take_four [of "4 * n" bs] by (simp add: halfwords_append le16_def numeral_3_eq_3 add.commute)

lemma ones_words:
  "4 * n \<le> length bs \<Longrightarrow>
    ones (2 ^ 16 - 1) (\<Sum>i < n. unat (le32 bs (4 * i))) = ones (2 ^ 16 - 1) (sum_list (map unat (halfwords (take (4 * n) bs))))"
proof (induction n)
  case (Suc n)
  let ?A = "\<Sum>i < n. unat (le32 bs (4 * i))" and ?B = "sum_list (map unat (halfwords (take (4 * n) bs)))"
  let ?l = "unat (le16 bs (4 * n))" and ?h = "unat (le16 bs (4 * n + 2))"
  have "ones (2 ^ 16 - 1) (?A + (?l + 2 ^ 16 * ?h)) = ones (2 ^ 16 - 1) (ones (2 ^ 16 - 1) ?A + ?l + ?h)"
    by (simp only: add.assoc [symmetric] ones_halves) (simp only: add.assoc ones_absorb)
  also have "ones (2 ^ 16 - 1) ?A = ones (2 ^ 16 - 1) ?B" using Suc by simp
  also have "ones (2 ^ 16 - 1) (ones (2 ^ 16 - 1) ?B + ?l + ?h) = ones (2 ^ 16 - 1) (?B + ?l + ?h)"
    by (simp only: add.assoc ones_absorb)
  finally show ?case by (simp only: halfwords_take [OF Suc.prems] sum.lessThan_Suc unat_le32) (simp add: add.assoc)
qed simp

text \<open>A header into which its checksum has been stored has the checksum zero.\<close>

lemma le16_bytes:
  assumes "a + 2 \<le> length bs"
  shows "le16 (overwrite bs a [ucast c, ucast (drop_bit 8 c)]) a = c"
proof -
  have "unat (ucast c :: u8) = unat c mod 2 ^ 8" by (simp add: unsigned_ucast_eq take_bit_eq_mod)
  moreover have "unat (ucast (drop_bit 8 c) :: u8) = unat c div 2 ^ 8"
    using unat_less [of c] by (simp add: unsigned_ucast_eq take_bit_eq_mod unat_shift_right)
  ultimately have "unat (le16 (overwrite bs a [ucast c, ucast (drop_bit 8 c)]) a) = unat c"
    using assms by (simp add: unat_le16 nth_overwrite)
  then show ?thesis by (simp add: word_unat_eq_iff)
qed

lemma le16_overwrite_other:
  "p + length xs \<le> length bs \<Longrightarrow> a + 2 \<le> p \<or> p + length xs \<le> a \<Longrightarrow> le16 (overwrite bs p xs) a = le16 bs a"
  by (auto simp: le16_def nth_overwrite)

lemma sum_with_checksum:
  assumes "2 < n" "4 * n \<le> length bs" "bs ! 10 = 0" "bs ! 11 = 0"
  shows "(\<Sum>i < n. unat (le32 (overwrite bs 10 [ucast c, ucast (drop_bit 8 c)]) (4 * i))) =
    (\<Sum>i < n. unat (le32 bs (4 * i))) + 2 ^ 16 * unat (c :: u16)"
proof -
  let ?o = "overwrite bs 10 [ucast c, ucast (drop_bit 8 c)]"
  have "unat (le32 ?o (4 * i)) = unat (le32 bs (4 * i)) + (if i = 2 then 2 ^ 16 * unat c else 0)" if "i < n" for i
  proof (cases "i = 2")
    case True
    have "le16 bs 10 = 0" using assms(3,4) by (simp add: le16_def)
    then show ?thesis
      using True assms by (simp add: unat_le32 le16_bytes le16_overwrite_other)
  next
    case False
    then have "4 * i + 4 \<le> 8 \<or> 12 \<le> 4 * i" by auto
    then show ?thesis using False assms(1,2) that by (auto simp: unat_le32 le16_overwrite_other)
  qed
  then show ?thesis using assms(1) by (simp add: sum.distrib)
qed

lemma checksum_verifies:
  assumes l: "4 * unat ihl \<le> length bs" "5 \<le> unat ihl" "unat ihl \<le> 15" and z: "bs ! 10 = 0" "bs ! 11 = 0"
    and c: "ip_fast_csum bs ihl = Some c"
  shows "ip_fast_csum (overwrite bs 10 [ucast c, ucast (drop_bit 8 c)]) ihl = Some 0"
proof -
  let ?o = "overwrite bs 10 [ucast c, ucast (drop_bit 8 c)]" and ?S = "\<Sum>i < unat ihl. unat (le32 bs (4 * i))"
  have "unat c + ones (2 ^ 16 - 1) ?S = 2 ^ 16 - 1"
    using ip_fast_csum_ones [OF l] c ones_le [of "2 ^ 16 - 1" ?S] by auto
  then have "ones (2 ^ 16 - 1) (?S + unat c) = 2 ^ 16 - 1"
    using ones_absorb [of "2 ^ 16 - 1" ?S "unat c"] by (simp add: ones_small add.commute)
  then have "ones (2 ^ 16 - 1) (\<Sum>i < unat ihl. unat (le32 ?o (4 * i))) = 2 ^ 16 - 1"
    using sum_with_checksum [OF _ l(1) z] l(2) by (simp only: ones_halves)
  moreover have "4 * unat ihl \<le> length ?o" using l by simp
  ultimately show ?thesis using ip_fast_csum_ones [OF _ l(2,3), of ?o] by (auto simp: unat_eq_zero)
qed

text \<open>
  C17. On a header of 5 to 15 words that is there, the assembly routine of the kernel returns, without a load behind the
  header, the checksum of RFC 1071 of exactly that header.
\<close>

theorem ip_fast_csum_rfc1071:
  assumes "4 * unat ihl \<le> length iph" "5 \<le> unat ihl" "unat ihl \<le> 15"
  shows "ip_fast_csum iph ihl = Some (rfc1071 (take (4 * unat ihl) iph))"
proof -
  obtain r where "ip_fast_csum iph ihl = Some r" "unat r = unat (rfc1071 (take (4 * unat ihl) iph))"
    using ip_fast_csum_ones [OF assms] ones_words [OF assms(1)] rfc1071_ones by auto
  then show ?thesis by (simp add: word_unat_eq_iff)
qed

theorem ip_fast_csum_rfc1071_witness:
  "ip_fast_csum [0x45, 0, 0, 0x73, 0, 0, 0x40, 0, 0x40, 0x11, 0, 0, 0xc0, 0xa8, 0, 1, 0xc0, 0xa8, 0, 0xc7] 5 = Some 0x61b8"
  using ip_fast_csum_rfc1071 [of 5 "[0x45, 0, 0, 0x73, 0, 0, 0x40, 0, 0x40, 0x11, 0, 0, 0xc0, 0xa8, 0, 1, 0xc0, 0xa8, 0, 0xc7]"]
  by (simp add: rfc1071_def oc_add_def Let_def)

end
