(* ===== verification/Virt_Net.thy ===== *)
theory Virt_Net
  imports Inet_Csum
begin

text \<open>
  The network card of \<^verbatim>\<open>16th_virt_net/4th/virt_net.c\<close>, which has no hardware: it answers every packet itself, with the
  addresses exchanged, as if the other side had replied to a ping. Modelled with it is what Linux does to a packet on
  the way: the buffers of \<^verbatim>\<open>skbuff.h\<close>, the Ethernet header of \<^verbatim>\<open>eth.c\<close>, and the checks of \<^verbatim>\<open>ip_rcv\<close>.

  \<open>None\<close> is a crash of the kernel: a null pointer, a buffer overrun, or an access behind the packet.
\<close>

section \<open>Socket buffers\<close>

datatype pkt_type = PACKET_HOST | PACKET_BROADCAST | PACKET_MULTICAST | PACKET_OTHERHOST

datatype ip_summed = CHECKSUM_NONE | CHECKSUM_UNNECESSARY | CHECKSUM_COMPLETE | CHECKSUM_PARTIAL

text \<open>\<open>skb_mem\<close> are the bytes from \<^verbatim>\<open>head\<close> to \<^verbatim>\<open>end\<close>; \<open>skb_data\<close> and \<open>skb_tail\<close> are offsets into them. There is one device.\<close>

record sk_buff =
  skb_mem :: "u8 list"
  skb_data :: nat
  skb_tail :: nat
  skb_len :: nat
  skb_dev :: bool
  skb_pkt_type :: pkt_type
  skb_ip_summed :: ip_summed
  skb_protocol :: u16

definition skb_bytes :: "sk_buff \<Rightarrow> u8 list" where
  "skb_bytes skb = take (skb_len skb) (drop (skb_data skb) (skb_mem skb))"

definition skb_store :: "nat \<Rightarrow> u8 list \<Rightarrow> sk_buff \<Rightarrow> sk_buff" where
  "skb_store p bs skb = skb\<lparr>skb_mem := overwrite (skb_mem skb) p bs\<rparr>"

definition SMP_CACHE_BYTES :: nat where "SMP_CACHE_BYTES = 2 ^ 5"
definition NET_SKB_PAD :: nat where "NET_SKB_PAD = 16"

definition SKB_DATA_ALIGN :: "nat \<Rightarrow> nat" where
  "SKB_DATA_ALIGN n = (n + (SMP_CACHE_BYTES - 1)) div SMP_CACHE_BYTES * SMP_CACHE_BYTES"

text \<open>\<open>kmalloc n\<close> is what the allocator returns: a block with any contents, or nothing.\<close>

definition alloc_skb :: "(nat \<Rightarrow> u8 list option) \<Rightarrow> nat \<Rightarrow> sk_buff option" where
  "alloc_skb kmalloc n =
     map_option (\<lambda>m. \<lparr>skb_mem = m, skb_data = 0, skb_tail = 0, skb_len = 0, skb_dev = False, skb_pkt_type = PACKET_HOST,
       skb_ip_summed = CHECKSUM_NONE, skb_protocol = 0\<rparr>) (kmalloc (SKB_DATA_ALIGN n))"

definition skb_reserve :: "sk_buff \<Rightarrow> nat \<Rightarrow> sk_buff" where
  "skb_reserve skb n = skb\<lparr>skb_data := skb_data skb + n, skb_tail := skb_tail skb + n\<rparr>"

definition dev_alloc_skb :: "(nat \<Rightarrow> u8 list option) \<Rightarrow> nat \<Rightarrow> sk_buff option" where
  "dev_alloc_skb kmalloc n = map_option (\<lambda>skb. skb_reserve skb NET_SKB_PAD) (alloc_skb kmalloc (n + NET_SKB_PAD))"

text \<open>Both return the place of the new bytes.\<close>

definition skb_put :: "sk_buff \<Rightarrow> nat \<Rightarrow> (nat \<times> sk_buff) option" where
  "skb_put skb n =
     (let tmp = skb_tail skb; skb = skb\<lparr>skb_tail := skb_tail skb + n, skb_len := skb_len skb + n\<rparr>
      in if skb_tail skb > length (skb_mem skb) then None else Some (tmp, skb))"

definition skb_push :: "sk_buff \<Rightarrow> nat \<Rightarrow> (nat \<times> sk_buff) option" where
  "skb_push skb n =
     (if skb_data skb < n then None
      else Some (skb_data skb - n, skb\<lparr>skb_data := skb_data skb - n, skb_len := skb_len skb + n\<rparr>))"

definition skb_pull :: "sk_buff \<Rightarrow> nat \<Rightarrow> sk_buff" where
  "skb_pull skb n = (if n > skb_len skb then skb else skb\<lparr>skb_data := skb_data skb + n, skb_len := skb_len skb - n\<rparr>)"

definition pskb_may_pull :: "sk_buff \<Rightarrow> nat \<Rightarrow> bool" where
  "pskb_may_pull skb n \<longleftrightarrow> n \<le> skb_len skb"

definition pskb_trim_rcsum :: "sk_buff \<Rightarrow> nat \<Rightarrow> sk_buff" where
  "pskb_trim_rcsum skb n =
     (if n \<ge> skb_len skb then skb
      else (let skb = (if skb_ip_summed skb = CHECKSUM_COMPLETE then skb\<lparr>skb_ip_summed := CHECKSUM_NONE\<rparr> else skb)
            in skb\<lparr>skb_len := n, skb_tail := skb_data skb + n\<rparr>))"

section \<open>The device\<close>

record net_stats =
  rx_packets :: u32
  tx_packets :: u32
  rx_bytes :: u32
  tx_bytes :: u32

text \<open>\<open>dev_xoff\<close> is the bit that stops the queue.\<close>

record net_device =
  dev_addr :: "u8 list"
  dev_broadcast :: "u8 list"
  dev_addr_len :: nat
  dev_flags :: u32
  dev_features :: u32
  dev_xoff :: bool
  dev_stats :: net_stats

definition ETH_ALEN :: nat where "ETH_ALEN = 6"
definition ETH_HLEN :: nat where "ETH_HLEN = 14"
definition ETH_P_802_3 :: u16 where "ETH_P_802_3 = 1"
definition ETH_P_802_2 :: u16 where "ETH_P_802_2 = 4"
definition ETH_P_IP :: u16 where "ETH_P_IP = 0x0800"
definition IFF_BROADCAST :: u32 where "IFF_BROADCAST = 0x2"
definition IFF_LOOPBACK :: u32 where "IFF_LOOPBACK = 0x8"
definition IFF_NOARP :: u32 where "IFF_NOARP = 0x80"
definition IFF_MULTICAST :: u32 where "IFF_MULTICAST = 0x1000"
definition NETIF_F_NO_CSUM :: u32 where "NETIF_F_NO_CSUM = 4"

text \<open>The fields that are read here; the memory of the device is cleared when it is allocated.\<close>

definition ether_setup :: "net_device \<Rightarrow> net_device" where
  "ether_setup dev = dev\<lparr>dev_addr_len := ETH_ALEN, dev_flags := IFF_BROADCAST OR IFF_MULTICAST, dev_broadcast := replicate ETH_ALEN 0xFF\<rparr>"

definition alloc_netdev :: "(net_device \<Rightarrow> net_device) \<Rightarrow> net_device" where
  "alloc_netdev setup = setup \<lparr>dev_addr = replicate ETH_ALEN 0, dev_broadcast = replicate ETH_ALEN 0, dev_addr_len = 0, dev_flags = 0,
     dev_features = 0, dev_xoff = False, dev_stats = \<lparr>rx_packets = 0, tx_packets = 0, rx_bytes = 0, tx_bytes = 0\<rparr>\<rparr>"

definition netif_stop_queue :: "net_device \<Rightarrow> net_device" where
  "netif_stop_queue dev = dev\<lparr>dev_xoff := True\<rparr>"

definition netif_wake_queue :: "net_device \<Rightarrow> net_device" where
  "netif_wake_queue dev = dev\<lparr>dev_xoff := False\<rparr>"

section \<open>The Ethernet header\<close>

definition htons :: "u16 \<Rightarrow> u8 list" where
  "htons v = [ucast (drop_bit 8 v), ucast v]"

definition ntohs :: "u8 list \<Rightarrow> u16" where
  "ntohs bs = push_bit 8 (ucast (bs ! 0)) OR ucast (bs ! 1)"

definition eth_header :: "sk_buff \<Rightarrow> net_device \<Rightarrow> u16 \<Rightarrow> u8 list option \<Rightarrow> u8 list option \<Rightarrow> nat \<Rightarrow> (int \<times> sk_buff) option" where
  "eth_header skb dev ty daddr saddr n =
     do {
       (eth, skb) \<leftarrow> skb_push skb ETH_HLEN;
       let skb = skb_store (eth + 12) (if ty \<noteq> ETH_P_802_3 then htons ty else htons (of_nat n)) skb;
       let skb = skb_store (eth + 6) (take (dev_addr_len dev) (case saddr of None \<Rightarrow> dev_addr dev | Some a \<Rightarrow> a)) skb;
       case daddr of
         Some a \<Rightarrow> Some (int ETH_HLEN, skb_store eth (take (dev_addr_len dev) a) skb)
       | None \<Rightarrow>
           if dev_flags dev AND (IFF_LOOPBACK OR IFF_NOARP) \<noteq> 0
           then Some (int ETH_HLEN, skb_store eth (replicate (dev_addr_len dev) 0) skb)
           else Some (- int ETH_HLEN, skb) }"

definition is_multicast_ether_addr :: "u8 list \<Rightarrow> bool" where
  "is_multicast_ether_addr a \<longleftrightarrow> 0x01 AND a ! 0 \<noteq> 0"

text \<open>The protocol is kept in the order of the machine, as on the wire.\<close>

definition eth_type_trans :: "sk_buff \<Rightarrow> net_device \<Rightarrow> u16 \<times> sk_buff" where
  "eth_type_trans skb dev =
     (let skb = skb\<lparr>skb_dev := True\<rparr>;
          mac = drop (skb_data skb) (skb_mem skb);
          skb = skb_pull skb ETH_HLEN;
          h_dest = take ETH_ALEN mac;
          h_proto = take 2 (drop 12 mac);
          skb = (if is_multicast_ether_addr h_dest
                 then skb\<lparr>skb_pkt_type := if h_dest = dev_broadcast dev then PACKET_BROADCAST else PACKET_MULTICAST\<rparr>
                 else if h_dest \<noteq> dev_addr dev then skb\<lparr>skb_pkt_type := PACKET_OTHERHOST\<rparr> else skb)
      in (if ntohs h_proto \<ge> 1536 then le16 h_proto 0
          else if le16 (drop (skb_data skb) (skb_mem skb)) 0 = 0xFFFF then le16 (htons ETH_P_802_3) 0
          else le16 (htons ETH_P_802_2) 0, skb))"

section \<open>The driver\<close>

text \<open>\<open>rx_queue\<close> are the packets that were handed to \<^verbatim>\<open>netif_rx\<close>, the last one at the end.\<close>

record vnet =
  vnet_dev :: net_device
  cnt :: u32
  rx_queue :: "sk_buff list"

text \<open>The changes to the packet, up to the checksum.\<close>

definition emulate_reply :: "u8 list \<Rightarrow> u8 list option" where
  "emulate_reply bs =
     (if length bs < 35 then None
      else let
          tmp_dev_addr = take ETH_ALEN bs;
          bs = overwrite bs 0 (take ETH_ALEN (drop 6 bs));
          bs = overwrite bs 6 tmp_dev_addr;
          ih = ETH_HLEN; saddr = ih + 12; daddr = ih + 16;
          tmp = take 4 (drop saddr bs);
          bs = overwrite bs saddr (take 4 (drop daddr bs));
          bs = overwrite bs daddr tmp;
          bs = bs[ETH_HLEN + 20 := 0];
          bs = overwrite bs (ih + 10) [0, 0]
        in case ip_fast_csum (drop ih bs) (ucast (bs ! ih AND 0xF)) of
             None \<Rightarrow> None
           | Some check \<Rightarrow> Some (overwrite bs (ih + 10) [ucast check, ucast (drop_bit 8 check)]))"

definition emulator_rx_packet :: "(nat \<Rightarrow> u8 list option) \<Rightarrow> sk_buff \<Rightarrow> vnet \<Rightarrow> vnet option" where
  "emulator_rx_packet kmalloc skb v =
     do {
       bs \<leftarrow> emulate_reply (skb_bytes skb);
       let skb = skb_store (skb_data skb) bs skb;
       rx_skb \<leftarrow> dev_alloc_skb kmalloc (skb_len skb + 2);
       let rx_skb = skb_reserve rx_skb 2;
       (p, rx_skb) \<leftarrow> skb_put rx_skb (skb_len skb);
       let rx_skb = skb_store p (skb_bytes skb) rx_skb;
       let rx_skb = rx_skb\<lparr>skb_dev := True\<rparr>;
       let (proto, rx_skb) = eth_type_trans rx_skb (vnet_dev v);
       let rx_skb = rx_skb\<lparr>skb_protocol := proto, skb_ip_summed := CHECKSUM_UNNECESSARY\<rparr>;
       let st = dev_stats (vnet_dev v);
       let st = st\<lparr>rx_packets := rx_packets st + 1, rx_bytes := rx_bytes st + of_nat (skb_len skb)\<rparr>;
       Some (v\<lparr>vnet_dev := (vnet_dev v)\<lparr>dev_stats := st\<rparr>, rx_queue := rx_queue v @ [rx_skb]\<rparr>) }"

text \<open>The length of the packet is read after the packet has been freed: \<open>freed\<close> is what is there by then.\<close>

definition virt_net_send_packet :: "(nat \<Rightarrow> u8 list option) \<Rightarrow> u32 \<Rightarrow> sk_buff \<Rightarrow> vnet \<Rightarrow> (int \<times> vnet) option" where
  "virt_net_send_packet kmalloc freed skb v =
     do {
       let v = v\<lparr>cnt := cnt v + 1\<rparr>;
       let v = v\<lparr>vnet_dev := netif_stop_queue (vnet_dev v)\<rparr>;
       v \<leftarrow> emulator_rx_packet kmalloc skb v;
       let v = v\<lparr>vnet_dev := netif_wake_queue (vnet_dev v)\<rparr>;
       let st = dev_stats (vnet_dev v);
       let st = st\<lparr>tx_packets := tx_packets st + 1, tx_bytes := tx_bytes st + freed\<rparr>;
       Some (0, v\<lparr>vnet_dev := (vnet_dev v)\<lparr>dev_stats := st\<rparr>\<rparr>) }"

definition virt_net_init :: vnet where
  "virt_net_init =
     (let dev = alloc_netdev ether_setup;
          dev = dev\<lparr>dev_addr := [0x08, 0x89, 0x89, 0x89, 0x89, 0x11]\<rparr>;
          dev = dev\<lparr>dev_flags := dev_flags dev OR IFF_NOARP\<rparr>;
          dev = dev\<lparr>dev_features := dev_features dev OR NETIF_F_NO_CSUM\<rparr>
      in \<lparr>vnet_dev = dev, cnt = 0, rx_queue = []\<rparr>)"

section \<open>The receiving side of IP\<close>

text \<open>The checks before the hooks of the firewall; \<open>None\<close> is a packet that is dropped. The counters are left out.\<close>

definition ip_rcv :: "sk_buff \<Rightarrow> sk_buff option" where
  "ip_rcv skb =
     (let iph = skb_bytes skb; ihl = iph ! 0 AND 0xF; tot_len = unat (ntohs (take 2 (drop 2 iph)))
      in if skb_pkt_type skb = PACKET_OTHERHOST then None
         else if \<not> pskb_may_pull skb 20 then None
         else if ihl < 5 \<or> drop_bit 4 (iph ! 0) \<noteq> 4 then None
         else if \<not> pskb_may_pull skb (unat ihl * 4) then None
         else if ip_fast_csum iph (ucast ihl) \<noteq> Some 0 then None
         else if skb_len skb < tot_len then None
         else if tot_len < unat ihl * 4 then None
         else Some (pskb_trim_rcsum skb tot_len))"

section \<open>The reply to a packet\<close>

text \<open>What the driver has made of the IP packet when it computes the checksum, and the checks of the receiver.\<close>

definition swapped :: "u8 list \<Rightarrow> u8 list" where
  "swapped p = overwrite ((overwrite (overwrite p 12 (take 4 (drop 16 p))) 16 (take 4 (drop 12 p)))[20 := 0]) 10 [0, 0]"

definition ip_packet :: "u8 list \<Rightarrow> bool" where
  "ip_packet p \<longleftrightarrow> 20 \<le> length p \<and> drop_bit 4 (p ! 0) = 4 \<and> 5 \<le> p ! 0 AND 0xF \<and> unat (p ! 0 AND 0xF) * 4 \<le> length p \<and>
     unat (ntohs (take 2 (drop 2 p))) = length p"

text \<open>The source and the destination exchanged, the first byte behind the fixed header zero, and the rest behind the checksum the same.\<close>

definition is_reply :: "u8 list \<Rightarrow> u8 list \<Rightarrow> bool" where
  "is_reply p q \<longleftrightarrow> length q = length p \<and> take 4 (drop 12 q) = take 4 (drop 16 p) \<and> take 4 (drop 16 q) = take 4 (drop 12 p) \<and>
     q ! 20 = 0 \<and> take 10 q = take 10 p \<and> drop 21 q = drop 21 p"

definition stamped :: "u8 list \<Rightarrow> u16 \<Rightarrow> u8 list" where
  "stamped p c = overwrite (swapped p) 10 [ucast c, ucast (drop_bit 8 c)]"

lemma length_swapped [simp]: "21 \<le> length p \<Longrightarrow> length (swapped p) = length p"
  by (simp add: swapped_def)

lemma length_stamped [simp]: "21 \<le> length p \<Longrightarrow> length (stamped p c) = length p"
  by (simp add: stamped_def)

lemma swapped_nth:
  "21 \<le> length p \<Longrightarrow> i < length p \<Longrightarrow> swapped p ! i =
    (if i = 10 \<or> i = 11 \<or> i = 20 then 0 else if 12 \<le> i \<and> i < 16 then p ! (i + 4) else if 16 \<le> i \<and> i < 20 then p ! (i - 4) else p ! i)"
  by (auto simp: swapped_def nth_overwrite nth_list_update nth_append nth_Cons' add.commute)

lemma stamped_nth: "21 \<le> length p \<Longrightarrow> i < length p \<Longrightarrow> i \<noteq> 10 \<Longrightarrow> i \<noteq> 11 \<Longrightarrow> stamped p c ! i = swapped p ! i"
  by (auto simp: stamped_def nth_overwrite)

lemma stamped_is_reply:
  assumes "21 \<le> length p"
  shows "is_reply p (stamped p c)"
proof -
  have "take 10 (stamped p c) = take 10 p" using assms by (intro nth_equalityI) (simp_all add: stamped_nth swapped_nth)
  moreover have "drop 21 (stamped p c) = drop 21 p" using assms by (intro nth_equalityI) (simp_all add: stamped_nth swapped_nth)
  moreover have "take 4 (drop 12 (stamped p c)) = take 4 (drop 16 p)"
    using assms by (intro nth_equalityI) (simp_all add: stamped_nth swapped_nth)
  moreover have "take 4 (drop 16 (stamped p c)) = take 4 (drop 12 p)"
    using assms by (intro nth_equalityI) (simp_all add: stamped_nth swapped_nth)
  ultimately show ?thesis using assms by (simp add: is_reply_def stamped_nth swapped_nth)
qed

lemma emulate_reply_frame:
  assumes "length d = 6" "length s = 6" "length t = 2" "21 \<le> length p"
  shows "emulate_reply (d @ s @ t @ p) =
    map_option (\<lambda>c. s @ d @ t @ stamped p c) (ip_fast_csum (swapped p) (ucast (p ! 0 AND 0xF)))"
proof -
  define h where "h = s @ d @ t"
  have h: "length h = 14" "overwrite (h @ q) (14 + k) bs = h @ overwrite q k bs" "drop (14 + k) (h @ q) = drop k q"
    "(h @ q)[14 + k := b] = h @ q[k := b]" for q k bs b
    using assms overwrite_append [of h q k bs] by (simp_all add: h_def list_update_append)
  have "overwrite (overwrite (d @ s @ t @ p) 0 (take 6 (drop 6 (d @ s @ t @ p)))) 6 (take 6 (d @ s @ t @ p)) = h @ p"
    using assms by (simp add: overwrite_def h_def)
  moreover have "swapped p ! 0 = p ! 0" using assms(4) by (subst swapped_nth) auto
  ultimately show ?thesis
    using assms h(2) [of _ 12] h(2) [of _ 16] h(2) [of _ 10] h(3) [of 12] h(3) [of 16] h(3) [of 0] h(4) [of _ 20]
    by (simp add: emulate_reply_def ETH_ALEN_def ETH_HLEN_def Let_def h(1) nth_append option.case_eq_if map_option_case
        flip: swapped_def stamped_def) (simp add: h_def)
qed

section \<open>Buffers and headers\<close>

definition wf_skb :: "sk_buff \<Rightarrow> bool" where
  "wf_skb skb \<longleftrightarrow> skb_data skb + skb_len skb = skb_tail skb \<and> skb_tail skb \<le> length (skb_mem skb)"

lemma length_skb_bytes [simp]: "wf_skb skb \<Longrightarrow> length (skb_bytes skb) = skb_len skb"
  by (auto simp: wf_skb_def skb_bytes_def)

lemma skb_bytes_store: "wf_skb skb \<Longrightarrow> length bs = skb_len skb \<Longrightarrow> skb_bytes (skb_store (skb_data skb) bs skb) = bs"
  by (simp add: wf_skb_def skb_bytes_def skb_store_def overwrite_def)

lemma skb_store_fields [simp]:
  "skb_len (skb_store p bs skb) = skb_len skb" "skb_data (skb_store p bs skb) = skb_data skb"
  "skb_tail (skb_store p bs skb) = skb_tail skb"
  by (simp_all add: skb_store_def)

text \<open>The device as it was set up, and any state of its queue and counters.\<close>

definition vnet_up :: "bool \<Rightarrow> net_stats \<Rightarrow> net_device" where
  "vnet_up x st = (vnet_dev virt_net_init)\<lparr>dev_xoff := x, dev_stats := st\<rparr>"

lemma vnet_up_fields [simp]:
  "dev_addr (vnet_up x st) = [0x08, 0x89, 0x89, 0x89, 0x89, 0x11]" "dev_addr_len (vnet_up x st) = 6"
  "dev_flags (vnet_up x st) AND (IFF_LOOPBACK OR IFF_NOARP) \<noteq> 0" "dev_stats (vnet_up x st) = st"
  "(vnet_up x st)\<lparr>dev_stats := st'\<rparr> = vnet_up x st'" "netif_stop_queue (vnet_up x st) = vnet_up True st"
  "netif_wake_queue (vnet_up x st) = vnet_up False st"
  by (simp_all add: vnet_up_def virt_net_init_def alloc_netdev_def ether_setup_def ETH_ALEN_def IFF_BROADCAST_def IFF_MULTICAST_def
      IFF_LOOPBACK_def IFF_NOARP_def NETIF_F_NO_CSUM_def netif_stop_queue_def netif_wake_queue_def)

lemma header_bytes:
  assumes "length b = 14" "length d = 6" "length s = 6" "length t = 2"
  shows "overwrite (overwrite (overwrite (b @ r) 12 t) 6 s) 0 d = d @ s @ t @ r"
  using assms by (simp add: overwrite_def)

lemma htons_IP [simp]: "htons ETH_P_IP = [8, 0]"
  by code_simp

lemma IP_is_not_802_3 [simp]: "ETH_P_IP \<noteq> ETH_P_802_3"
  by (simp add: ETH_P_IP_def ETH_P_802_3_def)

lemma eth_header_frame:
  assumes wf: "wf_skb skb" "14 \<le> skb_data skb" and a: "\<And>a. daddr = Some a \<Longrightarrow> length a = 6"
  shows "\<exists>d skb'. eth_header skb (vnet_up x st) ETH_P_IP daddr None n = Some (14, skb') \<and> wf_skb skb' \<and> length d = 6 \<and>
    skb_bytes skb' = d @ dev_addr (vnet_up x st) @ [8, 0] @ skb_bytes skb \<and> skb_len skb' = skb_len skb + 14"
proof -
  let ?k = "skb_data skb - 14"
  define pre b r where "pre = take ?k (skb_mem skb)" and "b = take 14 (drop ?k (skb_mem skb))" and "r = drop (skb_data skb) (skb_mem skb)"
  define d where "d = (case daddr of None \<Rightarrow> replicate 6 0 | Some a \<Rightarrow> a)"
  let ?s = "dev_addr (vnet_up x st)"
  have "r = drop 14 (drop ?k (skb_mem skb))" using wf(2) by (simp add: r_def)
  then have m: "skb_mem skb = pre @ b @ r" by (simp only: pre_def b_def append_take_drop_id)
  have l: "length pre = ?k" "length b = 14" "length d = 6"
    using wf a by (auto simp: pre_def b_def d_def wf_skb_def split: option.splits)
  have o: "overwrite (pre @ q) (?k + j) bs = pre @ overwrite q j bs" for q j bs
    using overwrite_append [of pre q j bs] l(1) by simp
  have o0: "overwrite (pre @ q) ?k bs = pre @ overwrite q 0 bs" for q bs using o [of q 0 bs] by simp
  let ?skb' = "skb\<lparr>skb_data := ?k, skb_len := skb_len skb + 14, skb_mem := pre @ d @ ?s @ [8, 0] @ r\<rparr>"
  have f: "overwrite (overwrite (overwrite (skb_mem skb) (?k + 12) [8, 0]) (?k + 6) ?s) ?k d = pre @ d @ ?s @ [8, 0] @ r"
    using header_bytes [of b d ?s "[8, 0]" r] l by (simp only: m o) (simp add: o0)
  have "eth_header skb (vnet_up x st) ETH_P_IP daddr None n = Some (14, ?skb')"
    using f wf(2) a by (cases daddr)
      (simp_all add: eth_header_def skb_push_def skb_store_def ETH_HLEN_def d_def)
  moreover have "length (d @ ?s @ [8, 0]) = 14" using l(3) by simp
  then have "skb_bytes ?skb' = d @ ?s @ [8, 0] @ skb_bytes skb"
    using take_add [of 14 "skb_len skb" "(d @ ?s @ [8, 0]) @ r"] l(1)
    by (simp add: skb_bytes_def r_def add.commute del: vnet_up_fields)
  moreover have "wf_skb ?skb'" using wf l by (auto simp: wf_skb_def r_def)
  ultimately show ?thesis using l(3) by (intro exI [of _ d] exI [of _ ?skb']) simp
qed

section \<open>Sending a packet\<close>

lemma SKB_DATA_ALIGN_le: "n \<le> SKB_DATA_ALIGN n"
  unfolding SKB_DATA_ALIGN_def SMP_CACHE_BYTES_def using mod_mult_div_eq [of "n + 31" 32] mod_less_divisor [of 32 "n + 31"]
  by simp

text \<open>The kernel has memory: every request is served with a block of the size.\<close>

definition serves :: "(nat \<Rightarrow> u8 list option) \<Rightarrow> bool" where
  "serves kmalloc \<longleftrightarrow> (\<forall>n. \<exists>m. kmalloc n = Some m \<and> length m = n)"

lemma new_skb:
  assumes "serves kmalloc" "n \<le> k"
  shows "\<exists>rx rx'. dev_alloc_skb kmalloc (k + 2) = Some rx \<and> skb_put (skb_reserve rx 2) n = Some (18, rx') \<and> wf_skb rx' \<and>
    skb_data rx' = 18 \<and> skb_len rx' = n \<and> skb_pkt_type rx' = PACKET_HOST"
proof -
  obtain m where m: "kmalloc (SKB_DATA_ALIGN (k + 2 + 16)) = Some m" "length m = SKB_DATA_ALIGN (k + 2 + 16)"
    using assms(1) by (auto simp: serves_def)
  then have "18 + n \<le> length m" using SKB_DATA_ALIGN_le [of "k + 2 + 16"] assms(2) by linarith
  then show ?thesis
    using m(1) by (simp add: dev_alloc_skb_def alloc_skb_def skb_reserve_def skb_put_def NET_SKB_PAD_def Let_def wf_skb_def)
qed

lemma eth_type_trans_IP:
  assumes wf: "wf_skb rx" "skb_pkt_type rx = PACKET_HOST" "skb_data rx = 18"
    and b: "skb_bytes rx = dev_addr (vnet_up x st) @ d @ [8, 0] @ q" "length d = 6"
  shows "\<exists>rx'. eth_type_trans rx (vnet_up x st) = (8, rx') \<and> wf_skb rx' \<and> skb_pkt_type rx' = PACKET_HOST \<and> skb_bytes rx' = q \<and>
    skb_data rx' = 32"
proof -
  let ?mac = "drop 18 (skb_mem rx)" and ?s = "dev_addr (vnet_up x st)"
  have t: "take (skb_len rx) ?mac = ?s @ d @ [8, 0] @ q" using b(1) wf(3) by (simp add: skb_bytes_def)
  have n: "skb_len rx = 14 + length q" using length_skb_bytes [OF wf(1)] b by simp
  have "take 6 (take (skb_len rx) ?mac) = ?s" "take 2 (drop 12 (take (skb_len rx) ?mac)) = [8, 0]"
    "drop 14 (take (skb_len rx) ?mac) = q"
    unfolding t using b(2) by simp_all
  then have a: "take 6 ?mac = ?s" "take 2 (drop 12 ?mac) = [8, 0]" "take (length q) (drop 32 (skb_mem rx)) = q"
    using n by (simp_all add: drop_take min_def add.commute)
  have "ntohs [8, 0] \<ge> 1536" "le16 [8, 0] 0 = 8" "\<not> is_multicast_ether_addr ?s"
    by (simp_all add: ntohs_def le16_def is_multicast_ether_addr_def)
  then show ?thesis
    using wf n a by (simp add: eth_type_trans_def Let_def ETH_ALEN_def ETH_HLEN_def skb_pull_def skb_bytes_def wf_skb_def)
qed

lemma send_frame:
  assumes k: "serves kmalloc" and v: "vnet_dev v = vnet_up x st" and wf: "wf_skb skb"
    and b: "skb_bytes skb = d @ dev_addr (vnet_up x st) @ [8, 0] @ p" "length d = 6" "21 \<le> length p"
    and c: "ip_fast_csum (swapped p) (ucast (p ! 0 AND 0xF)) = Some c"
  shows "\<exists>v' rx. virt_net_send_packet kmalloc freed skb v = Some (0, v') \<and> rx_queue v' = rx_queue v @ [rx] \<and>
    vnet_dev v' = vnet_up False \<lparr>rx_packets = rx_packets st + 1, tx_packets = tx_packets st + 1,
      rx_bytes = rx_bytes st + of_nat (length p + 14), tx_bytes = tx_bytes st + freed\<rparr> \<and>
    wf_skb rx \<and> skb_bytes rx = stamped p c \<and> skb_pkt_type rx = PACKET_HOST \<and> skb_protocol rx = 8 \<and> skb_data rx = 32"
proof -
  let ?s = "dev_addr (vnet_up x st)"
  define F where "F = ?s @ d @ [8, 0] @ stamped p c"
  have e: "emulate_reply (skb_bytes skb) = Some F" using emulate_reply_frame [of d ?s "[8, 0]" p] b c by (simp add: F_def)
  have n: "skb_len skb = length p + 14" "length F = length p + 14" using length_skb_bytes [OF wf] b by (simp_all add: F_def)
  have sb: "skb_bytes (skb_store (skb_data skb) F skb) = F" using wf n by (intro skb_bytes_store) simp_all
  obtain rx0 rx1 where r: "dev_alloc_skb kmalloc (skb_len skb + 2) = Some rx0"
      "skb_put (skb_reserve rx0 2) (skb_len skb) = Some (18, rx1)" "wf_skb rx1" "skb_data rx1 = 18" "skb_len rx1 = skb_len skb"
      "skb_pkt_type rx1 = PACKET_HOST"
    using new_skb [OF k, of "skb_len skb" "skb_len skb"] by auto
  define rx2 where "rx2 = (skb_store 18 F rx1)\<lparr>skb_dev := True\<rparr>"
  have "skb_bytes (skb_store 18 F rx1) = F" using skb_bytes_store [OF r(3), of F] r(4,5) n by simp
  then have "skb_bytes rx2 = dev_addr (vnet_up True st) @ d @ [8, 0] @ stamped p c" by (simp add: rx2_def skb_bytes_def F_def)
  moreover have "wf_skb rx2" "skb_pkt_type rx2 = PACKET_HOST" "skb_data rx2 = 18"
    using r(3-6) n by (simp_all add: rx2_def wf_skb_def skb_store_def)
  ultimately obtain rx3 where rx3: "eth_type_trans rx2 (vnet_up True st) = (8, rx3)" "wf_skb rx3" "skb_pkt_type rx3 = PACKET_HOST"
      "skb_bytes rx3 = stamped p c" "skb_data rx3 = 32"
    using eth_type_trans_IP b(2) by metis
  then show ?thesis
    using e sb r(1,2) v n
    by (cases st) (simp add: virt_net_send_packet_def emulator_rx_packet_def wf_skb_def skb_bytes_def flip: rx2_def)
qed

lemma ip_rcv_accepts:
  assumes rx: "wf_skb rx" "skb_pkt_type rx = PACKET_HOST" "skb_bytes rx = q"
    and p: "ip_packet p" "take 10 q = take 10 p" "length q = length p" and c: "ip_fast_csum q (ucast (p ! 0 AND 0xF)) = Some 0"
  shows "ip_rcv rx = Some rx"
proof -
  have n: "skb_len rx = length p" using length_skb_bytes [OF rx(1)] rx(3) p(3) by simp
  have "q ! 0 = p ! 0" "take 2 (drop 2 q) = take 2 (drop 2 p)"
    using arg_cong [OF p(2), of "\<lambda>l. l ! 0"] arg_cong [OF p(2), of "\<lambda>l. take 2 (drop 2 l)"] by (simp_all add: drop_take)
  then show ?thesis
    using p(1) c n rx(2)
    by (simp add: ip_rcv_def rx(3) Let_def ip_packet_def pskb_may_pull_def pskb_trim_rcsum_def mult.commute word_less_nat_alt word_le_nat_alt)
qed

lemma ihl_bounds:
  fixes b :: u8
  assumes "5 \<le> b AND 0xF"
  shows "5 \<le> unat (ucast (b AND 0xF) :: u32)" "unat (ucast (b AND 0xF) :: u32) \<le> 15" "unat (ucast (b AND 0xF) :: u32) = unat (b AND 0xF)"
proof -
  have "unat (b AND 0xF) = unat b mod 16" using and_mask_unat [of b 4] by (simp add: mask_eq_exp_minus_1)
  then have "unat (b AND 0xF) < 16" by simp
  moreover show u: "unat (ucast (b AND 0xF) :: u32) = unat (b AND 0xF)" by (rule unat_ucast_up) simp
  ultimately show "unat (ucast (b AND 0xF) :: u32) \<le> 15" by simp
  show "5 \<le> unat (ucast (b AND 0xF) :: u32)" using assms u by (simp add: word_le_nat_alt)
qed

text \<open>
  The checksum of the ICMP message is not adjusted to the new type. When the request had a valid one, the reply has not;
  it is taken for good only because the driver marks the packet as one that need not be checked.
\<close>

lemma rfc1071_zero: "rfc1071 bs = 0 \<Longrightarrow> sum_list (map unat (halfwords bs)) mod (2 ^ 16 - 1) = 0"
proof -
  let ?S = "sum_list (map unat (halfwords bs))"
  assume "rfc1071 bs = 0"
  then have "ones (2 ^ 16 - 1) ?S = 2 ^ 16 - 1" using rfc1071_ones [of bs] ones_le [of "2 ^ 16 - 1" ?S] by simp
  then show ?thesis by (metis mod_self ones_mod)
qed

lemma icmp_checksum_stale:
  assumes "rfc1071 (8 # b # m) = 0"
  shows "rfc1071 (0 # b # m) \<noteq> 0"
proof
  assume r: "rfc1071 (0 # b # m) = 0"
  let ?R = "2 ^ 8 * unat b + sum_list (map unat (halfwords m))"
  have u: "unat (of_nat (k + 2 ^ 8 * unat b) :: u16) = k + 2 ^ 8 * unat b" if "k \<le> 8" for k
    using that unat_less [of b] by (simp add: unat_of_nat del: of_nat_add of_nat_mult)
  have "(8 + ?R) mod (2 ^ 16 - 1) = 0" using rfc1071_zero [OF assms] u [of 8] by (simp add: add.assoc)
  moreover have "?R mod (2 ^ 16 - 1) = 0" using rfc1071_zero [OF r] u [of 0] by simp
  ultimately have "8 mod (2 ^ 16 - 1 :: nat) = 0" by (metis add.commute add.right_neutral mod_add_right_eq mod_mod_trivial)
  then show False by simp
qed

text \<open>
  C16. Every IPv4 packet of at least 21 bytes that is sent through the interface comes back. With the Ethernet header of
  Linux in front of it, \<^verbatim>\<open>virt_net_send_packet\<close> hands one packet to \<^verbatim>\<open>netif_rx\<close> and leaves the queue running; \<^verbatim>\<open>ip_rcv\<close>
  accepts that packet, so its checksum is right whatever checksum the packet had; it is the packet with the two addresses
  exchanged and the first byte behind the fixed header cleared, and its header is aligned to 16 bytes. The counters go up
  by one packet each and the received bytes by the length; to the sent bytes the driver adds a number that it reads from
  freed memory.
\<close>

theorem virt_net_answers:
  assumes k: "serves kmalloc" and v: "vnet_dev v = vnet_up x st"
    and skb: "wf_skb skb" "14 \<le> skb_data skb" "skb_bytes skb = p" and p: "ip_packet p" "21 \<le> length p"
    and a: "\<And>a. daddr = Some a \<Longrightarrow> length a = 6"
  shows "\<exists>frame v' rx q. eth_header skb (vnet_dev v) ETH_P_IP daddr None n = Some (14, frame) \<and>
    virt_net_send_packet kmalloc freed frame v = Some (0, v') \<and> rx_queue v' = rx_queue v @ [rx] \<and>
    vnet_dev v' = vnet_up False \<lparr>rx_packets = rx_packets st + 1, tx_packets = tx_packets st + 1,
      rx_bytes = rx_bytes st + of_nat (length p + 14), tx_bytes = tx_bytes st + freed\<rparr> \<and>
    skb_protocol rx = le16 (htons ETH_P_IP) 0 \<and> ip_rcv rx = Some q \<and> is_reply p (skb_bytes q) \<and> skb_data q mod 16 = 0"
proof -
  let ?ihl = "ucast (p ! 0 AND 0xF) :: u32"
  have i: "5 \<le> unat ?ihl" "unat ?ihl \<le> 15" "4 * unat ?ihl \<le> length (swapped p)"
    using ihl_bounds [of "p ! 0"] p by (auto simp: ip_packet_def)
  obtain c where c: "ip_fast_csum (swapped p) ?ihl = Some c" using ip_fast_csum_ones [OF i(3,1,2)] by blast
  obtain d frame where f: "eth_header skb (vnet_up x st) ETH_P_IP daddr None n = Some (14, frame)" "wf_skb frame" "length d = 6"
      "skb_bytes frame = d @ dev_addr (vnet_up x st) @ [8, 0] @ p"
    using eth_header_frame [where daddr = daddr and x = x and st = st and n = n, OF skb(1,2) a] skb(3) by auto
  obtain v' rx where s: "virt_net_send_packet kmalloc freed frame v = Some (0, v')" "rx_queue v' = rx_queue v @ [rx]"
      "vnet_dev v' = vnet_up False \<lparr>rx_packets = rx_packets st + 1, tx_packets = tx_packets st + 1,
        rx_bytes = rx_bytes st + of_nat (length p + 14), tx_bytes = tx_bytes st + freed\<rparr>"
      "wf_skb rx" "skb_bytes rx = stamped p c" "skb_pkt_type rx = PACKET_HOST" "skb_protocol rx = 8" "skb_data rx = 32"
    using send_frame [OF k v f(2,4,3) p(2) c] by blast
  have "swapped p ! 10 = 0" "swapped p ! 11 = 0" using p(2) by (simp_all add: swapped_nth)
  then have "ip_fast_csum (stamped p c) ?ihl = Some 0" using checksum_verifies [OF i(3,1,2) _ _ c] by (simp add: stamped_def)
  then have "ip_rcv rx = Some rx"
    using ip_rcv_accepts [OF s(4,6,5) p(1)] stamped_is_reply [OF p(2), of c] by (simp add: is_reply_def)
  moreover have "le16 (htons ETH_P_IP) 0 = 8" by (simp add: le16_def)
  ultimately show ?thesis using f(1) s stamped_is_reply [OF p(2), of c] v by (intro exI [of _ frame] exI [of _ v'] exI [of _ rx]) simp
qed

text \<open>The echo request that a ping of 192.168.0.2 to 192.168.0.1 sends, with 16 bytes of room in its buffer.\<close>

definition ping :: "u8 list" where
  "ping = [0x45, 0, 0, 28, 0, 0, 0x40, 0, 0x40, 1, 0xB9, 0x8D, 192, 168, 0, 2, 192, 168, 0, 1, 8, 0, 0xF7, 0xFD, 0, 1, 0, 1]"

definition ping_skb :: sk_buff where
  "ping_skb = \<lparr>skb_mem = replicate 16 0 @ ping @ replicate 20 0, skb_data = 16, skb_tail = 44, skb_len = 28, skb_dev = False,
     skb_pkt_type = PACKET_HOST, skb_ip_summed = CHECKSUM_NONE, skb_protocol = 0\<rparr>"

theorem virt_net_answers_witness:
  "\<exists>frame v' rx q. eth_header ping_skb (vnet_dev virt_net_init) ETH_P_IP None None 28 = Some (14, frame) \<and>
    virt_net_send_packet (\<lambda>n. Some (replicate n 0)) 0 frame virt_net_init = Some (0, v') \<and> rx_queue v' = [rx] \<and>
    ip_rcv rx = Some q \<and> is_reply ping (skb_bytes q)"
proof -
  have p: "ip_packet ping" "21 \<le> length ping" by code_simp+
  have s: "wf_skb ping_skb" "14 \<le> skb_data ping_skb" "skb_bytes ping_skb = ping"
    by (simp_all add: wf_skb_def ping_skb_def ping_def skb_bytes_def)
  have k: "serves (\<lambda>n. Some (replicate n 0))" by (simp add: serves_def)
  have v: "vnet_dev virt_net_init = vnet_up False (dev_stats (vnet_dev virt_net_init))"
    by (simp add: vnet_up_def virt_net_init_def alloc_netdev_def ether_setup_def)
  have q: "rx_queue virt_net_init = []" by (simp add: virt_net_init_def Let_def)
  show ?thesis using virt_net_answers [OF k v s p, of None 28 0] unfolding q append.simps by blast
qed

end
