(* ===== verification/Semaphore.thy ===== *)
theory Semaphore
  imports Kernel_Sync
begin

text \<open>
  The semaphore of Linux on ARM, \<^verbatim>\<open>arch/arm/kernel/semaphore.c\<close> with the fast paths of \<^verbatim>\<open>asm-arm/locks.h\<close>. A process
  first changes the count with interrupts off and calls the slow path only when the count was not enough. In the slow
  path the field \<^verbatim>\<open>sleepers\<close> stands for all waiting processes at once.

  What runs with interrupts off or under the spinlock is one step; everything else is a step of its own, so that other
  processes can run between any two of them. The state of a task that is not \<^verbatim>\<open>TASK_RUNNING\<close> is a mark: a marked process
  is taken off the run queue by \<^verbatim>\<open>schedule\<close> and stops until somebody clears the mark.

  The count and \<^verbatim>\<open>sleepers\<close> are \<open>int\<close>: the count stays between its first value and that value less the number of
  processes (\<open>accounts\<close> below), so the 32 bits of the code are enough.
\<close>

section \<open>State\<close>

datatype kind = Plain | Interruptible | Trylock

text \<open>
  \<open>Idle\<close> and \<open>Held\<close>: outside the semaphore, without and with a unit. \<open>Failed\<close>: the count was negative, at the first
  statement of the slow path. \<open>Queue\<close>: before \<^verbatim>\<open>add_wait_queue_exclusive\<close>. \<open>First\<close>: at \<^verbatim>\<open>spin_lock_irq\<close> before
  \<^verbatim>\<open>sleepers++\<close>. \<open>Sched\<close>: at \<^verbatim>\<open>schedule\<close>. \<open>Asleep\<close>: in \<^verbatim>\<open>schedule\<close>, off the run queue while marked. \<open>Again\<close> and \<open>Loop\<close>: the statements behind it. \<open>Out1\<close>, \<open>Out2\<close>, \<open>Wake\<close>: the
  statements behind the loop, with the success of the call, which is always true for \<^verbatim>\<open>__down\<close>. \<open>UpWake\<close>: in \<^verbatim>\<open>up\<close> before \<^verbatim>\<open>wake_up\<close>.
\<close>

datatype pc = Idle | Held | Failed | Queue | First | Sched | Asleep | Again | Loop | Out1 bool | Out2 bool | Wake bool | UpWake

record task =
  t_pc :: pc
  t_marked :: bool
  t_kind :: kind

record semaphore =
  sem_count :: int
  sem_sleepers :: int
  sem_wait :: "nat list"
  sem_tasks :: "task list"

definition sema_init :: "int \<Rightarrow> task list \<Rightarrow> semaphore" where
  "sema_init val ts = \<lparr>sem_count = val, sem_sleepers = 0, sem_wait = [], sem_tasks = ts\<rparr>"

definition set_task :: "nat \<Rightarrow> task \<Rightarrow> semaphore \<Rightarrow> semaphore" where
  "set_task i t s = s\<lparr>sem_tasks := (sem_tasks s)[i := t]\<rparr>"

definition goto :: "nat \<Rightarrow> pc \<Rightarrow> semaphore \<Rightarrow> semaphore" where
  "goto i l s = set_task i ((sem_tasks s ! i)\<lparr>t_pc := l\<rparr>) s"

definition mark :: "nat \<Rightarrow> bool \<Rightarrow> semaphore \<Rightarrow> semaphore" where
  "mark i b s = set_task i ((sem_tasks s ! i)\<lparr>t_marked := b\<rparr>) s"

section \<open>The wait queue\<close>

definition add_wait_queue_exclusive :: "nat \<Rightarrow> semaphore \<Rightarrow> semaphore" where
  "add_wait_queue_exclusive i s = s\<lparr>sem_wait := sem_wait s @ [i]\<rparr>"

definition remove_wait_queue :: "nat \<Rightarrow> semaphore \<Rightarrow> semaphore" where
  "remove_wait_queue i s = s\<lparr>sem_wait := removeAll i (sem_wait s)\<rparr>"

text \<open>
  Waking a process clears its mark. It succeeds only when the process was off the run queue; one that has its mark set
  and has not stopped yet goes on, and the walk over the queue goes on to the next process.
\<close>

definition try_to_wake_up :: "nat \<Rightarrow> semaphore \<Rightarrow> bool \<times> semaphore" where
  "try_to_wake_up i s =
     (if \<not> t_marked (sem_tasks s ! i) then (False, s) else (t_pc (sem_tasks s ! i) = Asleep, mark i False s))"

fun wake_up_common :: "nat list \<Rightarrow> semaphore \<Rightarrow> semaphore" where
  "wake_up_common [] s = s"
| "wake_up_common (i # q) s = (let (success, s) = try_to_wake_up i s in if success then s else wake_up_common q s)"

definition wake_up :: "semaphore \<Rightarrow> semaphore" where
  "wake_up s = wake_up_common (sem_wait s) s"

text \<open>\<open>sig\<close>: the process sleeps interruptibly and a signal is pending for it.\<close>

definition schedule :: "bool \<Rightarrow> nat \<Rightarrow> semaphore \<Rightarrow> semaphore option" where
  "schedule sig i s =
     (if t_pc (sem_tasks s ! i) = Sched then
        Some (if t_marked (sem_tasks s ! i)
              then (if sig then goto i Again (mark i False s) else goto i Asleep s)
              else goto i Again s)
      else if t_marked (sem_tasks s ! i) \<and> \<not> sig then None
      else Some (goto i Again (mark i False s)))"

section \<open>The fast paths\<close>

definition down_op :: "kind \<Rightarrow> nat \<Rightarrow> semaphore \<Rightarrow> semaphore" where
  "down_op k i s =
     (let s = s\<lparr>sem_count := sem_count s - 1\<rparr>;
          l = (if sem_count s < 0 then Failed else Held)
      in set_task i \<lparr>t_pc = l, t_marked = t_marked (sem_tasks s ! i), t_kind = k\<rparr> s)"

definition up_op :: "nat \<Rightarrow> semaphore \<Rightarrow> semaphore" where
  "up_op i s =
     (let s = s\<lparr>sem_count := sem_count s + 1\<rparr>
      in goto i (if sem_count s \<le> 0 then UpWake else Idle) s)"

section \<open>The slow paths\<close>

text \<open>The body of the loop behind the test for signals: try to take a unit.\<close>

definition try_again :: "nat \<Rightarrow> semaphore \<Rightarrow> semaphore" where
  "try_again i s =
     (let sleepers = sem_sleepers s;
          s = s\<lparr>sem_count := sem_count s + (sleepers - 1)\<rparr>
      in if \<not> sem_count s < 0 then goto i (Out1 True) (s\<lparr>sem_sleepers := 0\<rparr>)
         else goto i Sched (s\<lparr>sem_sleepers := 1\<rparr>))"

definition down_slow :: "nat \<Rightarrow> semaphore \<Rightarrow> semaphore option" where
  "down_slow i s =
     (case t_pc (sem_tasks s ! i) of
        Failed \<Rightarrow> Some (goto i Queue (mark i True s))
      | Queue \<Rightarrow> Some (goto i First (add_wait_queue_exclusive i s))
      | First \<Rightarrow> Some (try_again i (s\<lparr>sem_sleepers := sem_sleepers s + 1\<rparr>))
      | Sched \<Rightarrow> schedule False i s
      | Asleep \<Rightarrow> schedule False i s
      | Again \<Rightarrow> Some (goto i Loop (mark i True s))
      | Loop \<Rightarrow> Some (try_again i s)
      | Out1 r \<Rightarrow> Some (goto i (Out2 r) (remove_wait_queue i s))
      | Out2 r \<Rightarrow> Some (goto i (Wake r) (mark i False s))
      | Wake r \<Rightarrow> Some (goto i (if r then Held else Idle) (wake_up s))
      | _ \<Rightarrow> None)"

text \<open>With a signal pending the process gives up: it returns its debt and that of the sleepers.\<close>

definition give_up :: "nat \<Rightarrow> semaphore \<Rightarrow> semaphore" where
  "give_up i s =
     (let sleepers = sem_sleepers s
      in goto i (Out1 False) (s\<lparr>sem_sleepers := 0, sem_count := sem_count s + sleepers\<rparr>))"

definition down_interruptible_slow :: "bool \<Rightarrow> nat \<Rightarrow> semaphore \<Rightarrow> semaphore option" where
  "down_interruptible_slow signal_pending i s =
     (case t_pc (sem_tasks s ! i) of
        Failed \<Rightarrow> Some (goto i Queue (mark i True s))
      | Queue \<Rightarrow> Some (goto i First (add_wait_queue_exclusive i s))
      | First \<Rightarrow>
          (let s = s\<lparr>sem_sleepers := sem_sleepers s + 1\<rparr>
           in Some (if signal_pending then give_up i s else try_again i s))
      | Sched \<Rightarrow> schedule signal_pending i s
      | Asleep \<Rightarrow> schedule signal_pending i s
      | Again \<Rightarrow> Some (goto i Loop (mark i True s))
      | Loop \<Rightarrow> Some (if signal_pending then give_up i s else try_again i s)
      | Out1 r \<Rightarrow> Some (goto i (Out2 r) (mark i False s))
      | Out2 r \<Rightarrow> Some (goto i (Wake r) (remove_wait_queue i s))
      | Wake r \<Rightarrow> Some (goto i (if r then Held else Idle) (wake_up s))
      | _ \<Rightarrow> None)"

definition down_trylock_slow :: "nat \<Rightarrow> semaphore \<Rightarrow> semaphore option" where
  "down_trylock_slow i s =
     (case t_pc (sem_tasks s ! i) of
        Failed \<Rightarrow>
          (let sleepers = sem_sleepers s + 1;
               s = s\<lparr>sem_sleepers := 0, sem_count := sem_count s + sleepers\<rparr>;
               s = (if \<not> sem_count s < 0 then wake_up s else s)
           in Some (goto i Idle s))
      | _ \<Rightarrow> None)"

section \<open>Executions\<close>

text \<open>
  An idle process calls one of the three functions, a process with a unit calls \<^verbatim>\<open>up\<close>, and a process inside the
  semaphore goes on; \<open>sig\<close> says whether a signal is pending for it.
\<close>

definition slow :: "bool \<Rightarrow> nat \<Rightarrow> semaphore \<Rightarrow> semaphore option" where
  "slow sig i s =
     (if t_pc (sem_tasks s ! i) = UpWake then Some (goto i Idle (wake_up s))
      else case t_kind (sem_tasks s ! i) of
             Plain \<Rightarrow> down_slow i s
           | Interruptible \<Rightarrow> down_interruptible_slow sig i s
           | Trylock \<Rightarrow> down_trylock_slow i s)"

inductive sem_step :: "semaphore \<Rightarrow> semaphore \<Rightarrow> bool" where
  call_down: "i < length (sem_tasks s) \<Longrightarrow> t_pc (sem_tasks s ! i) = Idle \<Longrightarrow> sem_step s (down_op k i s)"
| call_up: "i < length (sem_tasks s) \<Longrightarrow> t_pc (sem_tasks s ! i) = Held \<Longrightarrow> sem_step s (up_op i s)"
| go_on: "i < length (sem_tasks s) \<Longrightarrow> slow sig i s = Some s' \<Longrightarrow> sem_step s s'"

definition sem_start :: "nat \<Rightarrow> nat \<Rightarrow> semaphore" where
  "sem_start val n = sema_init (int val) (replicate n \<lparr>t_pc = Idle, t_marked = False, t_kind = Plain\<rparr>)"

inductive sem_reach :: "nat \<Rightarrow> nat \<Rightarrow> semaphore \<Rightarrow> bool" for val n where
  start: "sem_reach val n (sem_start val n)"
| next_step: "sem_reach val n s \<Longrightarrow> sem_step s s' \<Longrightarrow> sem_reach val n s'"

section \<open>The count\<close>

text \<open>Who has a unit, and who has taken one from the count without having it.\<close>

fun holds :: "pc \<Rightarrow> bool" where
  "holds Held = True"
| "holds (Out1 r) = r"
| "holds (Out2 r) = r"
| "holds (Wake r) = r"
| "holds _ = False"

fun pending :: "pc \<Rightarrow> bool" where
  "pending Failed = True"
| "pending Queue = True"
| "pending First = True"
| "pending _ = False"

definition pcs :: "semaphore \<Rightarrow> pc list" where
  "pcs s = map t_pc (sem_tasks s)"

definition accounts :: "nat \<Rightarrow> semaphore \<Rightarrow> bool" where
  "accounts val s \<longleftrightarrow>
     sem_count s = int val - int (many holds (pcs s)) - int (many pending (pcs s)) - sem_sleepers s \<and>
     many holds (pcs s) \<le> val \<and> 0 \<le> sem_sleepers s \<and> sem_sleepers s \<le> 1"

lemma length_pcs [simp]: "length (pcs s) = length (sem_tasks s)"
  by (simp add: pcs_def)

lemma length_set_task [simp]:
  "length (sem_tasks (set_task i t s)) = length (sem_tasks s)" "length (sem_tasks (goto i l s)) = length (sem_tasks s)"
  "length (sem_tasks (mark i b s)) = length (sem_tasks s)"
  by (simp_all add: set_task_def goto_def mark_def)

lemma task_fields [simp]:
  "sem_count (set_task i t s) = sem_count s" "sem_sleepers (set_task i t s) = sem_sleepers s" "sem_wait (set_task i t s) = sem_wait s"
  "sem_count (goto i l s) = sem_count s" "sem_sleepers (goto i l s) = sem_sleepers s" "sem_wait (goto i l s) = sem_wait s"
  "sem_count (mark i b s) = sem_count s" "sem_sleepers (mark i b s) = sem_sleepers s" "sem_wait (mark i b s) = sem_wait s"
  by (simp_all add: set_task_def goto_def mark_def)

lemma queue_fields [simp]:
  "sem_tasks (add_wait_queue_exclusive i s) = sem_tasks s" "sem_tasks (remove_wait_queue i s) = sem_tasks s"
  "sem_count (add_wait_queue_exclusive i s) = sem_count s" "sem_count (remove_wait_queue i s) = sem_count s"
  "sem_sleepers (add_wait_queue_exclusive i s) = sem_sleepers s" "sem_sleepers (remove_wait_queue i s) = sem_sleepers s"
  by (simp_all add: add_wait_queue_exclusive_def remove_wait_queue_def)

lemma pcs_set_task [simp]: "pcs (set_task i t s) = (pcs s)[i := t_pc t]"
  by (simp add: pcs_def set_task_def map_update)

lemma pcs_goto [simp]: "pcs (goto i l s) = (pcs s)[i := l]"
  by (simp add: goto_def)

lemma pcs_mark [simp]: "pcs (mark i b s) = pcs s"
proof (cases "i < length (sem_tasks s)")
  case True
  then have "(pcs s)[i := t_pc (sem_tasks s ! i)] = pcs s" by (metis length_pcs list_update_id nth_map pcs_def)
  then show ?thesis by (simp add: mark_def)
next
  case False
  then show ?thesis by (simp add: mark_def list_update_beyond)
qed

lemma wake_up_common_fields:
  "sem_count (wake_up_common q s) = sem_count s \<and> sem_sleepers (wake_up_common q s) = sem_sleepers s \<and>
    sem_wait (wake_up_common q s) = sem_wait s \<and> pcs (wake_up_common q s) = pcs s"
  by (induction q arbitrary: s) (simp_all add: try_to_wake_up_def)

lemma wake_up_fields [simp]:
  "sem_count (wake_up s) = sem_count s" "sem_sleepers (wake_up s) = sem_sleepers s" "sem_wait (wake_up s) = sem_wait s"
  "pcs (wake_up s) = pcs s"
  by (simp_all add: wake_up_def wake_up_common_fields)

lemma length_wake_up [simp]: "length (sem_tasks (wake_up s)) = length (sem_tasks s)"
  by (metis length_pcs wake_up_fields(4))

lemma pcs_queue [simp]: "pcs (add_wait_queue_exclusive i s) = pcs s" "pcs (remove_wait_queue i s) = pcs s"
  by (simp_all add: pcs_def)

lemma pcs_update [simp]: "pcs (s\<lparr>sem_count := c\<rparr>) = pcs s" "pcs (s\<lparr>sem_sleepers := k\<rparr>) = pcs s"
  by (simp_all add: pcs_def)

lemma pcs_nth: "i < length (sem_tasks s) \<Longrightarrow> pcs s ! i = t_pc (sem_tasks s ! i)"
  by (simp add: pcs_def)

lemma accounts_move:
  assumes a: "accounts val s" and i: "i < length (sem_tasks s)" and p: "pcs s' = (pcs s)[i := l]"
    and e: "sem_count s' + sem_sleepers s' + of_bool (holds l) + of_bool (pending l) =
      sem_count s + sem_sleepers s + of_bool (holds (pcs s ! i)) + of_bool (pending (pcs s ! i))"
    and k: "0 \<le> sem_sleepers s'" "sem_sleepers s' \<le> 1" and h: "holds l \<Longrightarrow> holds (pcs s ! i) \<or> 0 \<le> sem_count s'"
  shows "accounts val s'"
proof -
  have H: "many holds (pcs s') + of_bool (holds (pcs s ! i)) = many holds (pcs s) + of_bool (holds l)"
    and P: "many pending (pcs s') + of_bool (pending (pcs s ! i)) = many pending (pcs s) + of_bool (pending l)"
    using i by (simp_all add: p many_update)
  have c: "sem_count s' = int val - int (many holds (pcs s')) - int (many pending (pcs s')) - sem_sleepers s'"
    using a e arg_cong [OF H, of int] arg_cong [OF P, of int] by (simp add: accounts_def)
  have "many holds (pcs s') \<le> val"
  proof (cases "holds l \<and> \<not> holds (pcs s ! i)")
    case True
    then show ?thesis using c h k by simp
  next
    case False
    then have "many holds (pcs s') \<le> many holds (pcs s)" using H by (cases "holds l"; cases "holds (pcs s ! i)") auto
    then show ?thesis using a by (simp add: accounts_def)
  qed
  then show ?thesis using c k by (simp add: accounts_def)
qed

lemmas slow_defs = slow_def schedule_def down_slow_def down_interruptible_slow_def down_trylock_slow_def try_again_def give_up_def Let_def

lemma slow_moves:
  assumes i: "i < length (sem_tasks s)" and s': "slow sig i s = Some s'" and k: "0 \<le> sem_sleepers s" "sem_sleepers s \<le> 1"
  shows "pcs s' = (pcs s)[i := pcs s' ! i] \<and>
    sem_count s' + sem_sleepers s' + of_bool (holds (pcs s' ! i)) + of_bool (pending (pcs s' ! i)) =
      sem_count s + sem_sleepers s + of_bool (holds (pcs s ! i)) + of_bool (pending (pcs s ! i)) \<and>
    0 \<le> sem_sleepers s' \<and> sem_sleepers s' \<le> 1 \<and> (holds (pcs s' ! i) \<longrightarrow> holds (pcs s ! i) \<or> 0 \<le> sem_count s')"
  using s' k i pcs_nth [OF i]
  by (cases "t_kind (sem_tasks s ! i)"; cases "t_pc (sem_tasks s ! i)") (auto simp: slow_defs split: if_splits)

lemma slow_length: "i < length (sem_tasks s) \<Longrightarrow> slow sig i s = Some s' \<Longrightarrow> length (sem_tasks s') = length (sem_tasks s)"
  by (cases "t_kind (sem_tasks s ! i)"; cases "t_pc (sem_tasks s ! i)") (auto simp: slow_defs split: if_splits)

lemma accounts_step:
  assumes "sem_step s s'" "accounts val s"
  shows "accounts val s'"
proof -
  have k: "0 \<le> sem_sleepers s" "sem_sleepers s \<le> 1" using assms(2) by (simp_all add: accounts_def)
  show ?thesis
    using assms(1)
  proof cases
    case (call_down i kd)
    show ?thesis
      by (rule accounts_move [OF assms(2) call_down(2), where l = "if sem_count s - 1 < 0 then Failed else Held"])
        (use k call_down in \<open>auto simp: down_op_def Let_def pcs_nth split: if_splits\<close>)
  next
    case (call_up i)
    show ?thesis
      by (rule accounts_move [OF assms(2) call_up(2), where l = "if sem_count s + 1 \<le> 0 then UpWake else Idle"])
        (use k call_up in \<open>auto simp: up_op_def Let_def pcs_nth split: if_splits\<close>)
  next
    case (go_on i sig)
    then show ?thesis using slow_moves [OF go_on k] by (intro accounts_move [OF assms(2) go_on(1)]) blast+
  qed
qed

section \<open>Wake-ups\<close>

text \<open>A process that sleeps, and one that will look at the count again or wake the queue without being woken itself.\<close>

fun asleep :: "task \<Rightarrow> bool" where
  "asleep t = ((t_pc t = Sched \<or> t_pc t = Asleep) \<and> t_marked t)"

fun awake :: "task \<Rightarrow> bool" where
  "awake t = (t_pc t \<noteq> Idle \<and> t_pc t \<noteq> Held \<and> \<not> asleep t)"

fun waits :: "pc \<Rightarrow> bool" where
  "waits First = True"
| "waits Sched = True"
| "waits Asleep = True"
| "waits Again = True"
| "waits Loop = True"
| "waits _ = False"

fun may_queue :: "kind \<Rightarrow> pc \<Rightarrow> bool" where
  "may_queue k (Out1 r) = True"
| "may_queue k (Out2 r) = (k = Interruptible)"
| "may_queue k l = waits l"

definition kinds :: "semaphore \<Rightarrow> kind list" where
  "kinds s = map t_kind (sem_tasks s)"

definition queued :: "semaphore \<Rightarrow> bool" where
  "queued s \<longleftrightarrow> (\<forall>i < length (sem_tasks s). waits (pcs s ! i) \<longrightarrow> i \<in> set (sem_wait s)) \<and>
     (\<forall>i \<in> set (sem_wait s). i < length (sem_tasks s) \<and> may_queue (kinds s ! i) (pcs s ! i))"

text \<open>Nobody sleeps while there is a unit, unless somebody is on the way who will notice.\<close>

definition no_lost :: "semaphore \<Rightarrow> bool" where
  "no_lost s \<longleftrightarrow>
     ((\<exists>i < length (sem_tasks s). asleep (sem_tasks s ! i)) \<longrightarrow>
      (\<exists>i < length (sem_tasks s). awake (sem_tasks s ! i)) \<or> sem_sleepers s = 1 \<and> sem_count s < 0)"

lemma kinds_set_task: "i < length (sem_tasks s) \<Longrightarrow> t_kind t = t_kind (sem_tasks s ! i) \<Longrightarrow> kinds (set_task i t s) = kinds s"
  by (simp add: kinds_def set_task_def map_update list_update_same_conv)

lemma kinds_simps [simp]:
  "kinds (s\<lparr>sem_count := c\<rparr>) = kinds s" "kinds (s\<lparr>sem_sleepers := k\<rparr>) = kinds s"
  "kinds (add_wait_queue_exclusive i s) = kinds s" "kinds (remove_wait_queue i s) = kinds s"
  by (simp_all add: kinds_def)

lemma kinds_goto [simp]: "kinds (goto i l s) = kinds s"
  by (cases "i < length (sem_tasks s)") (simp_all add: goto_def kinds_set_task, simp add: set_task_def kinds_def list_update_beyond)

lemma kinds_mark [simp]: "kinds (mark i b s) = kinds s"
  by (cases "i < length (sem_tasks s)") (simp_all add: mark_def kinds_set_task, simp add: set_task_def kinds_def list_update_beyond)

lemma kinds_wake_up_common: "kinds (wake_up_common q s) = kinds s"
  by (induction q arbitrary: s) (simp_all add: try_to_wake_up_def)

lemma kinds_wake_up [simp]: "kinds (wake_up s) = kinds s"
  by (simp add: wake_up_def kinds_wake_up_common)

lemma kinds_nth: "i < length (sem_tasks s) \<Longrightarrow> kinds s ! i = t_kind (sem_tasks s ! i)"
  by (simp add: kinds_def)

lemma kinds_down_op: "j \<noteq> i \<Longrightarrow> kinds (down_op k i s) ! j = kinds s ! j"
  by (simp add: down_op_def Let_def kinds_def set_task_def map_update)

lemma slow_kinds: "slow sig i s = Some s' \<Longrightarrow> kinds s' = kinds s"
  by (auto simp: slow_defs split: if_splits kind.splits pc.splits)

lemma queued_move:
  assumes q: "queued s" and i: "i < length (sem_tasks s)" and p: "pcs s' = (pcs s)[i := l]"
    and w: "\<And>j. j \<noteq> i \<Longrightarrow> j \<in> set (sem_wait s') \<longleftrightarrow> j \<in> set (sem_wait s)"
    and l: "waits l \<Longrightarrow> i \<in> set (sem_wait s')" "i \<in> set (sem_wait s') \<Longrightarrow> may_queue (kinds s' ! i) l"
    and k: "\<And>j. j \<noteq> i \<Longrightarrow> kinds s' ! j = kinds s ! j"
  shows "queued s'"
proof -
  have n: "length (sem_tasks s') = length (sem_tasks s)" by (metis length_list_update length_pcs p)
  have "j \<in> set (sem_wait s')" if "j < length (sem_tasks s')" "waits (pcs s' ! j)" for j
    using that q w [of j] l(1) i p n by (cases "j = i") (auto simp: queued_def)
  moreover have "j < length (sem_tasks s') \<and> may_queue (kinds s' ! j) (pcs s' ! j)" if "j \<in> set (sem_wait s')" for j
    using that q w [of j] l(2) i p n k [of j] by (cases "j = i") (auto simp: queued_def)
  ultimately show ?thesis by (simp add: queued_def)
qed

lemma slow_queue:
  assumes i: "i < length (sem_tasks s)" and s': "slow sig i s = Some s'" and q: "queued s"
  shows "(\<forall>j. j \<noteq> i \<longrightarrow> (j \<in> set (sem_wait s') \<longleftrightarrow> j \<in> set (sem_wait s))) \<and>
    (waits (pcs s' ! i) \<longrightarrow> i \<in> set (sem_wait s')) \<and> (i \<in> set (sem_wait s') \<longrightarrow> may_queue (kinds s' ! i) (pcs s' ! i))"
proof -
  have "waits (pcs s ! i) \<longrightarrow> i \<in> set (sem_wait s)" "i \<in> set (sem_wait s) \<longrightarrow> may_queue (kinds s ! i) (pcs s ! i)"
    using q i by (auto simp: queued_def)
  then show ?thesis
    using s' i pcs_nth [OF i] kinds_nth [OF i] slow_kinds [OF s']
    by (cases "t_kind (sem_tasks s ! i)"; cases "t_pc (sem_tasks s ! i)")
      (auto simp: slow_defs add_wait_queue_exclusive_def remove_wait_queue_def split: if_splits)
qed

lemma queued_step:
  assumes "sem_step s s'" "queued s" "accounts val s"
  shows "queued s'"
  using assms(1)
proof cases
  case (call_down i k)
  then have "i \<notin> set (sem_wait s)" using assms(2) by (auto simp: queued_def pcs_nth)
  then show ?thesis
    by (intro queued_move [OF assms(2) call_down(2), where l = "if sem_count s - 1 < 0 then Failed else Held"])
      (use call_down kinds_down_op in \<open>auto simp: down_op_def Let_def split: if_splits\<close>)
next
  case (call_up i)
  then have "i \<notin> set (sem_wait s)" using assms(2) by (auto simp: queued_def pcs_nth)
  then show ?thesis
    by (intro queued_move [OF assms(2) call_up(2), where l = "if sem_count s + 1 \<le> 0 then UpWake else Idle"])
      (use call_up in \<open>auto simp: up_op_def Let_def split: if_splits\<close>)
next
  case (go_on i sig)
  have "0 \<le> sem_sleepers s" "sem_sleepers s \<le> 1" using assms(3) by (simp_all add: accounts_def)
  then have m: "pcs s' = (pcs s)[i := pcs s' ! i]" using slow_moves [OF go_on] by blast
  note w = slow_queue [OF go_on assms(2)]
  show ?thesis
  proof (rule queued_move [OF assms(2) go_on(1) m])
    show "j \<in> set (sem_wait s') \<longleftrightarrow> j \<in> set (sem_wait s)" if "j \<noteq> i" for j using w that by blast
    show "waits (pcs s' ! i) \<Longrightarrow> i \<in> set (sem_wait s')" "i \<in> set (sem_wait s') \<Longrightarrow> may_queue (kinds s' ! i) (pcs s' ! i)"
      using w by blast+
    show "kinds s' ! j = kinds s ! j" for j using slow_kinds [OF go_on(2)] by simp
  qed
qed

lemma tasks_nth:
  "i < length (sem_tasks s) \<Longrightarrow> sem_tasks (goto i l s) ! j = (if j = i then (sem_tasks s ! i)\<lparr>t_pc := l\<rparr> else sem_tasks s ! j)"
  "i < length (sem_tasks s) \<Longrightarrow> sem_tasks (mark i b s) ! j = (if j = i then (sem_tasks s ! i)\<lparr>t_marked := b\<rparr> else sem_tasks s ! j)"
  by (simp_all add: goto_def mark_def set_task_def nth_list_update)

lemma no_lost_awake: "i < length (sem_tasks s) \<Longrightarrow> awake (sem_tasks s ! i) \<Longrightarrow> no_lost s"
  by (auto simp: no_lost_def)

lemma wake_up_common_unmarks:
  "\<forall>i \<in> set q. i < length (sem_tasks s) \<Longrightarrow>
    sem_tasks (wake_up_common q s) ! j = sem_tasks s ! j \<or> sem_tasks (wake_up_common q s) ! j = (sem_tasks s ! j)\<lparr>t_marked := False\<rparr>"
proof (induction q arbitrary: s)
  case (Cons i q)
  have "sem_tasks (wake_up_common q s) ! j = sem_tasks s ! j \<or> sem_tasks (wake_up_common q s) ! j = (sem_tasks s ! j)\<lparr>t_marked := False\<rparr>"
    using Cons.prems by (intro Cons.IH) simp
  moreover have "sem_tasks (wake_up_common q (mark i False s)) ! j = sem_tasks (mark i False s) ! j \<or>
    sem_tasks (wake_up_common q (mark i False s)) ! j = (sem_tasks (mark i False s) ! j)\<lparr>t_marked := False\<rparr>"
    using Cons.prems by (intro Cons.IH) simp
  ultimately show ?case using Cons.prems by (auto simp: try_to_wake_up_def tasks_nth split: if_splits)
qed simp

lemma wake_up_common_wakes:
  "\<forall>i \<in> set q. i < length (sem_tasks s) \<Longrightarrow> \<exists>i \<in> set q. t_marked (sem_tasks s ! i) \<Longrightarrow>
    \<exists>j \<in> set q. \<not> t_marked (sem_tasks (wake_up_common q s) ! j)"
proof (induction q arbitrary: s)
  case (Cons i q)
  show ?case
  proof (cases "t_marked (sem_tasks s ! i)")
    case True
    have "\<not> t_marked (sem_tasks (wake_up_common q (mark i False s)) ! i)"
      using wake_up_common_unmarks [of q "mark i False s" i] Cons.prems(1) by (auto simp: tasks_nth)
    then show ?thesis using True Cons.prems(1) by (auto simp: try_to_wake_up_def tasks_nth)
  next
    case False
    then show ?thesis using Cons.IH [of s] Cons.prems by (auto simp: try_to_wake_up_def)
  qed
qed simp

lemma wake_up_wakes:
  assumes q: "queued s" and i: "i < length (sem_tasks s)" "asleep (sem_tasks s ! i)"
  shows "\<exists>j \<in> set (sem_wait s). awake (sem_tasks (wake_up s) ! j)"
proof -
  have w: "\<forall>i \<in> set (sem_wait s). i < length (sem_tasks s)" using q by (simp add: queued_def)
  have "i \<in> set (sem_wait s)" using q i by (auto simp: queued_def pcs_nth)
  then obtain j where j: "j \<in> set (sem_wait s)" "\<not> t_marked (sem_tasks (wake_up s) ! j)"
    using wake_up_common_wakes [OF w] i(2) by (auto simp: wake_up_def)
  then have n: "j < length (sem_tasks s)" and l: "may_queue (kinds s ! j) (pcs (wake_up s) ! j)"
    using q by (auto simp: queued_def)
  moreover have "pcs s ! j = t_pc (sem_tasks (wake_up s) ! j)" using n pcs_nth [of j "wake_up s"] by simp
  ultimately have "awake (sem_tasks (wake_up s) ! j)" using j(2) by auto
  then show ?thesis using j(1) by blast
qed

lemma asleep_wake_up: "queued s \<Longrightarrow> asleep (sem_tasks (wake_up s) ! i) \<Longrightarrow> asleep (sem_tasks s ! i)"
  using wake_up_common_unmarks [of "sem_wait s" s i] by (auto simp: wake_up_def queued_def)

lemma no_lost_wake_up:
  assumes q: "queued s" and i: "i < length (sem_tasks s)" "i \<notin> set (sem_wait s)" and l: "l \<noteq> Sched" "l \<noteq> Asleep"
  shows "no_lost (goto i l (wake_up s))"
proof (cases "\<exists>j < length (sem_tasks s). asleep (sem_tasks s ! j)")
  case True
  then obtain j where j: "j \<in> set (sem_wait s)" "awake (sem_tasks (wake_up s) ! j)" using wake_up_wakes [OF q] by blast
  then have "j \<noteq> i" "j < length (sem_tasks s)" using i q by (auto simp: queued_def)
  then show ?thesis using j(2) i(1) by (intro no_lost_awake [of j]) (simp_all add: tasks_nth)
next
  case False
  then have "\<not> asleep (sem_tasks (goto i l (wake_up s)) ! j)" if "j < length (sem_tasks s)" for j
    using that i(1) l asleep_wake_up [OF q, of j] by (auto simp: tasks_nth)
  then show ?thesis unfolding no_lost_def by (metis length_set_task(2) length_wake_up)
qed

text \<open>A step of one process that leaves the others and takes nothing from what the sleepers rely on.\<close>

lemma no_lost_other:
  assumes j: "no_lost s" and i: "i < length (sem_tasks s)" "\<not> awake (sem_tasks s ! i)" and n: "length (sem_tasks s') = length (sem_tasks s)"
    and o: "\<And>k. k \<noteq> i \<Longrightarrow> sem_tasks s' ! k = sem_tasks s ! k" and a: "\<not> asleep (sem_tasks s' ! i)"
    and c: "sem_sleepers s = 1 \<Longrightarrow> sem_count s < 0 \<Longrightarrow> sem_sleepers s' = 1 \<and> sem_count s' < 0"
  shows "no_lost s'"
proof -
  have "(\<exists>k < length (sem_tasks s). awake (sem_tasks s ! k)) \<or> sem_sleepers s = 1 \<and> sem_count s < 0"
    if "k < length (sem_tasks s')" "asleep (sem_tasks s' ! k)" for k
    using j that n o a unfolding no_lost_def by metis
  moreover have "\<exists>k < length (sem_tasks s'). awake (sem_tasks s' ! k)" if "k < length (sem_tasks s)" "awake (sem_tasks s ! k)" for k
    using that i(2) o n by metis
  ultimately show ?thesis using c unfolding no_lost_def by blast
qed

lemma no_lost_same:
  "no_lost s \<Longrightarrow> length (sem_tasks s') = length (sem_tasks s) \<Longrightarrow> sem_count s' = sem_count s \<Longrightarrow> sem_sleepers s' = sem_sleepers s \<Longrightarrow>
    (\<And>k. asleep (sem_tasks s' ! k) = asleep (sem_tasks s ! k) \<and> awake (sem_tasks s' ! k) = awake (sem_tasks s ! k)) \<Longrightarrow> no_lost s'"
  unfolding no_lost_def by metis

lemma no_lost_try_again:
  assumes "i < length (sem_tasks s)"
  shows "no_lost (try_again i s)"
proof (cases "sem_count s + (sem_sleepers s - 1) < 0")
  case True
  then show ?thesis by (simp add: try_again_def Let_def no_lost_def)
next
  case False
  then show ?thesis using assms by (intro no_lost_awake [of i]) (simp_all add: try_again_def Let_def tasks_nth)
qed

lemma no_lost_give_up: "i < length (sem_tasks s) \<Longrightarrow> no_lost (give_up i s)"
  by (intro no_lost_awake [of i]) (simp_all add: give_up_def Let_def tasks_nth)

lemma pending_awake:
  assumes "0 < many pending (pcs s)"
  shows "\<exists>i < length (sem_tasks s). awake (sem_tasks s ! i)"
proof -
  obtain i where "i < length (sem_tasks s)" "pending (t_pc (sem_tasks s ! i))"
    using assms many_pos [of pending "pcs s"] by (auto simp: pcs_nth)
  then show ?thesis by (intro exI [of _ i]) auto
qed

lemma no_lost_slow:
  assumes i: "i < length (sem_tasks s)" and s': "slow sig i s = Some s'" and q: "queued s" and nl: "no_lost s" and a: "accounts val s'"
  shows "no_lost s'"
proof -
  have out: "i \<notin> set (sem_wait s)" if "\<not> may_queue (t_kind (sem_tasks s ! i)) (t_pc (sem_tasks s ! i))"
    using q that i by (auto simp: queued_def pcs_nth kinds_nth)
  have aw: "no_lost s'" if "awake (sem_tasks s' ! i)" "length (sem_tasks s') = length (sem_tasks s)"
    using no_lost_awake [of i s'] i that by simp
  show ?thesis
  proof (cases "t_pc (sem_tasks s ! i)")
    case Failed
    show ?thesis
    proof (cases "t_kind (sem_tasks s ! i) = Trylock")
      case True
      show ?thesis
      proof (cases "sem_count s' < 0")
        case neg: True
        then have "0 < many pending (pcs s')" using a True Failed s' by (auto simp: accounts_def slow_defs split: if_splits)
        then show ?thesis using pending_awake by (auto simp: no_lost_def)
      next
        case False
        let ?s = "s\<lparr>sem_sleepers := 0, sem_count := sem_count s + (sem_sleepers s + 1)\<rparr>"
        have "queued ?s" using q by (simp add: queued_def)
        moreover have "s' = goto i Idle (wake_up ?s)" using True False Failed s' by (auto simp: slow_defs split: if_splits)
        ultimately show ?thesis using no_lost_wake_up [of ?s i Idle] out Failed i by simp
      qed
    qed (use aw s' i Failed in \<open>auto simp: slow_defs tasks_nth split: kind.splits\<close>)
  next
    case Sched
    have "no_lost (goto i Asleep s)" if "t_marked (sem_tasks s ! i)" using that Sched i no_lost_same [OF nl, of "goto i Asleep s"] by (simp add: tasks_nth)
    then show ?thesis using s' i Sched aw by (auto simp: slow_defs tasks_nth split: kind.splits if_splits)
  next
    case First
    then show ?thesis
      using s' i no_lost_try_again [of i "s\<lparr>sem_sleepers := sem_sleepers s + 1\<rparr>"]
        no_lost_give_up [of i "s\<lparr>sem_sleepers := sem_sleepers s + 1\<rparr>"]
      by (auto simp: slow_def down_slow_def down_interruptible_slow_def down_trylock_slow_def Let_def split: kind.splits if_splits)
  next
    case Loop
    then show ?thesis
      using s' i no_lost_try_again [of i s] no_lost_give_up [of i s]
      by (auto simp: slow_def down_slow_def down_interruptible_slow_def down_trylock_slow_def split: kind.splits if_splits)
  next
    case (Wake r)
    then show ?thesis
      using s' i out no_lost_wake_up [OF q i, of Held] no_lost_wake_up [OF q i, of Idle]
      by (auto simp: slow_def down_slow_def down_interruptible_slow_def down_trylock_slow_def split: kind.splits if_splits)
  next
    case UpWake
    then show ?thesis using s' out no_lost_wake_up [OF q i, of Idle] by (simp add: slow_def)
  qed (use aw s' i in \<open>auto simp: slow_defs tasks_nth split: kind.splits if_splits\<close>)
qed

lemma no_lost_step:
  assumes "sem_step s s'" "queued s" "no_lost s" "accounts val s'"
  shows "no_lost s'"
  using assms(1)
proof cases
  case (call_down i k)
  show ?thesis
  proof (cases "sem_count s - 1 < 0")
    case True
    then show ?thesis using call_down by (intro no_lost_awake [of i]) (simp_all add: down_op_def Let_def set_task_def)
  next
    case False
    then show ?thesis
      using call_down by (intro no_lost_other [OF assms(3) call_down(2)]) (simp_all add: down_op_def Let_def set_task_def)
  qed
next
  case (call_up i)
  show ?thesis
  proof (cases "sem_count s + 1 \<le> 0")
    case True
    then show ?thesis using call_up by (intro no_lost_awake [of i]) (simp_all add: up_op_def Let_def tasks_nth)
  next
    case False
    then show ?thesis
      using call_up by (intro no_lost_other [OF assms(3) call_up(2)]) (simp_all add: up_op_def Let_def tasks_nth)
  qed
next
  case (go_on i sig)
  then show ?thesis using no_lost_slow assms(2-4) by blast
qed

section \<open>Further invariants\<close>

text \<open>The field \<^verbatim>\<open>sleepers\<close> is one only while somebody is in the loop, and \<^verbatim>\<open>down_trylock\<close> never sleeps.\<close>

fun looping :: "pc \<Rightarrow> bool" where
  "looping Sched = True"
| "looping Asleep = True"
| "looping Again = True"
| "looping Loop = True"
| "looping _ = False"

definition sleepers_wait :: "semaphore \<Rightarrow> bool" where
  "sleepers_wait s \<longleftrightarrow> (sem_sleepers s = 1 \<longrightarrow> 0 < many looping (pcs s))"

fun try_pc :: "kind \<Rightarrow> pc \<Rightarrow> bool" where
  "try_pc Trylock l = (l = Idle \<or> l = Held \<or> l = Failed \<or> l = UpWake)"
| "try_pc _ l = True"

definition tries_ok :: "semaphore \<Rightarrow> bool" where
  "tries_ok s \<longleftrightarrow> (\<forall>i < length (sem_tasks s). try_pc (t_kind (sem_tasks s ! i)) (t_pc (sem_tasks s ! i)))"

lemma sleepers_wait_move:
  assumes w: "sleepers_wait s" and i: "i < length (sem_tasks s)" and p: "pcs s' = (pcs s)[i := l]"
    and k: "sem_sleepers s' = 1 \<Longrightarrow> looping l \<or> sem_sleepers s = 1 \<and> \<not> looping (pcs s ! i)"
  shows "sleepers_wait s'"
proof -
  have "\<exists>j < length (pcs s'). looping (pcs s' ! j)" if one: "sem_sleepers s' = 1"
  proof (cases "looping l")
    case True
    then show ?thesis using i by (intro exI [of _ i]) (simp add: p)
  next
    case False
    then obtain j where "j < length (pcs s)" "looping (pcs s ! j)" "j \<noteq> i"
      using k [OF one] w many_pos [of looping "pcs s"] by (auto simp: sleepers_wait_def)
    then show ?thesis by (intro exI [of _ j]) (simp add: p)
  qed
  then show ?thesis using many_pos [of looping "pcs s'"] by (auto simp: sleepers_wait_def)
qed

lemma slow_sleepers:
  assumes i: "i < length (sem_tasks s)" and s': "slow sig i s = Some s'" and k: "sem_sleepers s' = 1"
  shows "looping (pcs s' ! i) \<or> sem_sleepers s = 1 \<and> \<not> looping (pcs s ! i)"
  using s' k i pcs_nth [OF i]
  by (cases "t_kind (sem_tasks s ! i)"; cases "t_pc (sem_tasks s ! i)") (auto simp: slow_defs split: if_splits)

lemma sleepers_wait_step:
  assumes "sem_step s s'" "sleepers_wait s" "accounts val s"
  shows "sleepers_wait s'"
  using assms(1)
proof cases
  case (call_down i k)
  show ?thesis
    by (rule sleepers_wait_move [OF assms(2) call_down(2), where l = "if sem_count s - 1 < 0 then Failed else Held"])
      (use call_down in \<open>auto simp: down_op_def Let_def pcs_nth\<close>)
next
  case (call_up i)
  show ?thesis
    by (rule sleepers_wait_move [OF assms(2) call_up(2), where l = "if sem_count s + 1 \<le> 0 then UpWake else Idle"])
      (use call_up in \<open>auto simp: up_op_def Let_def pcs_nth\<close>)
next
  case (go_on i sig)
  have "0 \<le> sem_sleepers s" "sem_sleepers s \<le> 1" using assms(3) by (simp_all add: accounts_def)
  then have m: "pcs s' = (pcs s)[i := pcs s' ! i]" using slow_moves [OF go_on] by blast
  show ?thesis by (rule sleepers_wait_move [OF assms(2) go_on(1) m]) (rule slow_sleepers [OF go_on])
qed

lemma tries_ok_lists: "tries_ok s \<longleftrightarrow> (\<forall>i < length (sem_tasks s). try_pc (kinds s ! i) (pcs s ! i))"
  by (simp add: tries_ok_def pcs_nth kinds_nth)

lemma slow_tries:
  assumes i: "i < length (sem_tasks s)" and s': "slow sig i s = Some s'" and k: "try_pc (kinds s ! i) (pcs s ! i)"
  shows "try_pc (kinds s ! i) (pcs s' ! i)"
  using s' k i pcs_nth [OF i] kinds_nth [OF i]
  by (cases "t_kind (sem_tasks s ! i)"; cases "t_pc (sem_tasks s ! i)") (auto simp: slow_defs split: if_splits)

lemma tries_ok_step:
  assumes "sem_step s s'" "tries_ok s" "accounts val s"
  shows "tries_ok s'"
  using assms(1)
proof cases
  case (call_down i k)
  then show ?thesis using assms(2) by (cases k) (auto simp: tries_ok_def down_op_def Let_def set_task_def nth_list_update)
next
  case (call_up i)
  then show ?thesis using assms(2) by (auto simp: tries_ok_lists up_op_def Let_def nth_list_update kinds_nth pcs_nth elim!: try_pc.elims)
next
  case (go_on i sig)
  have "0 \<le> sem_sleepers s" "sem_sleepers s \<le> 1" using assms(3) by (simp_all add: accounts_def)
  then have m: "pcs s' = (pcs s)[i := pcs s' ! i]" using slow_moves [OF go_on] by blast
  then have n: "length (sem_tasks s') = length (sem_tasks s)" by (metis length_list_update length_pcs)
  have "try_pc (kinds s' ! j) (pcs s' ! j)" if "j < length (sem_tasks s)" for j
    using assms(2) that slow_tries [OF go_on] slow_kinds [OF go_on(2)] m go_on(1)
    by (cases "j = i") (auto simp: tries_ok_lists, metis nth_list_update_neq)
  then show ?thesis by (simp add: tries_ok_lists n)
qed

definition sem_inv :: "nat \<Rightarrow> semaphore \<Rightarrow> bool" where
  "sem_inv val s \<longleftrightarrow> accounts val s \<and> queued s \<and> no_lost s \<and> sleepers_wait s \<and> tries_ok s"

lemma reach_inv: "sem_reach val n s \<Longrightarrow> sem_inv val s"
proof (induction rule: sem_reach.induct)
  case start
  then show ?case
    by (auto simp: sem_inv_def accounts_def queued_def no_lost_def sleepers_wait_def tries_ok_def sem_start_def sema_init_def pcs_def)
next
  case (next_step s s')
  then have "accounts val s'" using accounts_step by (simp add: sem_inv_def)
  then show ?case
    using next_step queued_step no_lost_step sleepers_wait_step tries_ok_step by (auto simp: sem_inv_def)
qed

section \<open>What the semaphore promises\<close>

lemma many_held_le: "many (\<lambda>t. t_pc t = Held) ts \<le> many holds (map t_pc ts)"
  by (induction ts) auto

lemma many_held_quiet:
  "\<forall>t \<in> set ts. t_pc t = Idle \<or> t_pc t = Held \<or> asleep t \<Longrightarrow>
    many (\<lambda>t. t_pc t = Held) ts = many holds (map t_pc ts) \<and> many pending (map t_pc ts) = 0"
  by (induction ts) (auto simp: filter_map)

text \<open>
  C4. The semaphore counts. In every state that any number of processes can reach by calls of \<^verbatim>\<open>down\<close>,
  \<^verbatim>\<open>down_interruptible\<close>, \<^verbatim>\<open>down_trylock\<close> and \<^verbatim>\<open>up\<close>, interleaved in any way and with any signals, at most as many
  processes are between \<^verbatim>\<open>down\<close> and \<^verbatim>\<open>up\<close> as the semaphore was initialised with. When no process is inside a call, the
  count is exactly the number of free units and the wait queue is empty.
\<close>

theorem semaphore_counts:
  assumes "sem_reach val n s"
  shows "many (\<lambda>t. t_pc t = Held) (sem_tasks s) \<le> val \<and>
    ((\<forall>t \<in> set (sem_tasks s). t_pc t = Idle \<or> t_pc t = Held) \<longrightarrow>
      sem_count s = int val - int (many (\<lambda>t. t_pc t = Held) (sem_tasks s)) \<and> sem_wait s = [])"
proof (intro conjI impI)
  have inv: "accounts val s" "queued s" "sleepers_wait s" using reach_inv [OF assms] by (simp_all add: sem_inv_def)
  show "many (\<lambda>t. t_pc t = Held) (sem_tasks s) \<le> val"
    using inv(1) many_held_le [of "sem_tasks s"] by (simp add: accounts_def pcs_def)
  assume q: "\<forall>t \<in> set (sem_tasks s). t_pc t = Idle \<or> t_pc t = Held"
  have pc: "pcs s ! i = Idle \<or> pcs s ! i = Held" if "i < length (sem_tasks s)" for i using q that by (simp add: pcs_nth)
  have "\<not> 0 < many looping (pcs s)" using pc many_pos [of looping "pcs s"] by fastforce
  then have "sem_sleepers s = 0" using inv(1,3) by (auto simp: accounts_def sleepers_wait_def)
  moreover have "\<forall>t \<in> set (sem_tasks s). t_pc t = Idle \<or> t_pc t = Held \<or> asleep t" using q by auto
  ultimately show "sem_count s = int val - int (many (\<lambda>t. t_pc t = Held) (sem_tasks s))"
    using inv(1) many_held_quiet [of "sem_tasks s"] by (simp add: accounts_def pcs_def)
  have "False" if "i \<in> set (sem_wait s)" for i using inv(2) that pc [of i] by (auto simp: queued_def)
  then show "sem_wait s = []" by (cases "sem_wait s") auto
qed

text \<open>
  C6. No wake-up is lost. In every reachable state in which no process inside the semaphore can make a step without a
  signal, although some process is inside, all units are taken: the sleepers wait for processes that have not called
  \<^verbatim>\<open>up\<close> yet.
\<close>

theorem semaphore_no_lost_wakeup:
  assumes "sem_reach val n s" "\<forall>i < length (sem_tasks s). slow False i s = None"
    and "\<exists>t \<in> set (sem_tasks s). t_pc t \<noteq> Idle \<and> t_pc t \<noteq> Held"
  shows "many (\<lambda>t. t_pc t = Held) (sem_tasks s) = val"
proof -
  have inv: "accounts val s" "no_lost s" "tries_ok s" using reach_inv [OF assms(1)] by (simp_all add: sem_inv_def)
  have quiet: "t_pc (sem_tasks s ! i) = Idle \<or> t_pc (sem_tasks s ! i) = Held \<or> asleep (sem_tasks s ! i)"
    if "i < length (sem_tasks s)" for i
  proof -
    have "slow False i s = None" "try_pc (t_kind (sem_tasks s ! i)) (t_pc (sem_tasks s ! i))"
      using assms(2) inv(3) that by (auto simp: tries_ok_def)
    then show ?thesis
      by (cases "t_kind (sem_tasks s ! i)"; cases "t_pc (sem_tasks s ! i)") (auto simp: slow_defs split: if_splits)
  qed
  then have "sem_sleepers s = 1" "sem_count s < 0"
    using inv(2) assms(3) unfolding no_lost_def by (metis awake.elims(2) in_set_conv_nth)+
  moreover have "\<forall>t \<in> set (sem_tasks s). t_pc t = Idle \<or> t_pc t = Held \<or> asleep t" using quiet by (metis in_set_conv_nth)
  ultimately show ?thesis using inv(1) many_held_quiet [of "sem_tasks s"] by (simp add: accounts_def pcs_def)
qed

section \<open>The contract of a semaphore\<close>

text \<open>
  What a user of the semaphore may rely on: a number of free units and the processes that have one. This is how the
  drivers of \<open>Globalmem\<close> and \<open>Buttons\<close> see their semaphores.
\<close>

inductive sem_spec :: "nat \<times> nat set \<Rightarrow> nat \<times> nat set \<Rightarrow> bool" where
  stay: "sem_spec (u, H) (u, H)"
| take: "0 < u \<Longrightarrow> i \<notin> H \<Longrightarrow> sem_spec (u, H) (u - 1, insert i H)"
| release: "i \<in> H \<Longrightarrow> sem_spec (u, H) (u + 1, H - {i})"

definition holders :: "semaphore \<Rightarrow> nat set" where
  "holders s = {i. i < length (pcs s) \<and> holds (pcs s ! i)}"

definition abs_sem :: "nat \<Rightarrow> semaphore \<Rightarrow> nat \<times> nat set" where
  "abs_sem val s = (val - many holds (pcs s), holders s)"

lemma step_moves_one:
  assumes "sem_step s s'" "accounts val s"
  shows "\<exists>i l. i < length (pcs s) \<and> pcs s' = (pcs s)[i := l]"
  using assms(1)
proof cases
  case (go_on i sig)
  have "0 \<le> sem_sleepers s" "sem_sleepers s \<le> 1" using assms(2) by (simp_all add: accounts_def)
  then have "pcs s' = (pcs s)[i := pcs s' ! i]" using slow_moves [OF go_on] by blast
  then show ?thesis using go_on(1) by (metis length_pcs)
qed (auto simp: down_op_def up_op_def Let_def intro!: exI)

lemma abs_sem_move:
  assumes i: "i < length (pcs s)" and p: "pcs s' = (pcs s)[i := l]" and a: "accounts val s" "accounts val s'"
  shows "sem_spec (abs_sem val s) (abs_sem val s')"
proof -
  have m: "many holds (pcs s') + of_bool (holds (pcs s ! i)) = many holds (pcs s) + of_bool (holds l)"
    using i by (simp add: p many_update)
  have v: "many holds (pcs s) \<le> val" "many holds (pcs s') \<le> val" using a by (simp_all add: accounts_def)
  have h: "holders s' = (if holds l then insert i (holders s) else holders s - {i})"
    using i by (auto simp: holders_def p nth_list_update)
  consider "holds l = holds (pcs s ! i)" | "holds l" "\<not> holds (pcs s ! i)" | "\<not> holds l" "holds (pcs s ! i)" by blast
  then show ?thesis
  proof cases
    case 1
    then have "abs_sem val s' = abs_sem val s" using m h i by (auto simp: abs_sem_def holders_def)
    then show ?thesis using stay by (metis surj_pair)
  next
    case 2
    then have "0 < val - many holds (pcs s)" "abs_sem val s' = (val - many holds (pcs s) - 1, insert i (holders s))" "i \<notin> holders s"
      using m v h by (auto simp: abs_sem_def holders_def)
    then show ?thesis using take unfolding abs_sem_def [of val s] by metis
  next
    case 3
    then have "abs_sem val s' = (val - many holds (pcs s) + 1, holders s - {i})" "i \<in> holders s"
      using m v h i by (auto simp: abs_sem_def holders_def)
    then show ?thesis using release unfolding abs_sem_def [of val s] by metis
  qed
qed

text \<open>
  C5. The semaphore implements its contract. Every step of every process is, for the free units and the processes that
  have one, nothing, the taking of a unit when there is one, or the release of a unit by a process that has one; so every
  execution is one of the contract. Behind a successful \<^verbatim>\<open>down\<close> a process has a unit; before a call, behind \<^verbatim>\<open>up\<close> and
  behind a call that failed or was interrupted it has none.
\<close>

theorem semaphore_refines:
  assumes "sem_reach val n s"
  shows "sem_spec\<^sup>*\<^sup>* (val, {}) (abs_sem val s) \<and>
    (\<forall>s'. sem_step s s' \<longrightarrow> sem_spec (abs_sem val s) (abs_sem val s')) \<and>
    (\<forall>i < length (sem_tasks s). (t_pc (sem_tasks s ! i) = Held \<longrightarrow> i \<in> snd (abs_sem val s)) \<and>
      (t_pc (sem_tasks s ! i) = Idle \<longrightarrow> i \<notin> snd (abs_sem val s)))"
proof -
  have step: "sem_spec (abs_sem val s) (abs_sem val s')" if "sem_reach val n s" "sem_step s s'" for s s'
  proof -
    have a: "accounts val s" using reach_inv [OF that(1)] by (simp add: sem_inv_def)
    then show ?thesis using step_moves_one [OF that(2) a] abs_sem_move accounts_step [OF that(2) a] by blast
  qed
  have "sem_spec\<^sup>*\<^sup>* (val, {}) (abs_sem val s)"
    using assms
  proof (induction rule: sem_reach.induct)
    case start
    have "abs_sem val (sem_start val n) = (val, {})" by (auto simp: abs_sem_def holders_def pcs_def sem_start_def sema_init_def)
    then show ?case by simp
  next
    case (next_step s s')
    then show ?case using step by (meson rtranclp.rtrancl_into_rtrancl)
  qed
  then show ?thesis using step [OF assms] by (simp add: abs_sem_def holders_def pcs_nth)
qed

text \<open>Two processes and a mutex: the first has it, the second sleeps.\<close>

definition contended :: semaphore where
  "contended = \<lparr>sem_count = - 1, sem_sleepers = 1, sem_wait = [1],
     sem_tasks = [\<lparr>t_pc = Held, t_marked = False, t_kind = Plain\<rparr>, \<lparr>t_pc = Asleep, t_marked = True, t_kind = Interruptible\<rparr>]\<rparr>"

lemma contended_reached: "sem_reach 1 2 contended"
proof -
  let ?s1 = "down_op Plain 0 (sem_start 1 2)"
  let ?s2 = "down_op Interruptible 1 ?s1"
  have s2: "?s2 = \<lparr>sem_count = - 1, sem_sleepers = 0, sem_wait = [],
      sem_tasks = [\<lparr>t_pc = Held, t_marked = False, t_kind = Plain\<rparr>, \<lparr>t_pc = Failed, t_marked = False, t_kind = Interruptible\<rparr>]\<rparr>"
    by (simp add: sem_start_def sema_init_def down_op_def set_task_def Let_def numeral_2_eq_2)
  have "sem_reach 1 2 ?s1"
    by (rule next_step [OF start call_down]) (simp_all add: sem_start_def sema_init_def)
  then have r: "sem_reach 1 2 ?s2"
    by (rule next_step [OF _ call_down]) (simp_all add: sem_start_def sema_init_def down_op_def set_task_def Let_def numeral_2_eq_2)
  define sl where "sl = (\<lambda>s. slow False 1 s)"
  have e: "Option.bind (Option.bind (Option.bind (sl ?s2) sl) sl) sl = Some contended"
    unfolding s2 sl_def by (simp add: slow_defs goto_def mark_def set_task_def add_wait_queue_exclusive_def contended_def)
  have go: "sem_reach 1 2 s' \<and> length (sem_tasks s') = 2" if "sem_reach 1 2 s \<and> length (sem_tasks s) = 2" "sl s = Some s'" for s s'
    using that next_step [OF _ go_on, of 1 2 s 1 False s'] slow_length [of 1 s False s'] by (simp add: sl_def)
  obtain s3 s4 s5 where s: "sl ?s2 = Some s3" "sl s3 = Some s4" "sl s4 = Some s5" "sl s5 = Some contended"
    using e unfolding bind_eq_Some_conv by blast
  have "sem_reach 1 2 ?s2 \<and> length (sem_tasks ?s2) = 2" using r s2 by simp
  from go [OF this s(1)] have "sem_reach 1 2 s3 \<and> length (sem_tasks s3) = 2" .
  from go [OF this s(2)] have "sem_reach 1 2 s4 \<and> length (sem_tasks s4) = 2" .
  from go [OF this s(3)] have "sem_reach 1 2 s5 \<and> length (sem_tasks s5) = 2" .
  from go [OF this s(4)] show ?thesis by blast
qed

theorem semaphore_counts_witness: "many (\<lambda>t. t_pc t = Held) (sem_tasks contended) \<le> 1"
  using semaphore_counts [OF contended_reached] by simp

theorem semaphore_no_lost_wakeup_witness: "many (\<lambda>t. t_pc t = Held) (sem_tasks contended) = 1"
proof (rule semaphore_no_lost_wakeup [OF contended_reached])
  have "slow False i contended = None" if "i = 0 \<or> i = 1" for i using that by (auto simp: contended_def slow_defs)
  then show "\<forall>i < length (sem_tasks contended). slow False i contended = None" by (auto simp: contended_def less_Suc_eq)
  show "\<exists>t \<in> set (sem_tasks contended). t_pc t \<noteq> Idle \<and> t_pc t \<noteq> Held" by (simp add: contended_def)
qed

theorem semaphore_refines_witness: "sem_spec\<^sup>*\<^sup>* (1, {}) (0, {0})"
proof -
  have "abs_sem 1 contended = (0, {0})" by (auto simp: abs_sem_def holders_def contended_def pcs_def less_Suc_eq)
  then show ?thesis using semaphore_refines [OF contended_reached] by metis
qed

end
