(* ===== verification/Globalmem.thy ===== *)
theory Globalmem
  imports Kernel_Sync
begin

text \<open>
  The character device \<^verbatim>\<open>globalmem\<close>: 4096 bytes of memory that any number of processes read, write and clear. There are
  two versions, \<^verbatim>\<open>globalmem.c\<close> without and \<^verbatim>\<open>globalmem_sem.c\<close> with a semaphore around the copies; the argument \<open>lk\<close> of
  the functions selects the second.

  A copy goes byte by byte, and other processes can run between two bytes. A fault in the user's buffer is a choice of
  the step. When \<^verbatim>\<open>copy_from_user\<close> faults, it fills the rest of its destination with zeros.
\<close>

section \<open>State\<close>

definition GLOBALMEM_SIZE :: nat where "GLOBALMEM_SIZE = 0x1000"
definition MEM_CLEAR :: u32 where "MEM_CLEAR = 0x1"

type_synonym loff_t = u64

record globalmem_dev =
  gm_mem :: "u8 list"
  gm_sem :: nat

definition globalmem_init :: globalmem_dev where
  "globalmem_init = \<lparr>gm_mem = replicate GLOBALMEM_SIZE 0, gm_sem = 1\<rparr>"

section \<open>Calls\<close>

text \<open>
  \<open>Down\<close>: at \<^verbatim>\<open>down_interruptible\<close>. \<open>Copy k\<close>: \<open>k\<close> bytes are done. \<open>Up r\<close>: at \<^verbatim>\<open>up\<close>. \<open>Done r\<close>: returned.
\<close>

datatype gm_pc = Down | Copy nat | Up int | Done int

datatype gm_fun = Read | Write | Clear

text \<open>\<open>g_buf\<close> are the bytes to write, or those read so far; \<open>g_fault\<close> is set when the copy has faulted.\<close>

record gm_call =
  g_fun :: gm_fun
  g_ppos :: loff_t
  g_pos :: nat
  g_count :: nat
  g_buf :: "u8 list"
  g_fault :: bool
  g_pc :: gm_pc

datatype gm_choice = Go | Signal | Fault

text \<open>Where the copy starts and where it goes when it ends, with and without the semaphore.\<close>

definition gm_enter :: "bool \<Rightarrow> gm_pc" where
  "gm_enter lk = (if lk then Down else Copy 0)"

definition gm_leave :: "bool \<Rightarrow> int \<Rightarrow> gm_pc" where
  "gm_leave lk r = (if lk then Up r else Done r)"

text \<open>The first part of both transfers: the position is cut to 32 bits, the length to what is left.\<close>

definition globalmem_range :: "loff_t \<Rightarrow> u32 \<Rightarrow> int + nat \<times> nat" where
  "globalmem_range ppos n =
     (let p = unat (ucast ppos :: u32); count = unat n
      in if p \<ge> GLOBALMEM_SIZE then Inl (if count \<noteq> 0 then - ENXIO else 0)
         else Inr (p, if count > GLOBALMEM_SIZE - p then GLOBALMEM_SIZE - p else count))"

definition call_read :: "bool \<Rightarrow> loff_t \<Rightarrow> u32 \<Rightarrow> gm_call" where
  "call_read lk ppos n =
     (case globalmem_range ppos n of
        Inl r \<Rightarrow> \<lparr>g_fun = Read, g_ppos = ppos, g_pos = 0, g_count = 0, g_buf = [], g_fault = False, g_pc = Done r\<rparr>
      | Inr (p, count) \<Rightarrow> \<lparr>g_fun = Read, g_ppos = ppos, g_pos = p, g_count = count, g_buf = [], g_fault = False, g_pc = gm_enter lk\<rparr>)"

definition call_write :: "bool \<Rightarrow> loff_t \<Rightarrow> u8 list \<Rightarrow> gm_call" where
  "call_write lk ppos buf =
     (case globalmem_range ppos (of_nat (length buf)) of
        Inl r \<Rightarrow> \<lparr>g_fun = Write, g_ppos = ppos, g_pos = 0, g_count = 0, g_buf = buf, g_fault = False, g_pc = Done r\<rparr>
      | Inr (p, count) \<Rightarrow> \<lparr>g_fun = Write, g_ppos = ppos, g_pos = p, g_count = count, g_buf = buf, g_fault = False, g_pc = gm_enter lk\<rparr>)"

definition call_ioctl :: "bool \<Rightarrow> loff_t \<Rightarrow> u32 \<Rightarrow> gm_call" where
  "call_ioctl lk ppos cmd =
     \<lparr>g_fun = Clear, g_ppos = ppos, g_pos = 0, g_count = GLOBALMEM_SIZE, g_buf = [], g_fault = False,
      g_pc = (if cmd = MEM_CLEAR then gm_enter lk else Done (- EINVAL))\<rparr>"

text \<open>Taking and releasing the semaphore is the same in the three functions.\<close>

definition gm_down :: "gm_choice \<Rightarrow> gm_call \<Rightarrow> globalmem_dev \<Rightarrow> (gm_call \<times> globalmem_dev) option" where
  "gm_down e c dev =
     (if e = Signal then Some (c\<lparr>g_pc := Done (- ERESTARTSYS)\<rparr>, dev)
      else if gm_sem dev = 0 then None
      else Some (c\<lparr>g_pc := Copy 0\<rparr>, dev\<lparr>gm_sem := gm_sem dev - 1\<rparr>))"

definition gm_up :: "int \<Rightarrow> gm_call \<Rightarrow> globalmem_dev \<Rightarrow> (gm_call \<times> globalmem_dev) option" where
  "gm_up r c dev = Some (c\<lparr>g_pc := Done r\<rparr>, dev\<lparr>gm_sem := gm_sem dev + 1\<rparr>)"

definition globalmem_read :: "bool \<Rightarrow> gm_choice \<Rightarrow> gm_call \<Rightarrow> globalmem_dev \<Rightarrow> (gm_call \<times> globalmem_dev) option" where
  "globalmem_read lk e c dev =
     (case g_pc c of
        Down \<Rightarrow> gm_down e c dev
      | Copy k \<Rightarrow>
          Some (if k < g_count c then
                  (if e = Fault then (c\<lparr>g_fault := True, g_pc := gm_leave lk (- EFAULT)\<rparr>, dev)
                   else (c\<lparr>g_buf := g_buf c @ [gm_mem dev ! (g_pos c + k)], g_pc := Copy (Suc k)\<rparr>, dev))
                else (c\<lparr>g_ppos := g_ppos c + of_nat (g_count c), g_pc := gm_leave lk (int (g_count c))\<rparr>, dev))
      | Up r \<Rightarrow> gm_up r c dev
      | Done r \<Rightarrow> None)"

definition globalmem_write :: "bool \<Rightarrow> gm_choice \<Rightarrow> gm_call \<Rightarrow> globalmem_dev \<Rightarrow> (gm_call \<times> globalmem_dev) option" where
  "globalmem_write lk e c dev =
     (case g_pc c of
        Down \<Rightarrow> gm_down e c dev
      | Copy k \<Rightarrow>
          Some (if k < g_count c then
                  (let c = (if e = Fault then c\<lparr>g_buf := take k (g_buf c) @ replicate (g_count c - k) 0, g_fault := True\<rparr> else c)
                   in (c\<lparr>g_pc := Copy (Suc k)\<rparr>, dev\<lparr>gm_mem := (gm_mem dev)[g_pos c + k := g_buf c ! k]\<rparr>))
                else if g_fault c then (c\<lparr>g_pc := gm_leave lk (- EFAULT)\<rparr>, dev)
                else (c\<lparr>g_ppos := g_ppos c + of_nat (g_count c), g_pc := gm_leave lk (int (g_count c))\<rparr>, dev))
      | Up r \<Rightarrow> gm_up r c dev
      | Done r \<Rightarrow> None)"

definition globalmem_ioctl :: "bool \<Rightarrow> gm_choice \<Rightarrow> gm_call \<Rightarrow> globalmem_dev \<Rightarrow> (gm_call \<times> globalmem_dev) option" where
  "globalmem_ioctl lk e c dev =
     (case g_pc c of
        Down \<Rightarrow> gm_down e c dev
      | Copy k \<Rightarrow>
          Some (if k < g_count c then (c\<lparr>g_pc := Copy (Suc k)\<rparr>, dev\<lparr>gm_mem := (gm_mem dev)[k := 0]\<rparr>)
                else (c\<lparr>g_pc := gm_leave lk 0\<rparr>, dev))
      | Up r \<Rightarrow> gm_up r c dev
      | Done r \<Rightarrow> None)"

text \<open>The position of a file; \<^verbatim>\<open>loff_t\<close> is signed.\<close>

definition globalmem_llseek :: "loff_t \<Rightarrow> loff_t \<Rightarrow> int \<Rightarrow> int \<times> loff_t" where
  "globalmem_llseek f_pos offset orig =
     (if orig = 0 then
        (if sint offset < 0 then (- EINVAL, f_pos)
         else if unat (ucast offset :: u32) > GLOBALMEM_SIZE then (- EINVAL, f_pos)
         else (let f_pos = ucast (ucast offset :: u32) in (sint f_pos, f_pos)))
      else if orig = 1 then
        (if sint (f_pos + offset) > int GLOBALMEM_SIZE then (- EINVAL, f_pos)
         else if sint (f_pos + offset) < 0 then (- EINVAL, f_pos)
         else (let f_pos = f_pos + offset in (sint f_pos, f_pos)))
      else (- EINVAL, f_pos))"

section \<open>Executions\<close>

text \<open>
  A process with its own open file: \<open>gp_pos\<close> is the position of the file, and \<open>gp_own\<close> says that the call was given
  that position, which is written back when it returns, and not one of its own (as by \<^verbatim>\<open>pread\<close> and \<^verbatim>\<open>pwrite\<close>).
\<close>

record gm_proc =
  gp_pos :: loff_t
  gp_own :: bool
  gp_call :: gm_call

definition gm_returns :: "gm_call \<Rightarrow> gm_proc \<Rightarrow> gm_proc" where
  "gm_returns c p = p\<lparr>gp_call := c, gp_pos := (case g_pc c of Done r \<Rightarrow> if gp_own p then g_ppos c else gp_pos p | _ \<Rightarrow> gp_pos p)\<rparr>"

definition gm_run :: "bool \<Rightarrow> gm_choice \<Rightarrow> gm_proc \<Rightarrow> globalmem_dev \<Rightarrow> (gm_proc \<times> globalmem_dev) option" where
  "gm_run lk e p dev =
     map_option (\<lambda>(c, dev). (gm_returns c p, dev))
       (case g_fun (gp_call p) of
          Read \<Rightarrow> globalmem_read lk e (gp_call p) dev
        | Write \<Rightarrow> globalmem_write lk e (gp_call p) dev
        | Clear \<Rightarrow> globalmem_ioctl lk e (gp_call p) dev)"

text \<open>The history has an entry for every copy that has come to its end, newest first: who, where, and the bytes.\<close>

datatype gm_event = Got nat nat "u8 list" | Put nat nat "u8 list" | Zeroed nat

definition gm_events :: "nat \<Rightarrow> gm_call \<Rightarrow> gm_event list" where
  "gm_events i c =
     (case g_pc c of
        Copy k \<Rightarrow>
          if k < g_count c then []
          else (case g_fun c of
                  Read \<Rightarrow> [Got i (g_pos c) (g_buf c)]
                | Write \<Rightarrow> [Put i (g_pos c) (take (g_count c) (g_buf c))]
                | Clear \<Rightarrow> [Zeroed i])
      | _ \<Rightarrow> [])"

record gm_state =
  gs_dev :: globalmem_dev
  gs_procs :: "gm_proc list"
  gs_hist :: "gm_event list"

definition gm_call_of :: "gm_state \<Rightarrow> nat \<Rightarrow> gm_call" where
  "gm_call_of r i = gp_call (gs_procs r ! i)"

definition gm_set :: "nat \<Rightarrow> gm_proc \<Rightarrow> gm_state \<Rightarrow> gm_state" where
  "gm_set i p r = r\<lparr>gs_procs := (gs_procs r)[i := p]\<rparr>"

definition gm_idle :: "gm_state \<Rightarrow> nat \<Rightarrow> bool" where
  "gm_idle r i \<longleftrightarrow> i < length (gs_procs r) \<and> (case g_pc (gm_call_of r i) of Done ret \<Rightarrow> True | _ \<Rightarrow> False)"

inductive gm_step :: "bool \<Rightarrow> gm_state \<Rightarrow> gm_state \<Rightarrow> bool" for lk where
  sys_read: "gm_idle r i \<Longrightarrow> p = gs_procs r ! i \<Longrightarrow>
    gm_step lk r (gm_set i (gm_returns (call_read lk (gp_pos p) n) (p\<lparr>gp_own := True\<rparr>)) r)"
| sys_pread: "gm_idle r i \<Longrightarrow> p = gs_procs r ! i \<Longrightarrow>
    gm_step lk r (gm_set i (gm_returns (call_read lk ppos n) (p\<lparr>gp_own := False\<rparr>)) r)"
| sys_write: "gm_idle r i \<Longrightarrow> p = gs_procs r ! i \<Longrightarrow> length buf < 2 ^ 32 \<Longrightarrow>
    gm_step lk r (gm_set i (gm_returns (call_write lk (gp_pos p) buf) (p\<lparr>gp_own := True\<rparr>)) r)"
| sys_pwrite: "gm_idle r i \<Longrightarrow> p = gs_procs r ! i \<Longrightarrow> length buf < 2 ^ 32 \<Longrightarrow>
    gm_step lk r (gm_set i (gm_returns (call_write lk ppos buf) (p\<lparr>gp_own := False\<rparr>)) r)"
| sys_ioctl: "gm_idle r i \<Longrightarrow> p = gs_procs r ! i \<Longrightarrow>
    gm_step lk r (gm_set i (gm_returns (call_ioctl lk (gp_pos p) cmd) (p\<lparr>gp_own := False\<rparr>)) r)"
| sys_llseek: "gm_idle r i \<Longrightarrow> p = gs_procs r ! i \<Longrightarrow> globalmem_llseek (gp_pos p) offset orig = (ret, pos) \<Longrightarrow>
    gm_step lk r (gm_set i (p\<lparr>gp_pos := pos\<rparr>) r)"
| go_on: "i < length (gs_procs r) \<Longrightarrow> gm_run lk e (gs_procs r ! i) (gs_dev r) = Some (p, dev) \<Longrightarrow>
    gm_step lk r (r\<lparr>gs_dev := dev, gs_procs := (gs_procs r)[i := p], gs_hist := gm_events i (gm_call_of r i) @ gs_hist r\<rparr>)"

text \<open>The start: \<open>n\<close> processes that have just opened the device.\<close>

definition gm_opened :: gm_proc where
  "gm_opened = \<lparr>gp_pos = 0, gp_own = False, gp_call =
     \<lparr>g_fun = Read, g_ppos = 0, g_pos = 0, g_count = 0, g_buf = [], g_fault = False, g_pc = Done 0\<rparr>\<rparr>"

definition gm_start :: "nat \<Rightarrow> gm_state" where
  "gm_start n = \<lparr>gs_dev = globalmem_init, gs_procs = replicate n gm_opened, gs_hist = []\<rparr>"

inductive gm_reach :: "bool \<Rightarrow> nat \<Rightarrow> gm_state \<Rightarrow> bool" for lk n where
  start: "gm_reach lk n (gm_start n)"
| next_step: "gm_reach lk n r \<Longrightarrow> gm_step lk r r' \<Longrightarrow> gm_reach lk n r'"

section \<open>The critical section\<close>

fun copying :: "gm_pc \<Rightarrow> bool" where
  "copying (Copy k) = True"
| "copying (Up r) = True"
| "copying _ = False"

definition gm_inside :: "gm_proc \<Rightarrow> bool" where
  "gm_inside p \<longleftrightarrow> copying (g_pc (gp_call p))"

lemma gm_inside_returns [simp]: "gm_inside (gm_returns c p) = copying (g_pc c)"
  by (simp add: gm_inside_def gm_returns_def)

lemmas gm_fun_defs = globalmem_read_def globalmem_write_def globalmem_ioctl_def gm_down_def gm_up_def gm_leave_def Let_def

interpretation gm_lock: critical_section "gm_run True" gm_inside gm_sem
proof
  fix e p dev p' dev'
  assume "gm_run True e p dev = Some (p', dev')"
  then show "gm_sem dev' + of_bool (gm_inside p') = gm_sem dev + of_bool (gm_inside p)"
    by (cases "g_pc (gp_call p)"; cases "g_fun (gp_call p)")
      (auto simp: gm_run_def gm_fun_defs gm_inside_def [of p] split: if_splits)
qed

section \<open>The atomic memory\<close>

text \<open>What a memory contains that makes every transfer of the history at once, and that every read got what was there.\<close>

fun gm_contents :: "gm_event list \<Rightarrow> u8 list" where
  "gm_contents [] = replicate GLOBALMEM_SIZE 0"
| "gm_contents (Got i p bs # h) = gm_contents h"
| "gm_contents (Put i p bs # h) = overwrite (gm_contents h) p bs"
| "gm_contents (Zeroed i # h) = replicate GLOBALMEM_SIZE 0"

fun gm_atomic :: "gm_event list \<Rightarrow> bool" where
  "gm_atomic [] = True"
| "gm_atomic (Got i p bs # h) = (bs = take (length bs) (drop p (gm_contents h)) \<and> p + length bs \<le> GLOBALMEM_SIZE \<and> gm_atomic h)"
| "gm_atomic (Put i p bs # h) = (p + length bs \<le> GLOBALMEM_SIZE \<and> gm_atomic h)"
| "gm_atomic (Zeroed i # h) = gm_atomic h"

text \<open>A call that returned a positive number has its entry in the history, with that many bytes.\<close>

fun gm_result :: "gm_pc \<Rightarrow> int" where
  "gm_result (Up r) = r"
| "gm_result (Done r) = r"
| "gm_result _ = 0"

definition gm_logged :: "nat \<Rightarrow> gm_event list \<Rightarrow> gm_call \<Rightarrow> bool" where
  "gm_logged i h c \<longleftrightarrow> (0 < gm_result (g_pc c) \<longrightarrow>
     (case g_fun c of
        Read \<Rightarrow> Got i (g_pos c) (g_buf c) \<in> set h \<and> gm_result (g_pc c) = int (length (g_buf c))
      | Write \<Rightarrow> Put i (g_pos c) (take (nat (gm_result (g_pc c))) (g_buf c)) \<in> set h
      | Clear \<Rightarrow> False))"

section \<open>The invariant\<close>

text \<open>What a call keeps, what its copy has done so far, and the positions of the files.\<close>

definition gm_call_ok :: "gm_call \<Rightarrow> bool" where
  "gm_call_ok c \<longleftrightarrow>
     (case g_pc c of
        Done r \<Rightarrow> True
      | Up r \<Rightarrow> True
      | _ \<Rightarrow> g_pos c + g_count c \<le> GLOBALMEM_SIZE \<and> (g_fun c = Write \<longrightarrow> g_count c \<le> length (g_buf c)) \<and>
             (g_fun c = Clear \<longrightarrow> g_pos c = 0 \<and> g_count c = GLOBALMEM_SIZE) \<and> (g_pc c = Down \<longrightarrow> g_fun c = Read \<longrightarrow> g_buf c = []))"

definition gm_view :: "gm_call \<Rightarrow> u8 list \<Rightarrow> u8 list \<Rightarrow> bool" where
  "gm_view c M mem \<longleftrightarrow>
     (case g_pc c of
        Copy k \<Rightarrow> k \<le> g_count c \<and>
          (case g_fun c of
             Read \<Rightarrow> mem = M \<and> g_buf c = take k (drop (g_pos c) M)
           | Write \<Rightarrow> mem = overwrite M (g_pos c) (take k (g_buf c))
           | Clear \<Rightarrow> mem = replicate k 0 @ drop k M)
      | _ \<Rightarrow> mem = M)"

definition gm_pos_ok :: "gm_proc \<Rightarrow> bool" where
  "gm_pos_ok p \<longleftrightarrow> unat (gp_pos p) \<le> GLOBALMEM_SIZE \<and>
     (gp_own p \<longrightarrow>
       (case g_pc (gp_call p) of
          Done r \<Rightarrow> True
        | Up r \<Rightarrow> unat (g_ppos (gp_call p)) \<le> GLOBALMEM_SIZE
        | _ \<Rightarrow> unat (g_ppos (gp_call p)) = g_pos (gp_call p)))"

definition gm_proc_ok :: "nat \<Rightarrow> gm_event list \<Rightarrow> gm_proc \<Rightarrow> bool" where
  "gm_proc_ok i h p \<longleftrightarrow> gm_call_ok (gp_call p) \<and> gm_logged i h (gp_call p) \<and> gm_pos_ok p"

definition gm_inv :: "gm_state \<Rightarrow> bool" where
  "gm_inv r \<longleftrightarrow>
     gm_sem (gs_dev r) + many gm_inside (gs_procs r) = 1 \<and>
     (\<forall>j < length (gs_procs r). gm_proc_ok j (gs_hist r) (gs_procs r ! j) \<and>
        (gm_inside (gs_procs r ! j) \<longrightarrow> gm_view (gm_call_of r j) (gm_contents (gs_hist r)) (gm_mem (gs_dev r)))) \<and>
     ((\<forall>j < length (gs_procs r). \<not> gm_inside (gs_procs r ! j)) \<longrightarrow> gm_mem (gs_dev r) = gm_contents (gs_hist r)) \<and>
     gm_atomic (gs_hist r)"

lemma length_gm_contents: "gm_atomic h \<Longrightarrow> length (gm_contents h) = GLOBALMEM_SIZE"
  by (induction h rule: gm_contents.induct) auto

lemma gm_inv_start: "gm_inv (gm_start n)"
  by (simp add: gm_inv_def gm_start_def gm_opened_def globalmem_init_def gm_inside_def gm_proc_ok_def gm_call_ok_def gm_logged_def gm_pos_ok_def)

lemma gm_logged_mono: "gm_logged i h c \<Longrightarrow> set h \<subseteq> set h' \<Longrightarrow> gm_logged i h' c"
  by (auto simp: gm_logged_def split: gm_fun.splits)

lemma gm_inv_update:
  assumes inv: "gm_inv r" and i: "i < length (gs_procs r)"
    and total: "gm_sem dev + many gm_inside ((gs_procs r)[i := p]) = 1"
    and ok: "gm_proc_ok i h p" and h: "set (gs_hist r) \<subseteq> set h" "gm_atomic h"
    and view: "gm_inside p \<Longrightarrow> gm_view (gp_call p) (gm_contents h) (gm_mem dev)"
    and out: "\<not> gm_inside p \<Longrightarrow> (\<forall>j < length (gs_procs r). j \<noteq> i \<longrightarrow> \<not> gm_inside (gs_procs r ! j)) \<Longrightarrow> gm_mem dev = gm_contents h"
    and other: "(\<forall>j < length (gs_procs r). j \<noteq> i \<longrightarrow> \<not> gm_inside (gs_procs r ! j)) \<or>
      gm_contents h = gm_contents (gs_hist r) \<and> gm_mem dev = gm_mem (gs_dev r)"
  shows "gm_inv (r\<lparr>gs_dev := dev, gs_procs := (gs_procs r)[i := p], gs_hist := h\<rparr>)"
proof -
  have "gm_proc_ok j h ((gs_procs r)[i := p] ! j) \<and>
    (gm_inside ((gs_procs r)[i := p] ! j) \<longrightarrow> gm_view (gp_call ((gs_procs r)[i := p] ! j)) (gm_contents h) (gm_mem dev))"
    if "j < length (gs_procs r)" for j
  proof (cases "j = i")
    case True
    then show ?thesis using i ok view by simp
  next
    case False
    then show ?thesis
      using inv that other gm_logged_mono [OF _ h(1)] by (auto simp: gm_inv_def gm_call_of_def gm_proc_ok_def)
  qed
  moreover have "gm_mem dev = gm_contents h" if "\<forall>j < length (gs_procs r). \<not> gm_inside ((gs_procs r)[i := p] ! j)"
    using that i out by (metis nth_list_update_eq nth_list_update_neq)
  ultimately show ?thesis using total h(2) by (simp add: gm_inv_def gm_call_of_def)
qed

text \<open>A step outside the section that changes only the process.\<close>

lemma gm_inv_outside:
  assumes inv: "gm_inv r" and i: "i < length (gs_procs r)" and p: "\<not> gm_inside (gs_procs r ! i)" "\<not> gm_inside p"
    and ok: "gm_proc_ok i (gs_hist r) p"
  shows "gm_inv (gm_set i p r)"
proof -
  have "gm_inv (r\<lparr>gs_dev := gs_dev r, gs_procs := (gs_procs r)[i := p], gs_hist := gs_hist r\<rparr>)"
  proof (rule gm_inv_update [OF inv i])
    show "gm_sem (gs_dev r) + many gm_inside ((gs_procs r)[i := p]) = 1"
      using inv many_update [OF i, of gm_inside p] p by (simp add: gm_inv_def)
    show "gm_mem (gs_dev r) = gm_contents (gs_hist r)"
      if "\<forall>j < length (gs_procs r). j \<noteq> i \<longrightarrow> \<not> gm_inside (gs_procs r ! j)"
      using inv that p(1) unfolding gm_inv_def by metis
  qed (use inv ok p in \<open>simp_all add: gm_inv_def\<close>)
  then show ?thesis by (simp add: gm_set_def)
qed

section \<open>Entering the functions\<close>

lemma unat_of_sint:
  assumes "0 \<le> sint (w :: 'a::len word)"
  shows "int (unat w) = sint w"
proof -
  have "sint w < 2 ^ LENGTH('a)" using sint_lt [of w] by (rule order_less_le_trans) (simp add: power_increasing)
  then have "sint w mod 2 ^ LENGTH('a) = sint w" using assms by (simp add: mod_pos_pos_trivial)
  moreover have "uint (word_of_int (sint w) :: 'a word) = sint w mod 2 ^ LENGTH('a)" by (rule uint_word_of_int)
  ultimately show ?thesis by simp
qed

lemma small_position: "unat (x :: loff_t) \<le> GLOBALMEM_SIZE \<Longrightarrow> unat (ucast x :: u32) = unat x"
  by (simp add: GLOBALMEM_SIZE_def unsigned_ucast_eq take_bit_eq_mod)

lemma range_bounds:
  assumes "globalmem_range ppos n = Inr (p, count)"
  shows "p + count \<le> GLOBALMEM_SIZE" "count \<le> unat n" "p = unat (ucast ppos :: u32)"
  using assms by (auto simp: globalmem_range_def Let_def split: if_splits)

lemma range_error: "globalmem_range ppos n = Inl r \<Longrightarrow> r \<le> 0"
  by (auto simp: globalmem_range_def Let_def ENXIO_def split: if_splits)

lemmas gm_ok_defs = gm_proc_ok_def gm_call_ok_def gm_logged_def gm_pos_ok_def gm_returns_def gm_enter_def

lemma call_read_ok:
  assumes "unat (gp_pos p) \<le> GLOBALMEM_SIZE" "own \<Longrightarrow> ppos = gp_pos p"
  shows "gm_proc_ok i h (gm_returns (call_read True ppos n) (p\<lparr>gp_own := own\<rparr>)) \<and>
    \<not> copying (g_pc (call_read True ppos n))"
proof (cases "globalmem_range ppos n")
  case (Inl r)
  then show ?thesis using assms range_error [OF Inl] by (auto simp: call_read_def gm_ok_defs)
next
  case (Inr pc)
  obtain q count where "pc = (q, count)" by force
  then show ?thesis
    using assms Inr range_bounds [of ppos n q count] small_position [of "gp_pos p"] by (auto simp: call_read_def gm_ok_defs)
qed

lemma call_write_ok:
  assumes "unat (gp_pos p) \<le> GLOBALMEM_SIZE" "own \<Longrightarrow> ppos = gp_pos p" "length buf < 2 ^ 32"
  shows "gm_proc_ok i h (gm_returns (call_write True ppos buf) (p\<lparr>gp_own := own\<rparr>)) \<and>
    \<not> copying (g_pc (call_write True ppos buf))"
proof (cases "globalmem_range ppos (of_nat (length buf))")
  case (Inl r)
  then show ?thesis using assms range_error [OF Inl] by (auto simp: call_write_def gm_ok_defs)
next
  case (Inr pc)
  obtain q count where q: "pc = (q, count)" by force
  have "count \<le> length buf" using range_bounds(2) [OF Inr [unfolded q]] assms(3) by (simp add: unat_of_nat32)
  then show ?thesis
    using assms Inr q range_bounds [of ppos "of_nat (length buf)" q count] small_position [of "gp_pos p"]
    by (auto simp: call_write_def gm_ok_defs)
qed

lemma call_ioctl_ok:
  assumes "unat (gp_pos p) \<le> GLOBALMEM_SIZE"
  shows "gm_proc_ok i h (gm_returns (call_ioctl True ppos cmd) (p\<lparr>gp_own := False\<rparr>)) \<and>
    \<not> copying (g_pc (call_ioctl True ppos cmd))"
  using assms by (auto simp: call_ioctl_def gm_ok_defs EINVAL_def)

lemma globalmem_llseek_bounds:
  assumes "globalmem_llseek f_pos offset orig = (ret, pos)" "unat f_pos \<le> GLOBALMEM_SIZE"
  shows "unat pos \<le> GLOBALMEM_SIZE"
proof -
  have "unat (ucast w :: loff_t) = unat w" for w :: u32 by (rule unat_ucast_up) simp
  moreover have "unat w \<le> GLOBALMEM_SIZE" if "0 \<le> sint w" "sint w \<le> int GLOBALMEM_SIZE" for w :: loff_t
    using unat_of_sint [OF that(1)] that(2) by linarith
  ultimately show ?thesis using assms by (auto simp: globalmem_llseek_def Let_def not_less split: if_splits)
qed

section \<open>Steps inside\<close>

lemma gm_inv_section:
  assumes inv: "gm_inv r" and i: "i < length (gs_procs r)" and run: "gm_run True e (gs_procs r ! i) (gs_dev r) = Some (p, dev)"
    and sec: "gm_inside (gs_procs r ! i) \<or> gm_inside p"
    and ok: "gm_proc_ok i h p" and h: "set (gs_hist r) \<subseteq> set h" "gm_atomic h" and view: "gm_view (gp_call p) (gm_contents h) (gm_mem dev)"
  shows "gm_inv (r\<lparr>gs_dev := dev, gs_procs := (gs_procs r)[i := p], gs_hist := h\<rparr>)"
proof -
  have one: "gm_sem (gs_dev r) + many gm_inside (gs_procs r) = 1" using inv by (simp add: gm_inv_def)
  have alone: "\<forall>j < length (gs_procs r). j \<noteq> i \<longrightarrow> \<not> gm_inside (gs_procs r ! j)"
    using gm_lock.one_inside [OF one _ i] gm_lock.enters_alone [OF one i run] sec by blast
  have "gm_mem dev = gm_contents h" if "\<not> gm_inside p"
    using view that by (auto simp: gm_view_def gm_inside_def split: gm_pc.splits)
  then show ?thesis
    using gm_lock.total_step [OF i run] one alone view by (intro gm_inv_update [OF inv i _ ok h]) simp_all
qed

lemma gm_pos_step:
  assumes "gm_pos_ok p" "gm_call_ok (gp_call p)" "gm_run True e p dev = Some (p', dev')"
  shows "gm_pos_ok p'"
proof -
  let ?c = "gp_call p"
  have add: "unat (g_ppos ?c + of_nat (g_count ?c)) \<le> GLOBALMEM_SIZE"
    if "unat (g_ppos ?c) = g_pos ?c" "g_pos ?c + g_count ?c \<le> GLOBALMEM_SIZE"
    using that by (simp add: unat_word_ariths unat_of_nat GLOBALMEM_SIZE_def)
  show ?thesis
    using assms add
    by (cases "g_pc ?c"; cases "g_fun ?c")
      (auto simp: gm_run_def gm_fun_defs gm_pos_ok_def gm_call_ok_def gm_returns_def split: if_splits)
qed

lemma overwrite_Suc:
  "p + length bs \<le> length M \<Longrightarrow> k < length bs \<Longrightarrow> (overwrite M p (take k bs))[p + k := bs ! k] = overwrite M p (take (Suc k) bs)"
  by (intro nth_equalityI) (auto simp: nth_overwrite nth_list_update less_Suc_eq take_Suc_conv_app_nth nth_append)

lemma zero_Suc: "k < length M \<Longrightarrow> (replicate k x @ drop k M)[k := x] = replicate (Suc k) x @ drop (Suc k) M"
  by (simp add: list_update_append Cons_nth_drop_Suc [symmetric] replicate_append_same [symmetric])

text \<open>What a step of a copy leaves, in the three functions.\<close>

definition gm_good :: "nat \<Rightarrow> gm_event list \<Rightarrow> gm_call \<Rightarrow> u8 list \<Rightarrow> bool" where
  "gm_good i h c mem \<longleftrightarrow> gm_atomic h \<and> gm_call_ok c \<and> gm_logged i h c \<and> gm_view c (gm_contents h) mem"

lemma copy_read:
  assumes c: "g_fun c = Read" "g_pc c = Copy k" "gm_call_ok c" "gm_view c (gm_contents h) (gm_mem dev)" and h: "gm_atomic h"
    and s: "globalmem_read True e c dev = Some (c', dev')"
  shows "gm_good i (gm_events i c @ h) c' (gm_mem dev')"
proof -
  have l: "length (gm_contents h) = GLOBALMEM_SIZE" by (rule length_gm_contents [OF h])
  have b: "g_buf c = take k (drop (g_pos c) (gm_contents h))" "gm_mem dev = gm_contents h" "k \<le> g_count c"
      "g_pos c + g_count c \<le> GLOBALMEM_SIZE"
    using c by (simp_all add: gm_view_def gm_call_ok_def)
  consider (more) "k < g_count c" "e \<noteq> Fault" | (fault) "k < g_count c" "e = Fault" | (last) "k = g_count c" using b(3) by linarith
  then show ?thesis
  proof cases
    case more
    then have "gm_contents h ! (g_pos c + k) = drop (g_pos c) (gm_contents h) ! k" using b l by simp
    then have "g_buf c @ [gm_contents h ! (g_pos c + k)] = take (Suc k) (drop (g_pos c) (gm_contents h))"
      using more b l by (simp add: take_Suc_conv_app_nth)
    then show ?thesis
      using more s c h b by (auto simp: gm_good_def globalmem_read_def gm_events_def gm_view_def gm_call_ok_def gm_logged_def)
  next
    case fault
    then show ?thesis
      using s c h b by (auto simp: gm_good_def globalmem_read_def gm_leave_def gm_events_def gm_view_def gm_call_ok_def gm_logged_def EFAULT_def)
  next
    case last
    then show ?thesis
      using s c h b l by (auto simp: gm_good_def globalmem_read_def gm_leave_def gm_events_def gm_view_def gm_call_ok_def gm_logged_def)
  qed
qed

lemma copy_write:
  assumes c: "g_fun c = Write" "g_pc c = Copy k" "gm_call_ok c" "gm_view c (gm_contents h) (gm_mem dev)" and h: "gm_atomic h"
    and s: "globalmem_write True e c dev = Some (c', dev')"
  shows "gm_good i (gm_events i c @ h) c' (gm_mem dev')"
proof -
  have l: "length (gm_contents h) = GLOBALMEM_SIZE" by (rule length_gm_contents [OF h])
  have b: "gm_mem dev = overwrite (gm_contents h) (g_pos c) (take k (g_buf c))" "k \<le> g_count c"
      "g_pos c + g_count c \<le> GLOBALMEM_SIZE" "g_count c \<le> length (g_buf c)"
    using c by (simp_all add: gm_view_def gm_call_ok_def)
  show ?thesis
  proof (cases "k < g_count c")
    case True
    define buf where "buf = (if e = Fault then take k (g_buf c) @ replicate (g_count c - k) 0 else g_buf c)"
    have f: "g_count c \<le> length buf" "take k buf = take k (g_buf c)" using True b by (auto simp: buf_def)
    have "(overwrite (gm_contents h) (g_pos c) (take k (take (g_count c) buf)))[g_pos c + k := take (g_count c) buf ! k] =
      overwrite (gm_contents h) (g_pos c) (take (Suc k) (take (g_count c) buf))"
      using True b(3) f(1) l by (intro overwrite_Suc) simp_all
    then have "(gm_mem dev)[g_pos c + k := buf ! k] = overwrite (gm_contents h) (g_pos c) (take (Suc k) buf)"
      using True b(1) f by (simp add: min_def)
    moreover have "c' = c\<lparr>g_buf := buf, g_fault := g_fault c \<or> e = Fault, g_pc := Copy (Suc k)\<rparr>"
        "gm_mem dev' = (gm_mem dev)[g_pos c + k := buf ! k]"
      using s c True by (auto simp: globalmem_write_def Let_def buf_def)
    ultimately show ?thesis
      using True c h b f by (simp add: gm_good_def gm_events_def gm_view_def gm_call_ok_def gm_logged_def)
  next
    case False
    then show ?thesis
      using s c h b
      by (auto simp: gm_good_def globalmem_write_def gm_leave_def gm_events_def gm_view_def gm_call_ok_def gm_logged_def EFAULT_def
          split: if_splits)
  qed
qed

lemma copy_clear:
  assumes c: "g_fun c = Clear" "g_pc c = Copy k" "gm_call_ok c" "gm_view c (gm_contents h) (gm_mem dev)" and h: "gm_atomic h"
    and s: "globalmem_ioctl True e c dev = Some (c', dev')"
  shows "gm_good i (gm_events i c @ h) c' (gm_mem dev')"
proof -
  have "length (gm_contents h) = GLOBALMEM_SIZE" by (rule length_gm_contents [OF h])
  then show ?thesis
    using s c h zero_Suc [of k "gm_contents h" 0]
    by (auto simp: gm_good_def globalmem_ioctl_def gm_leave_def gm_events_def gm_view_def gm_call_ok_def gm_logged_def)
qed

lemma gm_inv_run:
  assumes inv: "gm_inv r" and i: "i < length (gs_procs r)" and run: "gm_run True e (gs_procs r ! i) (gs_dev r) = Some (p, dev)"
  shows "gm_inv (r\<lparr>gs_dev := dev, gs_procs := (gs_procs r)[i := p], gs_hist := gm_events i (gm_call_of r i) @ gs_hist r\<rparr>)"
proof -
  define q h where "q = gs_procs r ! i" and "h = gs_hist r"
  let ?c = "gp_call q"
  have ok: "gm_call_ok ?c" "gm_logged i h ?c" "gm_pos_ok q" "gm_atomic h"
    using inv i by (auto simp: gm_inv_def gm_proc_ok_def q_def h_def)
  have p: "gm_pos_ok p" using gm_pos_step ok(1,3) run by (simp add: q_def)
  have one: "gm_sem (gs_dev r) + many gm_inside (gs_procs r) = 1" using inv by (simp add: gm_inv_def)
  have view: "gm_view ?c (gm_contents h) (gm_mem (gs_dev r))" if "gm_inside q"
    using inv i that by (auto simp: gm_inv_def gm_call_of_def q_def h_def)
  have free: "gm_mem (gs_dev r) = gm_contents h" if "\<not> gm_inside q" "gm_inside p"
    using gm_lock.enters_alone [OF one i run] that inv by (auto simp: gm_inv_def q_def h_def)
  show ?thesis
  proof (cases "g_pc ?c")
    case Down
    then have d: "map_option (\<lambda>(c, dev). (gm_returns c q, dev)) (gm_down e ?c (gs_dev r)) = Some (p, dev)"
      using run by (cases "g_fun ?c") (simp_all add: gm_run_def globalmem_read_def globalmem_write_def globalmem_ioctl_def q_def)
    have ev: "gm_events i (gm_call_of r i) = []" using Down by (simp add: gm_events_def gm_call_of_def q_def)
    show ?thesis
    proof (cases "e = Signal")
      case True
      then have "p = gm_returns (?c\<lparr>g_pc := Done (- ERESTARTSYS)\<rparr>) q" "dev = gs_dev r" using d by (auto simp: gm_down_def)
      moreover from this have "gm_proc_ok i h p" using p by (simp add: gm_ok_defs ERESTARTSYS_def)
      ultimately show ?thesis
        using gm_inv_outside [OF inv i, of p] Down ev by (simp add: gm_inside_def gm_returns_def gm_set_def q_def h_def)
    next
      case False
      then have e: "p = gm_returns (?c\<lparr>g_pc := Copy 0\<rparr>) q" "gm_mem dev = gm_mem (gs_dev r)" using d by (auto simp: gm_down_def split: if_splits)
      then have "gm_mem dev = gm_contents h" using free Down by (simp add: gm_inside_def gm_returns_def)
      then have "gm_view (gp_call p) (gm_contents h) (gm_mem dev)"
        using ok(1) Down e(1) by (auto simp: gm_view_def gm_call_ok_def gm_returns_def overwrite_def split: gm_fun.splits)
      moreover have "gm_proc_ok i h p" using p ok(1) Down e(1) by (auto simp: gm_ok_defs)
      ultimately show ?thesis
        using gm_inv_section [OF inv i run, of h] ok(4) ev e(1) by (simp add: gm_inside_def gm_returns_def h_def)
    qed
  next
    case (Copy k)
    obtain c' where c': "p = gm_returns c' q" "gm_good i (gm_events i ?c @ h) c' (gm_mem dev)"
      using run Copy ok(1,4) view copy_read copy_write copy_clear
      by (cases "g_fun ?c") (fastforce simp: gm_run_def gm_inside_def q_def [symmetric])+
    then show ?thesis
      using gm_inv_section [OF inv i run, of "gm_events i ?c @ h"] Copy p
      by (simp add: gm_good_def gm_proc_ok_def gm_returns_def gm_inside_def gm_call_of_def q_def h_def)
  next
    case (Up rt)
    then have "map_option (\<lambda>(c, dev). (gm_returns c q, dev)) (gm_up rt ?c (gs_dev r)) = Some (p, dev)"
      using run by (cases "g_fun ?c") (simp_all add: gm_run_def globalmem_read_def globalmem_write_def globalmem_ioctl_def q_def)
    then have e: "p = gm_returns (?c\<lparr>g_pc := Done rt\<rparr>) q" "gm_mem dev = gm_mem (gs_dev r)" by (auto simp: gm_up_def)
    have "gm_inside q" using Up by (simp add: gm_inside_def)
    moreover have "gm_view (gp_call p) (gm_contents h) (gm_mem dev)"
      using view Up e by (simp add: gm_view_def gm_returns_def gm_inside_def)
    moreover have "gm_proc_ok i h p" using p ok(2) Up e(1) by (auto simp: gm_ok_defs split: gm_fun.splits)
    moreover have "gm_events i (gm_call_of r i) = []" using Up by (simp add: gm_events_def gm_call_of_def q_def)
    ultimately show ?thesis using gm_inv_section [OF inv i run, of h] ok(4) by (simp add: q_def h_def)
  next
    case (Done rt)
    then show ?thesis using run by (cases "g_fun ?c") (simp_all add: gm_run_def gm_fun_defs q_def)
  qed
qed

lemma gm_inv_step:
  assumes "gm_step True r r'" "gm_inv r"
  shows "gm_inv r'"
proof -
  have idle: "\<not> gm_inside (gs_procs r ! i)" "i < length (gs_procs r)" "unat (gp_pos (gs_procs r ! i)) \<le> GLOBALMEM_SIZE" if "gm_idle r i" for i
    using that assms(2) by (auto simp: gm_idle_def gm_inside_def gm_call_of_def gm_inv_def gm_proc_ok_def gm_pos_ok_def split: gm_pc.splits)
  show ?thesis
    using assms(1)
  proof cases
    case (sys_read i p n)
    then show ?thesis using idle [OF sys_read(2)] gm_inv_outside [OF assms(2)] call_read_ok [of p True "gp_pos p" i "gs_hist r" n] by simp
  next
    case (sys_pread i p ppos n)
    then show ?thesis using idle [OF sys_pread(2)] gm_inv_outside [OF assms(2)] call_read_ok [of p False ppos i "gs_hist r" n] by simp
  next
    case (sys_write i p buf)
    then show ?thesis using idle [OF sys_write(2)] gm_inv_outside [OF assms(2)] call_write_ok [of p True "gp_pos p" buf i "gs_hist r"] by simp
  next
    case (sys_pwrite i p buf ppos)
    then show ?thesis using idle [OF sys_pwrite(2)] gm_inv_outside [OF assms(2)] call_write_ok [of p False ppos buf i "gs_hist r"] by simp
  next
    case (sys_ioctl i p cmd)
    then show ?thesis using idle [OF sys_ioctl(2)] gm_inv_outside [OF assms(2)] call_ioctl_ok [of p i "gs_hist r"] by simp
  next
    case (sys_llseek i p offset orig ret pos)
    have "gm_proc_ok i (gs_hist r) (gs_procs r ! i)" using idle(2) [OF sys_llseek(2)] assms(2) by (simp add: gm_inv_def)
    then have "gm_proc_ok i (gs_hist r) (p\<lparr>gp_pos := pos\<rparr>)"
      using sys_llseek globalmem_llseek_bounds by (auto simp: gm_proc_ok_def gm_pos_ok_def split: gm_pc.splits)
    then show ?thesis using sys_llseek idle [OF sys_llseek(2)] gm_inv_outside [OF assms(2)] by (simp add: gm_inside_def)
  next
    case (go_on i e p dev)
    then show ?thesis using gm_inv_run [OF assms(2)] by blast
  qed
qed

lemma gm_reach_inv: "gm_reach True n r \<Longrightarrow> gm_inv r"
  by (induction rule: gm_reach.induct) (auto intro: gm_inv_start gm_inv_step)

text \<open>
  C7. With the semaphore, reading, writing and clearing are atomic, although every copy goes byte by byte. In every
  execution of any number of processes, with signals and faulting buffers, at most one process is copying, and the
  finished copies of the history are transfers of an atomic memory: every read got bytes that were in the memory at one
  moment between its call and its return. Whoever was told that \<open>n > 0\<close> bytes were transferred has a transfer of these
  \<open>n\<close> bytes in the history. When nobody is copying, the device contains what the history says, and the
  positions of all files stay between 0 and the size.
\<close>

theorem globalmem_atomic:
  assumes "gm_reach True n r"
  shows "many gm_inside (gs_procs r) \<le> 1 \<and> gm_atomic (gs_hist r) \<and>
    (\<forall>i < length (gs_procs r). gm_logged i (gs_hist r) (gm_call_of r i) \<and> unat (gp_pos (gs_procs r ! i)) \<le> GLOBALMEM_SIZE) \<and>
    (many gm_inside (gs_procs r) = 0 \<longrightarrow> gm_mem (gs_dev r) = gm_contents (gs_hist r))"
proof -
  have inv: "gm_inv r" by (rule gm_reach_inv [OF assms])
  then have "many gm_inside (gs_procs r) \<le> 1" unfolding gm_inv_def by linarith
  moreover have "gm_mem (gs_dev r) = gm_contents (gs_hist r)" if "many gm_inside (gs_procs r) = 0"
    using inv that many_pos [of gm_inside "gs_procs r"] unfolding gm_inv_def by auto
  ultimately show ?thesis using inv by (auto simp: gm_inv_def gm_proc_ok_def gm_pos_ok_def gm_call_of_def)
qed

section \<open>The version without the semaphore\<close>

text \<open>Runs as lists of steps of the processes, to evaluate executions.\<close>

fun gm_runs :: "bool \<Rightarrow> nat list \<Rightarrow> gm_state \<Rightarrow> gm_state option" where
  "gm_runs lk [] r = Some r"
| "gm_runs lk (i # is) r =
     (case gm_run lk Go (gs_procs r ! i) (gs_dev r) of
        None \<Rightarrow> None
      | Some (p, dev) \<Rightarrow>
          gm_runs lk is (r\<lparr>gs_dev := dev, gs_procs := (gs_procs r)[i := p], gs_hist := gm_events i (gm_call_of r i) @ gs_hist r\<rparr>))"

lemma gm_runs_reach:
  "gm_runs lk is r = Some r' \<Longrightarrow> \<forall>i \<in> set is. i < length (gs_procs r) \<Longrightarrow> gm_reach lk n r \<Longrightarrow> gm_reach lk n r'"
proof (induction lk "is" r rule: gm_runs.induct)
  case (2 lk i "is" r)
  then obtain p dev where p: "gm_run lk Go (gs_procs r ! i) (gs_dev r) = Some (p, dev)" by (auto split: option.splits)
  have "gm_step lk r (r\<lparr>gs_dev := dev, gs_procs := (gs_procs r)[i := p], gs_hist := gm_events i (gm_call_of r i) @ gs_hist r\<rparr>)"
    using gm_step.go_on [OF _ p] 2(3) by simp
  then show ?case using 2(1) [OF p refl] 2(2-4) p by (simp add: gm_reach.next_step)
qed simp

text \<open>Process 0 writes two bytes 1, process 1 reads two bytes.\<close>

definition gm_race :: "bool \<Rightarrow> gm_state" where
  "gm_race lk = gm_set 1 (gm_returns (call_read lk 0 2) (gm_opened\<lparr>gp_own := True\<rparr>))
     (gm_set 0 (gm_returns (call_write lk 0 [1, 1]) (gm_opened\<lparr>gp_own := True\<rparr>)) (gm_start 2))"

lemma gm_race_reach: "gm_reach lk 2 (gm_race lk)"
proof -
  have o: "gm_opened = gs_procs (gm_start 2) ! 0" "gp_pos gm_opened = 0" "gm_idle (gm_start 2) 0"
    by (simp_all add: gm_start_def gm_idle_def gm_call_of_def gm_opened_def)
  have "gm_step lk (gm_start 2) (gm_set 0 (gm_returns (call_write lk 0 [1, 1]) (gm_opened\<lparr>gp_own := True\<rparr>)) (gm_start 2))" (is "gm_step lk _ ?r")
    using gm_step.sys_write [of "gm_start 2" 0 gm_opened "[1, 1]" lk] o by simp
  then have r: "gm_reach lk 2 ?r" by (rule gm_reach.next_step [OF gm_reach.start])
  have "gm_opened = gs_procs ?r ! 1" "gm_idle ?r 1"
    by (simp_all add: gm_set_def gm_start_def gm_idle_def gm_call_of_def gm_opened_def)
  then have "gm_step lk ?r (gm_race lk)" using gm_step.sys_read [of ?r 1 gm_opened lk 2] o(2) by (simp add: gm_race_def)
  then show ?thesis by (rule gm_reach.next_step [OF r])
qed

lemma gm_size: "2 \<le> GLOBALMEM_SIZE" "0 < GLOBALMEM_SIZE" "Suc 0 < GLOBALMEM_SIZE" "\<not> GLOBALMEM_SIZE < 2"
  by (simp_all add: GLOBALMEM_SIZE_def)

lemma race_calls:
  "call_read lk 0 2 = \<lparr>g_fun = Read, g_ppos = 0, g_pos = 0, g_count = 2, g_buf = [], g_fault = False, g_pc = gm_enter lk\<rparr>"
  "call_write lk 0 [1, 1] = \<lparr>g_fun = Write, g_ppos = 0, g_pos = 0, g_count = 2, g_buf = [1, 1], g_fault = False, g_pc = gm_enter lk\<rparr>"
  using gm_size by (simp_all add: call_read_def call_write_def globalmem_range_def Let_def not_le)

lemma gm_race_torn:
  "map_option gs_hist (gm_runs False [0, 1, 1, 1, 0, 0] (gm_race False)) = Some [Put 0 0 [1, 1], Got 1 0 [1, 0]]"
  using gm_size
  by (simp add: gm_race_def race_calls gm_set_def gm_start_def globalmem_init_def numeral_2_eq_2 gm_run_def gm_returns_def gm_call_of_def
      gm_events_def gm_enter_def gm_fun_defs gm_opened_def)

lemma gm_race_locked:
  "map_option gs_hist (gm_runs True [0, 0, 0, 0, 0, 1, 1, 1, 1, 1] (gm_race True)) = Some [Got 1 0 [1, 1], Put 0 0 [1, 1]]"
  using gm_size
  by (simp add: gm_race_def race_calls gm_set_def gm_start_def globalmem_init_def numeral_2_eq_2 gm_run_def gm_returns_def gm_call_of_def
      gm_events_def gm_enter_def gm_fun_defs gm_opened_def)

theorem globalmem_atomic_witness:
  "\<exists>r. gm_reach True 2 r \<and> gs_hist r = [Got 1 0 [1, 1], Put 0 0 [1, 1]] \<and> gm_atomic (gs_hist r) \<and> many gm_inside (gs_procs r) \<le> 1"
proof -
  obtain r where r: "gm_runs True [0, 0, 0, 0, 0, 1, 1, 1, 1, 1] (gm_race True) = Some r" "gs_hist r = [Got 1 0 [1, 1], Put 0 0 [1, 1]]"
    using gm_race_locked by auto
  have "length (gs_procs (gm_race True)) = 2" by (simp add: gm_race_def gm_set_def gm_start_def)
  then have "gm_reach True 2 r" using gm_runs_reach [OF r(1) _ gm_race_reach] by simp
  then show ?thesis using globalmem_atomic r(2) by blast
qed

text \<open>
  C39. Without the semaphore transfers are not atomic. In an execution of \<^verbatim>\<open>globalmem.c\<close> with a process that writes two
  bytes 1 over zeros and a process that reads them, the reader gets a 1 and a 0, and there is no order of the two
  transfers in which an atomic memory would have answered so.
\<close>

theorem globalmem_torn_read:
  "\<exists>r. gm_reach False 2 r \<and> gs_hist r = [Put 0 0 [1, 1], Got 1 0 [1, 0]] \<and>
    \<not> gm_atomic (gs_hist r) \<and> \<not> gm_atomic (rev (gs_hist r))"
proof -
  obtain r where r: "gm_runs False [0, 1, 1, 1, 0, 0] (gm_race False) = Some r" "gs_hist r = [Put 0 0 [1, 1], Got 1 0 [1, 0]]"
    using gm_race_torn by auto
  have "length (gs_procs (gm_race False)) = 2" by (simp add: gm_race_def gm_set_def gm_start_def)
  then have "gm_reach False 2 r" using gm_runs_reach [OF r(1) _ gm_race_reach] by simp
  moreover have "\<not> gm_atomic (gs_hist r)" "\<not> gm_atomic (rev (gs_hist r))" by (auto simp: r(2) overwrite_def numeral_2_eq_2)
  ultimately show ?thesis using r(2) by blast
qed

text \<open>The test of the offset looks at its lower 32 bits only: a seek far behind the end succeeds.\<close>

lemma globalmem_llseek_wraps: "globalmem_llseek f_pos 0x100000000 0 = (0, 0)"
  by (simp add: globalmem_llseek_def)

end
