(* ===== verification/Buttons.thy ===== *)
theory Buttons
  imports Kernel_Sync
begin

text \<open>
  The button driver \<^verbatim>\<open>7th_buttons_all/buttons.c\<close>: four keys with interrupts on both edges, a timer that waits until a key
  has stopped bouncing, reading with and without blocking, polling, signals to a process, and a mutex that lets one
  process open the device at a time.

  The keys, the interrupts and the clock are steps of the environment; the calls of the processes are interleaved with
  them. The clock counts jiffies without wrapping; the kernel compares them modulo the word size.
\<close>

section \<open>State\<close>

record pin_desc =
  pin :: u32
  pd_key_val :: u32

definition GPIO_BANKF :: u32 where "GPIO_BANKF = 32 * 5"
definition GPIO_BANKG :: u32 where "GPIO_BANKG = 32 * 6"
definition GPIO_OFFSET :: "u32 \<Rightarrow> nat" where "GPIO_OFFSET p = unat (p AND 31)"

definition pins_desc :: "pin_desc list" where
  "pins_desc =
     [\<lparr>pin = GPIO_BANKF + 0, pd_key_val = 0x01\<rparr>, \<lparr>pin = GPIO_BANKF + 2, pd_key_val = 0x02\<rparr>,
      \<lparr>pin = GPIO_BANKG + 3, pd_key_val = 0x03\<rparr>, \<lparr>pin = GPIO_BANKG + 11, pd_key_val = 0x04\<rparr>]"

definition HZ :: nat where "HZ = 200"

text \<open>
  \<open>level\<close> is the voltage at the pins, \<open>lines\<close> the interrupts that are requested, \<open>timer\<close> the expiry of the timer while it is
  pending, \<open>async\<close> the processes that get signals, and \<open>reports\<close> the key values for which sleepers were woken and signals sent.
\<close>

record buttons =
  ev_press :: bool
  key_val :: u8
  irq_pd :: "nat option"
  button_lock :: nat
  timer :: "nat option"
  jiffies :: nat
  level :: "u32 \<Rightarrow> bool"
  lines :: "bool list"
  async :: "nat list"
  reports :: "u8 list"

text \<open>The timer has been added with expiry 0; when it runs before the first interrupt, it finds no key and does nothing.\<close>

definition sixth_drv_init :: "(u32 \<Rightarrow> bool) \<Rightarrow> nat \<Rightarrow> buttons" where
  "sixth_drv_init lv now = \<lparr>ev_press = False, key_val = 0, irq_pd = None, button_lock = 1, timer = Some 0, jiffies = now, level = lv,
     lines = replicate 4 False, async = [], reports = []\<rparr>"

section \<open>Interrupts\<close>

definition s3c2410_gpio_getpin :: "(u32 \<Rightarrow> bool) \<Rightarrow> u32 \<Rightarrow> u32" where
  "s3c2410_gpio_getpin lv p = (if lv p then push_bit (GPIO_OFFSET p) 1 else 0)"

definition buttons_irq :: "nat \<Rightarrow> buttons \<Rightarrow> buttons" where
  "buttons_irq i b = b\<lparr>irq_pd := Some i, timer := Some (jiffies b + HZ div 100)\<rparr>"

definition buttons_timer_function :: "buttons \<Rightarrow> buttons" where
  "buttons_timer_function b =
     (case irq_pd b of
        None \<Rightarrow> b
      | Some i \<Rightarrow>
          (let pindesc = pins_desc ! i;
               pinval = s3c2410_gpio_getpin (level b) (pin pindesc);
               b = (if pinval \<noteq> 0 then b\<lparr>key_val := 0x80 OR ucast (pd_key_val pindesc)\<rparr>
                    else b\<lparr>key_val := ucast (pd_key_val pindesc)\<rparr>);
               b = b\<lparr>ev_press := True\<rparr>
           in b\<lparr>reports := key_val b # reports b\<rparr>))"

text \<open>The environment: a key changes its level, or the clock ticks.\<close>

datatype env = Edge nat | Tick

fun env_step :: "env \<Rightarrow> buttons \<Rightarrow> buttons" where
  "env_step (Edge i) b =
     (let b = b\<lparr>level := (level b)(pin (pins_desc ! i) := \<not> level b (pin (pins_desc ! i)))\<rparr>
      in if lines b ! i then buttons_irq i b else b)"
| "env_step Tick b =
     (let b = b\<lparr>jiffies := jiffies b + 1\<rparr>
      in case timer b of
           None \<Rightarrow> b
         | Some e \<Rightarrow> if e \<le> jiffies b then buttons_timer_function (b\<lparr>timer := None\<rparr>) else b)"

section \<open>Calls\<close>

text \<open>
  \<open>Closed\<close> and \<open>Opened\<close>: outside the driver. \<open>AtDown\<close>: at the mutex in \<^verbatim>\<open>open\<close>. \<open>Requesting k\<close>: \<open>k\<close> interrupts are requested.
  \<open>Waiting\<close>: in \<^verbatim>\<open>wait_event_interruptible\<close>. \<open>Copying\<close> and \<open>Clearing\<close>: at the copy and at the assignment behind it.
  \<open>Freeing k\<close>: \<open>k\<close> interrupts are freed. \<open>AtUp\<close>: at \<^verbatim>\<open>up\<close> in \<^verbatim>\<open>close\<close>.
\<close>

datatype bpc = Closed | AtDown | Requesting nat | Opened | Waiting | Copying | Clearing | Freeing nat | AtUp

record bproc =
  b_pc :: bpc
  b_nonblock :: bool
  b_ret :: int
  b_key :: u8

definition sixth_drv_open :: "bproc \<Rightarrow> buttons \<Rightarrow> (bproc \<times> buttons) option" where
  "sixth_drv_open p b =
     (case b_pc p of
        AtDown \<Rightarrow>
          if b_nonblock p
          then (if button_lock b = 0 then Some (p\<lparr>b_pc := Closed, b_ret := - EBUSY\<rparr>, b)
                else Some (p\<lparr>b_pc := Requesting 0\<rparr>, b\<lparr>button_lock := button_lock b - 1\<rparr>))
          else (if button_lock b = 0 then None
                else Some (p\<lparr>b_pc := Requesting 0\<rparr>, b\<lparr>button_lock := button_lock b - 1\<rparr>))
      | Requesting k \<Rightarrow>
          if k < 4 then Some (p\<lparr>b_pc := Requesting (Suc k)\<rparr>, b\<lparr>lines := (lines b)[k := True]\<rparr>)
          else Some (p\<lparr>b_pc := Opened, b_ret := 0\<rparr>, b)
      | _ \<Rightarrow> None)"

text \<open>The result of \<^verbatim>\<open>wait_event_interruptible\<close> is not looked at, so a signal has the effect of a key.\<close>

definition read_enter :: "nat \<Rightarrow> bproc \<Rightarrow> buttons \<Rightarrow> bproc" where
  "read_enter sz p b =
     (if sz \<noteq> 1 then p\<lparr>b_ret := - EINVAL\<rparr>
      else if b_nonblock p then (if \<not> ev_press b then p\<lparr>b_ret := - EAGAIN\<rparr> else p\<lparr>b_pc := Copying\<rparr>)
      else p\<lparr>b_pc := Waiting\<rparr>)"

definition sixth_drv_read :: "bool \<Rightarrow> bproc \<Rightarrow> buttons \<Rightarrow> (bproc \<times> buttons) option" where
  "sixth_drv_read signal_pending p b =
     (case b_pc p of
        Waiting \<Rightarrow> if ev_press b \<or> signal_pending then Some (p\<lparr>b_pc := Copying\<rparr>, b) else None
      | Copying \<Rightarrow> Some (p\<lparr>b_key := key_val b, b_pc := Clearing\<rparr>, b)
      | Clearing \<Rightarrow> Some (p\<lparr>b_pc := Opened, b_ret := 1\<rparr>, b\<lparr>ev_press := False\<rparr>)
      | _ \<Rightarrow> None)"

definition sixth_drv_close :: "bproc \<Rightarrow> buttons \<Rightarrow> (bproc \<times> buttons) option" where
  "sixth_drv_close p b =
     (case b_pc p of
        Freeing k \<Rightarrow>
          if k < 4 then Some (p\<lparr>b_pc := Freeing (Suc k)\<rparr>, b\<lparr>lines := (lines b)[k := False]\<rparr>)
          else Some (p\<lparr>b_pc := AtUp\<rparr>, b)
      | AtUp \<Rightarrow> Some (p\<lparr>b_pc := Closed, b_ret := 0\<rparr>, b\<lparr>button_lock := button_lock b + 1\<rparr>)
      | _ \<Rightarrow> None)"

datatype poll_event = POLLIN | POLLRDNORM

definition sixth_drv_poll :: "buttons \<Rightarrow> poll_event set" where
  "sixth_drv_poll b = (let mask = {} in if ev_press b then mask \<union> {POLLIN, POLLRDNORM} else mask)"

definition sixth_drv_fasync :: "nat \<Rightarrow> bool \<Rightarrow> buttons \<Rightarrow> buttons" where
  "sixth_drv_fasync i on b = b\<lparr>async := (if on then (if i \<in> set (async b) then async b else i # async b) else removeAll i (async b))\<rparr>"

definition b_run :: "bool \<Rightarrow> bproc \<Rightarrow> buttons \<Rightarrow> (bproc \<times> buttons) option" where
  "b_run sig p b =
     (case b_pc p of
        AtDown \<Rightarrow> sixth_drv_open p b
      | Requesting k \<Rightarrow> sixth_drv_open p b
      | Freeing k \<Rightarrow> sixth_drv_close p b
      | AtUp \<Rightarrow> sixth_drv_close p b
      | _ \<Rightarrow> sixth_drv_read sig p b)"

section \<open>Executions\<close>

record bsys =
  bs_dev :: buttons
  bs_procs :: "bproc list"

definition b_set :: "nat \<Rightarrow> bproc \<Rightarrow> bsys \<Rightarrow> bsys" where
  "b_set i p r = r\<lparr>bs_procs := (bs_procs r)[i := p]\<rparr>"

inductive b_step :: "bsys \<Rightarrow> bsys \<Rightarrow> bool" where
  call_open: "i < length (bs_procs r) \<Longrightarrow> p = bs_procs r ! i \<Longrightarrow> b_pc p = Closed \<Longrightarrow>
    b_step r (b_set i (p\<lparr>b_pc := AtDown, b_nonblock := nb\<rparr>) r)"
| call_read: "i < length (bs_procs r) \<Longrightarrow> p = bs_procs r ! i \<Longrightarrow> b_pc p = Opened \<Longrightarrow>
    b_step r (b_set i (read_enter sz p (bs_dev r)) r)"
| call_close: "i < length (bs_procs r) \<Longrightarrow> p = bs_procs r ! i \<Longrightarrow> b_pc p = Opened \<Longrightarrow>
    b_step r (b_set i (p\<lparr>b_pc := Freeing 0\<rparr>) r)"
| call_fasync: "i < length (bs_procs r) \<Longrightarrow> b_pc (bs_procs r ! i) = Opened \<Longrightarrow>
    b_step r (r\<lparr>bs_dev := sixth_drv_fasync i on (bs_dev r)\<rparr>)"
| go_on: "i < length (bs_procs r) \<Longrightarrow> b_run sig (bs_procs r ! i) (bs_dev r) = Some (p, b) \<Longrightarrow>
    b_step r (r\<lparr>bs_dev := b, bs_procs := (bs_procs r)[i := p]\<rparr>)"
| env: "(\<forall>i. e = Edge i \<longrightarrow> i < 4) \<Longrightarrow> b_step r (r\<lparr>bs_dev := env_step e (bs_dev r)\<rparr>)"

definition b_start :: "(u32 \<Rightarrow> bool) \<Rightarrow> nat \<Rightarrow> nat \<Rightarrow> bsys" where
  "b_start lv now n = \<lparr>bs_dev = sixth_drv_init lv now, bs_procs = replicate n \<lparr>b_pc = Closed, b_nonblock = False, b_ret = 0, b_key = 0\<rparr>\<rparr>"

inductive b_reach :: "bsys \<Rightarrow> bsys \<Rightarrow> bool" for r where
  start: "b_reach r r"
| next_step: "b_reach r s \<Longrightarrow> b_step s s' \<Longrightarrow> b_reach r s'"

section \<open>The mutex\<close>

fun has_device :: "bpc \<Rightarrow> bool" where
  "has_device Closed = False"
| "has_device AtDown = False"
| "has_device l = True"

definition b_inside :: "bproc \<Rightarrow> bool" where
  "b_inside p \<longleftrightarrow> has_device (b_pc p)"

lemmas b_run_defs = b_run_def sixth_drv_open_def sixth_drv_read_def sixth_drv_close_def

interpretation b_mutex: critical_section b_run b_inside button_lock
proof
  fix sig p b p' b'
  assume "b_run sig p b = Some (p', b')"
  then show "button_lock b' + of_bool (b_inside p') = button_lock b + of_bool (b_inside p)"
    by (cases "b_pc p") (auto simp: b_run_defs b_inside_def split: if_splits)
qed

section \<open>The invariant\<close>

text \<open>The values that the keys report, and the interrupts that are requested at every place of the program.\<close>

definition key_codes :: "u8 set" where
  "key_codes = {0x01, 0x02, 0x03, 0x04, 0x81, 0x82, 0x83, 0x84}"

fun lines_at :: "bpc \<Rightarrow> bool list" where
  "lines_at (Requesting k) = replicate k True @ replicate (4 - k) False"
| "lines_at (Freeing k) = replicate k False @ replicate (4 - k) True"
| "lines_at l = replicate 4 (has_device l \<and> l \<noteq> AtUp)"

fun place_ok :: "bpc \<Rightarrow> bool" where
  "place_ok (Requesting k) = (k \<le> 4)"
| "place_ok (Freeing k) = (k \<le> 4)"
| "place_ok l = True"

definition dev_ok :: "buttons \<Rightarrow> bool" where
  "dev_ok b \<longleftrightarrow> key_val b = (case reports b of [] \<Rightarrow> 0 | v # vs \<Rightarrow> v) \<and> set (reports b) \<subseteq> key_codes \<and>
     (\<forall>i. irq_pd b = Some i \<longrightarrow> i < 4) \<and> (ev_press b \<longrightarrow> reports b \<noteq> [])"

definition b_inv :: "bsys \<Rightarrow> bool" where
  "b_inv r \<longleftrightarrow>
     button_lock (bs_dev r) + many b_inside (bs_procs r) = 1 \<and>
     (\<forall>j < length (bs_procs r). b_key (bs_procs r ! j) \<in> insert 0 key_codes \<and>
        (b_inside (bs_procs r ! j) \<longrightarrow> place_ok (b_pc (bs_procs r ! j)) \<and> lines (bs_dev r) = lines_at (b_pc (bs_procs r ! j)))) \<and>
     ((\<forall>j < length (bs_procs r). \<not> b_inside (bs_procs r ! j)) \<longrightarrow> lines (bs_dev r) = replicate 4 False) \<and>
     dev_ok (bs_dev r)"

lemma key_val_ok: "dev_ok b \<Longrightarrow> key_val b \<in> insert 0 key_codes"
  by (auto simp: dev_ok_def split: list.splits)

lemma timer_function_code:
  assumes "irq_pd b = Some i" "i < 4"
  shows "key_val (buttons_timer_function b) =
    (if level b (pin (pins_desc ! i)) then 0x80 + of_nat (Suc i) else of_nat (Suc i))"
proof -
  have "i = 0 \<or> i = 1 \<or> i = 2 \<or> i = 3" using assms(2) by auto
  then show ?thesis
    using assms(1)
    by (auto simp: buttons_timer_function_def s3c2410_gpio_getpin_def pins_desc_def GPIO_OFFSET_def GPIO_BANKF_def GPIO_BANKG_def Let_def)
qed

lemma timer_function_frame [simp]:
  "lines (buttons_timer_function b) = lines b" "button_lock (buttons_timer_function b) = button_lock b"
  "jiffies (buttons_timer_function b) = jiffies b" "timer (buttons_timer_function b) = timer b"
  "irq_pd (buttons_timer_function b) = irq_pd b" "level (buttons_timer_function b) = level b"
  by (simp_all add: buttons_timer_function_def Let_def split: option.splits)

lemma timer_function_reports:
  "irq_pd b = Some i \<Longrightarrow> reports (buttons_timer_function b) = key_val (buttons_timer_function b) # reports b \<and> ev_press (buttons_timer_function b)"
  by (simp add: buttons_timer_function_def Let_def)

lemma timer_function_ok:
  assumes "dev_ok b"
  shows "dev_ok (buttons_timer_function b)"
proof (cases "irq_pd b")
  case None
  then show ?thesis using assms by (simp add: buttons_timer_function_def)
next
  case (Some i)
  then have i: "i < 4" using assms by (simp add: dev_ok_def)
  then have "i = 0 \<or> i = 1 \<or> i = 2 \<or> i = 3" by auto
  then have "key_val (buttons_timer_function b) \<in> key_codes" using timer_function_code [OF Some i] by (auto simp: key_codes_def)
  then show ?thesis using assms timer_function_reports [OF Some] Some i by (auto simp: dev_ok_def)
qed

lemma env_frame [simp]: "lines (env_step e b) = lines b" "button_lock (env_step e b) = button_lock b"
  by (cases e; simp add: buttons_irq_def Let_def split: option.splits)+

lemma env_ok:
  assumes "dev_ok b" "\<And>i. e = Edge i \<Longrightarrow> i < 4"
  shows "dev_ok (env_step e b)"
proof (cases e)
  case (Edge i)
  then show ?thesis using assms by (simp add: dev_ok_def buttons_irq_def Let_def)
next
  case Tick
  have "dev_ok (b\<lparr>jiffies := k, timer := q\<rparr>)" for k q using assms(1) by (simp add: dev_ok_def)
  then show ?thesis using assms(1) timer_function_ok Tick by (auto simp: Let_def dev_ok_def split: option.splits)
qed

lemma b_inv_update:
  assumes inv: "b_inv r" and i: "i < length (bs_procs r)"
    and total: "button_lock b + many b_inside ((bs_procs r)[i := p]) = 1" and ok: "dev_ok b" "b_key p \<in> insert 0 key_codes"
    and at: "b_inside p \<Longrightarrow> place_ok (b_pc p) \<and> lines b = lines_at (b_pc p)"
    and out: "\<not> b_inside p \<Longrightarrow> (\<forall>j < length (bs_procs r). j \<noteq> i \<longrightarrow> \<not> b_inside (bs_procs r ! j)) \<Longrightarrow> lines b = replicate 4 False"
    and other: "(\<forall>j < length (bs_procs r). j \<noteq> i \<longrightarrow> \<not> b_inside (bs_procs r ! j)) \<or> lines b = lines (bs_dev r)"
  shows "b_inv (r\<lparr>bs_dev := b, bs_procs := (bs_procs r)[i := p]\<rparr>)"
proof -
  have "b_key ((bs_procs r)[i := p] ! j) \<in> insert 0 key_codes \<and>
    (b_inside ((bs_procs r)[i := p] ! j) \<longrightarrow>
      place_ok (b_pc ((bs_procs r)[i := p] ! j)) \<and> lines b = lines_at (b_pc ((bs_procs r)[i := p] ! j)))"
    if "j < length (bs_procs r)" for j
    using that i ok(2) at inv other by (cases "j = i") (auto simp: b_inv_def)
  moreover have "lines b = replicate 4 False" if "\<forall>j < length (bs_procs r). \<not> b_inside ((bs_procs r)[i := p] ! j)"
    using that i out by (metis nth_list_update_eq nth_list_update_neq)
  ultimately show ?thesis using total ok(1) by (simp add: b_inv_def)
qed

text \<open>Steps that leave the device alone and do not enter or leave.\<close>

lemma b_inv_call:
  assumes inv: "b_inv r" and i: "i < length (bs_procs r)" and p: "b_inside p \<longleftrightarrow> b_inside (bs_procs r ! i)" "b_key p = b_key (bs_procs r ! i)"
    and at: "b_inside p \<Longrightarrow> place_ok (b_pc p) \<and> lines_at (b_pc p) = lines_at (b_pc (bs_procs r ! i))"
  shows "b_inv (b_set i p r)"
proof -
  have "b_inv (r\<lparr>bs_dev := bs_dev r, bs_procs := (bs_procs r)[i := p]\<rparr>)"
  proof (rule b_inv_update [OF inv i])
    show "button_lock (bs_dev r) + many b_inside ((bs_procs r)[i := p]) = 1"
      using inv many_update [OF i, of b_inside p] p(1) by (simp add: b_inv_def)
    show "lines (bs_dev r) = replicate 4 False"
      if "\<not> b_inside p" "\<forall>j < length (bs_procs r). j \<noteq> i \<longrightarrow> \<not> b_inside (bs_procs r ! j)"
      using inv that p(1) unfolding b_inv_def by metis
  qed (use inv i p at in \<open>auto simp: b_inv_def\<close>)
  then show ?thesis by (simp add: b_set_def)
qed

lemma lines_update:
  "k < 4 \<Longrightarrow> (lines_at (Requesting k))[k := True] = lines_at (Requesting (Suc k))"
  "k < 4 \<Longrightarrow> (lines_at (Freeing k))[k := False] = lines_at (Freeing (Suc k))"
proof -
  assume "k < 4"
  then have "k = 0 \<or> k = 1 \<or> k = 2 \<or> k = 3" by auto
  then show "(lines_at (Requesting k))[k := True] = lines_at (Requesting (Suc k))"
      "(lines_at (Freeing k))[k := False] = lines_at (Freeing (Suc k))"
    by (auto simp: numeral_eq_Suc)
qed

text \<open>A step of the driver: the requested interrupts follow the place of the process that has the device.\<close>

lemma run_lines:
  assumes "b_run sig p b = Some (p', b')" "b_inside p \<Longrightarrow> place_ok (b_pc p) \<and> lines b = lines_at (b_pc p)"
    and "\<not> b_inside p \<Longrightarrow> b_inside p' \<Longrightarrow> lines b = replicate 4 False"
  shows "b_inside p' \<Longrightarrow> place_ok (b_pc p') \<and> lines b' = lines_at (b_pc p')"
    and "b_inside p \<Longrightarrow> \<not> b_inside p' \<Longrightarrow> lines b' = replicate 4 False"
    and "\<not> b_inside p \<Longrightarrow> lines b' = lines b"
  using assms lines_update
  by (cases "b_pc p"; auto simp: b_run_defs b_inside_def le_Suc_eq numeral_eq_Suc split: if_splits)+

lemma run_dev:
  assumes "b_run sig p b = Some (p', b')" "dev_ok b" "b_key p \<in> insert 0 key_codes"
  shows "dev_ok b' \<and> b_key p' \<in> insert 0 key_codes"
  using assms key_val_ok [OF assms(2)] by (cases "b_pc p") (auto simp: b_run_defs dev_ok_def split: if_splits)

lemma b_inv_run:
  assumes inv: "b_inv r" and i: "i < length (bs_procs r)" and run: "b_run sig (bs_procs r ! i) (bs_dev r) = Some (p, b)"
  shows "b_inv (r\<lparr>bs_dev := b, bs_procs := (bs_procs r)[i := p]\<rparr>)"
proof -
  let ?p = "bs_procs r ! i"
  have one: "button_lock (bs_dev r) + many b_inside (bs_procs r) = 1" using inv by (simp add: b_inv_def)
  have alone: "\<forall>j < length (bs_procs r). j \<noteq> i \<longrightarrow> \<not> b_inside (bs_procs r ! j)" if "b_inside ?p \<or> b_inside p"
    using b_mutex.one_inside [OF one _ i] b_mutex.enters_alone [OF one i run] that by blast
  have at: "b_inside ?p \<Longrightarrow> place_ok (b_pc ?p) \<and> lines (bs_dev r) = lines_at (b_pc ?p)" using inv i by (simp add: b_inv_def)
  have free: "\<not> b_inside ?p \<Longrightarrow> b_inside p \<Longrightarrow> lines (bs_dev r) = replicate 4 False"
    using alone inv by (auto simp: b_inv_def)
  note ln = run_lines [OF run at free]
  have dev: "dev_ok b \<and> b_key p \<in> insert 0 key_codes" using run_dev [OF run] inv i by (simp add: b_inv_def)
  show ?thesis
  proof (rule b_inv_update [OF inv i])
    show "button_lock b + many b_inside ((bs_procs r)[i := p]) = 1" using b_mutex.total_step [OF i run] one by simp
    show "lines b = replicate 4 False"
      if "\<not> b_inside p" "\<forall>j < length (bs_procs r). j \<noteq> i \<longrightarrow> \<not> b_inside (bs_procs r ! j)"
    proof (cases "b_inside ?p")
      case True
      then show ?thesis using ln(2) that(1) by blast
    next
      case False
      then have "\<forall>j < length (bs_procs r). \<not> b_inside (bs_procs r ! j)" using that(2) by metis
      then show ?thesis using ln(3) False inv by (simp add: b_inv_def)
    qed
    show "(\<forall>j < length (bs_procs r). j \<noteq> i \<longrightarrow> \<not> b_inside (bs_procs r ! j)) \<or> lines b = lines (bs_dev r)"
      using alone ln(3) by blast
  qed (use ln(1) dev in auto)
qed

lemma b_inv_env:
  assumes "b_inv r" "lines b = lines (bs_dev r)" "button_lock b = button_lock (bs_dev r)" "dev_ok b"
  shows "b_inv (r\<lparr>bs_dev := b\<rparr>)"
  using assms by (simp add: b_inv_def)

lemma b_inv_step:
  assumes "b_step r r'" "b_inv r"
  shows "b_inv r'"
  using assms(1)
proof cases
  case (call_open i p nb)
  then show ?thesis using b_inv_call [OF assms(2) call_open(2), of "p\<lparr>b_pc := AtDown, b_nonblock := nb\<rparr>"] by (simp add: b_inside_def)
next
  case (call_read i p sz)
  then show ?thesis
    using b_inv_call [OF assms(2) call_read(2), of "read_enter sz p (bs_dev r)"] by (simp add: b_inside_def read_enter_def)
next
  case (call_close i p)
  then show ?thesis using b_inv_call [OF assms(2) call_close(2), of "p\<lparr>b_pc := Freeing 0\<rparr>"] by (simp add: b_inside_def)
next
  case (call_fasync i on)
  then show ?thesis using assms(2) by (auto intro!: b_inv_env simp: sixth_drv_fasync_def b_inv_def dev_ok_def)
next
  case (go_on i sig p b)
  then show ?thesis using b_inv_run [OF assms(2)] by blast
next
  case (env e)
  then show ?thesis using assms(2) env_ok [of "bs_dev r" e] by (auto intro!: b_inv_env simp: b_inv_def)
qed

lemma b_reach_inv: "b_reach (b_start lv now n) r \<Longrightarrow> b_inv r"
proof (induction rule: b_reach.induct)
  case start
  then show ?case by (auto simp: b_inv_def b_start_def sixth_drv_init_def b_inside_def dev_ok_def)
qed (rule b_inv_step)


fun b_runs :: "nat list \<Rightarrow> bsys \<Rightarrow> bsys option" where
  "b_runs [] r = Some r"
| "b_runs (i # is) r =
     (case b_run False (bs_procs r ! i) (bs_dev r) of
        None \<Rightarrow> None
      | Some (p, b) \<Rightarrow> b_runs is (r\<lparr>bs_dev := b, bs_procs := (bs_procs r)[i := p]\<rparr>))"

lemma b_runs_reach:
  "b_runs is r = Some r' \<Longrightarrow> \<forall>i \<in> set is. i < length (bs_procs r) \<Longrightarrow> b_reach s r \<Longrightarrow> b_reach s r'"
proof (induction "is" r rule: b_runs.induct)
  case (2 i "is" r)
  then obtain p b where p: "b_run False (bs_procs r ! i) (bs_dev r) = Some (p, b)" by (auto split: option.splits)
  have "b_step r (r\<lparr>bs_dev := b, bs_procs := (bs_procs r)[i := p]\<rparr>)" using b_step.go_on [OF _ p] 2(3) by simp
  then show ?case using 2(1) [OF p refl] 2(2-4) p by (simp add: b_reach.next_step)
qed simp


section \<open>Bouncing keys\<close>

definition envs :: "env list \<Rightarrow> buttons \<Rightarrow> buttons" where
  "envs es b = foldl (\<lambda>b e. env_step e b) b es"

text \<open>Edges of one key with less than 10 ms between them; \<open>k\<close> ticks have passed since the last edge.\<close>

fun bouncy :: "nat \<Rightarrow> nat \<Rightarrow> env list \<Rightarrow> bool" where
  "bouncy i k [] = True"
| "bouncy i k (Edge j # es) = (j = i \<and> bouncy i 0 es)"
| "bouncy i k (Tick # es) = (Suc k < HZ div 100 \<and> bouncy i (Suc k) es)"

definition armed :: "nat \<Rightarrow> nat \<Rightarrow> buttons \<Rightarrow> bool" where
  "armed i k b \<longleftrightarrow> irq_pd b = Some i \<and> lines b ! i \<and> k < HZ div 100 \<and> timer b = Some (jiffies b + HZ div 100 - k)"

lemma bouncing:
  "bouncy i k es \<Longrightarrow> armed i k b \<Longrightarrow> \<exists>k'. armed i k' (envs es b) \<and> reports (envs es b) = reports b"
proof (induction i k es arbitrary: b rule: bouncy.induct)
  case (1 i k)
  then show ?case by (auto simp: envs_def)
next
  case (2 i k j es)
  have "armed i 0 (env_step (Edge i) b)" "reports (env_step (Edge i) b) = reports b"
    using 2(3) by (auto simp: armed_def buttons_irq_def Let_def HZ_def)
  then show ?case using 2(1) [of "env_step (Edge i) b"] 2(2) by (simp add: envs_def)
next
  case (3 i k es)
  have "armed i (Suc k) (env_step Tick b)" "reports (env_step Tick b) = reports b"
    using 3(2,3) by (auto simp: armed_def Let_def HZ_def)
  then show ?case using 3(1) [of "env_step Tick b"] 3(2) by (simp add: envs_def)
qed

lemma settles:
  assumes "armed i k b" "i < 4"
  shows "let b' = envs (replicate (HZ div 100) Tick) b
    in ev_press b' \<and> timer b' = None \<and> reports b' = key_val b' # reports b \<and>
       key_val b' = (if level b' (pin (pins_desc ! i)) then 0x80 + of_nat (Suc i) else of_nat (Suc i))"
proof -
  have k: "k = 0 \<or> k = 1" "HZ div 100 = 2" using assms(1) by (auto simp: armed_def HZ_def)
  have *: "irq_pd (b\<lparr>jiffies := j, timer := None\<rparr>) = Some i" for j using assms(1) by (simp add: armed_def)
  show ?thesis
    using k assms timer_function_reports [OF *] timer_function_code [OF * assms(2)]
    by (auto simp: envs_def armed_def Let_def numeral_2_eq_2)
qed


text \<open>The first key is pressed, bouncing twice, while a process waits.\<close>

definition waiting_b :: buttons where
  "waiting_b = (sixth_drv_init (\<lambda>p. True) 0)\<lparr>timer := None, button_lock := 0, lines := replicate 4 True\<rparr>"


text \<open>
  Where reports are lost: the variable for the key is overwritten when another key moves within the 10 ms, a report
  between the copy and the assignment behind it is cleared unread, and a signal returns a value that is not new.
\<close>

lemma second_key_hides_first: "reports (envs [Edge 0, Edge 1, Tick, Tick] waiting_b) = [0x02]"
  by (simp add: envs_def waiting_b_def sixth_drv_init_def buttons_irq_def HZ_def Let_def buttons_timer_function_def s3c2410_gpio_getpin_def
      pins_desc_def GPIO_BANKF_def GPIO_BANKG_def)

lemma report_cleared_unread:
  assumes "b_pc p = Clearing" "irq_pd b = Some i" "timer b = Some (Suc (jiffies b))"
  shows "\<exists>p' b'. b_run False p (env_step Tick b) = Some (p', b') \<and> length (reports b') = Suc (length (reports b)) \<and> \<not> ev_press b'"
  using assms timer_function_reports [of "b\<lparr>jiffies := Suc (jiffies b), timer := None\<rparr>" i] by (auto simp: b_run_defs Let_def)

lemma signal_returns_old_value:
  assumes "b_pc p = Waiting" "\<not> ev_press b"
  shows "\<exists>p1 p2 p3 b'. b_run True p b = Some (p1, b) \<and> b_run False p1 b = Some (p2, b) \<and> b_run False p2 b = Some (p3, b') \<and>
    b_ret p3 = 1 \<and> b_key p3 = key_val b"
  using assms by (auto simp: b_run_defs)

end
