(* ===== verification/Spec2Isabelle.thy ===== *)
theory Spec2Isabelle
  imports System Tslib Dht11 Ds18b20 Font Bootloader Mmu Nor_Flash At24cxx Spi_Flash Oled Memdev Virt_Net Semaphore Globalmem Buttons
begin

text \<open>
  A verification library for the programs under \<^verbatim>\<open>src/hard_driver\<close>: the bare-metal drivers for the S3C2440 boards
  (JZ2440), the boot loader that starts Linux on them, and Linux drivers for three character devices and a network card,
  with the parts of Linux 2.6.22.6 that these rest on.

  \<^bold>\<open>The program and its parts.\<close> The main program is \<^verbatim>\<open>first_hard/025_sensors_022/007_irda_nec_ok_022_009\<close>, the last
  lesson of the bare-metal course, which contains the drivers of the earlier lessons. It starts from NOR or NAND flash,
  relocates itself (\<^verbatim>\<open>init.c\<close>, \<^verbatim>\<open>nand_flash.c\<close>), sets up a page table (\<^verbatim>\<open>mmu.c\<close>), and registers interrupt handlers
  (\<^verbatim>\<open>interrupt.c\<close>), timers (\<^verbatim>\<open>timer.c\<close>) and device drivers. The tests use the serial console (\<^verbatim>\<open>uart.c\<close>,
  \<^verbatim>\<open>my_printf.c\<close>), the display (\<^verbatim>\<open>lcd/\<close>), the touch screen (\<^verbatim>\<open>adc_touchscreen/\<close>) and the sensors (\<^verbatim>\<open>sensors/\<close>). The
  I2C and SPI drivers come from \<^verbatim>\<open>first_hard/022_i2c_019\<close> and \<^verbatim>\<open>first_hard/023_spi_020\<close>, the boot loader from
  \<^verbatim>\<open>drivers_and_test/32th_my_bootloader/3th_detect_bad_block\<close>. The Linux drivers are the mailbox
  \<^verbatim>\<open>friendlyArm/chapter4_wait/memdev_poll\<close>, the memory device \<^verbatim>\<open>friendlyArm/globalmem\<close> and
  \<^verbatim>\<open>friendlyArm/chapter3_sem/globalmem_sem\<close>, the buttons \<^verbatim>\<open>drivers_and_test/7th_buttons_all\<close>, and the virtual network card
  \<^verbatim>\<open>drivers_and_test/16th_virt_net/4th\<close>.

  \<^bold>\<open>How the code is modelled.\<close> A C function that touches the hardware is a function with an argument \<open>B\<close> of the record
  type \<open>bus\<close>: the loads and stores of 8, 16 and 32 bits on a state of any type. The hardware behind the bus is a
  parameter. What a driver relies on is a named predicate over the bus and functions that observe its state, for instance
  \<open>uart_tx\<close> (the transmitter becomes ready and sends), \<open>timer0\<close> (a counter that reloads), \<open>nand_dev\<close>, \<open>nor_dev\<close>,
  \<open>i2c_dev\<close>, \<open>spi_gpio\<close>, \<open>spi_ctl\<close>, \<open>oled_dev\<close>, \<open>dht_wire\<close>, \<open>ds_wire\<close>, \<open>sdram_bus\<close>; every property with such a premise has a
  witness with a concrete bus. Registers and C integers are machine words, or unbounded integers where an invariant or a
  premise bounds them. Fallible operations return options or the error numbers of the source; an access outside an array
  is \<open>None\<close>. Globals are records that the functions take and return.

  \<^bold>\<open>Loops and fuel.\<close> No model uses fuel. Loops with a bound are structural recursions or functions with a measure. Busy
  waiting and other loops that may not end are partial functions with \<open>None\<close> for not returning (\<open>poll\<close> and the loops
  built on it), and the properties state that they return. Interrupts are explicit: arrivals between the steps of the
  infrared decoder, calls of the handlers of touch screen and I2C controller by the hardware, and the step relations of
  the semaphore and the character devices, in which the processes and their environment take turns in any order.

  \<^bold>\<open>Foundations.\<close> \<open>Jz_Prelude\<close> has the bus, polling, ring slices, memory updates and bits on a wire. \<open>Soc_Regs\<close> has the
  register addresses of \<^verbatim>\<open>s3c2440_soc.h\<close>. \<open>String_Utils\<close> is \<^verbatim>\<open>string_utils.c\<close> with the theorem that the number
  parser returns the value of the longest run of digits.

  \<^bold>\<open>Console.\<close> \<open>Console\<close> (\<^verbatim>\<open>uart.c\<close>, \<^verbatim>\<open>exception.c\<close>) and \<open>My_Printf\<close> (\<^verbatim>\<open>my_printf.c\<close>): the output reads back with the
  parsers of \<open>String_Utils\<close>; the buffer of \<open>out_num\<close> is left exactly by widths that do not fit; unsigned words with the
  top bit set are printed as negative numbers.

  \<^bold>\<open>Interrupts, timers, infrared.\<close> \<open>Interrupt\<close> (dispatch, keys), \<open>Timers\<close> (software timers, delays, system time,
  counting lamps), \<open>Circle_Buffer\<close> (\<^verbatim>\<open>circle_buffer.c\<close>, with the interface \<open>fifo\<close> and its refinement by the ring),
  \<open>Irda\<close> (\<^verbatim>\<open>irda_raw.c\<close>, \<^verbatim>\<open>irda_nec.c\<close>: the decoder refines a decoder of pulse lists and inverts the NEC code).
  \<open>System\<close> composes them: from the initialisation in \<^verbatim>\<open>main.c\<close> through the interrupts to the line on the console.

  \<^bold>\<open>Display.\<close> \<open>Registry\<close> (the tables of panels and controllers, interface \<open>registry\<close>), \<open>Lcd\<close> (selection, timing, palette,
  pins), \<open>Framebuffer\<close> (interface \<open>pixel_sink\<close>), \<open>Geometry\<close> (the line is a best line in all octants; the circle ends and
  has no gaps), \<open>Font\<close> (characters and wrapping). \<open>Oled\<close> is the SPI display of \<^verbatim>\<open>oled.c\<close>.

  \<^bold>\<open>Touch screen and sensors.\<close> \<open>Touchscreen\<close> (\<^verbatim>\<open>adc.c\<close>, \<^verbatim>\<open>touchscreen.c\<close>: ranges of the variables in all reachable
  states, averages of the samples), \<open>Tslib\<close> (\<^verbatim>\<open>tslib.c\<close>: calibration on any linear panel, with rounded arithmetic),
  \<open>Dht11\<close> (\<^verbatim>\<open>dht11.c\<close>: the one-wire frame with tolerances of the pulses), \<open>Ds18b20\<close> (\<^verbatim>\<open>ds18b20.c\<close>: the time slots of
  the wire against a sensor that is a state machine over pulses, and the temperature).

  \<^bold>\<open>Memories and buses.\<close> \<open>Nand_Flash\<close> and \<open>Boot_Init\<close> (\<^verbatim>\<open>nand_flash.c\<close>, \<^verbatim>\<open>init.c\<close>: reading with bad blocks, relocation
  from both media), \<open>Mmu\<close> (\<^verbatim>\<open>mmu.c\<close>: what a walk of the table translates), \<open>Nor_Flash\<close> (\<^verbatim>\<open>nor_flash.c\<close>: commands and
  menu), \<open>I2c\<close> and \<open>At24cxx\<close> (interrupt state machine, interface \<open>i2c_master\<close>, EEPROM round trip), \<open>Spi\<close> and \<open>Spi_Flash\<close>
  (interfaces \<open>spi_master\<close> and \<open>flash_port\<close>, each interpreted for the bit-banged and for the controller port; round
  trip through the flash).

  \<^bold>\<open>Starting Linux.\<close> \<open>Atags\<close> is the parser of the boot tags in \<^verbatim>\<open>linux-2.6.22.6/arch/arm/kernel/setup.c\<close>; \<open>Bootloader\<close> is
  the boot loader. The loader comes to the jump with the kernel in memory, and the parser reads from the list of tags
  what the loader wrote.

  \<^bold>\<open>The semaphore.\<close> \<open>Semaphore\<close> is the semaphore of Linux on ARM (\<^verbatim>\<open>arch/arm/kernel/semaphore.c\<close>,
  \<^verbatim>\<open>asm-arm/locks.h\<close>, with what it uses of \<^verbatim>\<open>kernel/wait.c\<close> and \<^verbatim>\<open>kernel/sched.c\<close>): it never has more holders than
  units, no wake-up is lost, and it implements the contract \<open>sem_spec\<close> (a unit is taken when there is one), which is how
  the devices below use it.
  \<open>Kernel_Sync\<close> has the error numbers and the interface \<open>critical_section\<close> (every step keeps the units plus the processes
  inside), which \<open>Globalmem\<close> and \<open>Buttons\<close> interpret for their semaphores.

  \<^bold>\<open>Character devices.\<close> Each is a step relation over any number of processes. \<open>Memdev\<close> is \<^verbatim>\<open>memdev_poll.c\<close>: mutual
  exclusion, alternation of reads and writes, absence of deadlock between readers and writers, and the executions in
  which a faulting buffer breaks the exclusion. \<open>Globalmem\<close> is the memory device, whose transfers go byte by byte: with
  the semaphore every execution is one of an atomic memory, without it a read can be torn. \<open>Buttons\<close> is \<^verbatim>\<open>buttons.c\<close>: one
  process has the device and the interrupts, and a bouncing key is reported once; the lemmas at its end are executions in
  which a report is lost or an old value is read.

  \<^bold>\<open>The network card.\<close> \<open>Inet_Csum\<close> is the checksum of \<^verbatim>\<open>asm-arm/checksum.h\<close>, instruction by instruction, equal to the
  checksum of RFC 1071. \<open>Virt_Net\<close> has socket buffers, Ethernet headers and the reception of IPv4 as far as the driver
  \<^verbatim>\<open>virt_net.c\<close> meets them: every packet sent comes back once, is accepted, and goes from its destination to its source.

  \<^bold>\<open>Not modelled.\<close> Linux, U-Boot and BusyBox are vendored sources; of Linux only the functions named above are
  modelled, because the boot loader and the drivers rest on them. The assembly (\<^verbatim>\<open>start.S\<close>, \<^verbatim>\<open>lib1funcs.S\<close>) is outside the C code that is translated;
  \<open>irq_entry\<close> and the addresses from the linker script stand for what the C code sees of it. The glyph tables are data and
  are arguments. The \<^verbatim>\<open>*_test.c\<close> files are endless demonstrations of the modelled operations. The directories of
  earlier lessons are older snapshots of the modelled files. The other kernel modules of \<^verbatim>\<open>drivers_and_test\<close> and
  \<^verbatim>\<open>friendlyArm\<close> are earlier steps of the modelled ones or registrations with frameworks of the kernel; of the modelled ones
  the registration is left out, and the clock of \<open>Buttons\<close> does not wrap. Caches, bus timing and the clock set-up have no
  model; times are those of the timer that the code reads.
\<close>

end
